(* ===== verification/AdPrelude.thy ===== *)
theory AdPrelude
  imports Main "HOL-Library.Word"
begin

text \<open>
  Shared vocabulary of the development: names for the machine integers and byte
  strings of the program, the collections of rewrite rules the component
  theories extend, and generic lemmas on lists and words.
\<close>

unbundle bit_operations_syntax

section \<open>Types\<close>

type_synonym byte = "8 word"
type_synonym u32 = "32 word"
type_synonym u64 = "64 word"
type_synonym bytes = "byte list"

text \<open>\<open>int32\<close> and \<open>int64\<close> fields are kept as words of their width; \<^term>\<open>sint\<close>
  reads them as the signed value.\<close>

type_synonym i32 = "32 word"
type_synonym i64 = "64 word"

section \<open>Collections\<close>

named_theorems wire_simps \<open>evaluation rules of the wire-format layer\<close>
named_theorems wire_intros \<open>length and progress rules of the wire-format layer\<close>
named_theorems session_simps \<open>field updates of the session operations\<close>
named_theorems player_simps \<open>frame rules of the player operations\<close>
named_theorems manager_simps \<open>frame rules of the manager operations\<close>

section \<open>Lists\<close>

text \<open>C's \<open>memcpy (dest + off, src, n)\<close> on a fixed array.\<close>

definition memcpy_at :: "nat \<Rightarrow> 'a list \<Rightarrow> nat \<Rightarrow> 'a list \<Rightarrow> 'a list" where
  "memcpy_at off src n dest = take off dest @ take n src @ drop (off + n) dest"

lemma length_memcpy_at [simp]:
  "n \<le> length src \<Longrightarrow> off + n \<le> length dest \<Longrightarrow> length (memcpy_at off src n dest) = length dest"
  by (simp add: memcpy_at_def)

lemma take_memcpy_at:
  "n \<le> length src \<Longrightarrow> off + n \<le> length dest \<Longrightarrow>
     take (off + n) (memcpy_at off src n dest) = take off dest @ take n src"
  by (simp add: memcpy_at_def)

lemma mod_eq_self_minus_div: "(n::nat) mod k = n - k * (n div k)"
  by (simp add: minus_mult_div_eq_mod)

section \<open>Words\<close>

lemma unat_u32_bound: "unat (w :: u32) < 4294967296"
  using unsigned_less [of w] by simp

lemma unat_of_nat_u32: "n < 4294967296 \<Longrightarrow> unat (of_nat n :: u32) = n"
  by (simp add: unat_of_nat take_bit_eq_mod)

lemma unat_of_nat_byte: "n < 256 \<Longrightarrow> unat (of_nat n :: byte) = n"
  by (simp add: unat_of_nat take_bit_eq_mod)

lemma unat_drop: "unat (drop_bit n w) = unat w div 2 ^ n" for w :: "'a::len word"
  using unat_drop_bit_eq [of n w] by (simp only: drop_bit_eq_div [where 'a = nat])

lemma unat_drop_7: "128 \<le> unat w \<Longrightarrow> unat (drop_bit 7 w) < unat w" for w :: "'a::len word"
  unfolding unat_drop by simp

text \<open>Setting a bit above a truncated value is an addition.\<close>

lemma take_bit_or_exp: "take_bit (Suc m) (n OR 2 ^ m) = take_bit m n + 2 ^ m" for n :: nat
proof -
  have "take_bit (Suc m) (n OR 2 ^ m) = take_bit m n OR 2 ^ m"
    by (rule bit_eqI) (auto simp: bit_simps less_Suc_eq)
  also have "\<dots> = take_bit m n + 2 ^ m"
    by (rule disjunctive_add [symmetric]) (auto simp: bit_simps)
  finally show ?thesis .
qed

lemma or_128_nat: "(n OR 128) mod 256 = 128 + n mod (128 :: nat)"
  using take_bit_or_exp [of 7 n] by (simp add: take_bit_eq_mod)

lemma byte_or_128: "(of_nat (n OR 128) :: byte) = of_nat (128 + n mod 128)"
  by (simp add: word_of_nat_eq_iff take_bit_eq_mod or_128_nat del: of_nat_add)

lemma unat_ucast_up:
  fixes w :: "'a::len word"
  shows "LENGTH('a) \<le> LENGTH('b) \<Longrightarrow> unat (ucast w :: 'b::len word) = unat w"
  by (simp add: unsigned_ucast_eq take_bit_nat_eq_self_iff order_less_le_trans [OF unsigned_less])

lemma sint_small:
  fixes w :: "'a::len word"
  assumes "unat w < 2 ^ (LENGTH('a) - 1)"
  shows "sint w = int (unat w)"
proof -
  have "int (unat w) < int (2 ^ (LENGTH('a) - 1))" using assms by (simp only: of_nat_less_iff)
  then have "uint w < 2 ^ (LENGTH('a) - 1)" by simp
  moreover have "- (2 ^ (LENGTH('a) - 1)) \<le> uint w" by (rule order_trans [of _ 0]) simp_all
  ultimately show ?thesis by (simp add: sint_uint signed_take_bit_int_eq_self)
qed

lemma sint_ucast_u32 [simp]: "0 \<le> sint (ucast (x :: u32) :: i64)"
  by (subst sint_small) (simp_all add: unat_ucast_up order_less_trans [OF unat_u32_bound])

lemma ucast_ucast_u32 [simp]: "ucast (ucast (x :: u32) :: i64) = x"
  by transfer simp

lemma byte_msb: "(0x80 \<le> (b :: byte)) = bit b 7"
proof -
  have "unat b < 2 ^ 8" using unsigned_less [of b] by simp
  then have "odd (unat b div 2 ^ 7) = (128 \<le> unat b)"
    by (cases "unat b < 128") (auto simp: div_if)
  moreover have "bit b 7 = odd (unat b div 2 ^ 7)"
    using bit_iff_odd [of "unat b" 7] by (simp add: bit_unsigned_iff)
  ultimately show ?thesis by (simp add: word_le_nat_alt)
qed

lemma byte_pos: "(0 < sint (b :: byte)) = (b \<noteq> 0 \<and> b < 0x80)"
proof (cases "b < 0x80")
  case True
  then have "unat b < 2 ^ 7" by (simp add: word_less_nat_alt)
  then have "sint b = int (unat b)" by (intro sint_small) simp
  moreover have "(0 < int (unat b)) = (b \<noteq> 0)" by (simp only: of_nat_0_less_iff unat_gt_0)
  ultimately show ?thesis using True by (simp only:) simp
next
  case False
  then have "bit b 7" using byte_msb [of b] by (simp add: not_less)
  then have "sint b < 0" by (simp add: sint_uint signed_take_bit_negative_iff bit_uint_iff)
  then show ?thesis using False by simp
qed

lemma two_byte_bits:
  assumes "128 \<le> unat b0" "unat b1 < 128"
  shows "0x80 \<le> (b0 AND NOT b1 :: byte)"
proof -
  have "bit b0 7" using assms(1) byte_msb [of b0] by (simp add: word_le_nat_alt)
  moreover have "\<not> bit b1 7" using assms(2) byte_msb [of b1] by (simp add: word_le_nat_alt)
  ultimately show ?thesis unfolding byte_msb by (simp add: bit_simps)
qed

text \<open>Sign extension of an \<open>int32\<close> to 64 bits.\<close>

lemma uint_scast_i32:
  fixes v :: i32
  shows "uint (scast v :: u64) = sint v mod 2 ^ 64"
  by (simp only: scast_eq uint_word_of_int) simp

lemma sint_i32_bounds: "- (2 ^ 31) \<le> sint (v :: i32)" "sint (v :: i32) < 2 ^ 31"
  using sint_ge [of v] sint_lt [of v] by simp_all

lemma unat_scast_neg:
  assumes "sint (v :: i32) < 0"
  shows "2 ^ 63 \<le> unat (scast v :: u64)"
proof -
  have "(sint v + 2 ^ 64) mod 2 ^ 64 = sint v + 2 ^ 64"
    using assms sint_i32_bounds(1) [of v] by (intro mod_pos_pos_trivial) simp_all
  then have "uint (scast v :: u64) = sint v + 2 ^ 64"
    unfolding uint_scast_i32 by simp
  then have "2 ^ 63 \<le> uint (scast v :: u64)" using sint_i32_bounds(1) [of v] by simp
  then have "nat (2 ^ 63) \<le> nat (uint (scast v :: u64))" by (rule nat_mono)
  then show ?thesis by (simp only: flip: unat_eq_nat_uint) simp
qed

lemma unat_scast_nonneg:
  assumes "\<not> sint (v :: i32) < 0"
  shows "unat (scast v :: u64) = unat v"
proof -
  have "uint v = sint v mod 2 ^ 32" by (simp add: uint_sint take_bit_eq_mod)
  also have "\<dots> = sint v mod 2 ^ 64" using assms sint_i32_bounds(2) [of v] by simp
  finally have "uint (scast v :: u64) = uint v" by (simp only: uint_scast_i32)
  then show ?thesis by (simp only: unat_eq_nat_uint)
qed

section \<open>Invariants\<close>

text \<open>The interface between a component that runs in steps and what is claimed of its runs: an
  invariant that every step keeps holds in every state a run reaches.\<close>

locale stable =
  fixes step :: "'s \<Rightarrow> 's \<Rightarrow> bool" and inv :: "'s \<Rightarrow> bool"
  assumes keeps: "inv w \<Longrightarrow> step w w' \<Longrightarrow> inv w'"
begin

lemma reached:
  assumes "rtranclp step w w'" "inv w"
  shows "inv w'"
  using assms by (induction rule: rtranclp_induct) (auto intro: keeps)

end

end
