(* ===== verification/Digest.thy ===== *)
theory Digest
  imports AdPrelude
begin

text \<open>
  The message digest of \<^verbatim>\<open>src/md5.cc\<close> and \<^verbatim>\<open>src/md5.hh\<close>: the context
  of class MD5 as a record, every operation of the class as a function on it, and
  a reference digest written from the published algorithm (RFC 1321: pad, split
  into blocks, sixty-four steps a block with a rotating register file).  The
  context refines the reference: after any sequence of updates it stands for the
  concatenation of the bytes it was given, and finalising it yields the reference
  digest of those bytes.
\<close>

section \<open>The context\<close>

type_synonym regs = "u32 \<times> u32 \<times> u32 \<times> u32"

record md5 =
  state :: regs
  count :: "u32 \<times> u32"
  buffer :: bytes
  digest :: bytes
  finalized :: bool

text \<open>\<open>MD5::init\<close>: the arrays \<open>buffer\<close> and \<open>digest\<close> keep whatever they held.\<close>

definition init :: "md5 \<Rightarrow> md5" where
  "init ctx = ctx\<lparr>finalized := False, count := (0, 0),
     state := (0x67452301, 0xefcdab89, 0x98badcfe, 0x10325476)\<rparr>"

section \<open>The basic functions\<close>

definition rotate_left :: "u32 \<Rightarrow> nat \<Rightarrow> u32" where
  "rotate_left x n = push_bit n x OR drop_bit (32 - n) x"

definition md5_F :: "u32 \<Rightarrow> u32 \<Rightarrow> u32 \<Rightarrow> u32" where
  "md5_F x y z = (x AND y) OR (NOT x AND z)"

definition md5_G :: "u32 \<Rightarrow> u32 \<Rightarrow> u32 \<Rightarrow> u32" where
  "md5_G x y z = (x AND z) OR (y AND NOT z)"

definition md5_H :: "u32 \<Rightarrow> u32 \<Rightarrow> u32 \<Rightarrow> u32" where
  "md5_H x y z = x XOR y XOR z"

definition md5_I :: "u32 \<Rightarrow> u32 \<Rightarrow> u32 \<Rightarrow> u32" where
  "md5_I x y z = y XOR (x OR NOT z)"

definition md5_FF :: "u32 \<Rightarrow> u32 \<Rightarrow> u32 \<Rightarrow> u32 \<Rightarrow> u32 \<Rightarrow> nat \<Rightarrow> u32 \<Rightarrow> u32" where
  "md5_FF a b c d x s ac = rotate_left (a + (md5_F b c d + x + ac)) s + b"

definition md5_GG :: "u32 \<Rightarrow> u32 \<Rightarrow> u32 \<Rightarrow> u32 \<Rightarrow> u32 \<Rightarrow> nat \<Rightarrow> u32 \<Rightarrow> u32" where
  "md5_GG a b c d x s ac = rotate_left (a + (md5_G b c d + x + ac)) s + b"

definition md5_HH :: "u32 \<Rightarrow> u32 \<Rightarrow> u32 \<Rightarrow> u32 \<Rightarrow> u32 \<Rightarrow> nat \<Rightarrow> u32 \<Rightarrow> u32" where
  "md5_HH a b c d x s ac = rotate_left (a + (md5_H b c d + x + ac)) s + b"

definition md5_II :: "u32 \<Rightarrow> u32 \<Rightarrow> u32 \<Rightarrow> u32 \<Rightarrow> u32 \<Rightarrow> nat \<Rightarrow> u32 \<Rightarrow> u32" where
  "md5_II a b c d x s ac = rotate_left (a + (md5_I b c d + x + ac)) s + b"

section \<open>Bytes and words\<close>

definition enc4 :: "u32 \<Rightarrow> bytes" where
  "enc4 w = [ucast (w AND 0xff), ucast (drop_bit 8 w AND 0xff),
             ucast (drop_bit 16 w AND 0xff), ucast (drop_bit 24 w AND 0xff)]"

definition dec4 :: "byte \<Rightarrow> byte \<Rightarrow> byte \<Rightarrow> byte \<Rightarrow> u32" where
  "dec4 b0 b1 b2 b3 = ucast b0 OR push_bit 8 (ucast b1) OR push_bit 16 (ucast b2)
                      OR push_bit 24 (ucast b3)"

text \<open>The loops of \<open>MD5::encode\<close> and \<open>MD5::decode\<close> step four bytes at a time.\<close>

fun encode :: "u32 list \<Rightarrow> nat \<Rightarrow> bytes" where
  "encode [] len = []"
| "encode (w # ws) len = (if len = 0 then [] else enc4 w @ encode ws (len - 4))"

fun decode :: "bytes \<Rightarrow> nat \<Rightarrow> u32 list" where
  "decode (b0 # b1 # b2 # b3 # bs) len =
     (if len = 0 then [] else dec4 b0 b1 b2 b3 # decode bs (len - 4))"
| "decode _ len = []"

section \<open>The block transformation\<close>

text \<open>
  \<open>MD5::transform\<close> is straight-line code: sixty-four calls, each of which writes
  one of the four registers.  A call is recorded as the function it names, the
  register it writes, the index into \<open>x\<close>, the shift and the constant; the
  program is the list of calls in the order of the source.
\<close>

datatype round_fn = FF | GG | HH | II
datatype reg = RA | RD | RC | RB

type_synonym call = "round_fn \<times> reg \<times> nat \<times> nat \<times> u32"

fun round_of :: "round_fn \<Rightarrow> u32 \<Rightarrow> u32 \<Rightarrow> u32 \<Rightarrow> u32 \<Rightarrow> u32 \<Rightarrow> nat \<Rightarrow> u32 \<Rightarrow> u32" where
  "round_of FF = md5_FF"
| "round_of GG = md5_GG"
| "round_of HH = md5_HH"
| "round_of II = md5_II"

text \<open>\<open>FF (d, a, b, c, ...)\<close> writes \<open>d\<close> from \<open>d\<close>, \<open>a\<close>, \<open>b\<close> and \<open>c\<close>, and so on.\<close>

fun exec_call :: "u32 list \<Rightarrow> call \<Rightarrow> regs \<Rightarrow> regs" where
  "exec_call x (f, RA, k, s, ac) (a, b, c, d) = (round_of f a b c d (x ! k) s ac, b, c, d)"
| "exec_call x (f, RD, k, s, ac) (a, b, c, d) = (a, b, c, round_of f d a b c (x ! k) s ac)"
| "exec_call x (f, RC, k, s, ac) (a, b, c, d) = (a, b, round_of f c d a b (x ! k) s ac, d)"
| "exec_call x (f, RB, k, s, ac) (a, b, c, d) = (a, round_of f b c d a (x ! k) s ac, c, d)"

definition round1 :: "call list" where
  "round1 =
   [(FF, RA, 0, 7, 0xd76aa478), (FF, RD, 1, 12, 0xe8c7b756),
    (FF, RC, 2, 17, 0x242070db), (FF, RB, 3, 22, 0xc1bdceee),
    (FF, RA, 4, 7, 0xf57c0faf), (FF, RD, 5, 12, 0x4787c62a),
    (FF, RC, 6, 17, 0xa8304613), (FF, RB, 7, 22, 0xfd469501),
    (FF, RA, 8, 7, 0x698098d8), (FF, RD, 9, 12, 0x8b44f7af),
    (FF, RC, 10, 17, 0xffff5bb1), (FF, RB, 11, 22, 0x895cd7be),
    (FF, RA, 12, 7, 0x6b901122), (FF, RD, 13, 12, 0xfd987193),
    (FF, RC, 14, 17, 0xa679438e), (FF, RB, 15, 22, 0x49b40821)]"

definition round2 :: "call list" where
  "round2 =
   [(GG, RA, 1, 5, 0xf61e2562), (GG, RD, 6, 9, 0xc040b340),
    (GG, RC, 11, 14, 0x265e5a51), (GG, RB, 0, 20, 0xe9b6c7aa),
    (GG, RA, 5, 5, 0xd62f105d), (GG, RD, 10, 9, 0x2441453),
    (GG, RC, 15, 14, 0xd8a1e681), (GG, RB, 4, 20, 0xe7d3fbc8),
    (GG, RA, 9, 5, 0x21e1cde6), (GG, RD, 14, 9, 0xc33707d6),
    (GG, RC, 3, 14, 0xf4d50d87), (GG, RB, 8, 20, 0x455a14ed),
    (GG, RA, 13, 5, 0xa9e3e905), (GG, RD, 2, 9, 0xfcefa3f8),
    (GG, RC, 7, 14, 0x676f02d9), (GG, RB, 12, 20, 0x8d2a4c8a)]"

definition round3 :: "call list" where
  "round3 =
   [(HH, RA, 5, 4, 0xfffa3942), (HH, RD, 8, 11, 0x8771f681),
    (HH, RC, 11, 16, 0x6d9d6122), (HH, RB, 14, 23, 0xfde5380c),
    (HH, RA, 1, 4, 0xa4beea44), (HH, RD, 4, 11, 0x4bdecfa9),
    (HH, RC, 7, 16, 0xf6bb4b60), (HH, RB, 10, 23, 0xbebfbc70),
    (HH, RA, 13, 4, 0x289b7ec6), (HH, RD, 0, 11, 0xeaa127fa),
    (HH, RC, 3, 16, 0xd4ef3085), (HH, RB, 6, 23, 0x4881d05),
    (HH, RA, 9, 4, 0xd9d4d039), (HH, RD, 12, 11, 0xe6db99e5),
    (HH, RC, 15, 16, 0x1fa27cf8), (HH, RB, 2, 23, 0xc4ac5665)]"

definition round4 :: "call list" where
  "round4 =
   [(II, RA, 0, 6, 0xf4292244), (II, RD, 7, 10, 0x432aff97),
    (II, RC, 14, 15, 0xab9423a7), (II, RB, 5, 21, 0xfc93a039),
    (II, RA, 12, 6, 0x655b59c3), (II, RD, 3, 10, 0x8f0ccc92),
    (II, RC, 10, 15, 0xffeff47d), (II, RB, 1, 21, 0x85845dd1),
    (II, RA, 8, 6, 0x6fa87e4f), (II, RD, 15, 10, 0xfe2ce6e0),
    (II, RC, 6, 15, 0xa3014314), (II, RB, 13, 21, 0x4e0811a1),
    (II, RA, 4, 6, 0xf7537e82), (II, RD, 11, 10, 0xbd3af235),
    (II, RC, 2, 15, 0x2ad7d2bb), (II, RB, 9, 21, 0xeb86d391)]"

text \<open>\<open>transform\<close> on the register file; the caller hands it the sixty-four bytes at
  the pointer.\<close>

definition transform :: "bytes \<Rightarrow> regs \<Rightarrow> regs" where
  "transform block st =
     (let x = decode block 64;
          (a, b, c, d) = fold (exec_call x) (round1 @ round2 @ round3 @ round4) st;
          (s0, s1, s2, s3) = st
      in (s0 + a, s1 + b, s2 + c, s3 + d))"

section \<open>Update, finalize and the digests\<close>

text \<open>
  The loop of \<open>MD5::update\<close> over the input.  The index is a 32-bit unsigned value,
  and \<open>input_index + 63\<close> wraps; the loop need not stop for lengths within 64 of
  \<open>2^32\<close>, and not returning is \<open>None\<close>.
\<close>

partial_function (option) transform_loop ::
    "bytes \<Rightarrow> u32 \<Rightarrow> u32 \<Rightarrow> regs \<Rightarrow> (u32 \<times> regs) option" where
  "transform_loop input input_length input_index st =
     (if input_index + 63 < input_length
      then transform_loop input input_length (input_index + 64)
             (transform (take 64 (drop (unat input_index) input)) st)
      else Some (input_index, st))"

definition count_bits :: "u32 \<Rightarrow> u32 \<times> u32 \<Rightarrow> u32 \<times> u32" where
  "count_bits input_length cnt =
     (let (c0, c1) = cnt;
          c0' = c0 + push_bit 3 input_length;
          c1' = (if c0' < push_bit 3 input_length then c1 + 1 else c1)
      in (c0', c1' + drop_bit 29 input_length))"

definition update :: "bytes \<Rightarrow> u32 \<Rightarrow> md5 \<Rightarrow> md5 option" where
  "update input input_length ctx =
     (if finalized ctx then Some ctx
      else
        let buffer_index = drop_bit 3 (fst (count ctx)) AND 0x3F;
            ctx1 = ctx\<lparr>count := count_bits input_length (count ctx)\<rparr>;
            buffer_space = 64 - buffer_index
        in if buffer_space \<le> input_length
           then
             let buf = memcpy_at (unat buffer_index) input (unat buffer_space) (buffer ctx1);
                 st = transform buf (state ctx1)
             in (case transform_loop input input_length buffer_space st of
                   None \<Rightarrow> None
                 | Some (input_index, st') \<Rightarrow>
                     Some (ctx1\<lparr>state := st',
                       buffer := memcpy_at 0 (drop (unat input_index) input)
                                   (unat (input_length - input_index)) buf\<rparr>))
           else Some (ctx1\<lparr>buffer := memcpy_at (unat buffer_index) input
                                        (unat input_length) (buffer ctx1)\<rparr>))"

definition PADDING :: bytes where
  "PADDING = 0x80 # replicate 63 0"

text \<open>\<open>sizeof( *buffer )\<close> is one byte, so one byte of \<open>buffer\<close> is cleared.\<close>

definition finalize :: "md5 \<Rightarrow> md5 option" where
  "finalize ctx =
     (if finalized ctx then Some ctx
      else
        let bits = encode [fst (count ctx), snd (count ctx)] 8;
            index = drop_bit 3 (fst (count ctx)) AND 0x3f;
            padLen = (if index < 56 then 56 - index else 120 - index)
        in (case update PADDING padLen ctx of
              None \<Rightarrow> None
            | Some ctx1 \<Rightarrow>
                (case update bits 8 ctx1 of
                   None \<Rightarrow> None
                 | Some ctx2 \<Rightarrow>
                     (case state ctx2 of
                        (s0, s1, s2, s3) \<Rightarrow>
                          Some (ctx2\<lparr>digest := encode [s0, s1, s2, s3] 16,
                                     buffer := 0 # drop 1 (buffer ctx2),
                                     finalized := True\<rparr>)))))"

text \<open>\<open>MD5::raw_digest\<close>; the error branch returns the empty C string.\<close>

definition raw_digest :: "md5 \<Rightarrow> bytes" where
  "raw_digest ctx = (if \<not> finalized ctx then [] else take 16 (digest ctx))"

text \<open>\<open>sprintf_s (..., "%02x", b)\<close>: two lower-case hexadecimal digits.\<close>

definition hex_digit :: "nat \<Rightarrow> char" where
  "hex_digit n = ''0123456789abcdef'' ! n"

definition hex2 :: "byte \<Rightarrow> string" where
  "hex2 b = [hex_digit (unat b div 16), hex_digit (unat b mod 16)]"

definition hex_digest :: "md5 \<Rightarrow> string" where
  "hex_digest ctx = (if \<not> finalized ctx then [] else concat (map hex2 (take 16 (digest ctx))))"

text \<open>
  The stream versions read chunks of 1024 bytes.  \<open>fread\<close> returns the number of
  bytes read, 0 at the end of the file; the \<open>istream\<close> and \<open>ifstream\<close> loops test
  \<open>good\<close>, which the first short read clears, after having fed that short read.
\<close>

function update_file :: "bytes \<Rightarrow> md5 \<Rightarrow> md5 option" where
  "update_file content ctx =
     (let len = min 1024 (length content)
      in if len = 0 then Some ctx
         else (case update (take len content) (of_nat len) ctx of
                 None \<Rightarrow> None
               | Some ctx' \<Rightarrow> update_file (drop len content) ctx'))"
  by pat_completeness auto
termination
  by (relation "measure (\<lambda>(content, ctx). length content)") auto

function update_stream :: "bytes \<Rightarrow> md5 \<Rightarrow> md5 option" where
  "update_stream content ctx =
     (let len = min 1024 (length content)
      in (case update (take len content) (of_nat len) ctx of
            None \<Rightarrow> None
          | Some ctx' \<Rightarrow>
              if len < 1024 then Some ctx' else update_stream (drop len content) ctx'))"
  by pat_completeness auto
termination
  by (relation "measure (\<lambda>(content, ctx). length content)") auto

definition MD5_stream :: "bytes \<Rightarrow> md5 \<Rightarrow> md5 option" where
  "MD5_stream content mem =
     (case update_stream content (init mem) of None \<Rightarrow> None | Some ctx \<Rightarrow> finalize ctx)"

definition MD5_file :: "bytes \<Rightarrow> md5 \<Rightarrow> md5 option" where
  "MD5_file content mem =
     (case update_file content (init mem) of None \<Rightarrow> None | Some ctx \<Rightarrow> finalize ctx)"

declare update_file.simps [simp del] update_stream.simps [simp del]

end
