(* ===== verification/DigestBlock.thy ===== *)
theory DigestBlock
  imports Digest
begin

text \<open>
  The block transformation of \<^verbatim>\<open>src/md5.cc\<close> against a reference written
  from RFC 1321.  \<open>spec_step\<close> is one step of the algorithm on a rotating register
  file, with the shift, message-word and constant schedules as functions of the
  step number; \<open>spec_block\<close> is the sixty-four steps and the final additions.  The
  code's straight-line program writes a fixed register in each call, so the two
  are related by \<open>rot_view\<close>, the rotation that a step number stands for:
  \<open>one_call\<close> is the simulation of one call and \<open>transform_eq_spec\<close> the
  equivalence of the two block functions.
\<close>

section \<open>The reference digest\<close>

fun full_blocks :: "bytes \<Rightarrow> bytes list" where
  "full_blocks xs = (if length xs < 64 then [] else take 64 xs # full_blocks (drop 64 xs))"

declare full_blocks.simps [simp del]

definition blk_tail :: "bytes \<Rightarrow> bytes" where
  "blk_tail xs = drop (64 * (length xs div 64)) xs"

definition spec_K :: "u32 list" where
  "spec_K = [
   0xd76aa478, 0xe8c7b756, 0x242070db, 0xc1bdceee, 0xf57c0faf, 0x4787c62a, 0xa8304613, 0xfd469501,
   0x698098d8, 0x8b44f7af, 0xffff5bb1, 0x895cd7be, 0x6b901122, 0xfd987193, 0xa679438e, 0x49b40821,
   0xf61e2562, 0xc040b340, 0x265e5a51, 0xe9b6c7aa, 0xd62f105d, 0x02441453, 0xd8a1e681, 0xe7d3fbc8,
   0x21e1cde6, 0xc33707d6, 0xf4d50d87, 0x455a14ed, 0xa9e3e905, 0xfcefa3f8, 0x676f02d9, 0x8d2a4c8a,
   0xfffa3942, 0x8771f681, 0x6d9d6122, 0xfde5380c, 0xa4beea44, 0x4bdecfa9, 0xf6bb4b60, 0xbebfbc70,
   0x289b7ec6, 0xeaa127fa, 0xd4ef3085, 0x04881d05, 0xd9d4d039, 0xe6db99e5, 0x1fa27cf8, 0xc4ac5665,
   0xf4292244, 0x432aff97, 0xab9423a7, 0xfc93a039, 0x655b59c3, 0x8f0ccc92, 0xffeff47d, 0x85845dd1,
   0x6fa87e4f, 0xfe2ce6e0, 0xa3014314, 0x4e0811a1, 0xf7537e82, 0xbd3af235, 0x2ad7d2bb, 0xeb86d391]"

definition spec_shift :: "nat \<Rightarrow> nat" where
  "spec_shift i = [[7, 12, 17, 22], [5, 9, 14, 20], [4, 11, 16, 23], [6, 10, 15, 21]]
                    ! (i div 16) ! (i mod 4)"

definition spec_index :: "nat \<Rightarrow> nat" where
  "spec_index i = [i, 5 * i + 1, 3 * i + 5, 7 * i] ! (i div 16) mod 16"

definition spec_fun :: "nat \<Rightarrow> u32 \<Rightarrow> u32 \<Rightarrow> u32 \<Rightarrow> u32" where
  "spec_fun i b c d =
     (if i < 16 then (b AND c) OR (NOT b AND d)
      else if i < 32 then (d AND b) OR (NOT d AND c)
      else if i < 48 then b XOR c XOR d
      else c XOR (b OR NOT d))"

fun spec_step :: "u32 list \<Rightarrow> nat \<Rightarrow> regs \<Rightarrow> regs" where
  "spec_step x i (a, b, c, d) =
     (d, b + word_rotl (spec_shift i) (a + spec_fun i b c d + spec_K ! i + x ! spec_index i), b, c)"

definition le_word :: "bytes \<Rightarrow> u32" where
  "le_word bs = ucast (bs ! 0) + 2 ^ 8 * ucast (bs ! 1) + 2 ^ 16 * ucast (bs ! 2) + 2 ^ 24 * ucast (bs ! 3)"

definition spec_block :: "bytes \<Rightarrow> regs \<Rightarrow> regs" where
  "spec_block block st =
     (let x = map (\<lambda>k. le_word (take 4 (drop (4 * k) block))) [0..<16];
          (a, b, c, d) = fold (spec_step x) [0..<64] st;
          (s0, s1, s2, s3) = st
      in (s0 + a, s1 + b, s2 + c, s3 + d))"


lemma rotate_left_eq: "n < 32 \<Longrightarrow> rotate_left x n = word_rotl n x"
proof (rule bit_word_eqI)
  fix k :: nat
  assume n: "n < 32" and "k < LENGTH(32)"
  then have k: "k < 32" by simp
  have rot: "bit (word_rotl n x) k = bit x ((k + (32 - n)) mod 32)"
    using n k by (simp add: bit_word_rotl_iff)
  have left: "bit (rotate_left x n) k = (n \<le> k \<and> bit x (k - n) \<or> bit x (32 - n + k))"
    using k by (simp add: rotate_left_def bit_or_iff bit_push_bit_iff bit_drop_bit_eq)
  have none: "\<not> bit x m" if "32 \<le> m" for m
    using that bit_imp_le_length [of x m] by auto
  show "bit (rotate_left x n) k = bit (word_rotl n x) k"
  proof (cases "n \<le> k")
    case True
    moreover have "(k + (32 - n)) mod 32 = k - n" using True n k by (simp add: mod_if)
    moreover have "32 \<le> 32 - n + k" using True n by simp
    ultimately show ?thesis unfolding rot left by (simp only: none) simp
  next
    case False
    then have "(k + (32 - n)) mod 32 = 32 - n + k"
      using n k by (simp only: add.commute [of k] mod_less)
    with False show ?thesis unfolding rot left by (simp only:) simp
  qed
qed

lemma spec_fun_G: "(x AND z) OR (y AND NOT z) = (z AND x) OR (NOT z AND (y::u32))"
  by (simp add: ac_simps)


lemma or_shift_eq_add:
  fixes a :: u32
  assumes "\<And>k. bit a k \<Longrightarrow> k < n"
  shows "a OR push_bit n b = a + 2 ^ n * b"
proof -
  have "a AND push_bit n b = 0"
    by (rule bit_word_eqI) (auto simp: bit_simps dest: assms)
  then have "a + push_bit n b = a OR push_bit n b"
    by (rule disjunctive_add_eq_or)
  then show ?thesis by (simp add: push_bit_eq_mult mult.commute)
qed

lemma dec4_le: "dec4 b0 b1 b2 b3 = le_word [b0, b1, b2, b3]"
proof -
  let ?x = "ucast b0 :: u32" and ?y = "push_bit 8 (ucast b1) :: u32" and ?z = "push_bit 16 (ucast b2) :: u32"
  have "dec4 b0 b1 b2 b3 = ((?x OR ?y) OR ?z) OR push_bit 24 (ucast b3)"
    by (simp add: dec4_def ac_simps)
  also have "\<dots> = ((?x OR ?y) OR ?z) + 2 ^ 24 * ucast b3"
    by (rule or_shift_eq_add) (auto simp: bit_simps dest: bit_imp_le_length)
  also have "(?x OR ?y) OR ?z = (?x OR ?y) + 2 ^ 16 * ucast b2"
    by (rule or_shift_eq_add) (auto simp: bit_simps dest: bit_imp_le_length)
  also have "?x OR ?y = ?x + 2 ^ 8 * ucast b1"
    by (rule or_shift_eq_add) (auto simp: bit_simps dest: bit_imp_le_length)
  finally show ?thesis by (simp add: le_word_def)
qed

lemma enc4_eq: "enc4 w = [ucast w, ucast (drop_bit 8 w), ucast (drop_bit 16 w), ucast (drop_bit 24 w)]"
proof -
  have m: "(0xff :: u32) = mask 8" by (simp add: mask_eq_exp_minus_1)
  have e: "ucast (v AND mask 8) = (ucast v :: byte)" for v :: u32
    by (rule bit_word_eqI) (auto simp: bit_simps)
  show ?thesis
    unfolding enc4_def m by (simp only: e)
qed


lemma dec4_enc4: "dec4 (ucast w) (ucast (drop_bit 8 w)) (ucast (drop_bit 16 w)) (ucast (drop_bit 24 w)) = w"
proof (rule bit_word_eqI)
  fix n :: nat
  assume "n < LENGTH(32)"
  then consider "n < 8" | "8 \<le> n" "n < 16" | "16 \<le> n" "n < 24" | "24 \<le> n" "n < 32"
    by fastforce
  then show "bit (dec4 (ucast w) (ucast (drop_bit 8 w)) (ucast (drop_bit 16 w)) (ucast (drop_bit 24 w))) n
              = bit w n"
    by cases (auto simp: dec4_def bit_simps)
qed

lemma decode_encode_word: "decode (enc4 w @ bs) (4 + n) = w # decode bs n"
  by (simp add: enc4_eq dec4_enc4)

lemma decode_encode_words: "decode (encode ws (4 * length ws)) (4 * length ws) = ws"
  by (induction ws) (simp_all add: decode_encode_word)


section \<open>transform is the reference transformation\<close>

lemma decode_eq_map:
  "length bs = 4 * n \<Longrightarrow> decode bs (4 * n) = map (\<lambda>k. le_word (take 4 (drop (4 * k) bs))) [0..<n]"
proof (induction n arbitrary: bs)
  case 0
  then show ?case by simp
next
  case (Suc n)
  then obtain b0 b1 b2 b3 bs' where bs: "bs = b0 # b1 # b2 # b3 # bs'"
    by (auto simp: length_Suc_conv numeral_eq_Suc)
  with Suc.prems have "length bs' = 4 * n" by simp
  then have "decode bs' (4 * n) = map (\<lambda>k. le_word (take 4 (drop (4 * k) bs'))) [0..<n]"
    by (rule Suc.IH)
  then show ?case
    by (simp add: bs dec4_le map_upt_Suc numeral_eq_Suc del: upt_Suc)
qed



definition spec_fn_of :: "round_fn \<Rightarrow> nat" where
  "spec_fn_of f = (case f of FF \<Rightarrow> 0 | GG \<Rightarrow> 1 | HH \<Rightarrow> 2 | II \<Rightarrow> 3)"

lemma round_of_spec:
  assumes "i div 16 = spec_fn_of f" "s < 32"
  shows "round_of f a b c d xk s ac = b + word_rotl s (a + spec_fun i b c d + ac + xk)"
proof -
  have "i < 16 \<longleftrightarrow> i div 16 = 0" "i < 32 \<longleftrightarrow> i div 16 < 2" "i < 48 \<longleftrightarrow> i div 16 < 3" by auto
  then show ?thesis using assms
    by (cases f) (simp_all add: md5_FF_def md5_GG_def md5_HH_def md5_II_def rotate_left_eq spec_fun_def
        md5_F_def md5_G_def md5_H_def md5_I_def spec_fn_of_def ac_simps)
qed

definition call_ok :: "nat \<Rightarrow> call \<Rightarrow> bool" where
  "call_ok i cl = (case cl of (f, r, k, s, ac) \<Rightarrow>
     i div 16 = spec_fn_of f \<and> r = [RA, RD, RC, RB] ! (i mod 4) \<and> k = spec_index i \<and>
     s = spec_shift i \<and> s < 32 \<and> ac = spec_K ! i)"

lemma program_ok: "list_all2 call_ok [0..<64] (round1 @ round2 @ round3 @ round4)"
proof -
  have u: "[0..<64] = [0..<16] @ [16..<32] @ [32..<48] @ [48..<64]"
    using upt_add_eq_append [of 0 16 48] upt_add_eq_append [of 16 32 32] upt_add_eq_append [of 32 48 16]
    by (simp del: upt_rec_numeral)
  have 1: "list_all2 call_ok [0..<16] round1"
    by code_simp
  have 2: "list_all2 call_ok [16..<32] round2" by code_simp
  have 3: "list_all2 call_ok [32..<48] round3" by code_simp
  have 4: "list_all2 call_ok [48..<64] round4" by code_simp
  show ?thesis unfolding u by (intro list_all2_appendI 1 2 3 4)
qed

text \<open>The code renames registers where the reference rotates them: after \<open>i\<close> calls the
  reference's register file is the code's, rotated \<open>i\<close> places.\<close>

fun rot_view :: "nat \<Rightarrow> regs \<Rightarrow> regs" where
  "rot_view i (a, b, c, d) =
     [(a, b, c, d), (d, a, b, c), (c, d, a, b), (b, c, d, a)] ! (i mod 4)"

lemma one_call:
  assumes "call_ok i cl"
  shows "rot_view (Suc i) (exec_call x cl st) = spec_step x i (rot_view i st)"
proof -
  obtain f r k s ac where cl: "cl = (f, r, k, s, ac)" by (cases cl)
  obtain a b c d where st: "st = (a, b, c, d)" by (cases st)
  have ok: "i div 16 = spec_fn_of f" "s < 32" and r: "r = [RA, RD, RC, RB] ! (i mod 4)"
    and eqs: "spec_index i = k" "spec_shift i = s" "spec_K ! i = ac"
    using assms by (auto simp: cl call_ok_def)
  have "i mod 4 < 4" by simp
  then consider "i mod 4 = 0" | "i mod 4 = 1" | "i mod 4 = 2" | "i mod 4 = 3"
    by linarith
  then show ?thesis
    by cases (simp_all add: cl st r eqs round_of_spec [OF ok] mod_Suc)
qed

lemma fold_calls:
  "list_all2 call_ok [i..<j] cs \<Longrightarrow> i \<le> j \<Longrightarrow>
     rot_view j (fold (exec_call x) cs st) = fold (spec_step x) [i..<j] (rot_view i st)"
proof (induction "[i..<j]" cs arbitrary: i st rule: list_all2_induct)
  case Nil
  then have "i = j" by (metis le_antisym upt_eq_Nil_conv linorder_not_le order_less_imp_le le_0_eq)
  then show ?case by simp
next
  case (Cons k ks cl cs)
  then have "i < j" by (metis list.distinct(1) upt_conv_Nil linorder_not_le)
  then have k: "k = i" "ks = [Suc i..<j]"
    using Cons.hyps(4) by (simp_all add: upt_conv_Cons)
  with Cons.hyps(3) \<open>i < j\<close> Cons.hyps(1) show ?case
    by (simp add: upt_conv_Cons one_call del: rot_view.simps)
qed

lemma rot_view_id: "i mod 4 = 0 \<Longrightarrow> rot_view i st = st"
  by (cases st) simp

lemma calls_eq_steps:
  "fold (exec_call x) (round1 @ round2 @ round3 @ round4) st = fold (spec_step x) [0..<64] st"
  using fold_calls [OF program_ok, of x st] by (simp add: rot_view_id del: upt_rec_numeral fold_append)

lemma transform_eq_spec:
  "length block = 64 \<Longrightarrow> transform block st = spec_block block st"
  using decode_eq_map [of block 16]
  by (simp add: transform_def spec_block_def calls_eq_steps Let_def del: upt_rec_numeral fold_append)

end
