(* ===== verification/DigestStream.thy ===== *)
theory DigestStream
  imports DigestBlock
begin

text \<open>
  The incremental digest.  \<open>md5_spec\<close> is the reference digest of a whole byte
  string (pad, split, fold the blocks).  \<open>absorbs ctx msg\<close> says that the context
  stands for the byte string \<open>msg\<close>: its bit counter, its register file and the
  partial block in its buffer are those of \<open>msg\<close>.  Every operation of the class
  keeps the relation: \<open>init\<close> absorbs nothing, \<open>update\<close> appends its input,
  \<open>finalize\<close> yields the reference digest, and the stream constructors yield the
  digest of the stream's content.
\<close>

section \<open>Padding and the reference digest\<close>

definition le64 :: "nat \<Rightarrow> bytes" where
  "le64 n = map (\<lambda>k. of_nat (n div 256 ^ k)) [0..<8]"

definition md5_pad :: "bytes \<Rightarrow> bytes" where
  "md5_pad msg =
     (let r = length msg mod 64
      in msg @ 0x80 # replicate ((if r < 56 then 55 else 119) - r) 0 @ le64 (8 * length msg))"

definition init_regs :: regs where
  "init_regs = (0x67452301, 0xefcdab89, 0x98badcfe, 0x10325476)"

definition spec_run :: "bytes \<Rightarrow> regs \<Rightarrow> regs" where
  "spec_run msg st = fold spec_block (full_blocks msg) st"

definition md5_spec :: "bytes \<Rightarrow> bytes" where
  "md5_spec msg =
     (case spec_run (md5_pad msg) init_regs of
        (a, b, c, d) \<Rightarrow> concat (map (\<lambda>w. map (\<lambda>k. ucast (drop_bit (8 * k) w)) [0..<4]) [a, b, c, d]))"

lemma full_blocks_Nil [simp]: "length xs < 64 \<Longrightarrow> full_blocks xs = []"
  by (simp add: full_blocks.simps)

lemma full_blocks_block: "length b = 64 \<Longrightarrow> full_blocks (b @ xs) = b # full_blocks xs"
  by (subst full_blocks.simps) simp

lemma blk_tail_length [simp]: "length (blk_tail xs) = length xs mod 64"
  by (simp add: blk_tail_def mod_eq_self_minus_div)

lemma blk_tail_block: "length b = 64 \<Longrightarrow> blk_tail (b @ xs) = blk_tail xs"
proof -
  have "64 * ((64 + n) div 64) = 64 + 64 * (n div 64)" for n :: nat
    using div_add_self1 [of 64 n] by simp
  moreover assume "length b = 64"
  ultimately show ?thesis by (simp only: blk_tail_def length_append) simp
qed

lemma blk_tail_small [simp]: "length xs < 64 \<Longrightarrow> blk_tail xs = xs"
  by (simp add: blk_tail_def)

lemma block_cases:
  obtains "length (xs :: bytes) < 64" | b ys where "xs = b @ ys" "length b = 64"
  by (metis append_take_drop_id length_take linorder_not_le min.absorb2)

lemma blk_induct [case_names small block]:
  assumes "\<And>xs :: bytes. length xs < 64 \<Longrightarrow> P xs"
    and "\<And>b xs. length b = 64 \<Longrightarrow> P xs \<Longrightarrow> P (b @ xs)"
  shows "P xs"
proof (induction xs rule: length_induct)
  case (1 xs)
  show ?case
    by (rule block_cases [of xs]) (use 1 assms in auto)
qed

lemma spec_run_append: "spec_run (xs @ ys) st = spec_run (blk_tail xs @ ys) (spec_run xs st)"
  by (induction xs arbitrary: st rule: blk_induct)
     (simp_all add: spec_run_def full_blocks_block blk_tail_block)

lemma blk_tail_append: "blk_tail (xs @ ys) = blk_tail (blk_tail xs @ ys)"
  by (induction xs rule: blk_induct) (simp_all add: blk_tail_block)

section \<open>Counting\<close>

definition cnt64 :: "u32 \<times> u32 \<Rightarrow> nat" where
  "cnt64 c = unat (fst c) + 2 ^ 32 * unat (snd c)"

lemma unat_push3: "unat (push_bit 3 (l :: u32)) = (8 * unat l) mod 2 ^ 32"
  by (simp add: push_bit_eq_mult unat_word_ariths mult.commute)

lemma mod_two_limbs:
  fixes r u m :: nat
  assumes "r < m"
  shows "(r + m * u) mod (m * m) = r + m * (u mod m)"
  using assms mod_mult2_eq [of "r + m * u" m m] by simp

lemma carry_arith:
  fixes x y p z m :: nat
  assumes "x < m" "p < m"
  shows "(x + p) mod m + m * ((y + (if m \<le> x + p then 1 else 0) + z) mod m)
     = (x + m * y + (p + m * z)) mod (m * m)"
proof -
  define k where "k = (if m \<le> x + p then 1 else 0 :: nat)"
  have lo: "x + p = (x + p) mod m + m * k"
  proof (cases "m \<le> x + p")
    case True
    have "(x + p) mod m = (x + p - m) mod m"
      using True by (rule le_mod_geq)
    moreover have "x + p - m < m" using assms by linarith
    ultimately show ?thesis using True by (simp add: k_def)
  next
    case False
    then show ?thesis by (simp add: k_def)
  qed
  have "x + m * y + (p + m * z) = (x + p) + m * (y + z)"
    by (simp add: algebra_simps)
  also have "\<dots> = (x + p) mod m + m * (y + k + z)"
    by (subst lo) (simp add: algebra_simps)
  finally show ?thesis
    unfolding k_def [symmetric] using assms by (simp add: mod_two_limbs)
qed

lemma cnt64_count_bits: "cnt64 (count_bits l c) = (cnt64 c + 8 * unat l) mod 2 ^ 64"
proof -
  obtain c0 c1 where c: "c = (c0, c1)" by (cases c)
  define x y p z where "x = unat c0" and "y = unat c1" and "p = unat (push_bit 3 l)" and "z = unat (drop_bit 29 l)"
  have pz: "8 * unat l = p + 2 ^ 32 * z"
    unfolding p_def z_def unat_push3 unat_drop_bit_eq
    using div_mult2_eq [of "8 * unat l" 8 "2 ^ 29"] mod_mult_div_eq [of "8 * unat l" "2 ^ 32"]
    by (simp add: drop_bit_eq_div)
  have b: "x < 2 ^ 32" "p < 2 ^ 32"
    using unat_u32_bound [of c0] unat_u32_bound [of "push_bit 3 l"] by (auto simp: x_def p_def)
  have s: "unat (c0 + push_bit 3 l) = (x + p) mod 2 ^ 32"
    by (simp add: unat_word_ariths x_def p_def)
  have carry: "(c0 + push_bit 3 l < push_bit 3 l) = (2 ^ 32 \<le> x + p)"
  proof (cases "2 ^ 32 \<le> x + p")
    case True
    have "(x + p) mod 2 ^ 32 = (x + p - 2 ^ 32) mod 2 ^ 32"
      using True by (rule le_mod_geq)
    also have "\<dots> = x + p - 2 ^ 32" using b by (intro mod_less) linarith
    also have "\<dots> < p" using b True by linarith
    finally show ?thesis using True by (simp only: word_less_nat_alt s p_def)
  next
    case False
    then show ?thesis by (simp add: word_less_nat_alt s p_def [symmetric])
  qed
  have hi: "unat ((if 2 ^ 32 \<le> x + p then c1 + 1 else c1) + drop_bit 29 l)
      = (y + (if 2 ^ 32 \<le> x + p then 1 else 0) + z) mod 2 ^ 32"
    by (simp add: unat_word_ariths y_def z_def mod_simps)
  have "cnt64 (count_bits l c)
      = (x + p) mod 2 ^ 32 + 2 ^ 32 * ((y + (if 2 ^ 32 \<le> x + p then 1 else 0) + z) mod 2 ^ 32)"
    unfolding cnt64_def count_bits_def Let_def c prod.case fst_conv snd_conv carry s hi ..
  also have "\<dots> = (x + 2 ^ 32 * y + (p + 2 ^ 32 * z)) mod (2 ^ 32 * 2 ^ 32)"
    by (rule carry_arith [OF b])
  also have "x + 2 ^ 32 * y + (p + 2 ^ 32 * z) = cnt64 c + 8 * unat l"
    unfolding pz by (simp add: c cnt64_def x_def y_def)
  finally show ?thesis by simp
qed

lemma buffer_index: "unat (drop_bit 3 (fst c) AND 0x3F :: u32) = (cnt64 c div 8) mod 64"
proof -
  have m: "(0x3F :: u32) = mask 6" by (simp add: mask_eq_exp_minus_1)
  have "unat (drop_bit 3 (fst c) AND 0x3F :: u32) = (unat (fst c) div 8) mod 64"
    unfolding m take_bit_eq_mask [symmetric] unsigned_take_bit_eq unat_drop_bit_eq
    by (simp add: take_bit_eq_mod drop_bit_eq_div)
  also have "\<dots> = (cnt64 c div 8) mod 64"
  proof -
    have "cnt64 c div 8 = unat (fst c) div 8 + 64 * (2 ^ 23 * unat (snd c))"
      unfolding cnt64_def by simp
    then show ?thesis by (simp only: mod_mult_self2)
  qed
  finally show ?thesis .
qed

section \<open>The context refines the byte string it has absorbed\<close>

definition absorbs :: "md5 \<Rightarrow> bytes \<Rightarrow> bool" where
  "absorbs ctx msg \<longleftrightarrow>
     \<not> finalized ctx \<and> length (buffer ctx) = 64 \<and>
     cnt64 (count ctx) = (8 * length msg) mod 2 ^ 64 \<and>
     state ctx = spec_run msg init_regs \<and>
     take (length msg mod 64) (buffer ctx) = blk_tail msg"

lemma absorbs_init: "length (buffer mem) = 64 \<Longrightarrow> absorbs (init mem) []"
  by (simp add: absorbs_def init_def cnt64_def spec_run_def init_regs_def)

lemma absorbs_index:
  assumes "absorbs ctx msg"
  shows "unat (drop_bit 3 (fst (count ctx)) AND 0x3F :: u32) = length msg mod 64"
proof -
  have "(8 * n) mod 2 ^ 64 div 8 mod 64 = n mod (64 :: nat)" for n
  proof -
    have "(8 * n) mod (8 * 2 ^ 61) = 8 * (n mod 2 ^ 61)" by (rule mult_mod_right [symmetric])
    then have "(8 * n) mod 2 ^ 64 div 8 = n mod 2 ^ 61" by simp
    moreover have "n mod 2 ^ 61 mod 64 = n mod 64" by (rule mod_mod_cancel) simp
    ultimately show ?thesis by simp
  qed
  with assms show ?thesis by (simp only: buffer_index absorbs_def)
qed

lemma full_blocks_length: "b \<in> set (full_blocks xs) \<Longrightarrow> length b = 64"
  by (induction xs rule: blk_induct) (auto simp: full_blocks_block)

lemma fold_transform: "fold transform (full_blocks xs) st = spec_run xs st"
  unfolding spec_run_def
  by (intro fold_cong) (auto dest: full_blocks_length intro: transform_eq_spec)

text \<open>The loop consumes every whole block left and stops within 64 bytes of the end.\<close>

lemma transform_loop_blocks:
  assumes "unat l \<le> length input" "unat l \<le> 2 ^ 32 - 64" "unat idx \<le> unat l"
  shows "\<exists>idx'. transform_loop input l idx st
                  = Some (idx', spec_run (drop (unat idx) (take (unat l) input)) st) \<and>
                unat idx' = unat idx + 64 * ((unat l - unat idx) div 64)"
  using assms(3)
proof (induction "unat l - unat idx" arbitrary: idx st rule: less_induct)
  case less
  have bound: "unat idx + 63 < 2 ^ 32" using assms(2) less.prems by simp
  then have u63: "unat (idx + 63) = unat idx + 63"
    by (simp add: unat_word_ariths)
  show ?case
  proof (cases "unat idx + 63 < unat l")
    case False
    then have "\<not> idx + 63 < l" by (simp add: word_less_nat_alt u63)
    then have "transform_loop input l idx st = Some (idx, st)"
      by (simp add: transform_loop.simps)
    moreover have "length (drop (unat idx) (take (unat l) input)) < 64"
      using False assms(1) by simp
    ultimately show ?thesis using False by (simp add: spec_run_def)
  next
    case True
    then have c: "idx + 63 < l" by (simp add: word_less_nat_alt u63)
    have u64: "unat (idx + 64) = unat idx + 64"
      using True assms(2) by (simp add: unat_word_ariths)
    let ?st = "transform (take 64 (drop (unat idx) input)) st"
    have "unat l - unat (idx + 64) < unat l - unat idx" "unat (idx + 64) \<le> unat l"
      using True by (auto simp: u64)
    from less.hyps [OF this, of ?st]
    obtain idx' where idx': "transform_loop input l (idx + 64) ?st
          = Some (idx', spec_run (drop (unat idx + 64) (take (unat l) input)) ?st)"
      and u: "unat idx' = unat idx + 64 + 64 * ((unat l - (unat idx + 64)) div 64)"
      by (auto simp: u64)
    have dec: "drop (unat idx) (take (unat l) input)
        = take 64 (drop (unat idx) input) @ drop (unat idx + 64) (take (unat l) input)"
      (is "?xs = ?b @ ?ys")
    proof -
      have "?xs = take 64 ?xs @ drop 64 ?xs" by (rule append_take_drop_id [symmetric])
      also have "take 64 ?xs = ?b" using True by (simp add: drop_take min_def)
      finally show ?thesis by (simp only: drop_drop add.commute [of 64])
    qed
    have lb: "length ?b = 64" using True assms(1) by simp
    have "spec_run ?xs st = spec_run ?ys ?st"
      unfolding dec by (simp add: spec_run_def full_blocks_block [OF lb] transform_eq_spec [OF lb])
    moreover have "(unat l - unat idx) div 64 = Suc ((unat l - (unat idx + 64)) div 64)"
    proof -
      have "(64 + k) div 64 = Suc (k div 64)" for k :: nat by simp
      moreover have "unat l - unat idx = 64 + (unat l - (unat idx + 64))" using True by linarith
      ultimately show ?thesis by (simp only:)
    qed
    moreover have "transform_loop input l idx st = transform_loop input l (idx + 64) ?st"
      by (subst transform_loop.simps) (simp only: c if_True)
    ultimately show ?thesis
      using idx' u by (intro exI [of _ idx']) simp
  qed
qed

lemma take_memcpy_at_0: "n \<le> length src \<Longrightarrow> take n (memcpy_at 0 src n dest) = take n src"
  by (simp add: memcpy_at_def)

lemma update_absorbs_take:
  assumes abs: "absorbs ctx msg" and len: "unat l \<le> length input" "unat l \<le> 2 ^ 32 - 64"
  shows "\<exists>ctx'. update input l ctx = Some ctx' \<and> absorbs ctx' (msg @ take (unat l) input)"
proof -
  define inp where "inp = take (unat l) input"
  have linp: "length inp = unat l" using len by (simp add: inp_def)
  let ?bi = "drop_bit 3 (fst (count ctx)) AND 0x3F :: u32"
  have bi: "unat ?bi = length msg mod 64" by (rule absorbs_index [OF abs])
  have "length msg mod 64 < 64" by simp
  then have bs: "unat (64 - ?bi) = 64 - length msg mod 64"
    using bi by (simp add: unat_sub word_le_nat_alt)
  have buf: "length (buffer ctx) = 64" and nf: "\<not> finalized ctx"
    and st: "state ctx = spec_run msg init_regs"
    and tl: "take (length msg mod 64) (buffer ctx) = blk_tail msg"
    using abs by (simp_all add: absorbs_def)
  have cnt: "cnt64 (count_bits l (count ctx)) = (8 * length (msg @ inp)) mod 2 ^ 64"
    using abs by (simp add: cnt64_count_bits absorbs_def linp mod_simps algebra_simps)
  show ?thesis
  proof (cases "64 - ?bi \<le> l")
    case False
    then have small: "length msg mod 64 + length inp < 64"
      using bs by (simp add: word_le_nat_alt linp)
    let ?buf = "memcpy_at (unat ?bi) input (unat l) (buffer ctx)"
    have upd: "update input l ctx = Some (ctx\<lparr>count := count_bits l (count ctx), buffer := ?buf\<rparr>)"
      using nf False by (simp add: update_def)
    have "length (msg @ inp) mod 64 = length msg mod 64 + length inp"
      using small by (metis length_append mod_add_left_eq mod_less)
    moreover have "take (length msg mod 64 + length inp) ?buf = blk_tail msg @ inp"
      using small len buf by (simp add: bi linp take_memcpy_at tl inp_def)
    moreover have "blk_tail (msg @ inp) = blk_tail msg @ inp"
      using small by (simp add: blk_tail_append [of msg])
    moreover have "spec_run (msg @ inp) init_regs = spec_run msg init_regs"
      using small by (simp add: spec_run_append [of msg] spec_run_def [of "blk_tail msg @ inp"])
    moreover have "length ?buf = 64" using small len buf by (simp add: bi linp)
    ultimately have "absorbs (ctx\<lparr>count := count_bits l (count ctx), buffer := ?buf\<rparr>) (msg @ inp)"
      using nf st cnt by (simp add: absorbs_def)
    with upd show ?thesis by (auto simp: inp_def)
  next
    case True
    then have le: "64 - length msg mod 64 \<le> unat l" using bs by (simp add: word_le_nat_alt)
    let ?n = "64 - length msg mod 64"
    let ?buf = "memcpy_at (unat ?bi) input ?n (buffer ctx)"
    have buf_eq: "?buf = blk_tail msg @ take ?n input"
      using buf by (simp add: memcpy_at_def bi tl)
    have lbuf: "length ?buf = 64"
    proof -
      have "length (take ?n input) = ?n" using le len by (simp add: min_def)
      then show ?thesis using \<open>length msg mod 64 < 64\<close> by (simp only: buf_eq length_append blk_tail_length)
    qed
    define rest where "rest = drop ?n inp"
    have split: "blk_tail msg @ inp = ?buf @ rest"
    proof -
      have "take ?n input = take ?n inp" using le by (simp add: inp_def min_def)
      then show ?thesis by (simp add: buf_eq rest_def)
    qed
    let ?st = "transform ?buf (state ctx)"
    obtain idx' where loop: "transform_loop input l (64 - ?bi) ?st = Some (idx', spec_run rest ?st)"
      and idx': "unat idx' = ?n + 64 * ((unat l - ?n) div 64)"
      using transform_loop_blocks [OF len, of "64 - ?bi" ?st] le
      by (auto simp: bs rest_def inp_def)
    have lrest: "length rest = unat l - ?n" by (simp add: rest_def linp)
    have "?n + 64 * (k div 64) \<le> ?n + k" for k by simp
    from this [of "unat l - ?n"] have idx_le: "unat idx' \<le> unat l"
      using le by (simp only: idx' le_add_diff_inverse)
    then have ul: "unat (l - idx') = unat l - unat idx'"
      by (simp add: unat_sub word_le_nat_alt)
    have tailr: "take (unat l - unat idx') (drop (unat idx') input) = blk_tail rest"
      by (simp only: blk_tail_def lrest) (simp only: rest_def inp_def drop_drop drop_take idx' add.commute diff_diff_left)
    let ?buf2 = "memcpy_at 0 (drop (unat idx') input) (unat l - unat idx') ?buf"
    have upd: "update input l ctx = Some (ctx\<lparr>count := count_bits l (count ctx),
                 state := spec_run rest ?st, buffer := ?buf2\<rparr>)"
      using nf True loop by (simp add: update_def Let_def bs ul)
    have lt: "length (blk_tail rest) < 64" by simp
    have len2: "unat l - unat idx' = length (blk_tail rest)"
      using arg_cong [OF tailr, of length] len idx_le by simp
    have lmod: "length (msg @ inp) mod 64 = length (blk_tail rest)"
    proof -
      have "length (blk_tail (msg @ inp)) = length (blk_tail rest)"
        by (simp only: blk_tail_append [of msg] split blk_tail_block [OF lbuf])
      then show ?thesis by simp
    qed
    have "take (length (msg @ inp) mod 64) ?buf2 = blk_tail rest"
      unfolding lmod len2 [symmetric] by (subst take_memcpy_at_0) (use len idx_le tailr in auto)
    moreover have "blk_tail (msg @ inp) = blk_tail rest"
      by (simp only: blk_tail_append [of msg] split blk_tail_block [OF lbuf])
    moreover have "spec_run (msg @ inp) init_regs = spec_run rest ?st"
      by (simp only: spec_run_append [of msg] split)
         (simp add: spec_run_def full_blocks_block [OF lbuf] transform_eq_spec [OF lbuf] st)
    moreover have "length ?buf2 = 64"
      using lbuf lt len2 len idx_le by simp
    ultimately have "absorbs (ctx\<lparr>count := count_bits l (count ctx),
                 state := spec_run rest ?st, buffer := ?buf2\<rparr>) (msg @ inp)"
      using nf cnt by (simp add: absorbs_def)
    with upd show ?thesis by (auto simp: inp_def)
  qed
qed


lemma enc4_bytes: "enc4 w = map (\<lambda>k. of_nat (unat w div 256 ^ k)) [0..<4]"
proof -
  have "ucast (drop_bit (8 * k) w) = (of_nat (unat w div 256 ^ k) :: byte)" for k
  proof -
    have "(of_nat (unat (drop_bit (8 * k) w)) :: byte) = ucast (drop_bit (8 * k) w)"
      by (rule of_nat_unat)
    then show ?thesis by (simp add: unat_drop_bit_eq drop_bit_eq_div [where 'a = nat] power_mult)
  qed
  from this [of 0] this [of 1] this [of 2] this [of 3] show ?thesis
    by (simp add: enc4_eq upt_rec)
qed

lemma byte_of_nat_eq: "a mod 256 = b mod 256 \<Longrightarrow> (of_nat a :: byte) = of_nat b"
  by (simp add: word_of_nat_eq_iff take_bit_eq_mod)

lemma limb_byte:
  assumes "k < 4"
  shows "((x + 2 ^ 32 * u) div 256 ^ k) mod 256 = (x div 256 ^ k) mod (256 :: nat)"
proof -
  have "(2 :: nat) ^ 32 = 256 ^ 4" by simp
  also have "\<dots> = 256 ^ k * (256 * 256 ^ (3 - k))"
    using assms by (simp flip: power_Suc power_add)
  finally have "x + 2 ^ 32 * u = x + 256 ^ k * (256 * (256 ^ (3 - k) * u))"
    by (simp only: mult.assoc)
  then show ?thesis by (simp only: div_mult_self2 power_not_zero mod_mult_self2) simp
qed

lemma div_high_part:
  fixes x u m :: nat
  assumes "x < m"
  shows "(x + m * u) div m = u"
  using assms by simp

lemma enc4_pair_le64:
  assumes "cnt64 c = n mod 2 ^ 64"
  shows "enc4 (fst c) @ enc4 (snd c) = le64 n"
proof -
  let ?x = "unat (fst c)" and ?y = "unat (snd c)"
  have n: "n = ?x + 2 ^ 32 * (?y + 2 ^ 32 * (n div 2 ^ 64))"
  proof -
    have "n = cnt64 c + 2 ^ 64 * (n div 2 ^ 64)"
      unfolding assms by (rule mod_mult_div_eq [symmetric])
    then show ?thesis by (simp add: cnt64_def algebra_simps)
  qed
  have lo: "of_nat (?x div 256 ^ k) = (of_nat (n div 256 ^ k) :: byte)" if "k < 4" for k
    by (rule byte_of_nat_eq, subst n, rule limb_byte [OF that, symmetric])
  have "n div 2 ^ 32 = ?y + 2 ^ 32 * (n div 2 ^ 64)"
    by (rule trans [OF arg_cong [OF n, of "\<lambda>m. m div 2 ^ 32"] div_high_part])
       (use unat_u32_bound [of "fst c"] in simp)
  then have hi: "of_nat (?y div 256 ^ k) = (of_nat (n div 256 ^ (4 + k)) :: byte)" if "k < 4" for k
    using limb_byte [OF that, of ?y "n div 2 ^ 64"]
    by (intro byte_of_nat_eq) (simp add: power_add div_mult2_eq)
  have "[0..<8] = [0..<4] @ map ((+) 4) [0..<4]"
    by (simp add: upt_rec)
  then show ?thesis
    unfolding le64_def enc4_bytes by (simp add: lo hi del: upt_rec_numeral)
qed

lemma finalize_absorbs:
  assumes "absorbs ctx msg"
  shows "\<exists>ctx'. finalize ctx = Some ctx' \<and> finalized ctx' \<and> digest ctx' = md5_spec msg"
proof -
  let ?r = "length msg mod 64"
  let ?index = "drop_bit 3 (fst (count ctx)) AND 0x3f :: u32"
  let ?pad = "if ?index < 56 then 56 - ?index else 120 - ?index"
  let ?p = "(if ?r < 56 then 56 else 120) - ?r"
  let ?bits = "encode [fst (count ctx), snd (count ctx)] 8"
  have r: "?r < 64" by simp
  have idx: "unat ?index = ?r" by (rule absorbs_index [OF assms])
  have pad: "unat ?pad = ?p"
    using idx r by (simp add: word_less_nat_alt unat_sub word_le_nat_alt)
  have nf: "\<not> finalized ctx" using assms by (simp add: absorbs_def)
  have lp: "length PADDING = 64" by (simp add: PADDING_def)
  have "unat ?pad \<le> length PADDING" "unat ?pad \<le> 2 ^ 32 - 64"
    unfolding pad lp using r by auto
  from update_absorbs_take [OF assms this] obtain ctx1
    where 1: "update PADDING ?pad ctx = Some ctx1" "absorbs ctx1 (msg @ take ?p PADDING)"
    unfolding pad by blast
  have lb: "length ?bits = 8" by (simp add: enc4_eq)
  have "unat (8 :: u32) \<le> length ?bits" "unat (8 :: u32) \<le> 2 ^ 32 - 64"
    by (simp_all add: enc4_eq)
  from update_absorbs_take [OF 1(2) this] obtain ctx2
    where 2: "update ?bits 8 ctx1 = Some ctx2" "absorbs ctx2 ((msg @ take ?p PADDING) @ ?bits)"
    using lb by auto
  have pad_eq: "take ?p PADDING = 0x80 # replicate ((if ?r < 56 then 55 else 119) - ?r) 0"
    using r by (auto simp: PADDING_def take_Cons' min_def)
  have bits: "?bits = le64 (8 * length msg)"
  proof -
    have c: "cnt64 (count ctx) = (8 * length msg) mod 2 ^ 64"
      using assms by (simp only: absorbs_def)
    have "?bits = enc4 (fst (count ctx)) @ enc4 (snd (count ctx))" by simp
    also have "\<dots> = le64 (8 * length msg)" by (rule enc4_pair_le64 [OF c])
    finally show ?thesis .
  qed
  have msg: "(msg @ take ?p PADDING) @ ?bits = md5_pad msg"
    unfolding bits by (simp add: md5_pad_def pad_eq Let_def)
  obtain a b c d where st: "state ctx2 = (a, b, c, d)" by (cases "state ctx2")
  have "finalize ctx = Some (ctx2\<lparr>digest := encode [a, b, c, d] 16,
          buffer := 0 # drop 1 (buffer ctx2), finalized := True\<rparr>)"
    using nf 1(1) 2(1) st by (simp only: finalize_def Let_def if_False option.case prod.case)
  moreover have "spec_run (md5_pad msg) init_regs = (a, b, c, d)"
    using 2(2) st unfolding msg absorbs_def by (simp only:)
  then have "encode [a, b, c, d] 16 = md5_spec msg"
    by (simp add: md5_spec_def enc4_eq upt_rec)
  ultimately show ?thesis by simp
qed

section \<open>Streams and the printed digest\<close>

lemma update_absorbs:
  assumes "absorbs ctx msg" "length input \<le> 2 ^ 32 - 64"
  shows "\<exists>ctx'. update input (of_nat (length input)) ctx = Some ctx' \<and> absorbs ctx' (msg @ input)"
proof -
  have "unat (of_nat (length input) :: u32) = length input"
    using assms(2) by (simp add: unat_of_nat_u32)
  then show ?thesis
    using update_absorbs_take [OF assms(1), of "of_nat (length input)" input] assms(2) by simp
qed

lemma update_chunk:
  assumes "absorbs ctx msg"
  shows "\<exists>ctx'. update (take (min 1024 (length xs)) xs) (of_nat (min 1024 (length xs))) ctx = Some ctx'
           \<and> absorbs ctx' (msg @ take (min 1024 (length xs)) xs)"
  using update_absorbs [OF assms, of "take (min 1024 (length xs)) xs"]
  by (cases "1024 \<le> length xs") simp_all

lemma update_file_absorbs:
  "absorbs ctx msg \<Longrightarrow> \<exists>ctx'. update_file content ctx = Some ctx' \<and> absorbs ctx' (msg @ content)"
proof (induction content arbitrary: ctx msg rule: length_induct)
  case (1 content)
  let ?n = "min 1024 (length content)"
  obtain ctx1 where u: "update (take ?n content) (of_nat ?n) ctx = Some ctx1"
    and a: "absorbs ctx1 (msg @ take ?n content)"
    using update_chunk [OF 1(2), of content] by blast
  show ?case
  proof (cases "?n = 0")
    case True
    then have "content = []" by (cases content) auto
    then show ?thesis using 1(2) by (subst update_file.simps) simp
  next
    case False
    then have "length (drop ?n content) < length content" by auto
    then obtain ctx2 where "update_file (drop ?n content) ctx1 = Some ctx2"
      "absorbs ctx2 ((msg @ take ?n content) @ drop ?n content)"
      using 1(1) a by blast
    then show ?thesis
      using False u by (subst update_file.simps) (simp only: Let_def if_False option.case, simp)
  qed
qed

lemma update_stream_absorbs:
  "absorbs ctx msg \<Longrightarrow> \<exists>ctx'. update_stream content ctx = Some ctx' \<and> absorbs ctx' (msg @ content)"
proof (induction content arbitrary: ctx msg rule: length_induct)
  case (1 content)
  let ?n = "min 1024 (length content)"
  obtain ctx1 where u: "update (take ?n content) (of_nat ?n) ctx = Some ctx1"
    and a: "absorbs ctx1 (msg @ take ?n content)"
    using update_chunk [OF 1(2), of content] by blast
  show ?case
  proof (cases "?n < 1024")
    case True
    then have "take ?n content = content" by simp
    then show ?thesis using True u a by (subst update_stream.simps) (simp only: Let_def option.case if_True, simp)
  next
    case False
    then have "length (drop ?n content) < length content" by auto
    then obtain ctx2 where "update_stream (drop ?n content) ctx1 = Some ctx2"
      "absorbs ctx2 ((msg @ take ?n content) @ drop ?n content)"
      using 1(1) a by blast
    then show ?thesis
      using False u by (subst update_stream.simps) (simp only: Let_def if_False option.case, simp)
  qed
qed

lemma length_md5_spec: "length (md5_spec msg) = 16"
  by (simp add: md5_spec_def upt_rec split: prod.split)

lemma MD5_stream_correct:
  assumes "length (buffer mem) = 64"
  shows "\<exists>ctx. MD5_stream content mem = Some ctx \<and> finalized ctx \<and> raw_digest ctx = md5_spec content"
proof -
  obtain c1 where 1: "update_stream content (init mem) = Some c1" "absorbs c1 ([] @ content)"
    using update_stream_absorbs [OF absorbs_init [OF assms]] by blast
  obtain c2 where "finalize c1 = Some c2" "finalized c2" "digest c2 = md5_spec content"
    using finalize_absorbs [OF 1(2)] by auto
  with 1(1) show ?thesis by (simp add: MD5_stream_def raw_digest_def length_md5_spec)
qed

lemma MD5_file_correct:
  assumes "length (buffer mem) = 64"
  shows "\<exists>ctx. MD5_file content mem = Some ctx \<and> finalized ctx \<and> raw_digest ctx = md5_spec content"
proof -
  obtain c1 where 1: "update_file content (init mem) = Some c1" "absorbs c1 ([] @ content)"
    using update_file_absorbs [OF absorbs_init [OF assms]] by blast
  obtain c2 where "finalize c1 = Some c2" "finalized c2" "digest c2 = md5_spec content"
    using finalize_absorbs [OF 1(2)] by auto
  with 1(1) show ?thesis by (simp add: MD5_file_def raw_digest_def length_md5_spec)
qed

text \<open>A reader of printed digests.\<close>

fun unhex :: "char \<Rightarrow> nat" where
  "unhex c = (let n = of_char c :: nat in if n < 58 then n - 48 else n - 87)"

fun unhex_string :: "string \<Rightarrow> bytes" where
  "unhex_string (a # b # s) = of_nat (16 * unhex a + unhex b) # unhex_string s"
| "unhex_string _ = []"

lemma less_16_cases:
  assumes "n < (16 :: nat)"
  shows "n \<in> {0, 1, 2, 3, 4, 5, 6, 7, 8, 9, 10, 11, 12, 13, 14, 15}"
proof -
  have "{..<16 :: nat} = {0, 1, 2, 3, 4, 5, 6, 7, 8, 9, 10, 11, 12, 13, 14, 15}"
    by (simp add: lessThan_nat_numeral lessThan_Suc insert_commute)
  with assms show ?thesis by blast
qed

lemma unhex_hex_digit: "n < 16 \<Longrightarrow> unhex (hex_digit n) = n"
  by (drule less_16_cases) (auto simp: hex_digit_def)

lemma unhex_hex2: "unhex_string (hex2 b @ s) = b # unhex_string s"
proof -
  have "unat b < 2 ^ 8" using unsigned_less [of b] by simp
  then have "unat b div 16 < 16" by simp
  then show ?thesis by (simp add: hex2_def unhex_hex_digit del: unhex.simps)
qed

lemma unhex_concat: "unhex_string (concat (map hex2 bs)) = bs"
  by (induction bs) (simp_all add: unhex_hex2)

lemma hex_digest_raw: "finalized ctx \<Longrightarrow> hex_digest ctx = concat (map hex2 (raw_digest ctx))"
  by (simp add: hex_digest_def raw_digest_def)

lemma hex_digest_roundtrip: "finalized ctx \<Longrightarrow> unhex_string (hex_digest ctx) = raw_digest ctx"
  by (simp add: hex_digest_def raw_digest_def unhex_concat)


lemma unat_add_mod_64: "unat ((w :: u32) + v) mod 64 = (unat w + unat v) mod 64"
proof -
  have "unat (w + v) = (unat w + unat v) mod 2 ^ 32"
    by (simp add: unat_word_ariths)
  moreover have "k mod 2 ^ 32 mod 64 = k mod (64 :: nat)" for k
    by (simp add: mod_mod_cancel)
  ultimately show ?thesis by (simp only:)
qed

lemma transform_loop_diverges:
  assumes "unat idx mod 64 = 63"
  shows "transform_loop input (- 1) idx st = None"
proof -
  have False if "transform_loop input l idx st = Some y" "l = - 1 \<and> unat idx mod 64 = 63"
    for l idx st y
    using that
  proof (induction input l idx st y rule: transform_loop.raw_induct [rotated, consumes 1, case_names step])
    case (step loop input l idx st y)
    then have l: "l = - 1" and m: "unat idx mod 64 = 63" by blast+
    have shift: "(m + 63) mod 64 = 62" "(m + 64) mod 64 = 63" if "m mod 64 = 63" for m :: nat
      using that mod_add_left_eq [of m 64 63] by simp_all
    have "unat (idx + 63) mod 64 = 62"
      unfolding unat_add_mod_64 using shift [OF m] by simp
    moreover have "unat (- 1 :: u32) mod 64 = 63" by (simp add: unsigned_minus_1_eq_mask mask_numeral)
    ultimately have "unat (idx + 63) mod 64 \<noteq> unat (- 1 :: u32) mod 64" by simp
    then have "idx + 63 \<noteq> - 1" by (rule contrapos_nn) (rule arg_cong)
    then have "idx + 63 < l" unfolding l word_order.not_eq_extremum .
    moreover have "unat (idx + 64) mod 64 = 63"
      unfolding unat_add_mod_64 using shift [OF m] by simp
    ultimately show ?case
      using step(1) [of input l "idx + 64" _ y] step(2) l by (simp only: if_True simp_thms) blast
  qed
  with assms show ?thesis by (cases "transform_loop input (- 1) idx st") (simp, blast)
qed

section \<open>Properties\<close>

text \<open>C30: On every 64-byte block and every register file, the straight-line program of
  \<open>MD5::transform\<close> computes the block function of RFC 1321: sixty-four steps with the
  published shift, index and constant schedules, followed by the four additions.\<close>

theorem transform_is_rfc1321:
  assumes "length block = 64"
  shows "transform block st = spec_block block st"
  using assms by (rule transform_eq_spec)

theorem transform_is_rfc1321_witness:
  "transform (replicate 64 0) (1, 2, 3, 4) = spec_block (replicate 64 0) (1, 2, 3, 4)"
  by (rule transform_is_rfc1321) simp

text \<open>C28: \<open>MD5::update\<close> refines appending: a context that stands for the byte string
  \<open>msg\<close> and is given \<open>input\<close> returns, and then stands for \<open>msg @ input\<close>, however the
  input straddles the 64-byte buffer, for every input of up to \<open>2^32 - 64\<close> bytes.\<close>

theorem update_refines_append:
  assumes "absorbs ctx msg" "length input \<le> 2 ^ 32 - 64"
  shows "\<exists>ctx'. update input (of_nat (length input)) ctx = Some ctx' \<and> absorbs ctx' (msg @ input)"
  using assms by (rule update_absorbs)

definition blank_md5 :: md5 where
  "blank_md5 = \<lparr>state = (0, 0, 0, 0), count = (0, 0), buffer = replicate 64 0, digest = replicate 16 0,
     finalized = False\<rparr>"

theorem update_refines_append_witness:
  "\<exists>ctx'. update [97, 98, 99] (of_nat (length [97, 98, 99 :: byte])) (init blank_md5) = Some ctx'
     \<and> absorbs ctx' ([] @ [97, 98, 99])"
  by (rule update_refines_append) (rule absorbs_init, simp_all add: blank_md5_def)

text \<open>C29: The stream constructors (\<open>MD5 (ifstream&)\<close>, used by the server to address the
  advertisement files by content, and \<open>MD5 (istream&)\<close>) return a finalized context whose raw
  digest is the RFC 1321 digest of the whole content of the stream, however long it is and
  however it falls into the 1024-byte reads.\<close>

theorem MD5_stream_digest:
  assumes "length (buffer mem) = 64"
  shows "\<exists>ctx. MD5_stream content mem = Some ctx \<and> finalized ctx \<and> raw_digest ctx = md5_spec content"
  using assms by (rule MD5_stream_correct)

theorem MD5_stream_digest_witness:
  "\<exists>ctx. MD5_stream [97, 98, 99] blank_md5 = Some ctx \<and> finalized ctx
     \<and> raw_digest ctx = md5_spec [97, 98, 99]"
  by (rule MD5_stream_digest) (simp add: blank_md5_def)

text \<open>The \<open>FILE*\<close> constructor, whose loop ends on a read of length 0 instead of on a
  short read, yields the same printed digest as the stream constructor on every content.\<close>

theorem MD5_file_stream_agree:
  assumes "length (buffer mem) = 64" "length (buffer mem') = 64"
  shows "map_option hex_digest (MD5_file content mem) = map_option hex_digest (MD5_stream content mem')"
  using MD5_file_correct [OF assms(1), of content] MD5_stream_correct [OF assms(2), of content]
  by (auto simp: hex_digest_def raw_digest_def)

theorem MD5_file_stream_agree_witness:
  "map_option hex_digest (MD5_file [1, 2] blank_md5) = map_option hex_digest (MD5_stream [1, 2] blank_md5)"
  by (rule MD5_file_stream_agree) (simp_all add: blank_md5_def)

text \<open>\<open>MD5::decode\<close> inverts \<open>MD5::encode\<close> on every list of 32-bit words.\<close>

theorem decode_encode: "decode (encode ws (4 * length ws)) (4 * length ws) = ws"
  by (rule decode_encode_words)

text \<open>The printed digest of a finalized context is faithful: reading its hexadecimal
  digits back gives the raw digest, so two contexts print alike exactly when their digests
  are equal.\<close>

theorem hex_digest_faithful:
  assumes "finalized ctx" "finalized ctx'"
  shows "hex_digest ctx = hex_digest ctx' \<longleftrightarrow> raw_digest ctx = raw_digest ctx'"
  using hex_digest_roundtrip [OF assms(1)] hex_digest_roundtrip [OF assms(2)]
    hex_digest_raw [OF assms(1)] hex_digest_raw [OF assms(2)] by metis

theorem hex_digest_faithful_witness:
  "hex_digest (blank_md5\<lparr>finalized := True\<rparr>) = hex_digest (blank_md5\<lparr>finalized := True, digest := [1]\<rparr>)
     \<longleftrightarrow> raw_digest (blank_md5\<lparr>finalized := True\<rparr>) = raw_digest (blank_md5\<lparr>finalized := True, digest := [1]\<rparr>)"
  by (rule hex_digest_faithful) simp_all

text \<open>The loop of \<open>MD5::update\<close> compares the wrapping value \<open>input_index + 63\<close>, so for
  an input of \<open>2^32 - 1\<close> bytes that starts with one byte already buffered (the first index is
  then 63 modulo 64) the test never fails and the loop does not return.\<close>

theorem update_loop_diverges:
  assumes "unat idx mod 64 = 63"
  shows "transform_loop input (- 1) idx st = None"
  using assms by (rule transform_loop_diverges)

theorem update_loop_diverges_witness: "transform_loop [] (- 1) 63 (0, 0, 0, 0) = None"
  by (rule update_loop_diverges) simp

end
