(* ===== verification/Wire.thy ===== *)
theory Wire
  imports AdPrelude
begin

text \<open>
  The wire-format layer that the generated message classes of \<^verbatim>\<open>src/ad\<close> stand on.
  The inline functions of the protobuf headers (\<^verbatim>\<open>io/coded_stream.h\<close>,
  \<^verbatim>\<open>wire_format_lite.h\<close>, \<^verbatim>\<open>wire_format_lite_inl.h\<close>) are definitions; the
  functions that those headers only declare are fields of the record \<open>pb_lib\<close>, an
  argument of every definition that calls them, and the behaviour the headers
  document for them is the locale \<open>pb_runtime\<close>.  \<open>merge_loop\<close> is the loop that every
  generated \<open>MergePartialFromCodedStream\<close> consists of, with the switch over the
  fields as its argument.
\<close>

section \<open>The input stream\<close>

text \<open>
  \<open>CodedInputStream\<close> over a flat array: the bytes from \<open>buffer_\<close> to \<open>buffer_end_\<close>, the
  bytes of the array behind the current limit, \<open>legitimate_message_end_\<close> and
  \<open>recursion_budget_\<close>.
\<close>

record cis =
  cis_buf :: bytes
  cis_hidden :: bytes
  cis_legit :: bool
  cis_budget :: int

definition Advance :: "nat \<Rightarrow> cis \<Rightarrow> cis" where
  "Advance n s = s\<lparr>cis_buf := drop n (cis_buf s)\<rparr>"

text \<open>The out-of-line functions.  A \<open>Limit\<close> is an \<open>int\<close>; the stream writers return the bytes
  they append to the output.  \<open>Int32SizeRepeated\<close> is \<open>Int32Size\<close> of a repeated field;
  \<open>WriteMessageMaybeToArray\<close> is given what its virtual calls of the message return: the cached
  size, and the bytes of the array and of the stream serialiser.  \<open>RepeatedSpare\<close> is the capacity that
  is left after an element was added, as a function of the length; in the program it depends on the
  history of the field too, and it decides only how many elements one loop reads.\<close>

record pb_lib =
  ReadVarint32Fallback :: "u32 \<Rightarrow> cis \<Rightarrow> i64 \<times> cis"
  ReadVarint64Fallback :: "cis \<Rightarrow> (u64 \<times> bool) \<times> cis"
  ReadVarintSizeAsIntFallback :: "cis \<Rightarrow> i32 \<times> cis"
  ReadTagFallback :: "u32 \<Rightarrow> cis \<Rightarrow> u32 \<times> cis"
  PushLimit :: "i32 \<Rightarrow> cis \<Rightarrow> int \<times> cis"
  PopLimit :: "int \<Rightarrow> cis \<Rightarrow> cis"
  BytesUntilLimit :: "cis \<Rightarrow> int"
  ReadBytes :: "bytes \<Rightarrow> cis \<Rightarrow> (bool \<times> bytes) \<times> cis"
  VerifyUtf8String :: "bytes \<Rightarrow> bool"
  SkipField :: "u32 \<Rightarrow> cis \<Rightarrow> bool \<times> cis"
  RepeatedSpare :: "nat \<Rightarrow> nat"
  VarintSize32Fallback :: "u32 \<Rightarrow> nat"
  VarintSize64 :: "u64 \<Rightarrow> nat"
  WriteStringWithSizeToArray :: "bytes \<Rightarrow> bytes"
  WriteInt32 :: "nat \<Rightarrow> i32 \<Rightarrow> bytes"
  WriteInt64 :: "nat \<Rightarrow> i64 \<Rightarrow> bytes"
  WriteBool :: "nat \<Rightarrow> bool \<Rightarrow> bytes"
  WriteStringMaybeAliased :: "nat \<Rightarrow> bytes \<Rightarrow> bytes"
  WriteBytesMaybeAliased :: "nat \<Rightarrow> bytes \<Rightarrow> bytes"
  WriteString :: "nat \<Rightarrow> bytes \<Rightarrow> bytes"
  WriteVarint32SlowPath :: "u32 \<Rightarrow> bytes"
  WriteVarint64SlowPath :: "u64 \<Rightarrow> bytes"
  Int32SizeRepeated :: "i32 list \<Rightarrow> nat"
  WriteMessageMaybeToArray :: "nat \<Rightarrow> i32 \<Rightarrow> bytes \<Rightarrow> bytes \<Rightarrow> bytes"

section \<open>Reading\<close>

definition ReadVarint32 :: "pb_lib \<Rightarrow> cis \<Rightarrow> (bool \<times> u32) \<times> cis" where
  "ReadVarint32 L s =
     (let fallback = (\<lambda>v. case ReadVarint32Fallback L v s of
                           (result, s') \<Rightarrow> ((0 \<le> sint result, ucast result), s'))
      in case cis_buf s of
           [] \<Rightarrow> fallback 0
         | b # _ \<Rightarrow> if ucast b < (0x80 :: u32) then ((True, ucast b), Advance 1 s)
                   else fallback (ucast b))"

definition ReadVarint64 :: "pb_lib \<Rightarrow> cis \<Rightarrow> (bool \<times> u64) \<times> cis" where
  "ReadVarint64 L s =
     (let fallback = (case ReadVarint64Fallback L s of ((v, ok), s') \<Rightarrow> ((ok, v), s'))
      in case cis_buf s of
           [] \<Rightarrow> fallback
         | b # _ \<Rightarrow> if b < 0x80 then ((True, ucast b), Advance 1 s) else fallback)"

definition ReadVarintSizeAsInt :: "pb_lib \<Rightarrow> cis \<Rightarrow> (bool \<times> i32) \<times> cis" where
  "ReadVarintSizeAsInt L s =
     (let fallback = (case ReadVarintSizeAsIntFallback L s of (v, s') \<Rightarrow> ((0 \<le> sint v, v), s'))
      in case cis_buf s of
           [] \<Rightarrow> fallback
         | b # _ \<Rightarrow> if b < 0x80 then ((True, ucast b), Advance 1 s) else fallback)"

text \<open>\<open>ReadTagWithCutoffNoLastTag\<close>: the one-byte path, the two-byte path for a cutoff of at
  least 0x80, and the slow path.\<close>

definition ReadTagWithCutoffNoLastTag :: "pb_lib \<Rightarrow> u32 \<Rightarrow> cis \<Rightarrow> (u32 \<times> bool) \<times> cis" where
  "ReadTagWithCutoffNoLastTag L cutoff s =
     (let slow = (\<lambda>first. case ReadTagFallback L first s of
                            (tag, s') \<Rightarrow> ((tag, tag - 1 < cutoff), s'));
          two = (\<lambda>b0. case cis_buf s of
                  _ # b1 # _ \<Rightarrow>
                    if 0x80 \<le> cutoff \<and> 0x80 \<le> (b0 AND NOT b1)
                    then let tag = 2 ^ 7 * ucast b1 + (ucast b0 - 0x80)
                         in ((tag, cutoff \<ge> 0x3fff \<or> tag \<le> cutoff), Advance 2 s)
                    else slow (ucast b0)
                | _ \<Rightarrow> slow (ucast b0))
      in case cis_buf s of
           [] \<Rightarrow> slow 0
         | b0 # _ \<Rightarrow>
             if 0 < sint b0
             then let tag = ucast b0 in ((tag, cutoff \<ge> 0x7f \<or> tag \<le> cutoff), Advance 1 s)
             else two b0)"

definition ExpectTag :: "u32 \<Rightarrow> cis \<Rightarrow> bool \<times> cis" where
  "ExpectTag expected s =
     (if expected < 2 ^ 7
      then (case cis_buf s of
              b # _ \<Rightarrow> if ucast b = expected then (True, Advance 1 s) else (False, s)
            | [] \<Rightarrow> (False, s))
      else if expected < 2 ^ 14
      then (case cis_buf s of
              b0 # b1 # _ \<Rightarrow>
                if b0 = ucast (expected OR 0x80) \<and> b1 = ucast (drop_bit 7 expected)
                then (True, Advance 2 s) else (False, s)
            | _ \<Rightarrow> (False, s))
      else (False, s))"

definition ConsumedEntireMessage :: "cis \<Rightarrow> bool" where
  "ConsumedEntireMessage s = cis_legit s"

definition IncrementRecursionDepth :: "cis \<Rightarrow> bool \<times> cis" where
  "IncrementRecursionDepth s =
     (let s' = s\<lparr>cis_budget := cis_budget s - 1\<rparr> in (0 \<le> cis_budget s', s'))"

definition UnsafeDecrementRecursionDepth :: "cis \<Rightarrow> cis" where
  "UnsafeDecrementRecursionDepth s = s\<lparr>cis_budget := cis_budget s + 1\<rparr>"

text \<open>The constructor over a flat array; the default recursion limit is 100.\<close>

definition CodedInputStream :: "bytes \<Rightarrow> cis" where
  "CodedInputStream data =
     \<lparr>cis_buf = data, cis_hidden = [], cis_legit = False, cis_budget = 100\<rparr>"

text \<open>\<open>coded_stream.h\<close> documents these two by their bodies.\<close>

definition ReadLengthAndPushLimit :: "pb_lib \<Rightarrow> cis \<Rightarrow> int \<times> cis" where
  "ReadLengthAndPushLimit L s =
     (case ReadVarint32 L s of ((ok, len), s') \<Rightarrow> PushLimit L (if ok then len else 0) s')"

definition CheckEntireMessageConsumedAndPopLimit :: "pb_lib \<Rightarrow> int \<Rightarrow> cis \<Rightarrow> bool \<times> cis" where
  "CheckEntireMessageConsumedAndPopLimit L limit s = (ConsumedEntireMessage s, PopLimit L limit s)"

subsection \<open>Tags\<close>

definition WIRETYPE_VARINT :: u32 where "WIRETYPE_VARINT = 0"
definition WIRETYPE_LENGTH_DELIMITED :: u32 where "WIRETYPE_LENGTH_DELIMITED = 2"
definition WIRETYPE_END_GROUP :: u32 where "WIRETYPE_END_GROUP = 4"

definition MakeTag :: "nat \<Rightarrow> u32 \<Rightarrow> u32" where
  "MakeTag field_number type = push_bit 3 (of_nat field_number) OR type"

definition GetTagWireType :: "u32 \<Rightarrow> u32" where
  "GetTagWireType tag = tag AND 7"

definition GetTagFieldNumber :: "u32 \<Rightarrow> nat" where
  "GetTagFieldNumber tag = unat (drop_bit 3 tag)"

subsection \<open>Fields\<close>

definition ReadPrimitive_int32 :: "pb_lib \<Rightarrow> i32 \<Rightarrow> cis \<Rightarrow> (bool \<times> i32) \<times> cis" where
  "ReadPrimitive_int32 L old s =
     (case ReadVarint32 L s of ((ok, temp), s') \<Rightarrow> ((ok, if ok then temp else old), s'))"

definition ReadPrimitive_int64 :: "pb_lib \<Rightarrow> i64 \<Rightarrow> cis \<Rightarrow> (bool \<times> i64) \<times> cis" where
  "ReadPrimitive_int64 L old s =
     (case ReadVarint64 L s of ((ok, temp), s') \<Rightarrow> ((ok, if ok then temp else old), s'))"

definition ReadPrimitive_bool :: "pb_lib \<Rightarrow> bool \<Rightarrow> cis \<Rightarrow> (bool \<times> bool) \<times> cis" where
  "ReadPrimitive_bool L old s =
     (case ReadVarint64 L s of ((ok, temp), s') \<Rightarrow> ((ok, if ok then temp \<noteq> 0 else old), s'))"

text \<open>The loops of the repeated primitive readers: the unpacked reader takes as many
  elements, each behind its own tag, as the array can hold without growing; the packed
  reader runs to the limit.\<close>

fun read_reserved :: "pb_lib \<Rightarrow> u32 \<Rightarrow> nat \<Rightarrow> i32 list \<Rightarrow> cis \<Rightarrow> (bool \<times> i32 list) \<times> cis" where
  "read_reserved L tag 0 values s = ((True, values), s)"
| "read_reserved L tag (Suc n) values s =
     (case ExpectTag tag s of
        (False, s1) \<Rightarrow> ((True, values), s1)
      | (True, s1) \<Rightarrow>
          (case ReadPrimitive_int32 L 0 s1 of
             ((False, _), s2) \<Rightarrow> ((False, values), s2)
           | ((True, v), s2) \<Rightarrow> read_reserved L tag n (values @ [v]) s2))"

definition ReadRepeatedPrimitive :: "pb_lib \<Rightarrow> u32 \<Rightarrow> i32 list \<Rightarrow> cis \<Rightarrow> (bool \<times> i32 list) \<times> cis" where
  "ReadRepeatedPrimitive L tag values s =
     (case ReadPrimitive_int32 L 0 s of
        ((False, _), s1) \<Rightarrow> ((False, values), s1)
      | ((True, v), s1) \<Rightarrow>
          let values' = values @ [v]
          in read_reserved L tag (RepeatedSpare L (length values')) values' s1)"

partial_function (option) packed_loop ::
    "pb_lib \<Rightarrow> i32 list \<Rightarrow> cis \<Rightarrow> ((bool \<times> i32 list) \<times> cis) option" where
  "packed_loop L values s =
     (if 0 < BytesUntilLimit L s
      then let r = ReadPrimitive_int32 L 0 s
           in if fst (fst r) then packed_loop L (values @ [snd (fst r)]) (snd r)
              else Some ((False, values), snd r)
      else Some ((True, values), s))"

definition ReadPackedPrimitive ::
    "pb_lib \<Rightarrow> i32 list \<Rightarrow> cis \<Rightarrow> ((bool \<times> i32 list) \<times> cis) option" where
  "ReadPackedPrimitive L values s =
     (case ReadVarintSizeAsInt L s of
        ((False, _), s1) \<Rightarrow> Some ((False, values), s1)
      | ((True, len), s1) \<Rightarrow>
          (case PushLimit L len s1 of
             (limit, s2) \<Rightarrow>
               (case packed_loop L values s2 of
                  None \<Rightarrow> None
                | Some ((False, values'), s3) \<Rightarrow> Some ((False, values'), s3)
                | Some ((True, values'), s3) \<Rightarrow> Some ((True, values'), PopLimit L limit s3))))"

section \<open>The parse loop\<close>

text \<open>What a case of the switch does with a tag: it consumes the field and the loop goes
  on, it fails (\<open>goto failure\<close>), or it does not know the tag (\<open>goto handle_unusual\<close>).
  \<open>None\<close> is a field whose own parser does not return.\<close>

datatype 'm outcome = Parsed 'm cis | Failure 'm cis | Unusual

text \<open>The cases of the generated switches: the \<open>DO_\<close> around a read, for a field that is stored
  by \<open>upd\<close>.\<close>

definition int32_case :: "pb_lib \<Rightarrow> i32 \<Rightarrow> (i32 \<Rightarrow> 'm) \<Rightarrow> cis \<Rightarrow> 'm outcome option" where
  "int32_case L old upd s =
     (case ReadPrimitive_int32 L old s of
        ((ok, v), s') \<Rightarrow> Some (if ok then Parsed (upd v) s' else Failure (upd v) s'))"

definition int64_case :: "pb_lib \<Rightarrow> i64 \<Rightarrow> (i64 \<Rightarrow> 'm) \<Rightarrow> cis \<Rightarrow> 'm outcome option" where
  "int64_case L old upd s =
     (case ReadPrimitive_int64 L old s of
        ((ok, v), s') \<Rightarrow> Some (if ok then Parsed (upd v) s' else Failure (upd v) s'))"

definition bool_case :: "pb_lib \<Rightarrow> bool \<Rightarrow> (bool \<Rightarrow> 'm) \<Rightarrow> cis \<Rightarrow> 'm outcome option" where
  "bool_case L old upd s =
     (case ReadPrimitive_bool L old s of
        ((ok, v), s') \<Rightarrow> Some (if ok then Parsed (upd v) s' else Failure (upd v) s'))"

definition bytes_case :: "pb_lib \<Rightarrow> bytes \<Rightarrow> (bytes \<Rightarrow> 'm) \<Rightarrow> cis \<Rightarrow> 'm outcome option" where
  "bytes_case L old upd s =
     (case ReadBytes L old s of
        ((ok, v), s') \<Rightarrow> Some (if ok then Parsed (upd v) s' else Failure (upd v) s'))"

definition string_case :: "pb_lib \<Rightarrow> bytes \<Rightarrow> (bytes \<Rightarrow> 'm) \<Rightarrow> cis \<Rightarrow> 'm outcome option" where
  "string_case L old upd s =
     (case ReadBytes L old s of
        ((ok, v), s') \<Rightarrow> Some (if ok \<and> VerifyUtf8String L v then Parsed (upd v) s' else Failure (upd v) s'))"

definition packed_case :: "pb_lib \<Rightarrow> i32 list \<Rightarrow> (i32 list \<Rightarrow> 'm) \<Rightarrow> cis \<Rightarrow> 'm outcome option" where
  "packed_case L old upd s =
     map_option (\<lambda>((ok, vs), s'). if ok then Parsed (upd vs) s' else Failure (upd vs) s')
       (ReadPackedPrimitive L old s)"

definition unpacked_case :: "pb_lib \<Rightarrow> u32 \<Rightarrow> i32 list \<Rightarrow> (i32 list \<Rightarrow> 'm) \<Rightarrow> cis \<Rightarrow> 'm outcome option" where
  "unpacked_case L tag old upd s =
     (case ReadRepeatedPrimitive L tag old s of
        ((ok, vs), s') \<Rightarrow> Some (if ok then Parsed (upd vs) s' else Failure (upd vs) s'))"

partial_function (option) merge_loop ::
    "pb_lib \<Rightarrow> u32 \<Rightarrow> (u32 \<Rightarrow> 'm \<Rightarrow> cis \<Rightarrow> 'm outcome option) \<Rightarrow> 'm \<Rightarrow> cis
       \<Rightarrow> (bool \<times> 'm \<times> cis) option" where
  "merge_loop L cutoff field msg s =
     (let p = ReadTagWithCutoffNoLastTag L cutoff s;
          tag = fst (fst p);
          s1 = snd p
      in Option.bind (if snd (fst p) then field tag msg s1 else Some Unusual)
           (\<lambda>out. case out of
                    Parsed msg' s2 \<Rightarrow> merge_loop L cutoff field msg' s2
                  | Failure msg' s2 \<Rightarrow> Some (False, msg', s2)
                  | Unusual \<Rightarrow>
                      if tag = 0 \<or> GetTagWireType tag = WIRETYPE_END_GROUP
                      then Some (True, msg, s1)
                      else let r = SkipField L tag s1
                           in if fst r then merge_loop L cutoff field msg (snd r)
                              else Some (False, msg, snd r)))"

text \<open>\<open>ReadMessageNoVirtualNoRecursionDepth\<close> on the element that \<open>add_...()\<close> appended, for a
  parser \<open>merge\<close> of the element type.\<close>

definition ReadMessageNoVirtualNoRecursionDepth ::
    "pb_lib \<Rightarrow> ('m \<Rightarrow> cis \<Rightarrow> (bool \<times> 'm \<times> cis) option) \<Rightarrow> 'm \<Rightarrow> cis \<Rightarrow> (bool \<times> 'm \<times> cis) option" where
  "ReadMessageNoVirtualNoRecursionDepth L merge value s =
     (case ReadLengthAndPushLimit L s of
        (old_limit, s1) \<Rightarrow>
          (case merge value s1 of
             None \<Rightarrow> None
           | Some (False, value', s2) \<Rightarrow> Some (False, value', s2)
           | Some (True, value', s2) \<Rightarrow>
               (case CheckEntireMessageConsumedAndPopLimit L old_limit s2 of
                  (ok, s3) \<Rightarrow> Some (ok, value', s3))))"

text \<open>The case of a repeated message field: \<open>IncrementRecursionDepth\<close>, the read into the new
  element and \<open>UnsafeDecrementRecursionDepth\<close>.\<close>

definition message_case ::
    "pb_lib \<Rightarrow> ('e \<Rightarrow> cis \<Rightarrow> (bool \<times> 'e \<times> cis) option) \<Rightarrow> 'e \<Rightarrow> ('e \<Rightarrow> 'm) \<Rightarrow> 'm \<Rightarrow> cis \<Rightarrow> 'm outcome option" where
  "message_case L merge element upd msg s =
     (case IncrementRecursionDepth s of
        (False, s1) \<Rightarrow> Some (Failure msg s1)
      | (True, s1) \<Rightarrow>
          map_option (\<lambda>(ok, e, s2). if ok then Parsed (upd e) (UnsafeDecrementRecursionDepth s2)
                                    else Failure (upd e) s2)
            (ReadMessageNoVirtualNoRecursionDepth L merge element s1))"

text \<open>\<open>ParseFromArray\<close> as \<^verbatim>\<open>message_lite.h\<close> documents it: clear, merge, and check that the
  whole message was consumed; every message is initialised in proto3.\<close>

definition ParseFromArray ::
    "('m \<Rightarrow> 'm) \<Rightarrow> ('m \<Rightarrow> cis \<Rightarrow> (bool \<times> 'm \<times> cis) option) \<Rightarrow> bytes \<Rightarrow> 'm \<Rightarrow> (bool \<times> 'm) option" where
  "ParseFromArray clear merge data m =
     (case merge (clear m) (CodedInputStream data) of
        None \<Rightarrow> None
      | Some (ok, m', s) \<Rightarrow> Some (ok \<and> ConsumedEntireMessage s, m'))"

section \<open>Writing\<close>

function WriteVarint32ToArray :: "u32 \<Rightarrow> bytes" where
  "WriteVarint32ToArray v =
     (if 0x80 \<le> v then ucast (v OR 0x80) # WriteVarint32ToArray (drop_bit 7 v) else [ucast v])"
  by pat_completeness auto
termination
  by (relation "measure unat") (simp_all add: word_le_nat_alt unat_drop_7)

function WriteVarint64ToArray :: "u64 \<Rightarrow> bytes" where
  "WriteVarint64ToArray v =
     (if 0x80 \<le> v then ucast (v OR 0x80) # WriteVarint64ToArray (drop_bit 7 v) else [ucast v])"
  by pat_completeness auto
termination
  by (relation "measure unat") (simp_all add: word_le_nat_alt unat_drop_7)

declare WriteVarint32ToArray.simps [simp del] WriteVarint64ToArray.simps [simp del]

definition WriteTagToArray :: "nat \<Rightarrow> u32 \<Rightarrow> bytes" where
  "WriteTagToArray field_number type = WriteVarint32ToArray (MakeTag field_number type)"

definition WriteVarint32SignExtendedToArray :: "i32 \<Rightarrow> bytes" where
  "WriteVarint32SignExtendedToArray value = WriteVarint64ToArray (scast value)"

definition WriteInt32NoTagToArray :: "i32 \<Rightarrow> bytes" where
  "WriteInt32NoTagToArray value = WriteVarint32SignExtendedToArray value"

definition WriteInt64NoTagToArray :: "i64 \<Rightarrow> bytes" where
  "WriteInt64NoTagToArray value = WriteVarint64ToArray value"

definition WriteBoolNoTagToArray :: "bool \<Rightarrow> bytes" where
  "WriteBoolNoTagToArray value = WriteVarint32ToArray (if value then 1 else 0)"

definition WriteInt32ToArray :: "nat \<Rightarrow> i32 \<Rightarrow> bytes" where
  "WriteInt32ToArray field_number value =
     WriteTagToArray field_number WIRETYPE_VARINT @ WriteInt32NoTagToArray value"

definition WriteInt64ToArray :: "nat \<Rightarrow> i64 \<Rightarrow> bytes" where
  "WriteInt64ToArray field_number value =
     WriteTagToArray field_number WIRETYPE_VARINT @ WriteInt64NoTagToArray value"

definition WriteBoolToArray :: "nat \<Rightarrow> bool \<Rightarrow> bytes" where
  "WriteBoolToArray field_number value =
     WriteTagToArray field_number WIRETYPE_VARINT @ WriteBoolNoTagToArray value"

definition WriteStringToArray :: "pb_lib \<Rightarrow> nat \<Rightarrow> bytes \<Rightarrow> bytes" where
  "WriteStringToArray L field_number value =
     WriteTagToArray field_number WIRETYPE_LENGTH_DELIMITED @ WriteStringWithSizeToArray L value"

definition WriteBytesToArray :: "pb_lib \<Rightarrow> nat \<Rightarrow> bytes \<Rightarrow> bytes" where
  "WriteBytesToArray L field_number value =
     WriteTagToArray field_number WIRETYPE_LENGTH_DELIMITED @ WriteStringWithSizeToArray L value"

text \<open>\<open>InternalWriteMessageNoVirtualToArray\<close>, given the element's cached size and its bytes.\<close>

definition InternalWriteMessageNoVirtualToArray :: "nat \<Rightarrow> i32 \<Rightarrow> bytes \<Rightarrow> bytes" where
  "InternalWriteMessageNoVirtualToArray field_number cached_size body =
     WriteTagToArray field_number WIRETYPE_LENGTH_DELIMITED @ WriteVarint32ToArray cached_size @ body"

text \<open>The stream versions, which look at the space left in the buffer.\<close>

definition WriteVarint32 :: "pb_lib \<Rightarrow> nat \<Rightarrow> u32 \<Rightarrow> bytes" where
  "WriteVarint32 L buffer_size value =
     (if 5 \<le> buffer_size then WriteVarint32ToArray value else WriteVarint32SlowPath L value)"

definition WriteVarint64 :: "pb_lib \<Rightarrow> nat \<Rightarrow> u64 \<Rightarrow> bytes" where
  "WriteVarint64 L buffer_size value =
     (if 10 \<le> buffer_size then WriteVarint64ToArray value else WriteVarint64SlowPath L value)"

definition WriteTag :: "pb_lib \<Rightarrow> nat \<Rightarrow> nat \<Rightarrow> u32 \<Rightarrow> bytes" where
  "WriteTag L buffer_size field_number type = WriteVarint32 L buffer_size (MakeTag field_number type)"

definition WriteInt32NoTag :: "pb_lib \<Rightarrow> nat \<Rightarrow> i32 \<Rightarrow> bytes" where
  "WriteInt32NoTag L buffer_size value = WriteVarint64 L buffer_size (scast value)"

section \<open>Sizes\<close>

definition VarintSize32 :: "pb_lib \<Rightarrow> u32 \<Rightarrow> nat" where
  "VarintSize32 L value = (if value < 2 ^ 7 then 1 else VarintSize32Fallback L value)"

definition VarintSize32SignExtended :: "pb_lib \<Rightarrow> i32 \<Rightarrow> nat" where
  "VarintSize32SignExtended L value = (if sint value < 0 then 10 else VarintSize32 L value)"

definition Int32Size :: "pb_lib \<Rightarrow> i32 \<Rightarrow> nat" where
  "Int32Size L value = VarintSize32SignExtended L value"

definition Int64Size :: "pb_lib \<Rightarrow> i64 \<Rightarrow> nat" where
  "Int64Size L value = VarintSize64 L value"

definition LengthDelimitedSize :: "pb_lib \<Rightarrow> nat \<Rightarrow> nat" where
  "LengthDelimitedSize L len = len + VarintSize32 L (of_nat len)"

definition StringSize :: "pb_lib \<Rightarrow> bytes \<Rightarrow> nat" where
  "StringSize L value = LengthDelimitedSize L (length value)"

definition ToCachedSize :: "nat \<Rightarrow> i32" where
  "ToCachedSize n = of_nat n"

end
