(* ===== verification/WireSpec.thy ===== *)
theory WireSpec
  imports Wire
begin

text \<open>
  What the wire format promises.  \<open>venc\<close> and \<open>vdec\<close> are the base-128 varints of the
  encoding specification on natural numbers; the locale \<open>pb_runtime\<close> states the
  documented behaviour of the out-of-line runtime functions by means of them, and
  \<open>ref_lib\<close> is a complete runtime that has this behaviour.  \<open>consumes\<close> is the contract
  between a parse loop and a piece of serialised input; it composes along
  concatenation, which is how the generated parsers are verified field by field.
\<close>

section \<open>Varints\<close>

fun venc :: "nat \<Rightarrow> bytes" where
  "venc n = (if n < 128 then [of_nat n] else of_nat (128 + n mod 128) # venc (n div 128))"

declare venc.simps [simp del]

fun vdec :: "nat \<Rightarrow> bytes \<Rightarrow> (nat \<times> bytes) option" where
  "vdec 0 bs = None"
| "vdec (Suc k) [] = None"
| "vdec (Suc k) (b # bs) =
     (if b < 0x80 then Some (unat b, bs)
      else map_option (\<lambda>(v, rest). (unat b - 128 + 128 * v, rest)) (vdec k bs))"

lemma vdec_numeral [simp]:
  "vdec (numeral k) [] = None"
  "vdec (numeral k) (b # bs) =
     (if b < 0x80 then Some (unat b, bs)
      else map_option (\<lambda>(v, rest). (unat b - 128 + 128 * v, rest)) (vdec (pred_numeral k) bs))"
  by (simp_all only: numeral_eq_Suc vdec.simps)

lemma venc_small: "n < 128 \<Longrightarrow> venc n = [of_nat n]"
  by (subst venc.simps) simp

lemma vdec_venc: "n < 128 ^ Suc k \<Longrightarrow> vdec (Suc k) (venc n @ rest) = Some (n, rest)"
proof (induction k arbitrary: n)
  case 0
  then show ?case by (subst venc.simps) (simp add: word_less_nat_alt unat_of_nat_byte)
next
  case (Suc k)
  show ?case
  proof (cases "n < 128")
    case True
    then show ?thesis by (subst venc.simps) (simp add: word_less_nat_alt unat_of_nat_byte)
  next
    case False
    let ?b = "of_nat (128 + n mod 128) :: byte"
    have "n mod 128 < 128" by simp
    then have lt: "128 + n mod 128 < 256" by linarith
    have u: "unat ?b = 128 + n mod 128" by (rule unat_of_nat_byte [OF lt])
    have "\<not> ?b < 0x80" unfolding word_less_nat_alt u by simp
    moreover have "n div 128 < 128 ^ Suc k"
      using Suc.prems by (simp add: less_mult_imp_div_less mult.commute)
    ultimately show ?thesis using Suc.IH [of "n div 128"] False u
      by (subst venc.simps) (simp del: of_nat_add vdec.simps(3) add: vdec.simps(3) [of "Suc k"])
  qed
qed

lemma vdec_venc_10: "n < 2 ^ 64 \<Longrightarrow> vdec 10 (venc n @ rest) = Some (n, rest)"
proof -
  assume "n < 2 ^ 64"
  also have "(2 :: nat) ^ 64 \<le> 128 ^ Suc 9" by simp
  finally have "vdec (Suc 9) (venc n @ rest) = Some (n, rest)" by (rule vdec_venc)
  moreover have "Suc 9 = 10" by simp
  ultimately show ?thesis by (simp only:)
qed

lemma venc_not_Nil [simp]: "venc n \<noteq> []"
  by (subst venc.simps) simp

lemma vdec_length: "vdec k bs = Some (v, rest) \<Longrightarrow> length rest < length bs"
proof (induction k bs arbitrary: v rest rule: vdec.induct)
  case (3 k b bs)
  then show ?case by (cases "vdec k bs") (auto split: if_splits dest!: less_imp_le intro: le_imp_less_Suc)
qed simp_all

lemma length_venc: "n < 128 ^ Suc k \<Longrightarrow> 128 ^ k \<le> n \<Longrightarrow> length (venc n) = Suc k"
proof (induction k arbitrary: n)
  case (Suc k)
  have "n div 128 < 128 ^ Suc k"
    using Suc.prems(1) by (simp add: less_mult_imp_div_less mult.commute)
  moreover have "128 ^ k \<le> n div 128"
    using Suc.prems(2) by (simp add: less_eq_div_iff_mult_less_eq mult.commute)
  moreover have "\<not> n < 128"
  proof -
    have "(1 :: nat) \<le> 128 ^ k" by simp
    then have "(128 :: nat) \<le> 128 ^ Suc k" by simp
    then show ?thesis using Suc.prems(2) by linarith
  qed
  ultimately show ?case using Suc.IH [of "n div 128"] by (subst venc.simps) simp
qed (simp add: venc_small)

lemma length_venc_le: "n < 128 ^ Suc k \<Longrightarrow> length (venc n) \<le> Suc k"
proof (induction k arbitrary: n)
  case (Suc k)
  have "n div 128 < 128 ^ Suc k"
    using Suc.prems by (simp add: less_mult_imp_div_less mult.commute)
  from Suc.IH [OF this] show ?case by (subst venc.simps) simp
qed (simp add: venc_small)

lemma ucast_or_0x80:
  fixes v :: "'a::len word"
  assumes "unat (0x80 :: 'a word) = 128"
  shows "(ucast (v OR 0x80) :: byte) = of_nat (128 + unat v mod 128)"
proof -
  have "unat (v OR 0x80) = unat v OR 128"
    using assms by (simp only: unsigned_or_eq)
  then have "(ucast (v OR 0x80) :: byte) = of_nat (unat v OR 128)"
    by (metis of_nat_unat)
  then show ?thesis by (simp only: byte_or_128)
qed

lemma WriteVarint64ToArray_eq: "WriteVarint64ToArray v = venc (unat v)"
proof (induction v rule: WriteVarint64ToArray.induct)
  case (1 v)
  have c: "(0x80 \<le> v) = (\<not> unat v < 128)" by (simp add: word_le_nat_alt not_less)
  have b: "(ucast (v OR 0x80) :: byte) = of_nat (128 + unat v mod 128)"
    by (rule ucast_or_0x80) simp
  have d: "unat (drop_bit 7 v) = unat v div 128" unfolding unat_drop by simp
  show ?case
  proof (cases "unat v < 128")
    case True
    then show ?thesis
      by (subst WriteVarint64ToArray.simps) (simp only: c venc_small if_False not_True_eq_False of_nat_unat)
  next
    case False
    with 1 show ?thesis
      by (subst WriteVarint64ToArray.simps, subst venc.simps) (simp only: c b d not_False_eq_True if_True if_False)
  qed
qed

lemma WriteVarint32ToArray_eq: "WriteVarint32ToArray v = venc (unat v)"
proof (induction v rule: WriteVarint32ToArray.induct)
  case (1 v)
  have c: "(0x80 \<le> v) = (\<not> unat v < 128)" by (simp add: word_le_nat_alt not_less)
  have b: "(ucast (v OR 0x80) :: byte) = of_nat (128 + unat v mod 128)"
    by (rule ucast_or_0x80) simp
  have d: "unat (drop_bit 7 v) = unat v div 128" unfolding unat_drop by simp
  show ?case
  proof (cases "unat v < 128")
    case True
    then show ?thesis
      by (subst WriteVarint32ToArray.simps) (simp only: c venc_small if_False not_True_eq_False of_nat_unat)
  next
    case False
    with 1 show ?thesis
      by (subst WriteVarint32ToArray.simps, subst venc.simps) (simp only: c b d not_False_eq_True if_True if_False)
  qed
qed

section \<open>The documented runtime\<close>

definition cis_total :: "cis \<Rightarrow> nat" where
  "cis_total s = length (cis_buf s) + length (cis_hidden s)"

text \<open>The runtime reads at most 64 MB (\<open>kDefaultTotalBytesLimit\<close>).\<close>

definition within_limit :: "cis \<Rightarrow> bool" where
  "within_limit s \<longleftrightarrow> cis_total s \<le> 67108864"

definition first_byte :: "cis \<Rightarrow> u32" where
  "first_byte s = (case cis_buf s of [] \<Rightarrow> 0 | b # _ \<Rightarrow> ucast b)"

definition INT_MAX :: nat where
  "INT_MAX = 2147483647"

locale pb_runtime =
  fixes L :: pb_lib
  assumes varint32: "within_limit s \<Longrightarrow> vdec 10 (cis_buf s) = Some (v, rest) \<Longrightarrow>
      ReadVarint32Fallback L (first_byte s) s = (ucast (of_nat v :: u32), s\<lparr>cis_buf := rest\<rparr>)"
    and varint32_fail: "within_limit s \<Longrightarrow> vdec 10 (cis_buf s) = None \<Longrightarrow>
      ReadVarint32Fallback L (first_byte s) s = (r, s') \<Longrightarrow> sint r < 0 \<and> cis_total s' \<le> cis_total s"
    and varint64: "within_limit s \<Longrightarrow> vdec 10 (cis_buf s) = Some (v, rest) \<Longrightarrow>
      ReadVarint64Fallback L s = ((of_nat v, True), s\<lparr>cis_buf := rest\<rparr>)"
    and varint64_fail: "within_limit s \<Longrightarrow> vdec 10 (cis_buf s) = None \<Longrightarrow>
      \<not> snd (fst (ReadVarint64Fallback L s))"
    and varint_size: "within_limit s \<Longrightarrow> vdec 10 (cis_buf s) = Some (v, rest) \<Longrightarrow> v \<le> INT_MAX \<Longrightarrow>
      ReadVarintSizeAsIntFallback L s = (of_nat v, s\<lparr>cis_buf := rest\<rparr>)"
    and varint_size_fail: "within_limit s \<Longrightarrow>
      (\<And>v rest. vdec 10 (cis_buf s) = Some (v, rest) \<Longrightarrow> INT_MAX < v) \<Longrightarrow>
      sint (fst (ReadVarintSizeAsIntFallback L s)) < 0"
    and tag: "within_limit s \<Longrightarrow> vdec 10 (cis_buf s) = Some (v, rest) \<Longrightarrow>
      ReadTagFallback L (first_byte s) s = (of_nat v, s\<lparr>cis_buf := rest\<rparr>)"
    and tag_at_end: "within_limit s \<Longrightarrow> cis_buf s = [] \<Longrightarrow>
      ReadTagFallback L (first_byte s) s = (0, s\<lparr>cis_legit := True\<rparr>)"
    and tag_fail: "within_limit s \<Longrightarrow> cis_buf s \<noteq> [] \<Longrightarrow> vdec 10 (cis_buf s) = None \<Longrightarrow>
      ReadTagFallback L (first_byte s) s = (t, s') \<Longrightarrow>
      t = 0 \<and> cis_legit s' = cis_legit s \<and> cis_total s' \<le> cis_total s"
    and push: "within_limit s \<Longrightarrow> 0 \<le> sint n \<Longrightarrow>
      snd (PushLimit L n s) = s\<lparr>cis_buf := take (unat n) (cis_buf s),
                                 cis_hidden := drop (unat n) (cis_buf s) @ cis_hidden s\<rparr>"
    and push_total: "within_limit s \<Longrightarrow> cis_total (snd (PushLimit L n s)) = cis_total s"
    and pop: "within_limit s \<Longrightarrow> 0 \<le> sint n \<Longrightarrow> cis_hidden s' = drop (unat n) (cis_buf s) @ cis_hidden s \<Longrightarrow>
      \<exists>b. (b \<longrightarrow> cis_legit s) \<and> PopLimit L (fst (PushLimit L n s)) s' =
          s'\<lparr>cis_buf := cis_buf s' @ drop (unat n) (cis_buf s), cis_hidden := cis_hidden s, cis_legit := b\<rparr>"
    and pop_total: "within_limit s \<Longrightarrow> cis_total (PopLimit L limit s) = cis_total s"
    and until_limit: "within_limit s \<Longrightarrow> BytesUntilLimit L s = int (length (cis_buf s))"
    and bytes: "within_limit s \<Longrightarrow> vdec 10 (cis_buf s) = Some (v, rest) \<Longrightarrow> v \<le> INT_MAX \<Longrightarrow> v \<le> length rest \<Longrightarrow>
      ReadBytes L old s = ((True, take v rest), s\<lparr>cis_buf := drop v rest\<rparr>)"
    and bytes_fail: "within_limit s \<Longrightarrow>
      (\<And>v rest. vdec 10 (cis_buf s) = Some (v, rest) \<Longrightarrow> INT_MAX < v \<or> length rest < v) \<Longrightarrow>
      \<not> fst (fst (ReadBytes L old s))"
    and skip_varint: "within_limit s \<Longrightarrow> GetTagWireType t = 0 \<Longrightarrow> vdec 10 (cis_buf s) = Some (v, rest) \<Longrightarrow>
      SkipField L t s = (True, s\<lparr>cis_buf := rest\<rparr>)"
    and skip_delimited: "within_limit s \<Longrightarrow> GetTagWireType t = 2 \<Longrightarrow> vdec 10 (cis_buf s) = Some (v, rest) \<Longrightarrow>
      v \<le> INT_MAX \<Longrightarrow> v \<le> length rest \<Longrightarrow> SkipField L t s = (True, s\<lparr>cis_buf := drop v rest\<rparr>)"
    and skip_total: "within_limit s \<Longrightarrow> SkipField L t s = (True, s') \<Longrightarrow> cis_total s' \<le> cis_total s"
    and size32: "VarintSize32Fallback L x = length (venc (unat x))"
    and size64: "VarintSize64 L w = length (venc (unat w))"
    and string_with_size: "length str \<le> INT_MAX \<Longrightarrow>
      WriteStringWithSizeToArray L str = venc (length str) @ str"
    and stream_int32: "WriteInt32 L k x = WriteInt32ToArray k x"
    and stream_int64: "WriteInt64 L k w = WriteInt64ToArray k w"
    and stream_bool: "WriteBool L k c = WriteBoolToArray k c"
    and stream_string: "length str \<le> INT_MAX \<Longrightarrow> WriteStringMaybeAliased L k str =
      WriteTagToArray k WIRETYPE_LENGTH_DELIMITED @ venc (length str) @ str"
    and stream_bytes: "length str \<le> INT_MAX \<Longrightarrow> WriteBytesMaybeAliased L k str =
      WriteTagToArray k WIRETYPE_LENGTH_DELIMITED @ venc (length str) @ str"
    and stream_repeated: "length str \<le> INT_MAX \<Longrightarrow> WriteString L k str =
      WriteTagToArray k WIRETYPE_LENGTH_DELIMITED @ venc (length str) @ str"
    and slow32: "WriteVarint32SlowPath L x = WriteVarint32ToArray x"
    and slow64: "WriteVarint64SlowPath L w = WriteVarint64ToArray w"
    and size_repeated: "Int32SizeRepeated L vs = sum_list (map (\<lambda>v. length (venc (unat (scast v :: u64)))) vs)"
    and stream_message: "WriteMessageMaybeToArray L k n body body =
      WriteTagToArray k WIRETYPE_LENGTH_DELIMITED @ WriteVarint32ToArray n @ body"

text \<open>A runtime with this behaviour, for witnesses.  Its limits are the number of bytes that
  were hidden when they were pushed.\<close>

definition ref_lib :: pb_lib where
  "ref_lib = \<lparr>
     ReadVarint32Fallback = (\<lambda>_ s. case vdec 10 (cis_buf s) of
         Some (v, rest) \<Rightarrow> (ucast (of_nat v :: u32), s\<lparr>cis_buf := rest\<rparr>) | None \<Rightarrow> (- 1, s)),
     ReadVarint64Fallback = (\<lambda>s. case vdec 10 (cis_buf s) of
         Some (v, rest) \<Rightarrow> ((of_nat v, True), s\<lparr>cis_buf := rest\<rparr>) | None \<Rightarrow> ((0, False), s)),
     ReadVarintSizeAsIntFallback = (\<lambda>s. case vdec 10 (cis_buf s) of
         Some (v, rest) \<Rightarrow> if v \<le> INT_MAX then (of_nat v, s\<lparr>cis_buf := rest\<rparr>) else (- 1, s)
       | None \<Rightarrow> (- 1, s)),
     ReadTagFallback = (\<lambda>_ s. if cis_buf s = [] then (0, s\<lparr>cis_legit := True\<rparr>)
       else case vdec 10 (cis_buf s) of
              Some (v, rest) \<Rightarrow> (of_nat v, s\<lparr>cis_buf := rest\<rparr>) | None \<Rightarrow> (0, s)),
     PushLimit = (\<lambda>n s. (int (length (cis_hidden s)),
         if 0 \<le> sint n
         then s\<lparr>cis_buf := take (unat n) (cis_buf s),
                cis_hidden := drop (unat n) (cis_buf s) @ cis_hidden s\<rparr>
         else s)),
     PopLimit = (\<lambda>limit s.
         let k = length (cis_hidden s) - nat limit
         in s\<lparr>cis_buf := cis_buf s @ take k (cis_hidden s), cis_hidden := drop k (cis_hidden s),
              cis_legit := False\<rparr>),
     BytesUntilLimit = (\<lambda>s. int (length (cis_buf s))),
     ReadBytes = (\<lambda>old s. case vdec 10 (cis_buf s) of
         Some (v, rest) \<Rightarrow> if v \<le> INT_MAX \<and> v \<le> length rest
                           then ((True, take v rest), s\<lparr>cis_buf := drop v rest\<rparr>) else ((False, old), s)
       | None \<Rightarrow> ((False, old), s)),
     VerifyUtf8String = (\<lambda>str. list_all (\<lambda>b. b < 0x80) str),
     SkipField = (\<lambda>t s. case vdec 10 (cis_buf s) of
         Some (v, rest) \<Rightarrow>
           if GetTagWireType t = 0 then (True, s\<lparr>cis_buf := rest\<rparr>)
           else if GetTagWireType t = 2 \<and> v \<le> INT_MAX \<and> v \<le> length rest
           then (True, s\<lparr>cis_buf := drop v rest\<rparr>) else (False, s)
       | None \<Rightarrow> (False, s)),
     RepeatedSpare = (\<lambda>n. if n \<le> 4 then 4 - n else 0),
     VarintSize32Fallback = (\<lambda>v. length (venc (unat v))),
     VarintSize64 = (\<lambda>v. length (venc (unat v))),
     WriteStringWithSizeToArray = (\<lambda>str. venc (length str) @ str),
     WriteInt32 = WriteInt32ToArray,
     WriteInt64 = WriteInt64ToArray,
     WriteBool = WriteBoolToArray,
     WriteStringMaybeAliased = (\<lambda>k str. WriteTagToArray k WIRETYPE_LENGTH_DELIMITED @ venc (length str) @ str),
     WriteBytesMaybeAliased = (\<lambda>k str. WriteTagToArray k WIRETYPE_LENGTH_DELIMITED @ venc (length str) @ str),
     WriteString = (\<lambda>k str. WriteTagToArray k WIRETYPE_LENGTH_DELIMITED @ venc (length str) @ str),
     WriteVarint32SlowPath = WriteVarint32ToArray,
     WriteVarint64SlowPath = WriteVarint64ToArray,
     Int32SizeRepeated = (\<lambda>vs. sum_list (map (\<lambda>v. length (venc (unat (scast v :: u64)))) vs)),
     WriteMessageMaybeToArray = (\<lambda>k n body _. WriteTagToArray k WIRETYPE_LENGTH_DELIMITED @ WriteVarint32ToArray n @ body)\<rparr>"

lemma ref_lib_pop:
  assumes "0 \<le> sint n" "cis_hidden s' = drop (unat n) (cis_buf s) @ cis_hidden s"
  shows "\<exists>b. (b \<longrightarrow> cis_legit s) \<and> PopLimit ref_lib (fst (PushLimit ref_lib n s)) s' =
    s'\<lparr>cis_buf := cis_buf s' @ drop (unat n) (cis_buf s), cis_hidden := cis_hidden s, cis_legit := b\<rparr>"
  using assms by (intro exI [of _ False]) (simp add: ref_lib_def Let_def)

lemma ref_lib_runtime: "pb_runtime ref_lib"
proof unfold_locales
  fix n :: i32 and s s' :: cis
  assume "0 \<le> sint n" "cis_hidden s' = drop (unat n) (cis_buf s) @ cis_hidden s"
  then show "\<exists>b. (b \<longrightarrow> cis_legit s) \<and> PopLimit ref_lib (fst (PushLimit ref_lib n s)) s' =
    s'\<lparr>cis_buf := cis_buf s' @ drop (unat n) (cis_buf s), cis_hidden := cis_hidden s, cis_legit := b\<rparr>"
    by (rule ref_lib_pop)
qed (auto simp: ref_lib_def cis_total_def Let_def INT_MAX_def split: option.splits if_splits,
      (drule vdec_length, simp)+)

interpretation ref: pb_runtime ref_lib
  by (rule ref_lib_runtime)

section \<open>The inline readers\<close>

lemma first_byte_simps [simp]:
  "cis_buf s = [] \<Longrightarrow> first_byte s = 0"
  "cis_buf s = b # bs \<Longrightarrow> first_byte s = ucast b"
  by (simp_all add: first_byte_def)

lemma ucast_byte_small: "(ucast (b :: byte) < (0x80 :: u32)) = (b < 0x80)"
  by (simp add: word_less_nat_alt unat_ucast_up)

lemma within_limit_le: "within_limit s \<Longrightarrow> cis_total s' \<le> cis_total s \<Longrightarrow> within_limit s'"
  by (simp add: within_limit_def)

lemma venc_head:
  assumes "venc n @ rest = b # bs"
  shows "b < 0x80 \<longleftrightarrow> n < 128"
proof (cases "n < 128")
  case True
  then show ?thesis using assms by (auto simp: venc_small word_less_nat_alt unat_of_nat_byte)
next
  case False
  have "n mod 128 < 128" by simp
  then have "unat (of_nat (128 + n mod 128) :: byte) = 128 + n mod 128"
    by (intro unat_of_nat_byte) linarith
  moreover have "b = of_nat (128 + n mod 128)"
    using False assms by (subst (asm) venc.simps) (simp del: of_nat_add)
  ultimately show ?thesis using False by (simp only: word_less_nat_alt) simp
qed

lemma venc_one_byte:
  assumes "cis_buf s = venc n @ rest" "cis_buf s = b # bs" "b < 0x80"
  shows "n = unat b" "bs = rest" "(ucast b :: 'a::len word) = of_nat n"
proof -
  have n: "n < 128" using venc_head [of n rest b bs] assms by simp
  then show "n = unat b" "bs = rest"
    using assms(1,2) by (auto simp: venc_small unat_of_nat_byte)
  then show "(ucast b :: 'a::len word) = of_nat n" by simp
qed

lemma venc_buf_cases:
  assumes "cis_buf s = venc n @ rest"
  obtains b bs where "cis_buf s = b # bs"
  using assms by (cases "venc n") simp_all

context pb_runtime
begin

lemma read_varint32:
  assumes "within_limit s" "cis_buf s = venc n @ rest" "n < 2 ^ 64"
  shows "ReadVarint32 L s = ((True, of_nat n), s\<lparr>cis_buf := rest\<rparr>)"
proof -
  have v: "vdec 10 (cis_buf s) = Some (n, rest)"
    unfolding assms(2) by (rule vdec_venc_10 [OF assms(3)])
  obtain b bs where b: "cis_buf s = b # bs" using assms(2) by (rule venc_buf_cases)
  show ?thesis
  proof (cases "b < 0x80")
    case True
    with venc_one_byte [OF assms(2) b True] b show ?thesis
      by (simp add: ReadVarint32_def ucast_byte_small Advance_def)
  next
    case False
    then show ?thesis using b varint32 [OF assms(1) v]
      by (simp add: ReadVarint32_def ucast_byte_small)
  qed
qed

lemma read_varint64:
  assumes "within_limit s" "cis_buf s = venc n @ rest" "n < 2 ^ 64"
  shows "ReadVarint64 L s = ((True, of_nat n), s\<lparr>cis_buf := rest\<rparr>)"
proof -
  have v: "vdec 10 (cis_buf s) = Some (n, rest)"
    unfolding assms(2) by (rule vdec_venc_10 [OF assms(3)])
  obtain b bs where b: "cis_buf s = b # bs" using assms(2) by (rule venc_buf_cases)
  show ?thesis
  proof (cases "b < 0x80")
    case True
    with venc_one_byte [OF assms(2) b True] b show ?thesis
      by (simp add: ReadVarint64_def Advance_def)
  next
    case False
    then show ?thesis using b varint64 [OF assms(1) v] by (simp add: ReadVarint64_def)
  qed
qed

lemma sint_of_nat_i32: "n \<le> INT_MAX \<Longrightarrow> sint (of_nat n :: i32) = int n"
  by (subst sint_small) (simp_all add: INT_MAX_def unat_of_nat_u32)

lemma read_size:
  assumes "within_limit s" "cis_buf s = venc n @ rest" "n \<le> INT_MAX"
  shows "ReadVarintSizeAsInt L s = ((True, of_nat n), s\<lparr>cis_buf := rest\<rparr>)"
proof -
  have v: "vdec 10 (cis_buf s) = Some (n, rest)"
    unfolding assms(2) by (rule vdec_venc_10) (use assms(3) in \<open>simp add: INT_MAX_def\<close>)
  obtain b bs where b: "cis_buf s = b # bs" using assms(2) by (rule venc_buf_cases)
  show ?thesis
  proof (cases "b < 0x80")
    case True
    with venc_one_byte [OF assms(2) b True] b show ?thesis
      by (simp add: ReadVarintSizeAsInt_def Advance_def)
  next
    case False
    then show ?thesis using b varint_size [OF assms(1) v assms(3)] sint_of_nat_i32 [OF assms(3)]
      by (simp add: ReadVarintSizeAsInt_def)
  qed
qed

lemma read_tag_end:
  assumes "within_limit s" "cis_buf s = []"
  shows "ReadTagWithCutoffNoLastTag L cutoff s = ((0, False), s\<lparr>cis_legit := True\<rparr>)"
  using tag_at_end [OF assms] assms(2)
  by (simp add: ReadTagWithCutoffNoLastTag_def word_order.extremum_strict)

lemma read_tag:
  assumes w: "within_limit s" and b: "cis_buf s = venc n @ rest"
    and n: "0 < n" "n < 2 ^ 14" "n \<le> unat cutoff"
  shows "ReadTagWithCutoffNoLastTag L cutoff s = ((of_nat n, True), s\<lparr>cis_buf := rest\<rparr>)"
proof -
  have le: "(of_nat n :: u32) \<le> cutoff"
    using n by (simp add: word_le_nat_alt unat_of_nat_u32)
  show ?thesis
  proof (cases "n < 128")
    case True
    then have "unat (of_nat n :: byte) = n" by (simp add: unat_of_nat_byte)
    note u = this
    have "(of_nat n :: byte) < 0x80" using True u by (simp add: word_less_nat_alt)
    moreover have "(of_nat n :: byte) \<noteq> 0" using n(1) u by (metis unat_0 less_not_refl)
    moreover have "(ucast (of_nat n :: byte) :: u32) = of_nat n"
      using u of_nat_unat [of "of_nat n :: byte", where 'a = u32] by simp
    ultimately show ?thesis using b True le
      by (simp add: venc_small ReadTagWithCutoffNoLastTag_def byte_pos Advance_def)
  next
    case False
    let ?b0 = "of_nat (128 + n mod 128) :: byte" and ?b1 = "of_nat (n div 128) :: byte"
    have "n mod 128 < 128" by simp
    then have u0: "unat ?b0 = 128 + n mod 128" by (intro unat_of_nat_byte) linarith
    have d: "n div 128 < 128" using n(2) by simp
    then have u1: "unat ?b1 = n div 128" by (intro unat_of_nat_byte) simp
    have buf: "cis_buf s = ?b0 # ?b1 # rest"
      using False d b by (subst (asm) venc.simps) (simp add: venc_small del: of_nat_add)
    have "\<not> 0 < sint ?b0" unfolding byte_pos word_less_nat_alt u0 by simp
    moreover have "0x80 \<le> (?b0 AND NOT ?b1)"
      by (rule two_byte_bits) (simp_all only: u0 u1 d le_add1)
    moreover have "0x80 \<le> cutoff" using False n(3) by (simp add: word_le_nat_alt)
    moreover have "2 ^ 7 * ucast ?b1 + (ucast ?b0 - 0x80) = (of_nat n :: u32)"
    proof -
      have uc: "(ucast c :: u32) = of_nat (unat c)" for c :: byte by (rule of_nat_unat [symmetric])
      have "(ucast ?b1 :: u32) = of_nat (n div 128)" "(ucast ?b0 :: u32) = of_nat (128 + n mod 128)"
        by (simp_all only: uc u0 u1)
      moreover have "128 * of_nat (n div 128) + of_nat (n mod 128) = (of_nat n :: u32)"
      proof -
        have "of_nat (128 * (n div 128) + n mod 128) = (of_nat n :: u32)"
          by (simp only: mult_div_mod_eq)
        then show ?thesis by (simp only: of_nat_add of_nat_mult of_nat_numeral)
      qed
      ultimately show ?thesis by simp
    qed
    ultimately show ?thesis using buf le
      by (simp add: ReadTagWithCutoffNoLastTag_def Let_def Advance_def del: of_nat_add)
  qed
qed

lemma read_tag_above:
  assumes w: "within_limit s" and b: "cis_buf s = venc n @ rest" and n: "128 \<le> n" "n < 2 ^ 32"
  shows "ReadTagWithCutoffNoLastTag L 127 s = ((of_nat n, False), s\<lparr>cis_buf := rest\<rparr>)"
proof -
  have v: "vdec 10 (cis_buf s) = Some (n, rest)"
    unfolding b by (rule vdec_venc_10) (use n in simp)
  obtain b0 bs where b0: "cis_buf s = b0 # bs" using b by (rule venc_buf_cases)
  have "\<not> b0 < 0x80" using venc_head [of n rest b0 bs] b b0 n by simp
  then have "\<not> 0 < sint b0" by (simp add: byte_pos)
  moreover have "\<not> of_nat n - 1 < (127 :: u32)"
  proof -
    have "(1 :: u32) \<le> of_nat n" using n by (simp add: word_le_nat_alt unat_of_nat_u32)
    then show ?thesis using n by (simp add: word_less_nat_alt unat_sub unat_of_nat_u32)
  qed
  ultimately show ?thesis using tag [OF w v] b0
    by (auto simp: ReadTagWithCutoffNoLastTag_def split: list.split)
qed

lemma read_bytes:
  assumes w: "within_limit s" and b: "cis_buf s = venc (length str) @ str @ rest" and n: "length str \<le> INT_MAX"
  shows "ReadBytes L old s = ((True, str), s\<lparr>cis_buf := rest\<rparr>)"
proof -
  have v: "vdec 10 (cis_buf s) = Some (length str, str @ rest)"
    unfolding b by (rule vdec_venc_10) (use n in \<open>simp add: INT_MAX_def\<close>)
  show ?thesis using bytes [OF w v n] by simp
qed

end

end
