(* ===== verification/Codec.thy ===== *)
theory Codec
  imports WireSpec
begin

text \<open>
  The contract of a message class, stated once.  \<open>consumes\<close> relates one piece of
  serialised input to the update it makes, for the parse loop of any message; it is
  closed under concatenation, optional fields and repeated fields, so that a parser is
  verified by composing the pieces its serialiser writes.  The locale \<open>message_codec\<close> is
  what a class promises to the classes that embed it and to the program: its parser
  takes the serialisation of \<open>m\<close> to the effect of \<open>MergeFrom (m)\<close>.  The round trip, the
  parsing of concatenated messages and the embedding as a length-delimited field are
  proved from it once.
\<close>

section \<open>Pieces of input\<close>

definition consumes ::
    "pb_lib \<Rightarrow> u32 \<Rightarrow> (u32 \<Rightarrow> 'm \<Rightarrow> cis \<Rightarrow> 'm outcome option) \<Rightarrow> int \<Rightarrow> bytes \<Rightarrow> ('m \<Rightarrow> 'm) \<Rightarrow> bool" where
  "consumes L cutoff field depth enc upd \<longleftrightarrow>
     (\<forall>m s rest. within_limit s \<longrightarrow> depth \<le> cis_budget s \<longrightarrow> cis_buf s = enc @ rest \<longrightarrow>
        (\<exists>b. (b \<longrightarrow> cis_legit s) \<and> merge_loop L cutoff field m s =
             merge_loop L cutoff field (upd m) (s\<lparr>cis_buf := rest, cis_legit := b\<rparr>)))"

lemma consumesI:
  assumes "\<And>m s rest. within_limit s \<Longrightarrow> depth \<le> cis_budget s \<Longrightarrow> cis_buf s = enc @ rest \<Longrightarrow>
     \<exists>b. (b \<longrightarrow> cis_legit s) \<and> merge_loop L cutoff field m s =
         merge_loop L cutoff field (upd m) (s\<lparr>cis_buf := rest, cis_legit := b\<rparr>)"
  shows "consumes L cutoff field depth enc upd"
  using assms by (simp add: consumes_def)

lemma consumesD:
  assumes "consumes L cutoff field depth enc upd"
    "within_limit s" "depth \<le> cis_budget s" "cis_buf s = enc @ rest"
  obtains b where "b \<longrightarrow> cis_legit s" "merge_loop L cutoff field m s =
         merge_loop L cutoff field (upd m) (s\<lparr>cis_buf := rest, cis_legit := b\<rparr>)"
  using assms unfolding consumes_def by blast

lemma within_limit_rest [simp]:
  "within_limit s \<Longrightarrow> cis_buf s = enc @ rest \<Longrightarrow> within_limit (s\<lparr>cis_buf := rest, cis_legit := b\<rparr>)"
  "within_limit s \<Longrightarrow> cis_buf s = enc @ rest \<Longrightarrow> within_limit (s\<lparr>cis_buf := rest\<rparr>)"
  by (simp_all add: within_limit_def cis_total_def)

lemma consumes_Nil [wire_intros]: "consumes L cutoff field depth [] (\<lambda>m. m)"
proof (rule consumesI)
  fix m and s :: cis and rest
  assume "cis_buf s = [] @ rest"
  then have "s\<lparr>cis_buf := rest, cis_legit := cis_legit s\<rparr> = s" by simp
  then show "\<exists>b. (b \<longrightarrow> cis_legit s) \<and> merge_loop L cutoff field m s =
      merge_loop L cutoff field m (s\<lparr>cis_buf := rest, cis_legit := b\<rparr>)" by metis
qed

lemma consumes_append [wire_intros]:
  assumes "consumes L cutoff field depth e1 u1" "consumes L cutoff field depth e2 u2"
  shows "consumes L cutoff field depth (e1 @ e2) (\<lambda>m. u2 (u1 m))"
proof (rule consumesI)
  fix m and s :: cis and rest
  assume s: "within_limit s" "depth \<le> cis_budget s" "cis_buf s = (e1 @ e2) @ rest"
  then have b1: "cis_buf s = e1 @ (e2 @ rest)" by simp
  obtain b where 1: "b \<longrightarrow> cis_legit s" "merge_loop L cutoff field m s =
      merge_loop L cutoff field (u1 m) (s\<lparr>cis_buf := e2 @ rest, cis_legit := b\<rparr>)"
    using consumesD [OF assms(1) s(1,2) b1] by blast
  let ?s1 = "s\<lparr>cis_buf := e2 @ rest, cis_legit := b\<rparr>"
  obtain b' where "b' \<longrightarrow> cis_legit ?s1" "merge_loop L cutoff field (u1 m) ?s1 =
      merge_loop L cutoff field (u2 (u1 m)) (?s1\<lparr>cis_buf := rest, cis_legit := b'\<rparr>)"
    by (rule consumesD [OF assms(2), of ?s1 rest]) (use s b1 in simp_all)
  with 1 show "\<exists>b. (b \<longrightarrow> cis_legit s) \<and> merge_loop L cutoff field m s =
      merge_loop L cutoff field (u2 (u1 m)) (s\<lparr>cis_buf := rest, cis_legit := b\<rparr>)" by auto
qed

lemma consumes_if [wire_intros]:
  assumes "c \<Longrightarrow> consumes L cutoff field depth e u"
  shows "consumes L cutoff field depth (if c then e else []) (\<lambda>m. if c then u m else m)"
  using assms consumes_Nil by (cases c) simp_all

lemma consumes_concat [wire_intros]:
  assumes "\<And>x. x \<in> set xs \<Longrightarrow> consumes L cutoff field depth (e x) (u x)"
  shows "consumes L cutoff field depth (concat (map e xs)) (fold u xs)"
  using assms
proof (induction xs)
  case Nil
  then show ?case using consumes_Nil by (simp add: id_def)
next
  case (Cons x xs)
  then have "consumes L cutoff field depth (e x @ concat (map e xs)) (\<lambda>m. fold u xs (u x m))"
    by (intro consumes_append) simp_all
  then show ?case by (simp add: comp_def)
qed

lemma consumes_cong:
  "consumes L cutoff field depth enc upd \<Longrightarrow> (\<And>m. upd m = upd' m) \<Longrightarrow> consumes L cutoff field depth enc upd'"
  by (simp add: consumes_def)

context pb_runtime
begin

lemma consumes_field:
  assumes n: "0 < n" "n < 2 ^ 14" "n \<le> unat cutoff"
    and field: "\<And>m s rest. within_limit s \<Longrightarrow> depth \<le> cis_budget s \<Longrightarrow> cis_buf s = body @ rest \<Longrightarrow>
      \<exists>b. (b \<longrightarrow> cis_legit s) \<and> field (of_nat n) m s = Some (Parsed (upd m) (s\<lparr>cis_buf := rest, cis_legit := b\<rparr>))"
  shows "consumes L cutoff field depth (venc n @ body) upd"
proof (rule consumesI)
  fix m and s :: cis and rest
  assume s: "within_limit s" "depth \<le> cis_budget s" "cis_buf s = (venc n @ body) @ rest"
  then have b: "cis_buf s = venc n @ (body @ rest)" by simp
  let ?s1 = "s\<lparr>cis_buf := body @ rest\<rparr>"
  obtain b where "b \<longrightarrow> cis_legit s" "field (of_nat n) m ?s1 = Some (Parsed (upd m) (?s1\<lparr>cis_buf := rest, cis_legit := b\<rparr>))"
    using field [of ?s1 rest m] s(2) within_limit_rest(2) [OF s(1) b] by auto
  then show "\<exists>b. (b \<longrightarrow> cis_legit s) \<and> merge_loop L cutoff field m s =
      merge_loop L cutoff field (upd m) (s\<lparr>cis_buf := rest, cis_legit := b\<rparr>)"
    by (subst merge_loop.simps) (auto simp: read_tag [OF s(1) b n])
qed

lemma merge_loop_end:
  assumes "within_limit s" "cis_buf s = []"
  shows "merge_loop L cutoff field m s = Some (True, m, s\<lparr>cis_legit := True\<rparr>)"
  by (subst merge_loop.simps) (simp add: read_tag_end [OF assms])

end

section \<open>Fields\<close>

lemma ucast_scast_i32: "(ucast (scast v :: u64) :: i32) = v" for v :: i32
  by transfer (simp add: take_bit_signed_take_bit)

lemma of_nat_scast_i32: "(of_nat (unat (scast v :: u64)) :: i32) = v"
  by (simp only: of_nat_unat ucast_scast_i32)

lemma unat_u64_bound: "unat (w :: u64) < 2 ^ 64"
  using unsigned_less [of w] by simp

lemma WriteTagToArray_eq: "WriteTagToArray k t = venc (unat (MakeTag k t))"
  by (simp add: WriteTagToArray_def WriteVarint32ToArray_eq)

lemma WriteInt32NoTagToArray_eq: "WriteInt32NoTagToArray v = venc (unat (scast v :: u64))"
  by (simp add: WriteInt32NoTagToArray_def WriteVarint32SignExtendedToArray_def WriteVarint64ToArray_eq)

lemma write_array_simps [wire_simps]:
  "WriteInt32ToArray k v = venc (unat (MakeTag k WIRETYPE_VARINT)) @ venc (unat (scast v :: u64))"
  "WriteInt64ToArray k w = venc (unat (MakeTag k WIRETYPE_VARINT)) @ venc (unat w)"
  "WriteBoolToArray k b = venc (unat (MakeTag k WIRETYPE_VARINT)) @ venc (if b then 1 else 0)"
  by (simp_all add: WriteInt32ToArray_def WriteInt64ToArray_def WriteBoolToArray_def WriteTagToArray_eq
      WriteInt32NoTagToArray_eq WriteInt64NoTagToArray_def WriteBoolNoTagToArray_def
      WriteVarint64ToArray_eq WriteVarint32ToArray_eq)

lemma make_tag_simps [wire_simps]:
  "MakeTag k WIRETYPE_VARINT = push_bit 3 (of_nat k)"
  "MakeTag k WIRETYPE_LENGTH_DELIMITED = push_bit 3 (of_nat k) OR 2"
  by (simp_all add: MakeTag_def WIRETYPE_VARINT_def WIRETYPE_LENGTH_DELIMITED_def)

context pb_runtime
begin

lemma write_string_simps [wire_simps]:
  assumes "length str \<le> INT_MAX"
  shows "WriteStringToArray L k str =
      venc (unat (MakeTag k WIRETYPE_LENGTH_DELIMITED)) @ venc (length str) @ str"
    and "WriteBytesToArray L k str =
      venc (unat (MakeTag k WIRETYPE_LENGTH_DELIMITED)) @ venc (length str) @ str"
  using string_with_size [OF assms]
  by (simp_all add: WriteStringToArray_def WriteBytesToArray_def WriteTagToArray_eq)

lemma stream_eq_array:
  "WriteInt32 L k v = WriteInt32ToArray k v"
  "WriteInt64 L k w = WriteInt64ToArray k w"
  "WriteBool L k b = WriteBoolToArray k b"
  "length str \<le> INT_MAX \<Longrightarrow> WriteStringMaybeAliased L k str = WriteStringToArray L k str"
  "length str \<le> INT_MAX \<Longrightarrow> WriteBytesMaybeAliased L k str = WriteBytesToArray L k str"
  "length str \<le> INT_MAX \<Longrightarrow> WriteString L k str = WriteStringToArray L k str"
  "WriteVarint32 L n x = WriteVarint32ToArray x"
  "WriteTag L n k t = WriteTagToArray k t"
  "WriteInt32NoTag L n v = WriteInt32NoTagToArray v"
  by (simp_all add: stream_int32 stream_int64 stream_bool stream_string stream_bytes stream_repeated
      string_with_size WriteStringToArray_def WriteBytesToArray_def WriteVarint32_def slow32 slow64
      WriteTag_def WriteTagToArray_def WriteInt32NoTag_def WriteInt32NoTagToArray_def WriteVarint64_def
      WriteVarint32SignExtendedToArray_def)

text \<open>Sizes are lengths of encodings.\<close>

lemma VarintSize32_eq: "VarintSize32 L v = length (venc (unat v))"
  by (simp add: VarintSize32_def size32 venc_small word_less_nat_alt)

lemma Int32Size_eq: "Int32Size L v = length (venc (unat (scast v :: u64)))"
proof (cases "sint v < 0")
  case True
  have "unat (scast v :: u64) < 128 ^ Suc 9"
    using unat_u64_bound [of "scast v"] by simp
  moreover have "128 ^ 9 \<le> unat (scast v :: u64)"
    using unat_scast_neg [OF True] by simp
  ultimately show ?thesis using True length_venc [of "unat (scast v :: u64)" 9]
    by (simp add: Int32Size_def VarintSize32SignExtended_def)
next
  case False
  then have "unat (scast v :: u64) = unat v"
    by (rule unat_scast_nonneg)
  with False show ?thesis
    by (simp add: Int32Size_def VarintSize32SignExtended_def VarintSize32_eq)
qed

lemma Int64Size_eq: "Int64Size L w = length (venc (unat w))"
  by (simp add: Int64Size_def size64)

lemma StringSize_eq: "length str \<le> INT_MAX \<Longrightarrow> StringSize L str = length (venc (length str)) + length str"
  by (simp add: StringSize_def LengthDelimitedSize_def VarintSize32_eq unat_of_nat_u32 INT_MAX_def)

text \<open>Each case of a switch consumes what the serialiser writes for it.\<close>

lemma consumes_int32:
  assumes "0 < n" "n < 2 ^ 14" "n \<le> unat cutoff"
    and "\<And>m s. field (of_nat n) m s = int32_case L (get m) (\<lambda>v. upd v m) s"
  shows "consumes L cutoff field depth (venc n @ venc (unat (scast v :: u64))) (upd v)"
  using assms(1-3)
proof (rule consumes_field)
  fix m and s :: cis and rest
  assume s: "within_limit s" "cis_buf s = venc (unat (scast v :: u64)) @ rest"
  have "field (of_nat n) m s = Some (Parsed (upd v m) (s\<lparr>cis_buf := rest, cis_legit := cis_legit s\<rparr>))"
    using read_varint32 [OF s unat_u64_bound]
    by (simp add: assms(4) int32_case_def ReadPrimitive_int32_def of_nat_scast_i32 ucast_scast_i32)
  then show "\<exists>b. (b \<longrightarrow> cis_legit s) \<and> field (of_nat n) m s = Some (Parsed (upd v m) (s\<lparr>cis_buf := rest, cis_legit := b\<rparr>))" by blast
qed

lemma consumes_int64:
  assumes "0 < n" "n < 2 ^ 14" "n \<le> unat cutoff"
    and "\<And>m s. field (of_nat n) m s = int64_case L (get m) (\<lambda>v. upd v m) s"
  shows "consumes L cutoff field depth (venc n @ venc (unat w)) (upd w)"
  using assms(1-3)
proof (rule consumes_field)
  fix m and s :: cis and rest
  assume s: "within_limit s" "cis_buf s = venc (unat w) @ rest"
  have "field (of_nat n) m s = Some (Parsed (upd w m) (s\<lparr>cis_buf := rest, cis_legit := cis_legit s\<rparr>))"
    using read_varint64 [OF s unat_u64_bound]
    by (simp add: assms(4) int64_case_def ReadPrimitive_int64_def)
  then show "\<exists>b. (b \<longrightarrow> cis_legit s) \<and> field (of_nat n) m s = Some (Parsed (upd w m) (s\<lparr>cis_buf := rest, cis_legit := b\<rparr>))" by blast
qed

lemma consumes_bool:
  assumes "0 < n" "n < 2 ^ 14" "n \<le> unat cutoff"
    and "\<And>m s. field (of_nat n) m s = bool_case L (get m) (\<lambda>v. upd v m) s"
  shows "consumes L cutoff field depth (venc n @ venc (if c then 1 else 0)) (upd c)"
  using assms(1-3)
proof (rule consumes_field)
  fix m and s :: cis and rest
  assume s: "within_limit s" "cis_buf s = venc (if c then 1 else 0) @ rest"
  have "field (of_nat n) m s = Some (Parsed (upd c m) (s\<lparr>cis_buf := rest, cis_legit := cis_legit s\<rparr>))"
    using read_varint64 [OF s] by (cases c) (simp_all add: assms(4) bool_case_def ReadPrimitive_bool_def)
  then show "\<exists>b. (b \<longrightarrow> cis_legit s) \<and> field (of_nat n) m s = Some (Parsed (upd c m) (s\<lparr>cis_buf := rest, cis_legit := b\<rparr>))" by blast
qed

lemma consumes_bytes:
  assumes "0 < n" "n < 2 ^ 14" "n \<le> unat cutoff" "length str \<le> INT_MAX"
    and "\<And>m s. field (of_nat n) m s = bytes_case L (get m) (\<lambda>v. upd v m) s"
  shows "consumes L cutoff field depth (venc n @ venc (length str) @ str) (upd str)"
  using assms(1-3)
proof (rule consumes_field)
  fix m and s :: cis and rest
  assume s: "within_limit s" "cis_buf s = (venc (length str) @ str) @ rest"
  have "field (of_nat n) m s = Some (Parsed (upd str m) (s\<lparr>cis_buf := rest, cis_legit := cis_legit s\<rparr>))"
    using read_bytes [OF s(1) _ assms(4)] s(2) by (simp add: assms(5) bytes_case_def)
  then show "\<exists>b. (b \<longrightarrow> cis_legit s) \<and> field (of_nat n) m s = Some (Parsed (upd str m) (s\<lparr>cis_buf := rest, cis_legit := b\<rparr>))" by blast
qed

lemma consumes_string:
  assumes "0 < n" "n < 2 ^ 14" "n \<le> unat cutoff" "length str \<le> INT_MAX" "VerifyUtf8String L str"
    and "\<And>m s. field (of_nat n) m s = string_case L (get m) (\<lambda>v. upd v m) s"
  shows "consumes L cutoff field depth (venc n @ venc (length str) @ str) (upd str)"
  using assms(1-3)
proof (rule consumes_field)
  fix m and s :: cis and rest
  assume s: "within_limit s" "cis_buf s = (venc (length str) @ str) @ rest"
  have "field (of_nat n) m s = Some (Parsed (upd str m) (s\<lparr>cis_buf := rest, cis_legit := cis_legit s\<rparr>))"
    using read_bytes [OF s(1) _ assms(4)] s(2) assms(5) by (simp add: assms(6) string_case_def)
  then show "\<exists>b. (b \<longrightarrow> cis_legit s) \<and> field (of_nat n) m s = Some (Parsed (upd str m) (s\<lparr>cis_buf := rest, cis_legit := b\<rparr>))" by blast
qed

end

section \<open>The contract of a message class\<close>

locale message_codec = pb_runtime L for L +
  fixes merge :: "'m \<Rightarrow> cis \<Rightarrow> (bool \<times> 'm \<times> cis) option"
    and ser :: "'m \<Rightarrow> bytes"
    and merge_from :: "'m \<Rightarrow> 'm \<Rightarrow> 'm"
    and valid :: "'m \<Rightarrow> bool"
    and depth :: int
  assumes merge_step: "valid x \<Longrightarrow> within_limit s \<Longrightarrow> depth \<le> cis_budget s \<Longrightarrow> cis_buf s = ser x @ rest \<Longrightarrow>
      \<exists>b. (b \<longrightarrow> cis_legit s) \<and> merge m s = merge (merge_from m x) (s\<lparr>cis_buf := rest, cis_legit := b\<rparr>)"
    and merge_end: "within_limit s \<Longrightarrow> cis_buf s = [] \<Longrightarrow> merge m s = Some (True, m, s\<lparr>cis_legit := True\<rparr>)"
begin

lemma merge_all:
  assumes "\<forall>x \<in> set xs. valid x" "within_limit s" "depth \<le> cis_budget s" "cis_buf s = concat (map ser xs)"
  shows "merge m s = Some (True, fold (\<lambda>x m. merge_from m x) xs m, s\<lparr>cis_buf := [], cis_legit := True\<rparr>)"
  using assms
proof (induction xs arbitrary: m s)
  case Nil
  then show ?case by (simp add: merge_end)
next
  case (Cons x xs)
  then have b: "cis_buf s = ser x @ concat (map ser xs)" by simp
  then obtain b where "merge m s =
      merge (merge_from m x) (s\<lparr>cis_buf := concat (map ser xs), cis_legit := b\<rparr>)"
    using merge_step [of x s "concat (map ser xs)" m] Cons.prems by auto
  then show ?case
    using Cons.IH [of "s\<lparr>cis_buf := concat (map ser xs), cis_legit := b\<rparr>"] Cons.prems b by simp
qed

lemma parse_concat:
  assumes "\<forall>x \<in> set xs. valid x" "length (concat (map ser xs)) \<le> 67108864" "depth \<le> 100"
  shows "ParseFromArray clear merge (concat (map ser xs)) m =
           Some (True, fold (\<lambda>x m. merge_from m x) xs (clear m))"
  using merge_all [OF assms(1), of "CodedInputStream (concat (map ser xs))" "clear m"] assms(2,3)
  by (simp add: ParseFromArray_def CodedInputStream_def within_limit_def cis_total_def
      ConsumedEntireMessage_def)

lemma parse_ser:
  assumes "valid x" "length (ser x) \<le> 67108864" "depth \<le> 100"
  shows "ParseFromArray clear merge (ser x) m = Some (True, merge_from (clear m) x)"
  using parse_concat [of "[x]" clear m] assms by simp

lemma parse_two:
  assumes "valid x" "valid y" "length (ser x) + length (ser y) \<le> 67108864" "depth \<le> 100"
  shows "ParseFromArray clear merge (ser x @ ser y) m = Some (True, merge_from (merge_from (clear m) x) y)"
  using parse_concat [of "[x, y]" clear m] assms by simp

lemma read_embedded:
  assumes x: "valid x" "length (ser x) \<le> INT_MAX"
    and s: "within_limit s" "depth \<le> cis_budget s" "cis_buf s = venc (length (ser x)) @ ser x @ rest"
  shows "\<exists>b. (b \<longrightarrow> cis_legit s) \<and> ReadMessageNoVirtualNoRecursionDepth L merge m s =
             Some (True, merge_from m x, s\<lparr>cis_buf := rest, cis_legit := b\<rparr>)"
proof -
  let ?n = "of_nat (length (ser x)) :: i32"
  let ?s1 = "s\<lparr>cis_buf := ser x @ rest\<rparr>"
  let ?s2 = "s\<lparr>cis_buf := ser x, cis_hidden := rest @ cis_hidden s\<rparr>"
  have n: "unat ?n = length (ser x)" "0 \<le> sint ?n"
    using x(2) by (simp_all add: unat_of_nat_u32 INT_MAX_def sint_of_nat_i32)
  have w1: "within_limit ?s1" using s by simp
  have rd: "ReadVarint32 L s = ((True, ?n), ?s1)"
    using read_varint32 [OF s(1,3)] x(2) by (simp add: INT_MAX_def)
  have ps: "snd (PushLimit L ?n ?s1) = ?s2"
    using push [OF w1 n(2)] n(1) by simp
  obtain lim where p: "PushLimit L ?n ?s1 = (lim, ?s2)"
    using ps by (cases "PushLimit L ?n ?s1") simp
  have w2: "within_limit ?s2" using w1 by (simp add: within_limit_def cis_total_def)
  have mg: "merge m ?s2 = Some (True, merge_from m x, ?s2\<lparr>cis_buf := [], cis_legit := True\<rparr>)"
    using merge_all [of "[x]" ?s2 m] x(1) w2 s(2) by simp
  obtain b where "b \<longrightarrow> cis_legit s" "PopLimit L lim (?s2\<lparr>cis_buf := [], cis_legit := True\<rparr>) = s\<lparr>cis_buf := rest, cis_legit := b\<rparr>"
    using pop [OF w1 n(2), of "?s2\<lparr>cis_buf := [], cis_legit := True\<rparr>"] n(1) p by auto
  then show ?thesis
    by (auto simp: ReadMessageNoVirtualNoRecursionDepth_def ReadLengthAndPushLimit_def rd p mg
        CheckEntireMessageConsumedAndPopLimit_def ConsumedEntireMessage_def)
qed

end

end
