(* ===== verification/Progress.thy ===== *)
theory Progress
  imports Codec
begin

text \<open>
  Every parser returns.  A successful read takes bytes off the stream (or, for a limit,
  moves them behind it), so the number of bytes that are left, visible or hidden, is a
  measure for the parse loop; a field parser that does not add bytes (\<open>field_ok\<close>) makes a
  message parser that returns on every input (\<open>merge_ok\<close>), which in turn makes a field
  parser of the message that embeds it.
\<close>


context pb_runtime
begin

lemma tag_progress:
  assumes "within_limit s" "ReadTagWithCutoffNoLastTag L c s = ((t, b), s1)" "t \<noteq> 0 \<or> b"
  shows "cis_total s1 < cis_total s"
proof -
  have nz: "t - 1 < c \<Longrightarrow> t \<noteq> 0"
    by (auto simp: word_order.extremum_strict)
  have slow: "cis_total s' < cis_total s"
    if "ReadTagFallback L (first_byte s) s = (t, s')" "t \<noteq> 0" for s'
  proof (cases "vdec 10 (cis_buf s)")
    case None
    then show ?thesis
      using tag_fail [OF assms(1) _ None] tag_at_end [OF assms(1)] that by (cases "cis_buf s = []") auto
  next
    case (Some p)
    then obtain v rest where v: "vdec 10 (cis_buf s) = Some (v, rest)" by (cases p) auto
    from tag [OF assms(1) v] vdec_length [OF v] that show ?thesis by (auto simp: cis_total_def)
  qed
  show ?thesis
    using assms(2,3) slow nz
    by (auto simp: ReadTagWithCutoffNoLastTag_def Advance_def cis_total_def Let_def
        split: list.splits if_splits prod.splits)
qed

lemma tag_total:
  assumes "within_limit s" "ReadTagWithCutoffNoLastTag L c s = ((t, b), s1)"
  shows "cis_total s1 \<le> cis_total s"
proof -
  have slow: "cis_total s' \<le> cis_total s" if "ReadTagFallback L (first_byte s) s = (t, s')" for s'
  proof (cases "vdec 10 (cis_buf s)")
    case None
    then show ?thesis
      using tag_fail [OF assms(1) _ None that] tag_at_end [OF assms(1)] that
      by (cases "cis_buf s = []") (auto simp: cis_total_def)
  next
    case (Some p)
    then obtain v rest where v: "vdec 10 (cis_buf s) = Some (v, rest)" by (cases p) auto
    from tag [OF assms(1) v] vdec_length [OF v] that show ?thesis by (auto simp: cis_total_def)
  qed
  show ?thesis
    using assms(2) slow
    by (auto simp: ReadTagWithCutoffNoLastTag_def Advance_def cis_total_def Let_def
        split: list.splits if_splits prod.splits)
qed

lemma varint32_progress:
  assumes "within_limit s" "ReadVarint32 L s = ((True, v), s1)"
  shows "cis_total s1 < cis_total s"
proof (cases "vdec 10 (cis_buf s)")
  case None
  then show ?thesis using varint32_fail [OF assms(1) None] assms(2)
    by (fastforce simp: ReadVarint32_def Advance_def cis_total_def split: list.splits if_splits prod.splits)
next
  case (Some p)
  then obtain n rest where n: "vdec 10 (cis_buf s) = Some (n, rest)" by (cases p) auto
  from varint32 [OF assms(1) n] vdec_length [OF n] assms(2) show ?thesis
    by (auto simp: ReadVarint32_def Advance_def cis_total_def split: list.splits if_splits prod.splits)
qed

lemma varint64_progress:
  assumes "within_limit s" "ReadVarint64 L s = ((True, v), s1)"
  shows "cis_total s1 < cis_total s"
proof (cases "vdec 10 (cis_buf s)")
  case None
  then show ?thesis using varint64_fail [OF assms(1) None] assms(2)
    by (auto simp: ReadVarint64_def Let_def Advance_def cis_total_def split: list.splits if_splits prod.splits)
next
  case (Some p)
  then obtain n rest where n: "vdec 10 (cis_buf s) = Some (n, rest)" by (cases p) auto
  from varint64 [OF assms(1) n] vdec_length [OF n] assms(2) show ?thesis
    by (auto simp: ReadVarint64_def Let_def Advance_def cis_total_def split: list.splits if_splits prod.splits)
qed

lemma size_progress:
  assumes "within_limit s" "ReadVarintSizeAsInt L s = ((True, v), s1)"
  shows "cis_total s1 < cis_total s"
proof (cases "\<exists>n rest. vdec 10 (cis_buf s) = Some (n, rest) \<and> n \<le> INT_MAX")
  case False
  then have "sint (fst (ReadVarintSizeAsIntFallback L s)) < 0"
    by (intro varint_size_fail [OF assms(1)]) (auto simp: not_le)
  then show ?thesis using assms(2)
    by (auto simp: ReadVarintSizeAsInt_def Let_def Advance_def cis_total_def split: list.splits if_splits prod.splits)
next
  case True
  then obtain n rest where n: "vdec 10 (cis_buf s) = Some (n, rest)" "n \<le> INT_MAX" by auto
  from varint_size [OF assms(1) n] vdec_length [OF n(1)] assms(2) show ?thesis
    by (auto simp: ReadVarintSizeAsInt_def Let_def Advance_def cis_total_def split: list.splits if_splits prod.splits)
qed

lemma bytes_progress:
  assumes "within_limit s" "ReadBytes L old s = ((True, v), s1)"
  shows "cis_total s1 < cis_total s"
proof (cases "\<exists>n rest. vdec 10 (cis_buf s) = Some (n, rest) \<and> n \<le> INT_MAX \<and> n \<le> length rest")
  case False
  then have "\<not> fst (fst (ReadBytes L old s))"
    by (intro bytes_fail [OF assms(1)]) (auto simp: not_le)
  then show ?thesis using assms(2) by simp
next
  case True
  then obtain n rest where n: "vdec 10 (cis_buf s) = Some (n, rest)" "n \<le> INT_MAX" "n \<le> length rest" by auto
  from bytes [OF assms(1) n] vdec_length [OF n(1)] assms(2) n show ?thesis by (auto simp: cis_total_def)
qed

end

definition case_ok :: "'m outcome option \<Rightarrow> cis \<Rightarrow> bool" where
  "case_ok r s \<longleftrightarrow>
     (\<exists>out. r = Some out \<and> (\<forall>m' s'. out = Parsed m' s' \<longrightarrow> cis_total s' \<le> cis_total s))"

definition field_ok :: "(u32 \<Rightarrow> 'm \<Rightarrow> cis \<Rightarrow> 'm outcome option) \<Rightarrow> bool" where
  "field_ok field \<longleftrightarrow> (\<forall>tag m s. within_limit s \<longrightarrow> case_ok (field tag m s) s)"

definition merge_ok :: "('m \<Rightarrow> cis \<Rightarrow> (bool \<times> 'm \<times> cis) option) \<Rightarrow> bool" where
  "merge_ok merge \<longleftrightarrow>
     (\<forall>m s. within_limit s \<longrightarrow>
        (\<exists>ok m' s'. merge m s = Some (ok, m', s') \<and> (ok \<longrightarrow> cis_total s' \<le> cis_total s)))"

lemma case_ok_Unusual [simp]: "case_ok (Some Unusual) s"
  by (simp add: case_ok_def)

context pb_runtime
begin

lemma merge_loop_returns:
  assumes "field_ok field" "within_limit s"
  shows "\<exists>ok m' s'. merge_loop L cutoff field m s = Some (ok, m', s') \<and> (ok \<longrightarrow> cis_total s' \<le> cis_total s)"
  using assms(2)
proof (induction "cis_total s" arbitrary: s m rule: less_induct)
  case less
  obtain t b s1 where r: "ReadTagWithCutoffNoLastTag L cutoff s = ((t, b), s1)"
    by (metis surj_pair)
  have le: "t \<noteq> 0 \<or> b \<Longrightarrow> cis_total s1 < cis_total s" using tag_progress [OF less(2) r] .
  have again: ?case if m: "merge_loop L cutoff field m s = merge_loop L cutoff field m2 s2"
    and s2: "cis_total s2 \<le> cis_total s1" and p: "t \<noteq> 0 \<or> b" for m2 s2
  proof -
    have lt: "cis_total s2 < cis_total s" using le [OF p] s2 by simp
    then have "within_limit s2" using less(2) by (simp add: within_limit_def)
    from less(1) [OF lt this, of m2] show ?thesis unfolding m using lt by fastforce
  qed
  have unusual: ?case
    if "merge_loop L cutoff field m s =
      (if t = 0 \<or> GetTagWireType t = WIRETYPE_END_GROUP then Some (True, m, s1)
       else let r = SkipField L t s1
            in if fst r then merge_loop L cutoff field m (snd r) else Some (False, m, snd r))"
  proof (cases "t = 0 \<or> GetTagWireType t = WIRETYPE_END_GROUP \<or> \<not> fst (SkipField L t s1)")
    case True
    then show ?thesis using that tag_total [OF less(2) r] by auto
  next
    case False
    then have w1: "within_limit s1" using le less(2) by (simp add: within_limit_def)
    obtain s2 where sk: "SkipField L t s1 = (True, s2)" using False by (cases "SkipField L t s1") auto
    show ?thesis
      by (rule again [of m s2]) (use that False sk skip_total [OF w1 sk] in simp_all)
  qed
  show ?case
  proof (cases b)
    case True
    then have w1: "within_limit s1" using le less(2) by (simp add: within_limit_def)
    obtain out where out: "field t m s1 = Some out"
      "\<And>m' s'. out = Parsed m' s' \<Longrightarrow> cis_total s' \<le> cis_total s1"
      using assms(1) w1 unfolding field_ok_def case_ok_def by blast
    show ?thesis
    proof (cases out)
      case (Parsed m2 s2)
      show ?thesis
        by (rule again [of m2 s2]) (use r True out Parsed in \<open>subst merge_loop.simps, simp_all\<close>)
    next
      case (Failure m2 s2)
      then show ?thesis using r True out by (subst merge_loop.simps) auto
    next
      case Unusual
      show ?thesis
        by (rule unusual) (use r True out Unusual in \<open>subst merge_loop.simps, simp\<close>)
    qed
  next
    case False
    show ?thesis by (rule unusual) (use r False in \<open>subst merge_loop.simps, simp\<close>)
  qed
qed

lemma merge_loop_ok: "field_ok field \<Longrightarrow> merge_ok (merge_loop L cutoff field)"
  by (simp add: merge_ok_def merge_loop_returns)

lemma primitive_progress:
  "within_limit s \<Longrightarrow> ReadPrimitive_int32 L old s = ((True, v), s1) \<Longrightarrow> cis_total s1 < cis_total s"
  "within_limit s \<Longrightarrow> ReadPrimitive_int64 L old' s = ((True, v'), s1) \<Longrightarrow> cis_total s1 < cis_total s"
  "within_limit s \<Longrightarrow> ReadPrimitive_bool L c s = ((True, c'), s1) \<Longrightarrow> cis_total s1 < cis_total s"
  by (auto simp: ReadPrimitive_int32_def ReadPrimitive_int64_def ReadPrimitive_bool_def
      split: prod.splits dest: varint32_progress varint64_progress)

lemma scalar_cases_ok [simp]:
  assumes "within_limit s"
  shows "case_ok (int32_case L v upd s) s" "case_ok (int64_case L w upd64 s) s"
    "case_ok (bool_case L c updb s) s" "case_ok (bytes_case L str upds s) s"
    "case_ok (string_case L str upds s) s"
  by (auto simp: case_ok_def int32_case_def int64_case_def bool_case_def bytes_case_def string_case_def
      split: prod.splits
      intro: less_imp_le [OF primitive_progress(1) [OF assms]] less_imp_le [OF primitive_progress(2) [OF assms]]
        less_imp_le [OF primitive_progress(3) [OF assms]] less_imp_le [OF bytes_progress [OF assms]])

lemma expect_tag_total: "ExpectTag t s = (b, s1) \<Longrightarrow> cis_total s1 \<le> cis_total s"
  by (auto simp: ExpectTag_def Advance_def cis_total_def split: if_splits list.splits)

lemma read_reserved_total:
  "within_limit s \<Longrightarrow> read_reserved L t n vs s = ((True, vs'), s') \<Longrightarrow> cis_total s' \<le> cis_total s"
proof (induction n arbitrary: vs s)
  case (Suc n)
  obtain b s1 where e: "ExpectTag t s = (b, s1)" by (metis surj_pair)
  note e_le = expect_tag_total [OF e]
  then have w1: "within_limit s1" using Suc.prems(1) by (simp add: within_limit_def)
  show ?case
  proof (cases b)
    case True
    obtain ok v s2 where p: "ReadPrimitive_int32 L 0 s1 = ((ok, v), s2)" by (metis surj_pair)
    from Suc.prems(2) e True p have ok: "ok" by (auto split: if_splits bool.splits)
    then have lt: "cis_total s2 < cis_total s1" using primitive_progress(1) [OF w1] p by simp
    then have "within_limit s2" using w1 by (simp add: within_limit_def)
    from Suc.IH [OF this] Suc.prems(2) e True p ok lt e_le show ?thesis by fastforce
  qed (use Suc.prems(2) e e_le in auto)
qed simp

lemma unpacked_case_ok [simp]:
  assumes "within_limit s"
  shows "case_ok (unpacked_case L t vs upd s) s"
proof -
  have "cis_total s' \<le> cis_total s" if "ReadRepeatedPrimitive L t vs s = ((True, vs'), s')" for vs' s'
  proof -
    obtain ok v s1 where p: "ReadPrimitive_int32 L 0 s = ((ok, v), s1)" by (metis surj_pair)
    with that have ok: ok by (auto simp: ReadRepeatedPrimitive_def split: bool.splits)
    then have lt: "cis_total s1 < cis_total s" using primitive_progress(1) [OF assms] p by simp
    then have "within_limit s1" using assms by (simp add: within_limit_def)
    from read_reserved_total [OF this, of t "RepeatedSpare L (Suc (length vs))" "vs @ [v]" vs' s'] that p ok lt
    show ?thesis by (simp add: ReadRepeatedPrimitive_def Let_def)
  qed
  then show ?thesis by (auto simp: case_ok_def unpacked_case_def split: prod.splits)
qed

lemma packed_loop_returns:
  assumes "within_limit s"
  shows "\<exists>ok vs' s'. packed_loop L vs s = Some ((ok, vs'), s') \<and> (ok \<longrightarrow> cis_total s' \<le> cis_total s)"
  using assms
proof (induction "cis_total s" arbitrary: s vs rule: less_induct)
  case less
  obtain ok v s1 where p: "ReadPrimitive_int32 L 0 s = ((ok, v), s1)" by (metis surj_pair)
  show ?case
  proof (cases "0 < BytesUntilLimit L s \<and> ok")
    case True
    then have lt: "cis_total s1 < cis_total s" using primitive_progress(1) [OF less(2)] p by simp
    then have w1: "within_limit s1" using less(2) by (simp add: within_limit_def)
    show ?thesis using less(1) [OF lt w1, of "vs @ [v]"] True p lt
      by (subst packed_loop.simps) fastforce
  next
    case False
    then show ?thesis using p by (subst packed_loop.simps) auto
  qed
qed

lemma packed_case_ok [simp]:
  assumes "within_limit s"
  shows "case_ok (packed_case L vs upd s) s"
proof -
  obtain ok len s1 where z: "ReadVarintSizeAsInt L s = ((ok, len), s1)" by (metis surj_pair)
  show ?thesis
  proof (cases ok)
    case False
    then show ?thesis using z by (simp add: case_ok_def packed_case_def ReadPackedPrimitive_def)
  next
    case True
    then have lt: "cis_total s1 < cis_total s" using size_progress [OF assms] z by simp
    then have w1: "within_limit s1" using assms by (simp add: within_limit_def)
    obtain lim s2 where ps: "PushLimit L len s1 = (lim, s2)" by (metis surj_pair)
    have t2: "cis_total s2 = cis_total s1" using push_total [OF w1, of len] ps by simp
    then have w2: "within_limit s2" using w1 by (simp add: within_limit_def)
    obtain ok3 vs' s3 where l: "packed_loop L vs s2 = Some ((ok3, vs'), s3)"
      "ok3 \<longrightarrow> cis_total s3 \<le> cis_total s2"
      using packed_loop_returns [OF w2] by blast
    have "ok3 \<Longrightarrow> within_limit s3" using l(2) w2 by (simp add: within_limit_def)
    from pop_total [OF this] show ?thesis using True z ps l t2 lt
      by (cases ok3) (auto simp: case_ok_def packed_case_def ReadPackedPrimitive_def)
  qed
qed

lemma read_length_total:
  assumes "within_limit s" "ReadLengthAndPushLimit L s = (lim, s2)"
  shows "cis_total s2 \<le> cis_total s"
proof -
  obtain ok len s1 where v: "ReadVarint32 L s = ((ok, len), s1)" by (metis surj_pair)
  have le: "cis_total s1 \<le> cis_total s"
  proof (cases "vdec 10 (cis_buf s)")
    case None
    then show ?thesis using varint32_fail [OF assms(1) None] v
      by (fastforce simp: ReadVarint32_def Advance_def cis_total_def split: list.splits if_splits prod.splits)
  next
    case (Some p)
    then obtain n rest where n: "vdec 10 (cis_buf s) = Some (n, rest)" by (cases p) auto
    from varint32 [OF assms(1) n] vdec_length [OF n] v show ?thesis
      by (auto simp: ReadVarint32_def Advance_def cis_total_def split: list.splits if_splits prod.splits)
  qed
  then have "within_limit s1" using assms(1) by (simp add: within_limit_def)
  from push_total [OF this, of "if ok then len else 0"] le assms(2) v show ?thesis
    by (simp add: ReadLengthAndPushLimit_def)
qed

lemma message_case_ok [simp]:
  assumes "merge_ok merge" "within_limit s"
  shows "case_ok (message_case L merge e upd m s) s"
proof -
  obtain ok1 s1 where i: "IncrementRecursionDepth s = (ok1, s1)" by (metis surj_pair)
  have t1: "cis_total s1 = cis_total s"
    using i by (auto simp: IncrementRecursionDepth_def cis_total_def Let_def)
  then have w1: "within_limit s1" using assms(2) by (simp add: within_limit_def)
  obtain lim s2 where l: "ReadLengthAndPushLimit L s1 = (lim, s2)" by (metis surj_pair)
  have t2: "cis_total s2 \<le> cis_total s1" by (rule read_length_total [OF w1 l])
  then have w2: "within_limit s2" using w1 by (simp add: within_limit_def)
  obtain ok3 e' s3 where g: "merge e s2 = Some (ok3, e', s3)" "ok3 \<longrightarrow> cis_total s3 \<le> cis_total s2"
    using assms(1) w2 unfolding merge_ok_def by blast
  have "ok3 \<Longrightarrow> within_limit s3" using g(2) w2 by (simp add: within_limit_def)
  from pop_total [OF this, of lim] t1 t2 i l g show ?thesis
    by (cases ok1; cases ok3)
       (auto simp: case_ok_def message_case_def ReadMessageNoVirtualNoRecursionDepth_def cis_total_def
         CheckEntireMessageConsumedAndPopLimit_def UnsafeDecrementRecursionDepth_def)
qed

end

end
