(* ===== verification/MessagePb.thy ===== *)
theory MessagePb
  imports Progress
begin

text \<open>
  The envelope of every request and response, \<open>Message\<close> of \<^verbatim>\<open>src/ad/Message.pb.cc\<close>
  (generated from \<^verbatim>\<open>Message.proto\<close>): its fields, the parser, the two serialisers, the size
  computation and the merge operations of the generated class.
\<close>

section \<open>The class\<close>

record message =
  msg_id :: i64
  msg_method :: bytes
  msg_content :: bytes
  msg_returncode :: i32
  msg_returnmsg :: bytes
  msg_cached_size :: i32

definition Message_new :: message where
  "Message_new = \<lparr>msg_id = 0, msg_method = [], msg_content = [], msg_returncode = 0,
                  msg_returnmsg = [], msg_cached_size = 0\<rparr>"

definition Message_copy :: "message \<Rightarrow> message" where
  "Message_copy from =
     \<lparr>msg_id = msg_id from,
      msg_method = (if length (msg_method from) > 0 then msg_method from else []),
      msg_content = (if length (msg_content from) > 0 then msg_content from else []),
      msg_returncode = msg_returncode from,
      msg_returnmsg = (if length (msg_returnmsg from) > 0 then msg_returnmsg from else []),
      msg_cached_size = 0\<rparr>"

definition Message_Clear :: "message \<Rightarrow> message" where
  "Message_Clear m = m\<lparr>msg_method := [], msg_content := [], msg_returnmsg := [],
                       msg_id := 0, msg_returncode := 0\<rparr>"

definition Message_field :: "pb_lib \<Rightarrow> u32 \<Rightarrow> message \<Rightarrow> cis \<Rightarrow> message outcome option" where
  "Message_field L tag m s =
     (if GetTagFieldNumber tag = 1 then
        if tag = 8 then int64_case L (msg_id m) (\<lambda>v. m\<lparr>msg_id := v\<rparr>) s
        else Some Unusual
      else if GetTagFieldNumber tag = 2 then
        if tag = 18 then string_case L (msg_method m) (\<lambda>v. m\<lparr>msg_method := v\<rparr>) s
        else Some Unusual
      else if GetTagFieldNumber tag = 3 then
        if tag = 26 then bytes_case L (msg_content m) (\<lambda>v. m\<lparr>msg_content := v\<rparr>) s
        else Some Unusual
      else if GetTagFieldNumber tag = 4 then
        if tag = 32 then int32_case L (msg_returncode m) (\<lambda>v. m\<lparr>msg_returncode := v\<rparr>) s
        else Some Unusual
      else if GetTagFieldNumber tag = 5 then
        if tag = 42 then string_case L (msg_returnmsg m) (\<lambda>v. m\<lparr>msg_returnmsg := v\<rparr>) s
        else Some Unusual
      else Some Unusual)"

definition Message_MergePartialFromCodedStream ::
    "pb_lib \<Rightarrow> message \<Rightarrow> cis \<Rightarrow> (bool \<times> message \<times> cis) option" where
  "Message_MergePartialFromCodedStream L = merge_loop L 127 (Message_field L)"

definition Message_SerializeWithCachedSizes :: "pb_lib \<Rightarrow> message \<Rightarrow> bytes" where
  "Message_SerializeWithCachedSizes L m =
     (if msg_id m \<noteq> 0 then WriteInt64 L 1 (msg_id m) else []) @
     (if length (msg_method m) > 0 then WriteStringMaybeAliased L 2 (msg_method m) else []) @
     (if length (msg_content m) > 0 then WriteBytesMaybeAliased L 3 (msg_content m) else []) @
     (if msg_returncode m \<noteq> 0 then WriteInt32 L 4 (msg_returncode m) else []) @
     (if length (msg_returnmsg m) > 0 then WriteStringMaybeAliased L 5 (msg_returnmsg m) else [])"

definition Message_InternalSerializeWithCachedSizesToArray :: "pb_lib \<Rightarrow> message \<Rightarrow> bytes" where
  "Message_InternalSerializeWithCachedSizesToArray L m =
     (if msg_id m \<noteq> 0 then WriteInt64ToArray 1 (msg_id m) else []) @
     (if length (msg_method m) > 0 then WriteStringToArray L 2 (msg_method m) else []) @
     (if length (msg_content m) > 0 then WriteBytesToArray L 3 (msg_content m) else []) @
     (if msg_returncode m \<noteq> 0 then WriteInt32ToArray 4 (msg_returncode m) else []) @
     (if length (msg_returnmsg m) > 0 then WriteStringToArray L 5 (msg_returnmsg m) else [])"

definition Message_ByteSizeLong :: "pb_lib \<Rightarrow> message \<Rightarrow> nat \<times> message" where
  "Message_ByteSizeLong L m =
     (let total_size =
        (if length (msg_method m) > 0 then 1 + StringSize L (msg_method m) else 0) +
        (if length (msg_content m) > 0 then 1 + StringSize L (msg_content m) else 0) +
        (if length (msg_returnmsg m) > 0 then 1 + StringSize L (msg_returnmsg m) else 0) +
        (if msg_id m \<noteq> 0 then 1 + Int64Size L (msg_id m) else 0) +
        (if msg_returncode m \<noteq> 0 then 1 + Int32Size L (msg_returncode m) else 0)
      in (total_size, m\<lparr>msg_cached_size := ToCachedSize total_size\<rparr>))"

definition Message_MergeFrom :: "message \<Rightarrow> message \<Rightarrow> message" where
  "Message_MergeFrom this from =
     (let m1 = (if length (msg_method from) > 0 then this\<lparr>msg_method := msg_method from\<rparr> else this);
          m2 = (if length (msg_content from) > 0 then m1\<lparr>msg_content := msg_content from\<rparr> else m1);
          m3 = (if length (msg_returnmsg from) > 0 then m2\<lparr>msg_returnmsg := msg_returnmsg from\<rparr> else m2);
          m4 = (if msg_id from \<noteq> 0 then m3\<lparr>msg_id := msg_id from\<rparr> else m3)
      in if msg_returncode from \<noteq> 0 then m4\<lparr>msg_returncode := msg_returncode from\<rparr> else m4)"

text \<open>\<open>CopyFrom\<close> does nothing when the two are the same object.\<close>

definition Message_CopyFrom :: "bool \<Rightarrow> message \<Rightarrow> message \<Rightarrow> message" where
  "Message_CopyFrom same_object this from =
     (if same_object then this else Message_MergeFrom (Message_Clear this) from)"

definition Message_InternalSwap :: "message \<Rightarrow> message \<Rightarrow> message \<times> message" where
  "Message_InternalSwap this other =
     (this\<lparr>msg_method := msg_method other, msg_content := msg_content other,
           msg_returnmsg := msg_returnmsg other, msg_id := msg_id other,
           msg_returncode := msg_returncode other, msg_cached_size := msg_cached_size other\<rparr>,
      other\<lparr>msg_method := msg_method this, msg_content := msg_content this,
            msg_returnmsg := msg_returnmsg this, msg_id := msg_id this,
            msg_returncode := msg_returncode this, msg_cached_size := msg_cached_size this\<rparr>)"

text \<open>\<open>SerializeAsString\<close> and \<open>ParseFromArray\<close> of the message, as documented in
  \<^verbatim>\<open>message_lite.h\<close>: the size is computed first, then the fields are written.\<close>

definition Message_SerializeAsString :: "pb_lib \<Rightarrow> message \<Rightarrow> bytes" where
  "Message_SerializeAsString L m =
     Message_InternalSerializeWithCachedSizesToArray L (snd (Message_ByteSizeLong L m))"

definition Message_ParseFromArray :: "pb_lib \<Rightarrow> bytes \<Rightarrow> message \<Rightarrow> (bool \<times> message) option" where
  "Message_ParseFromArray L = ParseFromArray Message_Clear (Message_MergePartialFromCodedStream L)"

section \<open>The class keeps the contract\<close>

definition Message_valid :: "pb_lib \<Rightarrow> message \<Rightarrow> bool" where
  "Message_valid L m \<longleftrightarrow>
     length (msg_method m) \<le> INT_MAX \<and> length (msg_content m) \<le> INT_MAX \<and>
     length (msg_returnmsg m) \<le> INT_MAX \<and>
     (msg_method m = [] \<or> VerifyUtf8String L (msg_method m)) \<and>
     (msg_returnmsg m = [] \<or> VerifyUtf8String L (msg_returnmsg m))"

lemma Message_MergeFrom_fields [simp]:
  "msg_id (Message_MergeFrom a b) = (if msg_id b \<noteq> 0 then msg_id b else msg_id a)"
  "msg_method (Message_MergeFrom a b) = (if msg_method b \<noteq> [] then msg_method b else msg_method a)"
  "msg_content (Message_MergeFrom a b) = (if msg_content b \<noteq> [] then msg_content b else msg_content a)"
  "msg_returncode (Message_MergeFrom a b) = (if msg_returncode b \<noteq> 0 then msg_returncode b else msg_returncode a)"
  "msg_returnmsg (Message_MergeFrom a b) = (if msg_returnmsg b \<noteq> [] then msg_returnmsg b else msg_returnmsg a)"
  "msg_cached_size (Message_MergeFrom a b) = msg_cached_size a"
  by (simp_all add: Message_MergeFrom_def)

lemma tag_numbers [simp]:
  "GetTagFieldNumber 8 = 1" "GetTagFieldNumber 16 = 2" "GetTagFieldNumber 18 = 2"
  "GetTagFieldNumber 26 = 3" "GetTagFieldNumber 24 = 3" "GetTagFieldNumber 32 = 4"
  "GetTagFieldNumber 34 = 4" "GetTagFieldNumber 42 = 5" "GetTagFieldNumber 10 = 1"
  by (simp_all add: GetTagFieldNumber_def)

context pb_runtime
begin

lemma Message_consumes:
  assumes "Message_valid L x"
  shows "consumes L 127 (Message_field L) depth (Message_InternalSerializeWithCachedSizesToArray L x)
           (\<lambda>m. Message_MergeFrom m x)"
proof -
  have i: "consumes L 127 (Message_field L) depth (venc 8 @ venc (unat (msg_id x))) (\<lambda>m. m\<lparr>msg_id := msg_id x\<rparr>)"
    by (rule consumes_int64 [where get = msg_id and upd = "\<lambda>v m. m\<lparr>msg_id := v\<rparr>"]) (simp_all add: Message_field_def)
  have me: "consumes L 127 (Message_field L) depth (venc 18 @ venc (length (msg_method x)) @ msg_method x)
       (\<lambda>m. m\<lparr>msg_method := msg_method x\<rparr>)" if "length (msg_method x) > 0"
    by (rule consumes_string [where get = msg_method and upd = "\<lambda>v m. m\<lparr>msg_method := v\<rparr>"])
       (use assms that in \<open>simp_all add: Message_field_def Message_valid_def\<close>)
  have co: "consumes L 127 (Message_field L) depth (venc 26 @ venc (length (msg_content x)) @ msg_content x)
       (\<lambda>m. m\<lparr>msg_content := msg_content x\<rparr>)"
    by (rule consumes_bytes [where get = msg_content and upd = "\<lambda>v m. m\<lparr>msg_content := v\<rparr>"])
       (use assms in \<open>simp_all add: Message_field_def Message_valid_def\<close>)
  have rc: "consumes L 127 (Message_field L) depth (venc 32 @ venc (unat (scast (msg_returncode x) :: u64)))
       (\<lambda>m. m\<lparr>msg_returncode := msg_returncode x\<rparr>)"
    by (rule consumes_int32 [where get = msg_returncode and upd = "\<lambda>v m. m\<lparr>msg_returncode := v\<rparr>"])
       (simp_all add: Message_field_def)
  have rm: "consumes L 127 (Message_field L) depth (venc 42 @ venc (length (msg_returnmsg x)) @ msg_returnmsg x)
       (\<lambda>m. m\<lparr>msg_returnmsg := msg_returnmsg x\<rparr>)" if "length (msg_returnmsg x) > 0"
    by (rule consumes_string [where get = msg_returnmsg and upd = "\<lambda>v m. m\<lparr>msg_returnmsg := v\<rparr>"])
       (use assms that in \<open>simp_all add: Message_field_def Message_valid_def\<close>)
  note all = consumes_append [OF consumes_if [OF i, of "msg_id x \<noteq> 0"]
      consumes_append [OF consumes_if [OF me, of "length (msg_method x) > 0"]
      consumes_append [OF consumes_if [OF co, of "length (msg_content x) > 0"]
      consumes_append [OF consumes_if [OF rc, of "msg_returncode x \<noteq> 0"]
      consumes_if [OF rm, of "length (msg_returnmsg x) > 0"]]]]]
  have "Message_InternalSerializeWithCachedSizesToArray L x =
     (if msg_id x \<noteq> 0 then venc 8 @ venc (unat (msg_id x)) else []) @
     (if length (msg_method x) > 0 then venc 18 @ venc (length (msg_method x)) @ msg_method x else []) @
     (if length (msg_content x) > 0 then venc 26 @ venc (length (msg_content x)) @ msg_content x else []) @
     (if msg_returncode x \<noteq> 0 then venc 32 @ venc (unat (scast (msg_returncode x) :: u64)) else []) @
     (if length (msg_returnmsg x) > 0 then venc 42 @ venc (length (msg_returnmsg x)) @ msg_returnmsg x else [])"
    using assms by (simp add: Message_InternalSerializeWithCachedSizesToArray_def Message_valid_def wire_simps)
  then show ?thesis
    by (simp only:) (rule consumes_cong [OF all], assumption, assumption, simp add: Message_MergeFrom_def Let_def)
qed

lemma Message_ser_eq:
  "Message_SerializeAsString L x = Message_InternalSerializeWithCachedSizesToArray L x"
  by (simp add: Message_SerializeAsString_def Message_ByteSizeLong_def Let_def
      Message_InternalSerializeWithCachedSizesToArray_def)

lemma Message_field_ok: "field_ok (Message_field L)"
  by (simp add: field_ok_def Message_field_def)

lemma Message_merge_ok: "merge_ok (Message_MergePartialFromCodedStream L)"
  unfolding Message_MergePartialFromCodedStream_def by (rule merge_loop_ok [OF Message_field_ok])

lemma Message_size_eq:
  assumes "Message_valid L x"
  shows "fst (Message_ByteSizeLong L x) = length (Message_InternalSerializeWithCachedSizesToArray L x)"
  using assms
  by (simp add: Message_ByteSizeLong_def Message_InternalSerializeWithCachedSizesToArray_def Let_def
      Message_valid_def StringSize_eq Int64Size_eq Int32Size_eq wire_simps venc_small)

lemma Message_stream_eq:
  assumes "Message_valid L x"
  shows "Message_SerializeWithCachedSizes L x = Message_InternalSerializeWithCachedSizesToArray L x"
  using assms
  by (simp add: Message_SerializeWithCachedSizes_def Message_InternalSerializeWithCachedSizesToArray_def
      Message_valid_def stream_eq_array)

end

sublocale pb_runtime < message: message_codec L "Message_MergePartialFromCodedStream L"
  "Message_SerializeAsString L" Message_MergeFrom "Message_valid L" 0
proof
  fix x m and s :: cis and rest
  assume x: "Message_valid L x" and s: "within_limit s" "0 \<le> cis_budget s"
    "cis_buf s = Message_SerializeAsString L x @ rest"
  show "\<exists>b. (b \<longrightarrow> cis_legit s) \<and> Message_MergePartialFromCodedStream L m s =
      Message_MergePartialFromCodedStream L (Message_MergeFrom m x) (s\<lparr>cis_buf := rest, cis_legit := b\<rparr>)"
    unfolding Message_MergePartialFromCodedStream_def
    by (rule consumesD [OF Message_consumes [OF x] s [unfolded Message_ser_eq]]) blast
next
  fix m and s :: cis
  assume "within_limit s" "cis_buf s = []"
  then show "Message_MergePartialFromCodedStream L m s = Some (True, m, s\<lparr>cis_legit := True\<rparr>)"
    unfolding Message_MergePartialFromCodedStream_def by (rule merge_loop_end)
qed

interpretation ref_message: message_codec ref_lib "Message_MergePartialFromCodedStream ref_lib"
  "Message_SerializeAsString ref_lib" Message_MergeFrom "Message_valid ref_lib" 0
  by (rule ref.message.message_codec_axioms)

context pb_runtime
begin

lemma Message_parse:
  assumes "Message_valid L x" "length (Message_SerializeAsString L x) \<le> 67108864"
  shows "Message_ParseFromArray L (Message_SerializeAsString L x) m
           = Some (True, x\<lparr>msg_cached_size := msg_cached_size m\<rparr>)"
proof -
  have "Message_MergeFrom (Message_Clear m) x = x\<lparr>msg_cached_size := msg_cached_size m\<rparr>"
    by (rule message.equality) (simp_all add: Message_Clear_def)
  with message.parse_ser [OF assms, where clear = Message_Clear] show ?thesis by (simp add: Message_ParseFromArray_def)
qed

text \<open>Fields the class does not know are skipped, so newer senders can add them.\<close>

lemma unknown_number:
  assumes "5 < f" "f < 2 ^ 29" "t = 0 \<or> t = 2"
  shows "unat (of_nat (8 * f + t) :: u32) = 8 * f + t"
    "GetTagFieldNumber (of_nat (8 * f + t)) = f"
    "GetTagWireType (of_nat (8 * f + t)) = of_nat t"
proof -
  show u: "unat (of_nat (8 * f + t) :: u32) = 8 * f + t"
    by (rule unat_of_nat_u32) (use assms in auto)
  show "GetTagFieldNumber (of_nat (8 * f + t)) = f"
    unfolding GetTagFieldNumber_def unat_drop u using assms(3) by auto
  have "unat (GetTagWireType (of_nat (8 * f + t))) = take_bit 3 (8 * f + t)"
    unfolding GetTagWireType_def unsigned_and_eq u take_bit_eq_mask by (simp add: mask_numeral)
  also have "\<dots> = t" using assms(3) by (auto simp: take_bit_eq_mod)
  finally show "GetTagWireType (of_nat (8 * f + t)) = of_nat t" by (metis of_nat_unat ucast_id)
qed

lemma consumes_unknown:
  assumes f: "5 < f" "f < 2 ^ 29" "t = 0 \<or> t = 2"
    and skip: "\<And>s rest. within_limit s \<Longrightarrow> cis_buf s = body @ rest \<Longrightarrow>
      SkipField L (of_nat (8 * f + t)) s = (True, s\<lparr>cis_buf := rest\<rparr>)"
  shows "consumes L 127 (Message_field L) depth (venc (8 * f + t) @ body) (\<lambda>m. m)"
proof (rule consumesI)
  fix m and s :: cis and rest
  assume s: "within_limit s" "cis_buf s = (venc (8 * f + t) @ body) @ rest"
  let ?n = "8 * f + t" and ?s1 = "s\<lparr>cis_buf := body @ rest\<rparr>"
  have b: "cis_buf s = venc ?n @ (body @ rest)" using s(2) by simp
  note n = unknown_number [OF f]
  have nz: "(of_nat ?n :: u32) \<noteq> 0" using n(1) f(1) by (metis add_gr_0 less_nat_zero_code mult_pos_pos unat_0 zero_less_numeral gr_zeroI less_trans)
  have we: "GetTagWireType (of_nat ?n) \<noteq> WIRETYPE_END_GROUP"
    unfolding n(3) using f(3) by (auto simp: WIRETYPE_END_GROUP_def)
  have unusual: "Message_field L (of_nat ?n) m ?s1 = Some Unusual"
    using f(1) n(2) by (simp add: Message_field_def)
  obtain k where r: "ReadTagWithCutoffNoLastTag L 127 s = ((of_nat ?n, k), ?s1)"
  proof (cases "?n < 128")
    case True
    then show ?thesis using read_tag [OF s(1) b, of 127] f(1) that by simp
  next
    case False
    then show ?thesis using read_tag_above [OF s(1) b] f(2,3) that by auto
  qed
  have "SkipField L (of_nat ?n) ?s1 = (True, s\<lparr>cis_buf := rest\<rparr>)"
    using skip [of ?s1 rest] within_limit_rest(2) [OF s(1) b] by simp
  then have "merge_loop L 127 (Message_field L) m s =
      merge_loop L 127 (Message_field L) m (s\<lparr>cis_buf := rest, cis_legit := cis_legit s\<rparr>)"
    using nz we unusual r by (subst merge_loop.simps) simp
  then show "\<exists>b. (b \<longrightarrow> cis_legit s) \<and> merge_loop L 127 (Message_field L) m s =
      merge_loop L 127 (Message_field L) m (s\<lparr>cis_buf := rest, cis_legit := b\<rparr>)" by blast
qed

lemma consumes_unknown_varint:
  assumes "5 < f" "f < 2 ^ 29" "v < 2 ^ 64"
  shows "consumes L 127 (Message_field L) depth (venc (8 * f) @ venc v) (\<lambda>m. m)"
  using consumes_unknown [OF assms(1,2), of 0 "venc v"] skip_varint vdec_venc_10 [OF assms(3)]
    unknown_number(3) [OF assms(1,2), of 0] by simp

lemma consumes_unknown_delimited:
  assumes "5 < f" "f < 2 ^ 29" "length str \<le> INT_MAX"
  shows "consumes L 127 (Message_field L) depth (venc (8 * f + 2) @ venc (length str) @ str) (\<lambda>m. m)"
proof (rule consumes_unknown [OF assms(1,2)])
  fix s :: cis and rest
  assume s: "within_limit s" "cis_buf s = (venc (length str) @ str) @ rest"
  have "vdec 10 (cis_buf s) = Some (length str, str @ rest)"
    using s(2) vdec_venc_10 [of "length str"] assms(3) by (simp add: INT_MAX_def)
  from skip_delimited [OF s(1) _ this assms(3)] unknown_number(3) [OF assms(1,2), of 2]
  show "SkipField L (of_nat (8 * f + 2)) s = (True, s\<lparr>cis_buf := rest\<rparr>)" by simp
qed simp

lemma Message_parse_two:
  assumes "Message_valid L x" "Message_valid L y"
    "length (Message_SerializeAsString L x) + length (Message_SerializeAsString L y) \<le> 67108864"
  shows "Message_ParseFromArray L (Message_SerializeAsString L x @ Message_SerializeAsString L y) m
           = Some (True, Message_MergeFrom (Message_MergeFrom (Message_Clear m) x) y)"
  unfolding Message_ParseFromArray_def by (rule message.parse_two [OF assms]) simp

text \<open>What a consumed prefix leaves behind decides the result: nothing is a success, a tag that
  is cut off is a failure with the prefix merged.\<close>

lemma Message_parse_consumed:
  assumes "consumes L 127 (Message_field L) 0 enc upd" "length enc \<le> 67108864"
  shows "Message_ParseFromArray L enc m = Some (True, upd (Message_Clear m))"
proof -
  let ?s = "CodedInputStream enc"
  have s: "within_limit ?s" "0 \<le> cis_budget ?s" "cis_buf ?s = enc @ []"
    using assms(2) by (simp_all add: CodedInputStream_def within_limit_def cis_total_def)
  from consumesD [OF assms(1) s, of "Message_Clear m"] obtain b where
    "merge_loop L 127 (Message_field L) (Message_Clear m) ?s =
     merge_loop L 127 (Message_field L) (upd (Message_Clear m)) (?s\<lparr>cis_buf := [], cis_legit := b\<rparr>)" by blast
  moreover have "within_limit (?s\<lparr>cis_buf := [], cis_legit := b\<rparr>)"
    using s(1) by (simp add: within_limit_def cis_total_def)
  ultimately show ?thesis
    by (simp add: Message_ParseFromArray_def ParseFromArray_def Message_MergePartialFromCodedStream_def
        merge_loop_end ConsumedEntireMessage_def)
qed

lemma Message_parse_cut:
  assumes "consumes L 127 (Message_field L) 0 enc upd" "length (enc @ junk) \<le> 67108864"
    "junk \<noteq> []" "vdec 10 junk = None"
  shows "Message_ParseFromArray L (enc @ junk) m = Some (False, upd (Message_Clear m))"
proof -
  let ?s = "CodedInputStream (enc @ junk)"
  have s: "within_limit ?s" "0 \<le> cis_budget ?s" "cis_buf ?s = enc @ junk"
    using assms(2) by (simp_all add: CodedInputStream_def within_limit_def cis_total_def)
  from consumesD [OF assms(1) s, of "Message_Clear m"] obtain b where b: "b \<longrightarrow> cis_legit ?s"
    and l: "merge_loop L 127 (Message_field L) (Message_Clear m) ?s =
     merge_loop L 127 (Message_field L) (upd (Message_Clear m)) (?s\<lparr>cis_buf := junk, cis_legit := b\<rparr>)" by blast
  let ?s2 = "?s\<lparr>cis_buf := junk, cis_legit := b\<rparr>"
  have w2: "within_limit ?s2" and leg: "\<not> cis_legit ?s2"
    using s(1) b by (simp_all add: within_limit_def cis_total_def CodedInputStream_def)
  obtain t s3 where f: "ReadTagFallback L (first_byte ?s2) ?s2 = (t, s3)" by (metis surj_pair)
  have t: "t = 0" "\<not> cis_legit s3" using tag_fail [OF w2 _ _ f] assms(3,4) leg by simp_all
  obtain c cs where junk: "junk = c # cs" using assms(3) by (cases junk) auto
  have c: "\<not> c < 0x80" using assms(4) junk by auto
  have "ReadTagWithCutoffNoLastTag L 127 ?s2 = ((0, False), s3)"
    using f t(1) junk c
    by (auto simp: ReadTagWithCutoffNoLastTag_def byte_pos word_order.extremum_strict split: list.split)
  then have "merge_loop L 127 (Message_field L) (upd (Message_Clear m)) ?s2 =
      Some (True, upd (Message_Clear m), s3)"
    by (subst merge_loop.simps) simp
  then show ?thesis using l t(2)
    by (simp add: Message_ParseFromArray_def ParseFromArray_def Message_MergePartialFromCodedStream_def
        ConsumedEntireMessage_def)
qed

lemma Message_consumes_ser:
  "Message_valid L x \<Longrightarrow> consumes L 127 (Message_field L) depth (Message_SerializeAsString L x)
     (\<lambda>m. Message_MergeFrom m x)"
  unfolding Message_ser_eq by (rule Message_consumes)

end

section \<open>Properties\<close>

definition sample_message :: message where
  "sample_message = \<lparr>msg_id = 7, msg_method = [103, 101, 116, 65, 100], msg_content = [0, 255, 8],
     msg_returncode = - 1, msg_returnmsg = [111, 107], msg_cached_size = 0\<rparr>"

lemma sample_message_valid: "Message_valid ref_lib sample_message"
  by (simp add: Message_valid_def sample_message_def ref_lib_def INT_MAX_def)

lemma sample_message_length: "length (Message_SerializeAsString ref_lib sample_message) = 29"
proof -
  have "length (Message_SerializeAsString ref_lib sample_message) = fst (Message_ByteSizeLong ref_lib sample_message)"
    by (simp add: ref.Message_ser_eq ref.Message_size_eq [OF sample_message_valid])
  also have "\<dots> = 29"
    by (simp add: Message_ByteSizeLong_def sample_message_def Let_def ref.StringSize_eq ref.Int64Size_eq
       INT_MAX_def Int32Size_def VarintSize32SignExtended_def venc_small)
  finally show ?thesis .
qed

text \<open>C31: Round trip of the envelope: parsing the serialisation of a message, into any message
  object, succeeds and gives back every field; only the cached size is that of the target.\<close>

theorem Message_roundtrip:
  assumes "pb_runtime L" "Message_valid L x" "length (Message_SerializeAsString L x) \<le> 67108864"
  shows "Message_ParseFromArray L (Message_SerializeAsString L x) m
           = Some (True, x\<lparr>msg_cached_size := msg_cached_size m\<rparr>)"
  using assms by (rule pb_runtime.Message_parse)

theorem Message_roundtrip_witness:
  "Message_ParseFromArray ref_lib (Message_SerializeAsString ref_lib sample_message) Message_new
     = Some (True, sample_message\<lparr>msg_cached_size := msg_cached_size Message_new\<rparr>)"
  by (rule Message_roundtrip [OF ref_lib_runtime sample_message_valid]) (simp add: sample_message_length)

text \<open>\<open>ByteSizeLong\<close> is exact, caches what it returns, and the array and the stream
  serialiser write the same bytes, of that length.\<close>

theorem Message_size_exact:
  assumes "pb_runtime L" "Message_valid L x"
  shows "Message_SerializeWithCachedSizes L x = Message_InternalSerializeWithCachedSizesToArray L x
    \<and> Message_ByteSizeLong L x =
        (length (Message_SerializeWithCachedSizes L x),
         x\<lparr>msg_cached_size := ToCachedSize (length (Message_SerializeWithCachedSizes L x))\<rparr>)"
  using pb_runtime.Message_stream_eq [OF assms] pb_runtime.Message_size_eq [OF assms]
  by (auto simp: Message_ByteSizeLong_def Let_def)

theorem Message_size_exact_witness:
  "Message_SerializeWithCachedSizes ref_lib sample_message
     = Message_InternalSerializeWithCachedSizesToArray ref_lib sample_message
   \<and> Message_ByteSizeLong ref_lib sample_message =
        (length (Message_SerializeWithCachedSizes ref_lib sample_message),
         sample_message\<lparr>msg_cached_size :=
           ToCachedSize (length (Message_SerializeWithCachedSizes ref_lib sample_message))\<rparr>)"
  by (rule Message_size_exact [OF ref_lib_runtime sample_message_valid])

text \<open>Parsing the concatenation of two serialisations is parsing the first and merging the
  second into it with \<open>MergeFrom\<close>.\<close>

theorem Message_concat_is_merge:
  assumes "pb_runtime L" "Message_valid L x" "Message_valid L y"
    "length (Message_SerializeAsString L x) + length (Message_SerializeAsString L y) \<le> 67108864"
  shows "Message_ParseFromArray L (Message_SerializeAsString L x @ Message_SerializeAsString L y) m
           = Some (True, Message_MergeFrom (Message_MergeFrom (Message_Clear m) x) y)"
  using assms by (rule pb_runtime.Message_parse_two)

theorem Message_concat_is_merge_witness:
  "Message_ParseFromArray ref_lib
      (Message_SerializeAsString ref_lib sample_message @ Message_SerializeAsString ref_lib sample_message) Message_new
     = Some (True, Message_MergeFrom (Message_MergeFrom (Message_Clear Message_new) sample_message) sample_message)"
  by (rule Message_concat_is_merge [OF ref_lib_runtime sample_message_valid sample_message_valid])
     (simp add: sample_message_length)

text \<open>Forward compatibility: a field with a number above 5, as a varint before the known
  fields and as a length-delimited field behind them, changes nothing in what is parsed.\<close>

theorem Message_skips_unknown_fields:
  assumes "pb_runtime L" "Message_valid L x" "5 < f" "f < 2 ^ 29" "v < 2 ^ 64" "5 < g" "g < 2 ^ 29"
    "length str \<le> INT_MAX"
    "length ((venc (8 * f) @ venc v) @ Message_SerializeAsString L x @ venc (8 * g + 2) @ venc (length str) @ str)
       \<le> 67108864"
  shows "Message_ParseFromArray L
      ((venc (8 * f) @ venc v) @ Message_SerializeAsString L x @ venc (8 * g + 2) @ venc (length str) @ str) m
     = Some (True, x\<lparr>msg_cached_size := msg_cached_size m\<rparr>)"
proof -
  have "Message_MergeFrom (Message_Clear m) x = x\<lparr>msg_cached_size := msg_cached_size m\<rparr>"
    by (rule message.equality) (simp_all add: Message_Clear_def)
  moreover note pb_runtime.Message_parse_consumed [OF assms(1)
      consumes_append [OF pb_runtime.consumes_unknown_varint [OF assms(1,3-5)]
        consumes_append [OF pb_runtime.Message_consumes_ser [OF assms(1,2)]
          pb_runtime.consumes_unknown_delimited [OF assms(1,6-8)]]] assms(9), of m]
  ultimately show ?thesis by simp
qed

theorem Message_skips_unknown_fields_witness:
  "Message_ParseFromArray ref_lib
      ((venc (8 * 6) @ venc 5) @ Message_SerializeAsString ref_lib sample_message
         @ venc (8 * 9 + 2) @ venc (length [1, 2 :: byte]) @ [1, 2]) Message_new
     = Some (True, sample_message\<lparr>msg_cached_size := msg_cached_size Message_new\<rparr>)"
  by (rule Message_skips_unknown_fields [OF ref_lib_runtime sample_message_valid])
     (simp_all add: sample_message_length INT_MAX_def venc_small)

text \<open>A message that is followed by a cut-off tag is rejected: the parser reports failure,
  with the fields before the cut already merged.\<close>

theorem Message_rejects_cut_tag:
  assumes "pb_runtime L" "Message_valid L x" "junk \<noteq> []" "vdec 10 junk = None"
    "length (Message_SerializeAsString L x @ junk) \<le> 67108864"
  shows "Message_ParseFromArray L (Message_SerializeAsString L x @ junk) m
           = Some (False, Message_MergeFrom (Message_Clear m) x)"
  by (rule pb_runtime.Message_parse_cut [OF assms(1) pb_runtime.Message_consumes_ser [OF assms(1,2)] assms(5,3,4)])

theorem Message_rejects_cut_tag_witness:
  "Message_ParseFromArray ref_lib (Message_SerializeAsString ref_lib sample_message @ [128, 255]) Message_new
     = Some (False, Message_MergeFrom (Message_Clear Message_new) sample_message)"
  by (rule Message_rejects_cut_tag [OF ref_lib_runtime sample_message_valid])
     (simp_all add: sample_message_length)

text \<open>The parser returns on every input of up to 64 MB, valid or not.\<close>

theorem Message_parser_returns:
  assumes "pb_runtime L" "length data \<le> 67108864"
  shows "\<exists>ok m'. Message_ParseFromArray L data m = Some (ok, m')"
proof -
  have "within_limit (CodedInputStream data)"
    using assms(2) by (simp add: within_limit_def cis_total_def CodedInputStream_def)
  then obtain ok m' s' where
    "Message_MergePartialFromCodedStream L (Message_Clear m) (CodedInputStream data) = Some (ok, m', s')"
    using pb_runtime.Message_merge_ok [OF assms(1)] unfolding merge_ok_def by blast
  then show ?thesis by (simp add: Message_ParseFromArray_def ParseFromArray_def)
qed

theorem Message_parser_returns_witness:
  "\<exists>ok m'. Message_ParseFromArray ref_lib [9, 9, 255, 0, 12] Message_new = Some (ok, m')"
  by (rule Message_parser_returns [OF ref_lib_runtime]) simp

text \<open>The object operations of the class: \<open>MergeFrom\<close> is associative, \<open>CopyFrom\<close> another
  object gives its fields, \<open>CopyFrom\<close> the same object is the identity, \<open>Swap\<close> exchanges the
  two objects and the copy constructor makes an equal message with an empty size cache.\<close>

theorem Message_object_laws:
  "Message_MergeFrom (Message_MergeFrom a b) c = Message_MergeFrom a (Message_MergeFrom b c)
   \<and> Message_CopyFrom False a b = b\<lparr>msg_cached_size := msg_cached_size a\<rparr>
   \<and> Message_CopyFrom True a a = a
   \<and> Message_InternalSwap a b = (b, a)
   \<and> Message_copy a = a\<lparr>msg_cached_size := 0\<rparr>"
  by (auto intro!: message.equality
      simp: Message_CopyFrom_def Message_Clear_def Message_InternalSwap_def Message_copy_def)

end
