(* ===== verification/Session.thy ===== *)
theory Session
  imports MessagePb
begin

text \<open>
  One TCP connection, class TcpSession of \<^verbatim>\<open>src/TcpSession.cpp\<close>.  The object is the
  record \<open>session\<close>; every method and every completion handler is a function from the
  object to the object and the list of effects it has on its surroundings, in the order
  of the calls: the asynchronous operations it starts, the promises it fulfils, the
  handler it calls.  The event loop runs one handler at a time, so a run of the program is
  a sequence of these functions.  The protobuf runtime is the argument \<open>L\<close>; the text of an
  error code is the argument \<open>strerror\<close>.
\<close>

section \<open>The object\<close>

text \<open>What \<open>_afterNetError\<close> holds: nothing, the client's reconnect (TcpClient), or the
  server's removal from the pool (TcpServer).\<close>

datatype after_net_error = NoCallback | Reconnect | Unpool

record request_ctx =
  ctx_msgID :: u64
  ctx_method :: bytes
  ctx_reqTime :: int
  ctx_prom :: nat

record session =
  ses_requestHandler :: bool
  ses_afterNetError :: after_net_error
  ses_msgID :: u32
  ses_lstRequestCtx :: "request_ctx list"
  ses_recvBuf :: bytes
  ses_msgQueue :: "(bytes \<times> bytes option) list"
  ses_open :: bool
  ses_peerAddr :: bytes
  ses_isConnected :: bool

datatype action =
    StartReadHead
  | StartReadBody u32
  | StartWrite bytes
  | Fulfil nat message
  | CallHandler message
  | CallAfterNetError after_net_error
  | LogBodyLength i32
  | LogParseError
  | LogNetError int
  | LogEndpoint bool
  | KeepAlive

text \<open>The constructor.\<close>

definition TcpSession :: session where
  "TcpSession = \<lparr>ses_requestHandler = False, ses_afterNetError = NoCallback, ses_msgID = 1,
     ses_lstRequestCtx = [], ses_recvBuf = [], ses_msgQueue = [], ses_open = False,
     ses_peerAddr = [], ses_isConnected = False\<rparr>"

section \<open>The length prefix\<close>

text \<open>\<open>htonl\<close> and the four bytes written from memory, and the reverse on the receiving side.\<close>

definition be32 :: "u32 \<Rightarrow> bytes" where
  "be32 w = [ucast (drop_bit 24 w), ucast (drop_bit 16 w), ucast (drop_bit 8 w), ucast w]"

definition be32_dec :: "bytes \<Rightarrow> u32" where
  "be32_dec bs =
     push_bit 24 (ucast (bs ! 0)) OR push_bit 16 (ucast (bs ! 1)) OR push_bit 8 (ucast (bs ! 2))
     OR ucast (bs ! 3)"

section \<open>Starting and stopping\<close>

definition readHead :: "session \<Rightarrow> session \<times> action list" where
  "readHead s = (s, [StartReadHead])"

definition readBody :: "u32 \<Rightarrow> session \<Rightarrow> session \<times> action list" where
  "readBody bodyLen s = (s, [StartReadBody bodyLen])"

text \<open>\<open>peer\<close> is what \<open>remote_endpoint\<close> gives, \<open>ec\<close> its error code.\<close>

definition startSession :: "bytes \<Rightarrow> int \<Rightarrow> session \<Rightarrow> session \<times> action list" where
  "startSession peer ec s =
     (let s1 = s\<lparr>ses_isConnected := True, ses_peerAddr := peer\<rparr>;
          (s2, acts) = readHead s1
      in (s2, [LogEndpoint (ec = 0), KeepAlive] @ acts))"

definition stopSession :: "session \<Rightarrow> session" where
  "stopSession s = s\<lparr>ses_open := False, ses_isConnected := False\<rparr>"

section \<open>Errors\<close>

definition netErrorMessage :: "(int \<Rightarrow> bytes) \<Rightarrow> int \<Rightarrow> message" where
  "netErrorMessage strerror ec = Message_new\<lparr>msg_returncode := - 1, msg_returnmsg := strerror ec\<rparr>"

definition handleNetError :: "(int \<Rightarrow> bytes) \<Rightarrow> int \<Rightarrow> session \<Rightarrow> session \<times> action list" where
  "handleNetError strerror ec s =
     (let msg = netErrorMessage strerror ec;
          log = (if ec \<noteq> 2 \<and> ec \<noteq> 995 then [LogNetError ec] else []);
          fulfils = map (\<lambda>ctx. Fulfil (ctx_prom ctx) msg) (ses_lstRequestCtx s);
          s1 = s\<lparr>ses_open := False, ses_isConnected := False, ses_lstRequestCtx := []\<rparr>
      in (s1, log @ fulfils @
              (if ses_afterNetError s1 \<noteq> NoCallback then [CallAfterNetError (ses_afterNetError s1)] else [])))"

section \<open>Receiving\<close>

fun find_ctx :: "u64 \<Rightarrow> request_ctx list \<Rightarrow> (nat \<times> request_ctx list) option" where
  "find_ctx i [] = None"
| "find_ctx i (ctx # ctxs) =
     (if ctx_msgID ctx = i then Some (ctx_prom ctx, ctxs)
      else map_option (\<lambda>(p, rest). (p, ctx # rest)) (find_ctx i ctxs))"

definition findReqPromise :: "message \<Rightarrow> session \<Rightarrow> nat option \<times> session" where
  "findReqPromise msg s =
     (case find_ctx (msg_id msg) (ses_lstRequestCtx s) of
        Some (prom, ctxs) \<Rightarrow> (Some prom, s\<lparr>ses_lstRequestCtx := ctxs\<rparr>)
      | None \<Rightarrow> (None, s))"

text \<open>The completion handlers.  A read that completes has put the bytes it transferred, \<open>got\<close>,
  at the end of \<open>_recvBuf\<close>, also when it completes with an error.\<close>

definition on_readHead :: "(int \<Rightarrow> bytes) \<Rightarrow> int \<Rightarrow> bytes \<Rightarrow> session \<Rightarrow> session \<times> action list" where
  "on_readHead strerror ec got s0 =
     (let s = s0\<lparr>ses_recvBuf := ses_recvBuf s0 @ got\<rparr>
      in if ec = 0
         then
           let bodyLen = be32_dec (ses_recvBuf s);
               s1 = s\<lparr>ses_recvBuf := drop 4 (ses_recvBuf s)\<rparr>;
               log = (if sint bodyLen < 0 \<or> sint bodyLen > 1024 * 1024 * 20
                      then [LogBodyLength bodyLen] else []);
               (s2, acts) = readBody bodyLen s1
           in (s2, log @ acts)
         else handleNetError strerror ec s)"

definition dispatch :: "message \<Rightarrow> session \<Rightarrow> session \<times> action list" where
  "dispatch msg s =
     (case findReqPromise msg s of
        (Some prom, s') \<Rightarrow> (s', [Fulfil prom msg])
      | (None, s') \<Rightarrow>
          (s', if ses_requestHandler s' then [CallHandler (msg\<lparr>msg_returncode := 0\<rparr>)] else []))"

text \<open>\<open>None\<close>: the parser does not return.\<close>

definition on_readBody ::
    "pb_lib \<Rightarrow> (int \<Rightarrow> bytes) \<Rightarrow> int \<Rightarrow> bytes \<Rightarrow> session \<Rightarrow> (session \<times> action list) option" where
  "on_readBody L strerror ec got s0 =
     (let s = s0\<lparr>ses_recvBuf := ses_recvBuf s0 @ got\<rparr>;
          len = length got
      in if ec = 0
         then
           (case Message_ParseFromArray L (take len (ses_recvBuf s)) Message_new of
              None \<Rightarrow> None
            | Some (ok, msg) \<Rightarrow>
                let (s1, acts) = (if ok then dispatch msg s else (s, [LogParseError]));
                    s2 = s1\<lparr>ses_recvBuf := drop len (ses_recvBuf s1)\<rparr>;
                    (s3, acts') = readHead s2
                in Some (s3, acts @ acts'))
         else Some (handleNetError strerror ec s))"

section \<open>Sending\<close>

definition writeData :: "session \<Rightarrow> session \<times> action list" where
  "writeData s =
     (s, [StartWrite (case hd (ses_msgQueue s) of
                        (head, None) \<Rightarrow> head
                      | (head, Some data) \<Rightarrow> head @ data)])"

definition on_write :: "(int \<Rightarrow> bytes) \<Rightarrow> int \<Rightarrow> session \<Rightarrow> session \<times> action list" where
  "on_write strerror ec s =
     (if ec = 0
      then
        let s1 = s\<lparr>ses_msgQueue := tl (ses_msgQueue s)\<rparr>
        in if ses_msgQueue s1 \<noteq> [] then writeData s1 else (s1, [])
      else handleNetError strerror ec s)"

text \<open>The tail that \<open>request\<close> and both \<open>queueRspMsg\<close> share.\<close>

definition enqueue :: "bytes \<times> bytes option \<Rightarrow> session \<Rightarrow> session \<times> action list" where
  "enqueue entry s =
     (let write_in_progress = (ses_msgQueue s \<noteq> []);
          s1 = s\<lparr>ses_msgQueue := ses_msgQueue s @ [entry]\<rparr>
      in if \<not> write_in_progress then writeData s1 else (s1, []))"

text \<open>\<open>htonl (msg.ByteSize ())\<close> and the body, as \<open>SerializeToOstream\<close> writes it.\<close>

definition frame :: "pb_lib \<Rightarrow> message \<Rightarrow> bytes" where
  "frame L msg = be32 (ToCachedSize (fst (Message_ByteSizeLong L msg))) @ Message_SerializeAsString L msg"

text \<open>The functions that \<open>request\<close> and \<open>queueRspMsg\<close> post to the event loop.  The promise is
  the number \<open>prom\<close>.\<close>

definition request :: "pb_lib \<Rightarrow> int \<Rightarrow> message \<Rightarrow> nat \<Rightarrow> session \<Rightarrow> session \<times> action list" where
  "request L now msg prom s =
     (let ctx = \<lparr>ctx_msgID = ucast (ses_msgID s), ctx_method = msg_method msg,
                 ctx_reqTime = now, ctx_prom = prom\<rparr>;
          s1 = s\<lparr>ses_lstRequestCtx := ses_lstRequestCtx s @ [ctx]\<rparr>;
          msg1 = msg\<lparr>msg_id := ucast (ses_msgID s1)\<rparr>;
          s2 = s1\<lparr>ses_msgID := ses_msgID s1 + 1\<rparr>
      in enqueue (frame L msg1, None) s2)"

definition queueRspMsg :: "pb_lib \<Rightarrow> message \<Rightarrow> session \<Rightarrow> session \<times> action list" where
  "queueRspMsg L msg s = enqueue (frame L msg, None) s"

text \<open>The second \<open>queueRspMsg\<close>: the body is a message that has only the number, followed by
  the bytes of a message serialised earlier without one.\<close>

definition queueRspData :: "pb_lib \<Rightarrow> u64 \<Rightarrow> bytes \<Rightarrow> session \<Rightarrow> session \<times> action list" where
  "queueRspData L msgID data s =
     (let msg = Message_new\<lparr>msg_id := msgID\<rparr>;
          len = of_nat (fst (Message_ByteSizeLong L msg) + length data)
      in enqueue (be32 len @ Message_SerializeAsString L msg, Some data) s)"

end
