(* ===== verification/SessionRun.thy ===== *)
theory SessionRun
  imports Session "HOL-Library.Multiset"
begin

text \<open>
  Runs of a session.  \<open>net\<close> is the session together with what is in flight: the reads and
  writes that were started and have not completed, the connections being attempted, and
  two histories, of the entries that were queued and of the promises.  \<open>step\<close> is one turn
  of the event loop: a posted function or the completion handler of an operation in
  flight.  The invariants of reachable states are those the class relies on: one write at
  a time, the queue drained in order, and each promise kept exactly once.
\<close>

section \<open>The event loop\<close>

record net =
  net_ses :: session
  net_reads :: "action list"
  net_writes :: "bytes list"
  net_connects :: nat
  net_queued :: "(bytes \<times> bytes option) list"
  net_started :: "bytes list"
  net_kept :: "(nat \<times> message) list"
  net_promises :: nat
  net_failed :: bool

definition entry_bytes :: "bytes \<times> bytes option \<Rightarrow> bytes" where
  "entry_bytes e = (case e of (head, None) \<Rightarrow> head | (head, Some data) \<Rightarrow> head @ data)"

fun effect :: "action \<Rightarrow> net \<Rightarrow> net" where
  "effect StartReadHead w = w\<lparr>net_reads := net_reads w @ [StartReadHead]\<rparr>"
| "effect (StartReadBody n) w = w\<lparr>net_reads := net_reads w @ [StartReadBody n]\<rparr>"
| "effect (StartWrite bs) w =
     w\<lparr>net_writes := net_writes w @ [bs], net_started := net_started w @ [bs]\<rparr>"
| "effect (Fulfil p m) w = w\<lparr>net_kept := net_kept w @ [(p, m)]\<rparr>"
| "effect (CallAfterNetError cb) w =
     (if cb = Reconnect then w\<lparr>net_connects := Suc (net_connects w)\<rparr> else w)"
| "effect _ w = w"

definition perform :: "session \<times> action list \<Rightarrow> net \<Rightarrow> net" where
  "perform r w = fold effect (snd r) (w\<lparr>net_ses := fst r\<rparr>)"

definition start :: "after_net_error \<Rightarrow> bool \<Rightarrow> net" where
  "start cb handler =
     \<lparr>net_ses = TcpSession\<lparr>ses_afterNetError := cb, ses_requestHandler := handler\<rparr>,
      net_reads = [], net_writes = [], net_connects = 1, net_queued = [], net_started = [],
      net_kept = [], net_promises = 0, net_failed = False\<rparr>"

inductive step :: "pb_lib \<Rightarrow> (int \<Rightarrow> bytes) \<Rightarrow> net \<Rightarrow> net \<Rightarrow> bool"
  for L :: pb_lib and strerror :: "int \<Rightarrow> bytes" where
  connected: "net_connects w = Suc n \<Longrightarrow>
     step L strerror w (perform (startSession peer ec ((net_ses w)\<lparr>ses_open := True\<rparr>)) (w\<lparr>net_connects := n\<rparr>))"
| stopped: "step L strerror w (w\<lparr>net_ses := stopSession (net_ses w)\<rparr>)"
| requested: "step L strerror w
     (perform (request L now msg (net_promises w) (net_ses w))
        (w\<lparr>net_promises := Suc (net_promises w),
           net_queued := net_queued w @ [(frame L (msg\<lparr>msg_id := ucast (ses_msgID (net_ses w))\<rparr>), None)]\<rparr>))"
| responded: "step L strerror w
     (perform (queueRspMsg L msg (net_ses w)) (w\<lparr>net_queued := net_queued w @ [(frame L msg, None)]\<rparr>))"
| responded_data: "step L strerror w
     (perform (queueRspData L i data (net_ses w))
        (w\<lparr>net_queued := net_queued w @
            [(be32 (of_nat (fst (Message_ByteSizeLong L (Message_new\<lparr>msg_id := i\<rparr>)) + length data)) @
               Message_SerializeAsString L (Message_new\<lparr>msg_id := i\<rparr>), Some data)]\<rparr>))"
| head_read: "net_reads w = StartReadHead # rs \<Longrightarrow> (ec = 0 \<longrightarrow> length got = 4) \<Longrightarrow>
     step L strerror w (perform (on_readHead strerror ec got (net_ses w)) (w\<lparr>net_reads := rs\<rparr>))"
| body_read: "net_reads w = StartReadBody n # rs \<Longrightarrow> (ec = 0 \<longrightarrow> length got = unat n) \<Longrightarrow>
     on_readBody L strerror ec got (net_ses w) = Some r \<Longrightarrow>
     step L strerror w (perform r (w\<lparr>net_reads := rs\<rparr>))"
| written: "net_writes w = bs # ws \<Longrightarrow>
     step L strerror w (perform (on_write strerror ec (net_ses w))
        (w\<lparr>net_writes := ws, net_failed := (net_failed w \<or> ec \<noteq> 0)\<rparr>))"

inductive_cases stepE: "step L strerror w w'"

section \<open>What the effects of one turn do\<close>

fun writes_of :: "action list \<Rightarrow> bytes list" where
  "writes_of [] = []"
| "writes_of (StartWrite bs # as) = bs # writes_of as"
| "writes_of (_ # as) = writes_of as"

fun kept_of :: "action list \<Rightarrow> (nat \<times> message) list" where
  "kept_of [] = []"
| "kept_of (Fulfil p m # as) = (p, m) # kept_of as"
| "kept_of (_ # as) = kept_of as"

lemma writes_of_append [simp]: "writes_of (as @ bs) = writes_of as @ writes_of bs"
  by (induction as rule: writes_of.induct) simp_all

lemma kept_of_append [simp]: "kept_of (as @ bs) = kept_of as @ kept_of bs"
  by (induction as rule: kept_of.induct) simp_all

lemma of_fulfils [simp]:
  "writes_of (map (\<lambda>c. Fulfil (ctx_prom c) m) cs) = []"
  "kept_of (map (\<lambda>c. Fulfil (ctx_prom c) m) cs) = map (\<lambda>c. (ctx_prom c, m)) cs"
  by (induction cs) simp_all

lemma fold_effect [session_simps]:
  "net_ses (fold effect as w) = net_ses w"
  "net_writes (fold effect as w) = net_writes w @ writes_of as"
  "net_started (fold effect as w) = net_started w @ writes_of as"
  "net_kept (fold effect as w) = net_kept w @ kept_of as"
  "net_queued (fold effect as w) = net_queued w"
  "net_promises (fold effect as w) = net_promises w"
  "net_failed (fold effect as w) = net_failed w"
  by (induction as arbitrary: w rule: writes_of.induct) (auto)

lemma perform_sel [session_simps]:
  "net_ses (perform r w) = fst r"
  "net_writes (perform r w) = net_writes w @ writes_of (snd r)"
  "net_started (perform r w) = net_started w @ writes_of (snd r)"
  "net_kept (perform r w) = net_kept w @ kept_of (snd r)"
  "net_queued (perform r w) = net_queued w"
  "net_promises (perform r w) = net_promises w"
  "net_failed (perform r w) = net_failed w"
  by (simp_all add: perform_def fold_effect)

text \<open>The handlers by what they do to the queue, the writes, the outstanding requests and the
  promises.\<close>

lemma startSession_frame [session_simps]:
  "ses_msgQueue (fst (startSession peer ec s)) = ses_msgQueue s"
  "ses_lstRequestCtx (fst (startSession peer ec s)) = ses_lstRequestCtx s"
  "writes_of (snd (startSession peer ec s)) = []" "kept_of (snd (startSession peer ec s)) = []"
  by (simp_all add: startSession_def readHead_def)

lemma handleNetError_frame [session_simps]:
  "ses_msgQueue (fst (handleNetError strerror ec s)) = ses_msgQueue s"
  "ses_lstRequestCtx (fst (handleNetError strerror ec s)) = []"
  "writes_of (snd (handleNetError strerror ec s)) = []"
  "kept_of (snd (handleNetError strerror ec s)) = map (\<lambda>c. (ctx_prom c, netErrorMessage strerror ec)) (ses_lstRequestCtx s)"
  by (simp_all add: handleNetError_def Let_def)

lemma on_readHead_frame [session_simps]:
  "ses_msgQueue (fst (on_readHead strerror ec got s)) = ses_msgQueue s"
  "writes_of (snd (on_readHead strerror ec got s)) = []"
  by (simp_all add: on_readHead_def readBody_def handleNetError_frame Let_def)

lemma on_readBody_frame:
  assumes "on_readBody L strerror ec got s = Some r"
  shows "ses_msgQueue (fst r) = ses_msgQueue s" "writes_of (snd r) = []"
  using assms
  by (auto simp: on_readBody_def dispatch_def findReqPromise_def readHead_def handleNetError_frame Let_def
      split: option.splits if_splits prod.splits)

lemma writeData_frame [session_simps]:
  "ses_msgQueue s \<noteq> [] \<Longrightarrow> writeData s = (s, [StartWrite (entry_bytes (hd (ses_msgQueue s)))])"
  by (simp add: writeData_def entry_bytes_def)

lemma enqueue_frame [session_simps]:
  "ses_msgQueue (fst (enqueue e s)) = ses_msgQueue s @ [e]"
  "ses_lstRequestCtx (fst (enqueue e s)) = ses_lstRequestCtx s"
  "writes_of (snd (enqueue e s)) = (if ses_msgQueue s = [] then [entry_bytes e] else [])"
  "kept_of (snd (enqueue e s)) = []"
  by (simp_all add: enqueue_def writeData_frame Let_def)

section \<open>One write at a time, in the order of the queue\<close>

definition queue_inv :: "net \<Rightarrow> bool" where
  "queue_inv w \<longleftrightarrow>
     (\<exists>done. net_queued w = done @ ses_msgQueue (net_ses w) \<and>
        net_started w = map entry_bytes (done @ take 1 (ses_msgQueue (net_ses w))) \<and>
        (net_failed w \<longrightarrow> net_writes w = [] \<and> ses_msgQueue (net_ses w) \<noteq> []) \<and>
        (\<not> net_failed w \<longrightarrow> net_writes w = map entry_bytes (take 1 (ses_msgQueue (net_ses w)))))"

lemma queue_inv_start: "queue_inv (start cb h)"
  by (simp add: queue_inv_def start_def TcpSession_def)

text \<open>A turn that leaves the queue alone and starts no write.\<close>

lemma queue_inv_idle:
  assumes "queue_inv w" "ses_msgQueue (fst r) = ses_msgQueue (net_ses w)" "writes_of (snd r) = []"
    "net_writes v = net_writes w" "net_started v = net_started w" "net_queued v = net_queued w"
    "net_failed v = net_failed w"
  shows "queue_inv (perform r v)"
  using assms by (simp add: queue_inv_def perform_sel)

lemma queue_inv_enqueue:
  assumes "queue_inv w" "ses_msgQueue s = ses_msgQueue (net_ses w)"
    "net_writes v = net_writes w" "net_started v = net_started w" "net_queued v = net_queued w @ [e]"
    "net_failed v = net_failed w"
  shows "queue_inv (perform (enqueue e s) v)"
proof -
  obtain don where "net_queued w = don @ ses_msgQueue (net_ses w)"
    "net_started w = map entry_bytes (don @ take 1 (ses_msgQueue (net_ses w)))"
    "net_failed w \<Longrightarrow> net_writes w = [] \<and> ses_msgQueue (net_ses w) \<noteq> []"
    "\<not> net_failed w \<Longrightarrow> net_writes w = map entry_bytes (take 1 (ses_msgQueue (net_ses w)))"
    using assms(1) unfolding queue_inv_def by blast
  then show ?thesis
    unfolding queue_inv_def using assms(2-)
    by (intro exI [of _ don]) (cases "ses_msgQueue (net_ses w)"; cases "net_failed w"; simp add: perform_sel enqueue_frame)
qed

lemma queue_inv_written:
  assumes "queue_inv w" "net_writes w = bs # ws"
  shows "queue_inv (perform (on_write strerror ec (net_ses w))
        (w\<lparr>net_writes := ws, net_failed := (net_failed w \<or> ec \<noteq> 0)\<rparr>))"
proof -
  obtain don where d: "net_queued w = don @ ses_msgQueue (net_ses w)"
    "net_started w = map entry_bytes (don @ take 1 (ses_msgQueue (net_ses w)))"
    "net_failed w \<Longrightarrow> net_writes w = [] \<and> ses_msgQueue (net_ses w) \<noteq> []"
    "\<not> net_failed w \<Longrightarrow> net_writes w = map entry_bytes (take 1 (ses_msgQueue (net_ses w)))"
    using assms(1) unfolding queue_inv_def by blast
  then have nf: "\<not> net_failed w" using assms(2) by auto
  then obtain e q where q: "ses_msgQueue (net_ses w) = e # q" and ws: "ws = []"
    using d(4) assms(2) by (cases "ses_msgQueue (net_ses w)") auto
  show ?thesis
  proof (cases "ec = 0")
    case True
    then show ?thesis
      unfolding queue_inv_def using d nf q ws
      by (intro exI [of _ "don @ [e]"]) (cases q; simp add: perform_sel on_write_def writeData_frame)
  next
    case False
    then show ?thesis
      unfolding queue_inv_def using d nf q ws
      by (intro exI [of _ don]) (simp add: perform_sel on_write_def handleNetError_frame)
  qed
qed

lemma queue_inv_step:
  assumes "queue_inv w" "step L strerror w w'"
  shows "queue_inv w'"
  using assms(2)
proof cases
  case (requested now msg)
  show ?thesis unfolding requested request_def Let_def
    by (rule queue_inv_enqueue [OF assms(1)]) simp_all
next
  case (responded msg)
  show ?thesis unfolding responded queueRspMsg_def
    by (rule queue_inv_enqueue [OF assms(1)]) simp_all
next
  case (responded_data i data)
  show ?thesis unfolding responded_data queueRspData_def Let_def
    by (rule queue_inv_enqueue [OF assms(1)]) simp_all
next
  case (written bs ws ec)
  show ?thesis unfolding written(1) by (rule queue_inv_written [OF assms(1) written(2)])
next
  case (body_read n rs ec got r)
  show ?thesis unfolding body_read(1)
    by (rule queue_inv_idle [OF assms(1)]) (simp_all add: on_readBody_frame [OF body_read(4)])
next
  case stopped
  then show ?thesis using assms(1) by (simp add: queue_inv_def stopSession_def)
qed (simp_all add: queue_inv_idle [OF assms(1)] session_simps)

interpretation queue: stable "step L strerror" queue_inv for L strerror
  by unfold_locales (rule queue_inv_step)

section \<open>Each promise is kept once\<close>

definition promise_inv :: "net \<Rightarrow> bool" where
  "promise_inv w \<longleftrightarrow>
     mset (map ctx_prom (ses_lstRequestCtx (net_ses w))) + mset (map fst (net_kept w))
       = mset [0..<net_promises w]"

lemma find_ctx_mset:
  "find_ctx i cs = Some (p, rest) \<Longrightarrow> mset (map ctx_prom cs) = add_mset p (mset (map ctx_prom rest))"
  by (induction cs arbitrary: rest) (auto split: if_splits)

text \<open>What a turn moves from the outstanding requests to the kept promises.\<close>

definition settles :: "session \<Rightarrow> session \<times> action list \<Rightarrow> bool" where
  "settles s r \<longleftrightarrow>
     mset (map ctx_prom (ses_lstRequestCtx (fst r))) + mset (map fst (kept_of (snd r)))
       = mset (map ctx_prom (ses_lstRequestCtx s))"

lemma settles_handleNetError: "settles s (handleNetError strerror ec s)"
  by (simp add: settles_def handleNetError_frame comp_def)

lemma settles_startSession: "settles s (startSession peer ec s)"
  by (simp add: settles_def startSession_frame)

lemma settles_on_readHead: "settles s (on_readHead strerror ec got s)"
  using settles_handleNetError [of "s\<lparr>ses_recvBuf := ses_recvBuf s @ got\<rparr>" strerror ec]
  by (simp add: on_readHead_def Let_def readBody_def settles_def)

lemma settles_dispatch: "settles s (dispatch msg s)"
  using find_ctx_mset [of "msg_id msg" "ses_lstRequestCtx s"]
  by (auto simp: dispatch_def findReqPromise_def settles_def split: option.splits)

lemma settles_on_readBody:
  assumes "on_readBody L strerror ec got s = Some r"
  shows "settles s r"
proof -
  let ?s = "s\<lparr>ses_recvBuf := ses_recvBuf s @ got\<rparr>"
  show ?thesis
  proof (cases "ec = 0")
    case True
    then obtain ok msg where p: "Message_ParseFromArray L (take (length got) (ses_recvBuf ?s)) Message_new = Some (ok, msg)"
      using assms by (auto simp: on_readBody_def Let_def split: option.splits)
    show ?thesis
      using assms True p settles_dispatch [of ?s msg]
      by (cases "dispatch msg ?s") (auto simp: on_readBody_def Let_def settles_def readHead_def split: if_splits)
  next
    case False
    then show ?thesis
      using assms settles_handleNetError [of ?s strerror ec] by (auto simp: on_readBody_def settles_def)
  qed
qed

lemma settles_on_write: "settles s (on_write strerror ec s)"
proof (cases "ec = 0")
  case True
  then show ?thesis
    by (cases "tl (ses_msgQueue s) = []") (simp_all add: on_write_def settles_def writeData_def)
next
  case False
  then show ?thesis by (simp add: on_write_def settles_handleNetError)
qed

lemma promise_inv_settles:
  assumes "promise_inv w" "settles (net_ses w) r" "net_kept v = net_kept w" "net_promises v = net_promises w"
  shows "promise_inv (perform r v)"
  using assms unfolding promise_inv_def settles_def by (simp add: perform_sel) (metis add.assoc add.commute)

lemma promise_inv_enqueue:
  assumes "promise_inv w" "ses_lstRequestCtx s = ses_lstRequestCtx (net_ses w)"
    "net_kept v = net_kept w" "net_promises v = net_promises w"
  shows "promise_inv (perform (enqueue e s) v)"
  using assms by (simp add: promise_inv_def perform_sel enqueue_frame)

lemma promise_inv_step:
  assumes "promise_inv w" "step L strerror w w'"
  shows "promise_inv w'"
  using assms(2)
proof cases
  case (requested now msg)
  then show ?thesis using assms(1)
    by (simp add: promise_inv_def perform_sel request_def enqueue_frame Let_def)
next
  case (responded msg)
  show ?thesis unfolding responded queueRspMsg_def
    by (rule promise_inv_enqueue [OF assms(1)]) simp_all
next
  case (responded_data i data)
  show ?thesis unfolding responded_data queueRspData_def Let_def
    by (rule promise_inv_enqueue [OF assms(1)]) simp_all
next
  case (connected n peer ec)
  have "settles (net_ses w) (startSession peer ec ((net_ses w)\<lparr>ses_open := True\<rparr>))"
    by (simp add: settles_def startSession_frame)
  then show ?thesis unfolding connected(1) by (rule promise_inv_settles [OF assms(1)]) simp_all
next
  case stopped
  then show ?thesis using assms(1) by (simp add: promise_inv_def stopSession_def)
next
  case (head_read rs ec got)
  show ?thesis unfolding head_read(1)
    by (rule promise_inv_settles [OF assms(1) settles_on_readHead]) simp_all
next
  case (body_read n rs ec got r)
  show ?thesis unfolding body_read(1)
    by (rule promise_inv_settles [OF assms(1) settles_on_readBody [OF body_read(4)]]) simp_all
next
  case (written bs ws ec)
  show ?thesis unfolding written(1)
    by (rule promise_inv_settles [OF assms(1) settles_on_write]) simp_all
qed

interpretation promises: stable "step L strerror" promise_inv for L strerror
  by unfold_locales (rule promise_inv_step)

lemma promise_inv_start: "promise_inv (start cb h)"
  by (simp add: promise_inv_def start_def TcpSession_def)

section \<open>A session that failed to write stays silent\<close>

definition silent :: "bytes list \<Rightarrow> net \<Rightarrow> bool" where
  "silent started w \<longleftrightarrow>
     ses_msgQueue (net_ses w) \<noteq> [] \<and> net_writes w = [] \<and> net_started w = started"

lemma silent_step:
  assumes "silent started w" "step L strerror w w'"
  shows "silent started w'"
  using assms(2)
proof cases
  case (written bs ws ec)
  then show ?thesis using assms(1) by (simp add: silent_def)
next
  case (body_read n rs ec got r)
  then show ?thesis using assms(1) by (simp add: silent_def perform_sel on_readBody_frame)
qed (use assms(1) in \<open>simp_all add: silent_def session_simps request_def queueRspMsg_def queueRspData_def
  stopSession_def Let_def\<close>)

interpretation silence: stable "step L strerror" "silent started" for L strerror started
  by unfold_locales (rule silent_step)

section \<open>Framing\<close>

lemma length_be32 [simp]: "length (be32 w) = 4"
  by (simp add: be32_def)

lemma be32_dec_be32 [simp]: "be32_dec (be32 w) = w"
proof (rule bit_word_eqI)
  fix n :: nat
  assume "n < LENGTH(32)"
  then consider "n < 8" | "8 \<le> n" "n < 16" | "16 \<le> n" "n < 24" | "24 \<le> n" "n < 32"
    by fastforce
  then show "bit (be32_dec (be32 w)) n = bit w n"
    by cases (auto simp: be32_dec_def be32_def bit_simps)
qed

text \<open>The receiving side of a connection that delivers the bytes \<open>stream\<close>: each
  \<open>transfer_exactly (n)\<close> completes with the next \<open>n\<close> bytes when they are there.  The result
  is the session, its effects and the bytes that are left in front of an unfinished read.\<close>

function feed ::
    "pb_lib \<Rightarrow> (int \<Rightarrow> bytes) \<Rightarrow> bytes \<Rightarrow> session \<Rightarrow> (session \<times> action list \<times> bytes) option" where
  "feed L strerror stream s =
     (if length stream < 4 then Some (s, [], stream)
      else
        let (s1, a1) = on_readHead strerror 0 (take 4 stream) s;
            n = unat (be32_dec (take 4 stream));
            rest = drop 4 stream
        in if length rest < n then Some (s1, a1, rest)
           else (case on_readBody L strerror 0 (take n rest) s1 of
                   None \<Rightarrow> None
                 | Some (s2, a2) \<Rightarrow>
                     (case feed L strerror (drop n rest) s2 of
                        None \<Rightarrow> None
                      | Some (s3, a3, left) \<Rightarrow> Some (s3, a1 @ a2 @ a3, left))))"
  by pat_completeness auto
termination
  by (relation "measure (\<lambda>(L, strerror, stream, s). length stream)") auto

declare feed.simps [simp del]

fun is_delivery :: "action \<Rightarrow> bool" where
  "is_delivery (Fulfil p m) = True"
| "is_delivery (CallHandler m) = True"
| "is_delivery _ = False"

fun dispatch_all :: "message list \<Rightarrow> session \<Rightarrow> session \<times> action list" where
  "dispatch_all [] s = (s, [])"
| "dispatch_all (m # ms) s =
     (let (s1, a1) = dispatch m s; (s2, a2) = dispatch_all ms s1 in (s2, a1 @ a2))"

lemma dispatch_recvBuf: "ses_recvBuf (fst (dispatch m s)) = ses_recvBuf s"
  by (auto simp: dispatch_def findReqPromise_def split: option.splits)

lemma dispatch_update:
  "dispatch m (s\<lparr>ses_recvBuf := b\<rparr>) = ((fst (dispatch m s))\<lparr>ses_recvBuf := b\<rparr>, snd (dispatch m s))"
  by (auto simp: dispatch_def findReqPromise_def split: option.splits)

lemma dispatch_deliveries: "filter is_delivery (snd (dispatch m s)) = snd (dispatch m s)"
  by (auto simp: dispatch_def findReqPromise_def split: option.splits)

text \<open>One frame.\<close>

lemma feed_frame:
  assumes "ses_recvBuf s = []" "length body < 2 ^ 32"
    "Message_ParseFromArray L body Message_new = Some (True, msg)"
  shows "\<exists>acts. filter is_delivery acts = snd (dispatch msg s) \<and>
     feed L strerror (be32 (of_nat (length body)) @ body @ rest) s =
       map_option (\<lambda>(s3, a3, left). (s3, acts @ a3, left)) (feed L strerror rest (fst (dispatch msg s)))"
proof -
  let ?n = "of_nat (length body) :: u32"
  let ?stream = "be32 ?n @ body @ rest"
  obtain a1 where h: "on_readHead strerror 0 (be32 ?n) s = (s, a1)" "filter is_delivery a1 = []"
    using assms(1) by (auto simp: on_readHead_def readBody_def Let_def be32_def)
  have n: "unat ?n = length body" using assms(2) by (simp add: unat_of_nat_u32)
  have upd: "dispatch msg (s\<lparr>ses_recvBuf := body\<rparr>) =
      ((fst (dispatch msg s))\<lparr>ses_recvBuf := body\<rparr>, snd (dispatch msg s))"
    by (rule dispatch_update)
  have clr: "(fst (dispatch msg s))\<lparr>ses_recvBuf := []\<rparr> = fst (dispatch msg s)"
    using dispatch_recvBuf [of msg s] assms(1) by simp
  have b: "on_readBody L strerror 0 body s = Some (fst (dispatch msg s), snd (dispatch msg s) @ [StartReadHead])"
    using assms(1,3) by (simp add: on_readBody_def readHead_def upd clr Let_def)
  show ?thesis
    by (intro exI [of _ "a1 @ snd (dispatch msg s) @ [StartReadHead]"] conjI)
       (simp add: h dispatch_deliveries,
        subst feed.simps, simp add: n h b Let_def split: option.split prod.split)
qed

text \<open>Any number of frames.\<close>

lemma feed_bodies:
  assumes "ses_recvBuf s = []"
    "\<forall>(body, msg) \<in> set bms. length body < 2 ^ 32 \<and>
       Message_ParseFromArray L body Message_new = Some (True, msg)"
  shows "\<exists>acts. feed L strerror (concat (map (\<lambda>(body, msg). be32 (of_nat (length body)) @ body) bms)) s =
      Some (fst (dispatch_all (map snd bms) s), acts, []) \<and>
      filter is_delivery acts = snd (dispatch_all (map snd bms) s)"
  using assms
proof (induction bms arbitrary: s)
  case Nil
  then show ?case by (subst feed.simps) simp
next
  case (Cons bm bms)
  obtain body msg where bm: "bm = (body, msg)" by (cases bm)
  let ?rest = "concat (map (\<lambda>(body, msg). be32 (of_nat (length body)) @ body) bms)"
  obtain a1 where 1: "filter is_delivery a1 = snd (dispatch msg s)"
    "feed L strerror (be32 (of_nat (length body)) @ body @ ?rest) s =
      map_option (\<lambda>(s3, a3, left). (s3, a1 @ a3, left)) (feed L strerror ?rest (fst (dispatch msg s)))"
    using feed_frame [of s body L msg strerror ?rest] Cons.prems bm by auto
  obtain a2 where 2: "feed L strerror ?rest (fst (dispatch msg s)) =
      Some (fst (dispatch_all (map snd bms) (fst (dispatch msg s))), a2, [])"
    "filter is_delivery a2 = snd (dispatch_all (map snd bms) (fst (dispatch msg s)))"
    using Cons.IH [of "fst (dispatch msg s)"] Cons.prems by (auto simp: dispatch_recvBuf)
  show ?case
    by (intro exI [of _ "a1 @ a2"]) (simp add: bm 1 2 split: prod.split)
qed

section \<open>What the entries of the queue carry\<close>

definition carries :: "pb_lib \<Rightarrow> bytes \<times> bytes option \<Rightarrow> message \<Rightarrow> bool" where
  "carries L e msg \<longleftrightarrow>
     (\<exists>body. entry_bytes e = be32 (of_nat (length body)) @ body \<and> length body < 2 ^ 32 \<and>
        Message_ParseFromArray L body Message_new = Some (True, msg))"

lemma carries_feed:
  assumes "list_all2 (carries L) es ms"
  shows "\<exists>bms. map snd bms = ms \<and>
     concat (map entry_bytes es) = concat (map (\<lambda>(body, msg). be32 (of_nat (length body)) @ body) bms) \<and>
     (\<forall>(body, msg) \<in> set bms. length body < 2 ^ 32 \<and>
        Message_ParseFromArray L body Message_new = Some (True, msg))"
  using assms
proof (induction rule: list_all2_induct)
  case Nil
  then show ?case by (intro exI [of _ "[]"]) simp
next
  case (Cons e es m ms)
  then obtain bms body where "map snd bms = ms"
    "concat (map entry_bytes es) = concat (map (\<lambda>(body, msg). be32 (of_nat (length body)) @ body) bms)"
    "\<forall>(body, msg) \<in> set bms. length body < 2 ^ 32 \<and>
        Message_ParseFromArray L body Message_new = Some (True, msg)"
    "entry_bytes e = be32 (of_nat (length body)) @ body" "length body < 2 ^ 32"
    "Message_ParseFromArray L body Message_new = Some (True, m)"
    by (auto simp: carries_def)
  then show ?case by (intro exI [of _ "(body, m) # bms"]) auto
qed

context pb_runtime
begin

lemma frame_eq:
  assumes "Message_valid L m"
  shows "frame L m = be32 (of_nat (length (Message_SerializeAsString L m))) @ Message_SerializeAsString L m"
  using Message_size_eq [OF assms] by (simp add: frame_def ToCachedSize_def Message_ser_eq)

lemma carries_frame:
  assumes "Message_valid L m" "length (Message_SerializeAsString L m) \<le> 67108864"
  shows "carries L (frame L m, None) (m\<lparr>msg_cached_size := 0\<rparr>)"
  unfolding carries_def using Message_parse [OF assms, of Message_new] assms(2)
  by (intro exI [of _ "Message_SerializeAsString L m"])
     (simp add: entry_bytes_def frame_eq [OF assms(1)] Message_new_def)

lemma Message_valid_id: "Message_valid L (Message_new\<lparr>msg_id := i\<rparr>)"
  by (simp add: Message_valid_def Message_new_def INT_MAX_def)

lemma Message_id_length: "length (Message_SerializeAsString L (Message_new\<lparr>msg_id := i\<rparr>)) \<le> 11"
proof -
  have "length (venc (unat i)) \<le> Suc 9"
    by (rule length_venc_le) (use unat_u64_bound [of i] in simp)
  then show ?thesis
    by (simp add: Message_ser_eq Message_InternalSerializeWithCachedSizesToArray_def Message_new_def
        wire_simps venc_small)
qed

lemma carries_response_data:
  assumes "Message_valid L x" "msg_id x = 0" "length (Message_SerializeAsString L x) \<le> 67108000"
  shows "carries L (be32 (of_nat (fst (Message_ByteSizeLong L (Message_new\<lparr>msg_id := i\<rparr>))
             + length (Message_SerializeAsString L x))) @
           Message_SerializeAsString L (Message_new\<lparr>msg_id := i\<rparr>), Some (Message_SerializeAsString L x))
         (x\<lparr>msg_id := i, msg_cached_size := 0\<rparr>)"
proof -
  let ?idm = "Message_new\<lparr>msg_id := i\<rparr>"
  let ?body = "Message_SerializeAsString L ?idm @ Message_SerializeAsString L x"
  have size: "fst (Message_ByteSizeLong L ?idm) = length (Message_SerializeAsString L ?idm)"
    using Message_size_eq [OF Message_valid_id] by (simp add: Message_ser_eq)
  have len: "length ?body \<le> 67108864" using Message_id_length [of i] assms(3) by simp
  have "Message_ParseFromArray L ?body Message_new =
      Some (True, Message_MergeFrom (Message_MergeFrom (Message_Clear Message_new) ?idm) x)"
    by (rule Message_parse_two [OF Message_valid_id assms(1)]) (use len in simp)
  moreover have "Message_MergeFrom (Message_MergeFrom (Message_Clear Message_new) ?idm) x =
      x\<lparr>msg_id := i, msg_cached_size := 0\<rparr>"
    by (rule message.equality) (simp_all add: Message_Clear_def Message_new_def assms(2))
  ultimately show ?thesis
    unfolding carries_def using len by (intro exI [of _ ?body]) (simp add: entry_bytes_def size)
qed

end

section \<open>Request numbers\<close>

definition id_inv :: "net \<Rightarrow> bool" where
  "id_inv w \<longleftrightarrow>
     ses_msgID (net_ses w) = of_nat (Suc (net_promises w)) \<and>
     (\<forall>c \<in> set (ses_lstRequestCtx (net_ses w)). ctx_msgID c = ucast (of_nat (Suc (ctx_prom c)) :: u32))"

lemma id_inv_start: "id_inv (start cb h)"
  by (simp add: id_inv_def start_def TcpSession_def)

text \<open>A turn that keeps the counter and only takes requests off the list.\<close>

lemma id_inv_shrinks:
  assumes "id_inv w" "ses_msgID (fst r) = ses_msgID (net_ses w)" "net_promises v = net_promises w"
    "set (ses_lstRequestCtx (fst r)) \<subseteq> set (ses_lstRequestCtx (net_ses w))"
  shows "id_inv (perform r v)"
  using assms by (auto simp: id_inv_def perform_sel)

lemma find_ctx_subset: "find_ctx i cs = Some (p, rest) \<Longrightarrow> set rest \<subseteq> set cs"
  by (induction cs arbitrary: rest) (auto split: if_splits)

lemma dispatch_ids:
  "ses_msgID (fst (dispatch msg s)) = ses_msgID s"
  "set (ses_lstRequestCtx (fst (dispatch msg s))) \<subseteq> set (ses_lstRequestCtx s)"
  using find_ctx_subset [of "msg_id msg" "ses_lstRequestCtx s"]
  by (auto simp: dispatch_def findReqPromise_def split: option.splits)

lemma handleNetError_ids:
  "ses_msgID (fst (handleNetError strerror ec s)) = ses_msgID s"
  by (simp add: handleNetError_def Let_def)

lemma on_readBody_ids:
  assumes "on_readBody L strerror ec got s = Some r"
  shows "ses_msgID (fst r) = ses_msgID s" "set (ses_lstRequestCtx (fst r)) \<subseteq> set (ses_lstRequestCtx s)"
proof -
  let ?s = "s\<lparr>ses_recvBuf := ses_recvBuf s @ got\<rparr>"
  have "ses_msgID (fst r) = ses_msgID s \<and> set (ses_lstRequestCtx (fst r)) \<subseteq> set (ses_lstRequestCtx s)"
  proof (cases "ec = 0")
    case True
    then obtain ok msg where p: "Message_ParseFromArray L (take (length got) (ses_recvBuf ?s)) Message_new = Some (ok, msg)"
      using assms by (auto simp: on_readBody_def Let_def split: option.splits)
    show ?thesis
      using assms True p dispatch_ids [of msg ?s]
      by (cases "dispatch msg ?s") (auto simp: on_readBody_def Let_def readHead_def split: if_splits)
  next
    case False
    then show ?thesis
      using assms by (auto simp: on_readBody_def handleNetError_ids handleNetError_frame)
  qed
  then show "ses_msgID (fst r) = ses_msgID s" "set (ses_lstRequestCtx (fst r)) \<subseteq> set (ses_lstRequestCtx s)"
    by blast+
qed

lemma enqueue_ids: "ses_msgID (fst (enqueue e s)) = ses_msgID s"
  by (cases "ses_msgQueue s = []") (simp_all add: enqueue_def writeData_def Let_def)

lemma on_write_ids:
  "ses_msgID (fst (on_write strerror ec s)) = ses_msgID s"
  "set (ses_lstRequestCtx (fst (on_write strerror ec s))) \<subseteq> set (ses_lstRequestCtx s)"
  by (auto simp: on_write_def handleNetError_ids handleNetError_frame writeData_def Let_def split: if_splits)

lemma id_inv_step:
  assumes "id_inv w" "step L strerror w w'"
  shows "id_inv w'"
  using assms(2)
proof cases
  case (requested now msg)
  then show ?thesis using assms(1)
    by (auto simp: id_inv_def perform_sel request_def enqueue_ids enqueue_frame Let_def)
next
  case (responded msg)
  show ?thesis unfolding responded queueRspMsg_def
    by (rule id_inv_shrinks [OF assms(1)]) (simp_all add: enqueue_ids enqueue_frame)
next
  case (responded_data i data)
  show ?thesis unfolding responded_data queueRspData_def Let_def
    by (rule id_inv_shrinks [OF assms(1)]) (simp_all add: enqueue_ids enqueue_frame)
next
  case (connected n peer ec)
  show ?thesis unfolding connected(1)
    by (rule id_inv_shrinks [OF assms(1)]) (simp_all add: startSession_def readHead_def)
next
  case stopped
  then show ?thesis using assms(1) by (simp add: id_inv_def stopSession_def)
next
  case (head_read rs ec got)
  show ?thesis unfolding head_read(1)
    by (rule id_inv_shrinks [OF assms(1)])
       (simp_all add: on_readHead_def readBody_def handleNetError_ids handleNetError_frame Let_def)
next
  case (body_read n rs ec got r)
  show ?thesis unfolding body_read(1)
    by (rule id_inv_shrinks [OF assms(1)]) (simp_all add: on_readBody_ids [OF body_read(4)])
next
  case (written bs ws ec)
  show ?thesis unfolding written(1)
    by (rule id_inv_shrinks [OF assms(1)]) (simp_all add: on_write_ids)
qed

interpretation ids: stable "step L strerror" id_inv for L strerror
  by unfold_locales (rule id_inv_step)

text \<open>Two outstanding requests whose numbers of issue differ by less than \<open>2^32\<close> have
  different message numbers.\<close>

lemma Suc_mod_inj:
  fixes p q m :: nat
  assumes "Suc p mod m = Suc q mod m" "p < q + m" "q < p + m"
  shows "p = q"
proof (cases "p \<le> q")
  case True
  then have "m dvd Suc q - Suc p" using mod_eq_dvd_iff_nat [of "Suc p" "Suc q" m] assms(1) by simp
  then show ?thesis using assms(3) True by (auto dest: dvd_imp_le)
next
  case False
  then have "m dvd Suc p - Suc q" using mod_eq_dvd_iff_nat [of "Suc q" "Suc p" m] assms(1) by simp
  then show ?thesis using assms(2) False by (auto dest: dvd_imp_le)
qed

lemma ucast_id_inj:
  assumes "(ucast (of_nat (Suc p) :: u32) :: u64) = ucast (of_nat (Suc q) :: u32)"
    "p < q + 2 ^ 32" "q < p + 2 ^ 32"
  shows "p = q"
proof -
  have "unat (ucast (of_nat (Suc p) :: u32) :: u64) = unat (ucast (of_nat (Suc q) :: u32) :: u64)"
    using assms(1) by simp
  then have "unat (of_nat (Suc p) :: u32) = unat (of_nat (Suc q) :: u32)"
    by (simp add: unat_ucast_up)
  then have "Suc p mod 2 ^ 32 = Suc q mod 2 ^ 32"
    by (simp only: unat_of_nat take_bit_eq_mod) simp
  then show ?thesis
    by (rule Suc_mod_inj) (use assms(2,3) in simp_all)
qed

text \<open>A message with the number of an outstanding request keeps that request's promise.\<close>

lemma find_ctx_unique:
  assumes "c \<in> set cs" "\<forall>d \<in> set cs. ctx_msgID d = ctx_msgID c \<longrightarrow> d = c"
  shows "find_ctx (ctx_msgID c) cs = Some (ctx_prom c, remove1 c cs)"
  using assms
proof (induction cs)
  case (Cons d cs)
  then show ?case by (cases "d = c") auto
qed simp

lemma dispatch_outstanding:
  assumes "c \<in> set (ses_lstRequestCtx s)" "msg_id msg = ctx_msgID c"
    "\<forall>d \<in> set (ses_lstRequestCtx s). ctx_msgID d = ctx_msgID c \<longrightarrow> d = c"
  shows "dispatch msg s =
    (s\<lparr>ses_lstRequestCtx := remove1 c (ses_lstRequestCtx s)\<rparr>, [Fulfil (ctx_prom c) msg])"
  using find_ctx_unique [OF assms(1,3)] assms(2)
  by (simp add: dispatch_def findReqPromise_def)

lemma find_ctx_None: "find_ctx i cs = None \<longleftrightarrow> i \<notin> ctx_msgID ` set cs"
  by (induction cs) auto

end
