(* ===== verification/SessionProps.thy ===== *)
theory SessionProps
  imports SessionRun
begin

text \<open>
  The properties of a session, over all runs of its event loop from a fresh connection,
  and the behaviour of its error paths.  The runs at the beginning are the inputs of the
  witnesses.
\<close>

section \<open>Sample runs\<close>

abbreviation no_text :: "int \<Rightarrow> bytes" where
  "no_text \<equiv> \<lambda>_. []"

abbreviation fresh :: net where
  "fresh \<equiv> start Unpool True"

definition asked :: net where
  "asked = perform (request ref_lib 0 sample_message (net_promises fresh) (net_ses fresh))
     (fresh\<lparr>net_promises := Suc (net_promises fresh),
        net_queued := net_queued fresh @
          [(frame ref_lib (sample_message\<lparr>msg_id := ucast (ses_msgID (net_ses fresh))\<rparr>), None)]\<rparr>)"

definition answered :: net where
  "answered = perform (queueRspMsg ref_lib sample_message (net_ses fresh))
     (fresh\<lparr>net_queued := net_queued fresh @ [(frame ref_lib sample_message, None)]\<rparr>)"

definition flushed :: net where
  "flushed = perform (on_write no_text 0 (net_ses answered))
     (answered\<lparr>net_writes := [], net_failed := (net_failed answered \<or> 0 \<noteq> (0 :: int))\<rparr>)"

definition broken :: net where
  "broken = perform (on_write no_text 10054 (net_ses answered))
     (answered\<lparr>net_writes := [], net_failed := (net_failed answered \<or> 10054 \<noteq> (0 :: int))\<rparr>)"

lemma fresh_sel [simp]:
  "net_ses fresh = TcpSession\<lparr>ses_afterNetError := Unpool, ses_requestHandler := True\<rparr>"
  "net_queued fresh = []" "net_started fresh = []" "net_writes fresh = []" "net_kept fresh = []"
  "net_promises fresh = 0" "net_failed fresh = False"
  by (simp_all add: start_def)

lemma TcpSession_sel [simp]:
  "ses_msgQueue TcpSession = []" "ses_lstRequestCtx TcpSession = []" "ses_recvBuf TcpSession = []"
  "ses_msgID TcpSession = 1"
  by (simp_all add: TcpSession_def)

lemma answered_sel [simp]:
  "ses_msgQueue (net_ses answered) = [(frame ref_lib sample_message, None)]"
  "net_writes answered = [frame ref_lib sample_message]"
  "net_started answered = [frame ref_lib sample_message]"
  "net_queued answered = [(frame ref_lib sample_message, None)]"
  "net_failed answered = False"
  by (simp_all add: answered_def queueRspMsg_def session_simps entry_bytes_def)

lemma flushed_sel [simp]:
  "ses_msgQueue (net_ses flushed) = []" "net_started flushed = [frame ref_lib sample_message]"
  "net_queued flushed = [(frame ref_lib sample_message, None)]" "net_failed flushed = False"
  by (simp_all add: flushed_def on_write_def session_simps)

lemma broken_sel [simp]: "net_failed broken = True"
  by (simp add: broken_def session_simps)

lemma asked_sel [simp]:
  "ses_lstRequestCtx (net_ses asked) =
     [\<lparr>ctx_msgID = 1, ctx_method = msg_method sample_message, ctx_reqTime = 0, ctx_prom = 0\<rparr>]"
  by (simp add: asked_def request_def session_simps Let_def)

lemma reach_asked: "rtranclp (step ref_lib no_text) fresh asked"
  unfolding asked_def by (rule r_into_rtranclp) (rule step.requested)

lemma reach_answered: "rtranclp (step ref_lib no_text) fresh answered"
  unfolding answered_def by (rule r_into_rtranclp) (rule step.responded)

lemma reach_flushed: "rtranclp (step ref_lib no_text) fresh flushed"
  by (rule rtranclp.rtrancl_into_rtrancl [OF reach_answered], unfold flushed_def)
     (rule step.written, simp)

lemma reach_broken: "rtranclp (step ref_lib no_text) fresh broken"
  by (rule rtranclp.rtrancl_into_rtrancl [OF reach_answered], unfold broken_def)
     (rule step.written, simp)

lemma sample_carried: "carries ref_lib (frame ref_lib sample_message, None) (sample_message\<lparr>msg_cached_size := 0\<rparr>)"
  by (rule ref.carries_frame [OF sample_message_valid]) (simp add: sample_message_length)

lemma unnumbered_valid: "Message_valid ref_lib (sample_message\<lparr>msg_id := 0\<rparr>)"
  by (simp add: Message_valid_def sample_message_def ref_lib_def INT_MAX_def)

lemma unnumbered_length: "length (Message_SerializeAsString ref_lib (sample_message\<lparr>msg_id := 0\<rparr>)) = 27"
proof -
  have "length (Message_SerializeAsString ref_lib (sample_message\<lparr>msg_id := 0\<rparr>))
      = fst (Message_ByteSizeLong ref_lib (sample_message\<lparr>msg_id := 0\<rparr>))"
    by (simp add: ref.Message_ser_eq ref.Message_size_eq [OF unnumbered_valid])
  then show ?thesis
    by (simp add: Message_ByteSizeLong_def sample_message_def Let_def ref.StringSize_eq ref.Int64Size_eq
        INT_MAX_def Int32Size_def VarintSize32SignExtended_def venc_small)
qed

section \<open>Properties\<close>

text \<open>C16: Delivery.  When a session has written all it queued without an error, a peer that
  reads those bytes with \<open>readHead\<close> and \<open>readBody\<close> dispatches exactly the queued messages, in
  the order they were queued, with nothing left in its buffer.\<close>

theorem session_delivers_in_order:
  assumes "rtranclp (step L strerror) (start cb h) w" "\<not> net_failed w" "ses_msgQueue (net_ses w) = []"
    "list_all2 (carries L) (net_queued w) ms" "ses_recvBuf peer = []"
  shows "\<exists>acts. feed L strerror (concat (net_started w)) peer = Some (fst (dispatch_all ms peer), acts, [])
    \<and> filter is_delivery acts = snd (dispatch_all ms peer)"
proof -
  have "queue_inv w" by (rule queue.reached [OF assms(1) queue_inv_start])
  then have "net_started w = map entry_bytes (net_queued w)"
    using assms(3) by (auto simp: queue_inv_def)
  moreover obtain bms where "map snd bms = ms"
     "concat (map entry_bytes (net_queued w)) = concat (map (\<lambda>(body, msg). be32 (of_nat (length body)) @ body) bms)"
     "\<forall>(body, msg) \<in> set bms. length body < 2 ^ 32 \<and> Message_ParseFromArray L body Message_new = Some (True, msg)"
    using carries_feed [OF assms(4)] by blast
  ultimately show ?thesis using feed_bodies [OF assms(5), of bms L strerror] by auto
qed

theorem session_delivers_in_order_witness:
  "\<exists>acts. feed ref_lib no_text (concat (net_started flushed)) TcpSession
       = Some (fst (dispatch_all [sample_message\<lparr>msg_cached_size := 0\<rparr>] TcpSession), acts, [])
    \<and> filter is_delivery acts = snd (dispatch_all [sample_message\<lparr>msg_cached_size := 0\<rparr>] TcpSession)"
  by (rule session_delivers_in_order [OF reach_flushed]) (simp_all add: sample_carried)

text \<open>C19: At most one write is in flight, the writes that were started are the queued entries in
  order, and while no write has failed a non-empty queue always has its first entry being
  written, so nothing waits for ever.\<close>

theorem one_write_in_queue_order:
  assumes "rtranclp (step L strerror) (start cb h) w"
  shows "length (net_writes w) \<le> 1
    \<and> net_started w = map entry_bytes (take (length (net_started w)) (net_queued w))
    \<and> (\<not> net_failed w \<longrightarrow> net_writes w = map entry_bytes (take 1 (ses_msgQueue (net_ses w))))"
proof -
  have "queue_inv w" by (rule queue.reached [OF assms queue_inv_start])
  then obtain don where "net_queued w = don @ ses_msgQueue (net_ses w)"
    "net_started w = map entry_bytes (don @ take 1 (ses_msgQueue (net_ses w)))"
    "net_failed w \<longrightarrow> net_writes w = []"
    "\<not> net_failed w \<longrightarrow> net_writes w = map entry_bytes (take 1 (ses_msgQueue (net_ses w)))"
    unfolding queue_inv_def by blast
  then show ?thesis by (cases "net_failed w"; cases "ses_msgQueue (net_ses w)") simp_all
qed

theorem one_write_in_queue_order_witness:
  "length (net_writes answered) \<le> 1
    \<and> net_started answered = map entry_bytes (take (length (net_started answered)) (net_queued answered))
    \<and> net_writes answered = map entry_bytes (take 1 (ses_msgQueue (net_ses answered)))"
  using one_write_in_queue_order [OF reach_answered] answered_sel(5) by blast

text \<open>C17: No promise is lost and none is kept twice: in every reachable state the promises handed
  out by \<open>request\<close> are split between those still outstanding and those kept, each in one place
  and once.\<close>

theorem promises_kept_once:
  assumes "rtranclp (step L strerror) (start cb h) w"
  shows "distinct (map fst (net_kept w))
    \<and> distinct (map ctx_prom (ses_lstRequestCtx (net_ses w)))
    \<and> set (map fst (net_kept w)) \<inter> set (map ctx_prom (ses_lstRequestCtx (net_ses w))) = {}
    \<and> set (map fst (net_kept w)) \<union> set (map ctx_prom (ses_lstRequestCtx (net_ses w))) = {..<net_promises w}"
proof -
  have "promise_inv w" by (rule promises.reached [OF assms promise_inv_start])
  then have m: "mset (map ctx_prom (ses_lstRequestCtx (net_ses w)) @ map fst (net_kept w)) = mset [0..<net_promises w]"
    by (simp add: promise_inv_def)
  have "set (map fst (net_kept w)) \<union> set (map ctx_prom (ses_lstRequestCtx (net_ses w))) = {..<net_promises w}"
    using mset_eq_setD [OF m] by (simp add: Un_commute lessThan_atLeast0)
  with mset_eq_imp_distinct_iff [OF m] show ?thesis by auto
qed

theorem promises_kept_once_witness:
  "distinct (map fst (net_kept asked))
    \<and> distinct (map ctx_prom (ses_lstRequestCtx (net_ses asked)))
    \<and> set (map fst (net_kept asked)) \<inter> set (map ctx_prom (ses_lstRequestCtx (net_ses asked))) = {}
    \<and> set (map fst (net_kept asked)) \<union> set (map ctx_prom (ses_lstRequestCtx (net_ses asked))) = {..<net_promises asked}"
  by (rule promises_kept_once [OF reach_asked])

text \<open>C18: Responses reach their requests: in a reachable state whose outstanding requests were
  issued within \<open>2^32\<close> of each other (the message number is 32 bits wide), a message that
  bears the number of an outstanding request keeps that request's promise, takes it off the
  list and calls no handler.\<close>

theorem response_keeps_its_promise:
  assumes "rtranclp (step L strerror) (start cb h) w" "c \<in> set (ses_lstRequestCtx (net_ses w))"
    "msg_id msg = ctx_msgID c"
    "\<forall>d \<in> set (ses_lstRequestCtx (net_ses w)). ctx_prom d < ctx_prom c + 2 ^ 32 \<and> ctx_prom c < ctx_prom d + 2 ^ 32"
  shows "dispatch msg (net_ses w) =
    ((net_ses w)\<lparr>ses_lstRequestCtx := remove1 c (ses_lstRequestCtx (net_ses w))\<rparr>, [Fulfil (ctx_prom c) msg])"
proof -
  have "id_inv w" by (rule ids.reached [OF assms(1) id_inv_start])
  have "promise_inv w" by (rule promises.reached [OF assms(1) promise_inv_start])
  have "mset (map ctx_prom (ses_lstRequestCtx (net_ses w)) @ map fst (net_kept w)) = mset [0..<net_promises w]"
    using \<open>promise_inv w\<close> by (simp add: promise_inv_def)
  from mset_eq_imp_distinct_iff [OF this] have dist: "distinct (map ctx_prom (ses_lstRequestCtx (net_ses w)))"
    by simp
  have "d = c" if d: "d \<in> set (ses_lstRequestCtx (net_ses w))" "ctx_msgID d = ctx_msgID c" for d
  proof -
    have "ctx_prom d = ctx_prom c"
      by (rule ucast_id_inj) (use \<open>id_inv w\<close> d assms(2,4) in \<open>auto simp: id_inv_def\<close>)
    then show ?thesis using dist d(1) assms(2) by (auto simp: distinct_map inj_on_def)
  qed
  then show ?thesis by (intro dispatch_outstanding [OF assms(2,3)]) blast
qed

theorem response_keeps_its_promise_witness:
  "dispatch (sample_message\<lparr>msg_id := 1\<rparr>) (net_ses asked) =
    ((net_ses asked)\<lparr>ses_lstRequestCtx :=
        remove1 \<lparr>ctx_msgID = 1, ctx_method = msg_method sample_message, ctx_reqTime = 0, ctx_prom = 0\<rparr>
          (ses_lstRequestCtx (net_ses asked))\<rparr>,
     [Fulfil (ctx_prom \<lparr>ctx_msgID = 1, ctx_method = msg_method sample_message, ctx_reqTime = 0, ctx_prom = 0\<rparr>)
        (sample_message\<lparr>msg_id := 1\<rparr>)])"
  by (rule response_keeps_its_promise [OF reach_asked]) simp_all

section \<open>Errors\<close>

text \<open>C20: After a write has failed the session never writes again: nothing clears \<open>_msgQueue\<close>, and
  \<open>request\<close> and \<open>queueRspMsg\<close> start a write only when it is empty.  Not even a reconnect helps.\<close>

theorem failed_session_never_sends:
  assumes "rtranclp (step L strerror) (start cb h) w" "net_failed w" "rtranclp (step L strerror) w w'"
  shows "net_started w' = net_started w"
proof -
  have "queue_inv w" by (rule queue.reached [OF assms(1) queue_inv_start])
  then have "silent (net_started w) w" using assms(2) by (auto simp: queue_inv_def silent_def)
  from silence.reached [OF assms(3) this] show ?thesis by (simp add: silent_def)
qed

theorem failed_session_never_sends_witness:
  "net_started (perform (queueRspMsg ref_lib sample_message (net_ses broken))
      (broken\<lparr>net_queued := net_queued broken @ [(frame ref_lib sample_message, None)]\<rparr>)) = net_started broken"
  by (rule failed_session_never_sends [OF reach_broken]) (simp, rule r_into_rtranclp, rule step.responded)

text \<open>A network error closes the connection, answers every outstanding request once with
  return code \<open>-1\<close> and the text of the error, in the order the requests were made, and then
  calls \<open>_afterNetError\<close> if one is set.  What was received and queued stays where it was.\<close>

theorem net_error_settles_all:
  "\<exists>s' log. handleNetError strerror ec s = (s', log @
       map (\<lambda>c. Fulfil (ctx_prom c) (netErrorMessage strerror ec)) (ses_lstRequestCtx s) @
       (if ses_afterNetError s = NoCallback then [] else [CallAfterNetError (ses_afterNetError s)]))
    \<and> set log \<subseteq> {LogNetError ec} \<and> (log = [] \<longleftrightarrow> ec = 2 \<or> ec = 995)
    \<and> \<not> ses_open s' \<and> \<not> ses_isConnected s' \<and> ses_lstRequestCtx s' = []
    \<and> msg_returncode (netErrorMessage strerror ec) = - 1
    \<and> msg_returnmsg (netErrorMessage strerror ec) = strerror ec
    \<and> ses_recvBuf s' = ses_recvBuf s \<and> ses_msgQueue s' = ses_msgQueue s \<and> ses_msgID s' = ses_msgID s"
  by (simp add: handleNetError_def netErrorMessage_def Let_def)

theorem net_error_settles_all_witness:
  "\<exists>s' log. handleNetError no_text 995 (net_ses asked) = (s', log @
       map (\<lambda>c. Fulfil (ctx_prom c) (netErrorMessage no_text 995)) (ses_lstRequestCtx (net_ses asked)) @
       (if ses_afterNetError (net_ses asked) = NoCallback then []
        else [CallAfterNetError (ses_afterNetError (net_ses asked))]))
    \<and> set log \<subseteq> {LogNetError 995} \<and> (log = [] \<longleftrightarrow> (995 :: int) = 2 \<or> (995 :: int) = 995)
    \<and> \<not> ses_open s' \<and> \<not> ses_isConnected s' \<and> ses_lstRequestCtx s' = []
    \<and> msg_returncode (netErrorMessage no_text 995) = - 1
    \<and> msg_returnmsg (netErrorMessage no_text 995) = no_text 995
    \<and> ses_recvBuf s' = ses_recvBuf (net_ses asked) \<and> ses_msgQueue s' = ses_msgQueue (net_ses asked)
    \<and> ses_msgID s' = ses_msgID (net_ses asked)"
  by (rule net_error_settles_all)

text \<open>C21: A read that ends with an error leaves the bytes it did receive at the head of
  \<open>_recvBuf\<close>; after a reconnect they are taken as the first bytes of the new stream, so the
  length of the first message of the new connection is read from a mixture of both.\<close>

theorem stale_bytes_shift_framing:
  assumes "ses_recvBuf s = []" "length got < 4" "ec \<noteq> 0"
  shows "on_readHead strerror 0 (be32 n) (fst (startSession peer 0 (fst (on_readHead strerror ec got s))))
    = ((fst (startSession peer 0 (fst (on_readHead strerror ec got s))))\<lparr>ses_recvBuf := drop (4 - length got) (be32 n)\<rparr>,
       (if sint (be32_dec (got @ be32 n)) < 0 \<or> sint (be32_dec (got @ be32 n)) > 1024 * 1024 * 20
        then [LogBodyLength (be32_dec (got @ be32 n))] else []) @
       [StartReadBody (be32_dec (got @ be32 n))])"
  using assms by (simp add: on_readHead_def readBody_def handleNetError_def startSession_def readHead_def Let_def)

theorem stale_bytes_shift_framing_witness:
  "on_readHead no_text 0 (be32 5) (fst (startSession [] 0 (fst (on_readHead no_text 2 [0, 0] TcpSession))))
    = ((fst (startSession [] 0 (fst (on_readHead no_text 2 [0, 0] TcpSession))))\<lparr>ses_recvBuf := drop (4 - length [0, 0 :: byte]) (be32 5)\<rparr>,
       (if sint (be32_dec ([0, 0] @ be32 5)) < 0 \<or> sint (be32_dec ([0, 0] @ be32 5)) > 1024 * 1024 * 20
        then [LogBodyLength (be32_dec ([0, 0] @ be32 5))] else []) @
       [StartReadBody (be32_dec ([0, 0] @ be32 5))])"
  by (rule stale_bytes_shift_framing) simp_all

section \<open>Requests and responses\<close>

text \<open>A body that parses and whose number is not outstanding is a request of the peer: the
  handler, if there is one, is called once with return code \<open>0\<close>, no promise is touched, and the
  session goes back to reading a head.\<close>

theorem request_reaches_handler:
  assumes "Message_ParseFromArray L body Message_new = Some (True, msg)"
    "msg_id msg \<notin> ctx_msgID ` set (ses_lstRequestCtx s)" "ses_recvBuf s = []"
  shows "on_readBody L strerror 0 body s =
    Some (s, (if ses_requestHandler s then [CallHandler (msg\<lparr>msg_returncode := 0\<rparr>)] else []) @ [StartReadHead])"
  using assms find_ctx_None [of "msg_id msg" "ses_lstRequestCtx s"]
  by (simp add: on_readBody_def dispatch_def findReqPromise_def readHead_def Let_def)

theorem request_reaches_handler_witness:
  "on_readBody ref_lib no_text 0 (Message_SerializeAsString ref_lib sample_message) (net_ses fresh) =
    Some (net_ses fresh,
      (if ses_requestHandler (net_ses fresh)
       then [CallHandler ((sample_message\<lparr>msg_cached_size := 0\<rparr>)\<lparr>msg_returncode := 0\<rparr>)] else []) @ [StartReadHead])"
  by (rule request_reaches_handler)
     (use ref.Message_parse [OF sample_message_valid, of Message_new] in
       \<open>simp_all add: sample_message_length, simp add: Message_new_def\<close>)

lemma enqueue_empty:
  "ses_msgQueue s = [] \<Longrightarrow> enqueue e s = (s\<lparr>ses_msgQueue := [e]\<rparr>, [StartWrite (entry_bytes e)])"
  by (simp add: enqueue_def writeData_frame Let_def)

text \<open>The spliced response.  When a message was serialised without a number, the frame that
  \<open>queueRspMsg\<close> makes of a number and those bytes parses to that message with the number.\<close>

theorem response_data_carries_number:
  assumes "pb_runtime L" "Message_valid L x" "msg_id x = 0"
    "length (Message_SerializeAsString L x) \<le> 67108000" "ses_msgQueue s = []"
  shows "\<exists>e. queueRspData L i (Message_SerializeAsString L x) s
      = (s\<lparr>ses_msgQueue := [e]\<rparr>, [StartWrite (entry_bytes e)])
    \<and> carries L e (x\<lparr>msg_id := i, msg_cached_size := 0\<rparr>)"
  unfolding queueRspData_def Let_def enqueue_empty [OF assms(5)]
  by (intro exI conjI, rule HOL.refl, rule pb_runtime.carries_response_data [OF assms(1-4)])

theorem response_data_carries_number_witness:
  "\<exists>e. queueRspData ref_lib 7 (Message_SerializeAsString ref_lib (sample_message\<lparr>msg_id := 0\<rparr>)) TcpSession
      = (TcpSession\<lparr>ses_msgQueue := [e]\<rparr>, [StartWrite (entry_bytes e)])
    \<and> carries ref_lib e ((sample_message\<lparr>msg_id := 0\<rparr>)\<lparr>msg_id := 7, msg_cached_size := 0\<rparr>)"
  by (rule response_data_carries_number [OF ref.pb_runtime_axioms unnumbered_valid])
     (simp_all add: unnumbered_length)

end
