(* ===== verification/SessionOwner.thy ===== *)
theory SessionOwner
  imports SessionRun
begin

text \<open>
  The interface between a session and the object that owns it, the client or the server: the
  handlers of the session that the event loop runs, and what each of them can do that the
  owner notices through \<open>_isConnected\<close> and \<open>_afterNetError\<close>.
\<close>

text \<open>The handlers of the session that the event loop can run on its own.\<close>

inductive handled :: "pb_lib \<Rightarrow> (int \<Rightarrow> bytes) \<Rightarrow> session \<Rightarrow> session \<times> action list \<Rightarrow> bool"
  for L :: pb_lib and strerror :: "int \<Rightarrow> bytes" where
  request: "handled L strerror s (request L now msg prom s)"
| respond: "handled L strerror s (queueRspMsg L msg s)"
| respond_data: "handled L strerror s (queueRspData L i data s)"
| read_head: "handled L strerror s (on_readHead strerror ec got s)"
| read_body: "on_readBody L strerror ec got s = Some r \<Longrightarrow> handled L strerror s r"
| wrote: "handled L strerror s (on_write strerror ec s)"

inductive_cases handledE: "handled L strerror s r"

text \<open>What a handler of the session does that its owner can notice: it calls back only as it was
  told to, never changes the callback, and when it disconnects it calls back; it never connects.\<close>

definition well_behaved :: "session \<Rightarrow> session \<times> action list \<Rightarrow> bool" where
  "well_behaved s r \<longleftrightarrow>
     ses_afterNetError (fst r) = ses_afterNetError s
     \<and> (\<forall>cb. CallAfterNetError cb \<in> set (snd r) \<longrightarrow> cb = ses_afterNetError s)
     \<and> (ses_isConnected (fst r) = ses_isConnected s
        \<or> ses_afterNetError s = NoCallback \<or> CallAfterNetError (ses_afterNetError s) \<in> set (snd r))
     \<and> (ses_isConnected (fst r) \<longrightarrow> ses_isConnected s \<and> (\<forall>cb. CallAfterNetError cb \<notin> set (snd r)))
     \<and> ses_requestHandler (fst r) = ses_requestHandler s"

lemma well_behaved_handleNetError: "well_behaved s (handleNetError strerror ec s)"
  by (auto simp: well_behaved_def handleNetError_def Let_def)

lemma well_behaved_enqueue: "well_behaved s (enqueue e s)"
  by (auto simp: well_behaved_def enqueue_def writeData_def Let_def)

lemma well_behaved_read_head: "well_behaved s (on_readHead strerror ec got s)"
  using well_behaved_handleNetError [of "s\<lparr>ses_recvBuf := ses_recvBuf s @ got\<rparr>" strerror ec]
  by (auto simp: on_readHead_def readBody_def well_behaved_def Let_def)

lemma well_behaved_write: "well_behaved s (on_write strerror ec s)"
  using well_behaved_handleNetError [of s strerror ec]
  by (auto simp: on_write_def writeData_def well_behaved_def Let_def)

lemma well_behaved_read_body:
  assumes "on_readBody L strerror ec got s = Some r"
  shows "well_behaved s r"
proof (cases "ec = 0")
  case True
  then show ?thesis
    using assms
    by (auto simp: on_readBody_def dispatch_def findReqPromise_def readHead_def well_behaved_def Let_def
        split: option.splits if_splits)
next
  case False
  then show ?thesis
    using assms well_behaved_handleNetError [of "s\<lparr>ses_recvBuf := ses_recvBuf s @ got\<rparr>" strerror ec]
    by (auto simp: on_readBody_def well_behaved_def)
qed

lemma well_behaved_handled: "handled L strerror s r \<Longrightarrow> well_behaved s r"
proof (induction rule: handled.induct)
  case (request s now msg prom)
  let ?s = "s\<lparr>ses_lstRequestCtx := ses_lstRequestCtx s @
     [\<lparr>ctx_msgID = ucast (ses_msgID s), ctx_method = msg_method msg, ctx_reqTime = now, ctx_prom = prom\<rparr>],
     ses_msgID := ses_msgID s + 1\<rparr>"
  show ?case
    using well_behaved_enqueue [of ?s] by (simp add: request_def well_behaved_def Let_def)
qed (simp_all add: queueRspMsg_def queueRspData_def well_behaved_enqueue well_behaved_read_head
    well_behaved_read_body well_behaved_write Let_def)

end
