(* ===== verification/Client.thy ===== *)
theory Client
  imports SessionOwner
begin

text \<open>
  The reconnecting client, class TcpClient of \<^verbatim>\<open>src/TcpClient.cpp\<close> and
  \<^verbatim>\<open>src/TcpClient.h\<close>.  It owns one session and calls itself back when that
  session fails.  As for the session, an operation returns the object and its effects in
  the order of the calls; the effects of the session are among them.
\<close>

section \<open>The object and its operations\<close>

type_synonym endpoint = "bytes \<times> nat"

record client =
  cl_endpoint :: endpoint
  cl_reconnectInterval :: i32
  cl_session :: session

datatype client_action =
    StartConnect endpoint
  | ExpiresFromNow i32
  | StartWait endpoint
  | OfSession action
  | LogSyncConnect int
  | LogConnect int

definition TcpClient :: client where
  "TcpClient = \<lparr>cl_endpoint = ([], 0), cl_reconnectInterval = 1,
     cl_session = TcpSession\<lparr>ses_afterNetError := Reconnect\<rparr>\<rparr>"

definition asyncConnect :: "endpoint \<Rightarrow> client \<Rightarrow> client \<times> client_action list" where
  "asyncConnect ep c =
     (let c1 = c\<lparr>cl_endpoint := ep\<rparr>;
          c2 = (if sint (cl_reconnectInterval c1) < 10 * 60
                then c1\<lparr>cl_reconnectInterval := cl_reconnectInterval c1 * 2\<rparr> else c1)
      in (c2, [StartConnect (cl_endpoint c2)]))"

text \<open>A method of the session, run on the client's session.  Where the session calls
  \<open>_afterNetError\<close> the client's \<open>asyncConnect\<close> runs.\<close>

definition client_effect :: "action \<Rightarrow> client \<Rightarrow> client \<times> client_action list" where
  "client_effect a c =
     (if a = CallAfterNetError Reconnect then asyncConnect (cl_endpoint c) c else (c, [OfSession a]))"

fun client_effects :: "action list \<Rightarrow> client \<Rightarrow> client \<times> client_action list" where
  "client_effects [] c = (c, [])"
| "client_effects (a # as) c =
     (let (c1, r1) = client_effect a c; (c2, r2) = client_effects as c1 in (c2, r1 @ r2))"

definition on_session :: "session \<times> action list \<Rightarrow> client \<Rightarrow> client \<times> client_action list" where
  "on_session r c = client_effects (snd r) (c\<lparr>cl_session := fst r\<rparr>)"

text \<open>The completion handler of \<open>async_connect\<close>; \<open>peer\<close> and \<open>pec\<close> are what
  \<open>remote_endpoint\<close> gives in \<open>startSession\<close>.\<close>

definition on_connect :: "int \<Rightarrow> bytes \<Rightarrow> int \<Rightarrow> client \<Rightarrow> client \<times> client_action list" where
  "on_connect ec peer pec c =
     (if ec = 0
      then
        let c1 = c\<lparr>cl_reconnectInterval := 1\<rparr>
        in on_session (startSession peer pec ((cl_session c1)\<lparr>ses_open := True\<rparr>)) c1
      else (c, [LogConnect ec, ExpiresFromNow (cl_reconnectInterval c), StartWait (cl_endpoint c)]))"

text \<open>The handler of the timer is \<open>asyncConnect\<close> bound to the end point of the time of binding.
  The bound function takes no error code, so it runs also when the wait is cancelled.\<close>

definition on_timer :: "endpoint \<Rightarrow> client \<Rightarrow> client \<times> client_action list" where
  "on_timer ep c = asyncConnect ep c"

definition syncConnect ::
    "endpoint \<Rightarrow> int \<Rightarrow> bytes \<Rightarrow> int \<Rightarrow> client \<Rightarrow> bool \<times> client \<times> client_action list" where
  "syncConnect ep ec peer pec c =
     (let c1 = c\<lparr>cl_endpoint := ep\<rparr>
      in if ec = 0
         then (True, on_session (startSession peer pec ((cl_session c1)\<lparr>ses_open := True\<rparr>)) c1)
         else (False, c1, [LogSyncConnect ec]))"

definition setAutoReconnect :: "bool \<Rightarrow> client \<Rightarrow> client" where
  "setAutoReconnect autoReconnect c =
     (if \<not> autoReconnect then c\<lparr>cl_session := (cl_session c)\<lparr>ses_afterNetError := NoCallback\<rparr>\<rparr>
      else c\<lparr>cl_session := (cl_session c)\<lparr>ses_afterNetError := Reconnect\<rparr>\<rparr>)"

definition client_stop :: "client \<Rightarrow> client" where
  "client_stop c =
     (let c1 = setAutoReconnect False c in c1\<lparr>cl_session := stopSession (cl_session c1)\<rparr>)"

definition client_isConnected :: "client \<Rightarrow> bool" where
  "client_isConnected c = ses_isConnected (cl_session c)"

section \<open>Runs\<close>

text \<open>The client and what it has in flight: connection attempts, waits for the timer, and the
  handlers of cancelled waits, which are ready to run.  \<open>expires_from_now\<close> cancels every wait
  on the timer.  \<open>link_delays\<close> is the history of the delays that were set.\<close>

record link =
  link_client :: client
  link_connects :: "endpoint list"
  link_waits :: "endpoint list"
  link_ready :: "endpoint list"
  link_delays :: "i32 list"

fun link_effect :: "client_action \<Rightarrow> link \<Rightarrow> link" where
  "link_effect (StartConnect ep) w = w\<lparr>link_connects := link_connects w @ [ep]\<rparr>"
| "link_effect (ExpiresFromNow t) w =
     w\<lparr>link_ready := link_ready w @ link_waits w, link_waits := [], link_delays := link_delays w @ [t]\<rparr>"
| "link_effect (StartWait ep) w = w\<lparr>link_waits := link_waits w @ [ep]\<rparr>"
| "link_effect _ w = w"

definition link_perform :: "client \<times> client_action list \<Rightarrow> link \<Rightarrow> link" where
  "link_perform r w = fold link_effect (snd r) (w\<lparr>link_client := fst r\<rparr>)"

definition link_start :: link where
  "link_start = \<lparr>link_client = TcpClient, link_connects = [], link_waits = [], link_ready = [], link_delays = []\<rparr>"

text \<open>One turn: a call of the program, a completed attempt, an expired or cancelled wait, or a
  handler of the session.\<close>

inductive turn :: "pb_lib \<Rightarrow> (int \<Rightarrow> bytes) \<Rightarrow> link \<Rightarrow> link \<Rightarrow> bool"
  for L :: pb_lib and strerror :: "int \<Rightarrow> bytes" where
  called: "turn L strerror w (link_perform (asyncConnect ep (link_client w)) w)"
| called_sync: "turn L strerror w (link_perform (snd (syncConnect ep ec peer pec (link_client w))) w)"
| switched: "turn L strerror w (w\<lparr>link_client := setAutoReconnect b (link_client w)\<rparr>)"
| halted: "turn L strerror w (w\<lparr>link_client := client_stop (link_client w)\<rparr>)"
| connected: "link_connects w = xs @ ep # ys \<Longrightarrow>
     turn L strerror w (link_perform (on_connect ec peer pec (link_client w)) (w\<lparr>link_connects := xs @ ys\<rparr>))"
| expired: "link_waits w = xs @ ep # ys \<Longrightarrow>
     turn L strerror w (link_perform (on_timer ep (link_client w)) (w\<lparr>link_waits := xs @ ys\<rparr>))"
| cancelled: "link_ready w = ep # eps \<Longrightarrow>
     turn L strerror w (link_perform (on_timer ep (link_client w)) (w\<lparr>link_ready := eps\<rparr>))"
| session_ran: "handled L strerror (cl_session (link_client w)) r \<Longrightarrow>
     turn L strerror w (link_perform (on_session r (link_client w)) w)"

inductive_cases turnE: "turn L strerror w w'"

section \<open>The effects of the session on its client\<close>

lemma client_effects_Cons [session_simps]:
  "fst (client_effects (a # as) c) = fst (client_effects as (fst (client_effect a c)))"
  "snd (client_effects (a # as) c) = snd (client_effect a c) @ snd (client_effects as (fst (client_effect a c)))"
  by (simp_all add: Let_def split: prod.split)

declare client_effects.simps(2) [simp del]

text \<open>The client runs \<open>asyncConnect\<close> at most changing its interval, and keeps the session.\<close>

lemma asyncConnect_keeps [session_simps]:
  "cl_session (fst (asyncConnect ep c)) = cl_session c"
  "cl_endpoint (fst (asyncConnect ep c)) = ep"
  "snd (asyncConnect ep c) = [StartConnect ep]"
  by (simp_all add: asyncConnect_def Let_def)

lemma client_effect_keeps [session_simps]:
  "cl_session (fst (client_effect a c)) = cl_session c"
  "cl_endpoint (fst (client_effect a c)) = cl_endpoint c"
  by (simp_all add: client_effect_def session_simps)

lemma client_effects_keeps [session_simps]:
  "cl_session (fst (client_effects as c)) = cl_session c"
  "cl_endpoint (fst (client_effects as c)) = cl_endpoint c"
  by (induction as arbitrary: c) (simp_all add: session_simps)

text \<open>When the callback is \<open>Reconnect\<close>, the client starts an attempt.\<close>

lemma client_effects_connects:
  "CallAfterNetError Reconnect \<in> set as \<Longrightarrow> StartConnect (cl_endpoint c) \<in> set (snd (client_effects as c))"
proof (induction as arbitrary: c)
  case (Cons a as)
  then show ?case
    using Cons.IH [of "fst (client_effect a c)"]
    by (auto simp: session_simps) (simp add: client_effect_def session_simps)
qed simp

section \<open>The interval\<close>

definition interval_ok :: "i32 \<Rightarrow> bool" where
  "interval_ok t \<longleftrightarrow> t \<in> {1, 2, 4, 8, 16, 32, 64, 128, 256, 512, 1024}"

lemma asyncConnect_interval:
  "interval_ok (cl_reconnectInterval c) \<Longrightarrow> interval_ok (cl_reconnectInterval (fst (asyncConnect ep c)))"
  unfolding interval_ok_def by (elim insertE emptyE) (simp_all add: asyncConnect_def)

lemma client_effects_interval:
  "interval_ok (cl_reconnectInterval c) \<Longrightarrow> interval_ok (cl_reconnectInterval (fst (client_effects as c)))"
proof (induction as arbitrary: c)
  case (Cons a as)
  then show ?case by (simp add: session_simps client_effect_def asyncConnect_interval)
qed simp

section \<open>Invariants of the runs\<close>

fun is_attempt :: "client_action \<Rightarrow> bool" where
  "is_attempt (StartConnect ep) = True"
| "is_attempt (StartWait ep) = True"
| "is_attempt _ = False"

fun delays_of :: "client_action list \<Rightarrow> i32 list" where
  "delays_of [] = []"
| "delays_of (ExpiresFromNow t # as) = t # delays_of as"
| "delays_of (_ # as) = delays_of as"

text \<open>Attempts to connect that are under way or scheduled.\<close>

definition attempts :: "link \<Rightarrow> nat" where
  "attempts w = length (link_connects w) + length (link_waits w) + length (link_ready w)"

lemma link_effects [session_simps]:
  "link_client (fold link_effect as w) = link_client w"
  "link_delays (fold link_effect as w) = link_delays w @ delays_of as"
  by (induction as arbitrary: w rule: delays_of.induct) simp_all

lemma attempts_effects: "attempts (fold link_effect as w) = attempts w + length (filter is_attempt as)"
proof (induction as arbitrary: w)
  case (Cons a as)
  have "attempts (link_effect a w) = attempts w + (if is_attempt a then 1 else 0)"
    by (cases a) (simp_all add: attempts_def)
  then show ?case by (simp add: Cons.IH)
qed (simp add: attempts_def)

lemma link_perform_sel [session_simps]:
  "link_client (link_perform r w) = fst r"
  "link_delays (link_perform r w) = link_delays w @ delays_of (snd r)"
  "attempts (link_perform r w) = attempts w + length (filter is_attempt (snd r))"
  by (simp_all add: link_perform_def session_simps attempts_effects) (simp add: attempts_def)

lemma on_session_keeps [session_simps]:
  "cl_session (fst (on_session r c)) = fst r"
  by (simp add: on_session_def session_simps)

lemma on_session_attempts:
  assumes "CallAfterNetError Reconnect \<in> set (snd r)"
  shows "filter is_attempt (snd (on_session r c)) \<noteq> []"
  using client_effects_connects [OF assms, of "c\<lparr>cl_session := fst r\<rparr>"]
  by (auto simp: on_session_def filter_empty_conv intro!: bexI [of _ "StartConnect (cl_endpoint c)"])

lemma client_effects_delays: "delays_of (snd (client_effects as c)) = []"
proof (induction as arbitrary: c)
  case (Cons a as)
  have "delays_of (snd (client_effect a c) @ bs) = delays_of bs" for bs
    by (simp add: client_effect_def session_simps)
  then show ?case by (simp add: session_simps Cons.IH)
qed simp

text \<open>A connected session, an attempt or a timer: with the callback set there is always one.\<close>

definition callback :: "link \<Rightarrow> after_net_error" where
  "callback w = ses_afterNetError (cl_session (link_client w))"

definition alive :: "link \<Rightarrow> bool" where
  "alive w \<longleftrightarrow> callback w = Reconnect \<and> (client_isConnected (link_client w) \<or> 0 < attempts w)"

lemma alive_turn:
  assumes "alive w" "turn L strerror w w' \<and> callback w' = Reconnect"
  shows "alive w'"
  using conjunct1 [OF assms(2)]
proof cases
  case (session_ran r)
  then have wb: "well_behaved (cl_session (link_client w)) r" by (intro well_behaved_handled)
  have cb: "ses_afterNetError (cl_session (link_client w)) = Reconnect"
    using assms(1) by (simp add: alive_def callback_def)
  show ?thesis
  proof (cases "CallAfterNetError Reconnect \<in> set (snd r)")
    case True
    then show ?thesis
      using on_session_attempts [OF True, of "link_client w"] assms(2) by (simp add: alive_def session_ran session_simps)
  next
    case False
    then show ?thesis
      using wb cb assms by (auto simp: alive_def well_behaved_def session_ran session_simps client_isConnected_def)
  qed
next
  case (connected xs ep ys ec peer pec)
  then show ?thesis
    using assms(2)
    by (cases "ec = 0") (simp_all add: alive_def on_connect_def session_simps client_isConnected_def startSession_def readHead_def)
next
  case (called_sync ep ec peer pec)
  then show ?thesis
    using assms
    by (cases "ec = 0") (simp_all add: alive_def syncConnect_def session_simps client_isConnected_def startSession_def readHead_def Let_def)
next
  case halted
  then show ?thesis using assms(2) by (simp add: callback_def client_stop_def setAutoReconnect_def stopSession_def)
next
  case (switched b)
  then show ?thesis using assms
    by (auto simp: alive_def setAutoReconnect_def attempts_def client_isConnected_def)
qed (use assms(2) in \<open>simp_all add: alive_def session_simps on_timer_def\<close>)

interpretation attempting: stable "\<lambda>w w'. turn L strerror w w' \<and> callback w' = Reconnect" alive
  for L strerror
  by unfold_locales (rule alive_turn)

definition paced :: "link \<Rightarrow> bool" where
  "paced w \<longleftrightarrow> interval_ok (cl_reconnectInterval (link_client w)) \<and> (\<forall>t \<in> set (link_delays w). interval_ok t)"

lemma on_session_interval:
  "interval_ok (cl_reconnectInterval c) \<Longrightarrow> interval_ok (cl_reconnectInterval (fst (on_session r c)))"
  by (simp add: on_session_def client_effects_interval)

lemma on_session_delays [session_simps]: "delays_of (snd (on_session r c)) = []"
  by (simp add: on_session_def client_effects_delays)

lemma paced_turn:
  assumes "paced w" "turn L strerror w w'"
  shows "paced w'"
  using assms(2)
proof cases
  case (connected xs ep ys ec peer pec)
  then show ?thesis
    using assms(1) on_session_interval [of "(link_client w)\<lparr>cl_reconnectInterval := 1\<rparr>"]
    by (cases "ec = 0") (auto simp: paced_def on_connect_def session_simps interval_ok_def)
next
  case (called_sync ep ec peer pec)
  then show ?thesis
    using assms(1) on_session_interval [of "(link_client w)\<lparr>cl_endpoint := ep\<rparr>"]
    by (cases "ec = 0") (auto simp: paced_def syncConnect_def session_simps)
next
  case (switched b)
  then show ?thesis using assms(1) by (simp add: paced_def setAutoReconnect_def)
next
  case halted
  then show ?thesis using assms(1) by (simp add: paced_def client_stop_def setAutoReconnect_def Let_def)
qed (use assms(1) in \<open>simp_all add: paced_def session_simps on_timer_def asyncConnect_interval on_session_interval\<close>)

interpretation pacing: stable "turn L strerror" paced for L strerror
  by unfold_locales (rule paced_turn)

section \<open>Properties\<close>

text \<open>The program connects for the first time, and \<open>n\<close> attempts fail one after the other, each
  followed by its timer.\<close>

definition calling :: "endpoint \<Rightarrow> link" where
  "calling ep = link_perform (asyncConnect ep (link_client link_start)) link_start"

definition fail_and_wait :: "endpoint \<Rightarrow> int \<Rightarrow> link \<Rightarrow> link" where
  "fail_and_wait ep ec w =
     (let w1 = link_perform (on_connect ec [] 0 (link_client w)) (w\<lparr>link_connects := []\<rparr>)
      in link_perform (on_timer ep (link_client w1)) (w1\<lparr>link_waits := []\<rparr>))"

lemma calling_eq:
  "calling ep = link_start\<lparr>link_client := TcpClient\<lparr>cl_endpoint := ep, cl_reconnectInterval := 2\<rparr>, link_connects := [ep]\<rparr>"
  by (simp add: calling_def link_perform_def asyncConnect_def link_start_def TcpClient_def)

lemma fail_and_wait_eq:
  assumes "ec \<noteq> 0" "link_waits w = []" "link_ready w = []" "cl_endpoint (link_client w) = ep"
  shows "fail_and_wait ep ec w = w\<lparr>link_client := fst (asyncConnect ep (link_client w)), link_connects := [ep],
     link_delays := link_delays w @ [cl_reconnectInterval (link_client w)]\<rparr>"
  using assms by (simp add: fail_and_wait_def link_perform_def on_connect_def on_timer_def session_simps)

text \<open>The delay in front of the attempt after the \<open>n\<close>-th failure, counted from \<open>0\<close>.\<close>

definition backoff :: "nat \<Rightarrow> i32" where
  "backoff n = 2 ^ min (Suc n) 10"

lemma double_pow: "k < 10 \<Longrightarrow> sint (2 ^ k :: i32) < 600"
  by (auto simp: less_Suc_eq numeral_eq_Suc)

lemma backoff_next:
  "cl_reconnectInterval c = backoff n \<Longrightarrow>
     fst (asyncConnect ep c) = c\<lparr>cl_endpoint := ep, cl_reconnectInterval := backoff (Suc n)\<rparr>"
  using double_pow [of "Suc n"]
  by (cases "Suc n < 10") (auto simp: asyncConnect_def backoff_def min_def Let_def)

lemma backoff_states:
  assumes "ec \<noteq> 0"
  shows "((fail_and_wait ep ec) ^^ n) (calling ep) =
      \<lparr>link_client = TcpClient\<lparr>cl_endpoint := ep, cl_reconnectInterval := backoff n\<rparr>,
       link_connects = [ep], link_waits = [], link_ready = [], link_delays = map backoff [0..<n]\<rparr>"
proof (induction n)
  case 0
  then show ?case by (simp add: calling_eq link_start_def backoff_def)
next
  case (Suc n)
  then show ?case
    using assms by (simp add: fail_and_wait_eq backoff_next [where n = n])
qed

lemma reach_calling: "turn L strerror link_start (calling ep)"
  unfolding calling_def by (rule turn.called)

lemma calling_alive: "alive (calling ep)"
  by (simp add: calling_eq alive_def callback_def attempts_def TcpClient_def link_start_def)

lemma paced_start: "paced link_start"
  by (simp add: paced_def link_start_def TcpClient_def interval_ok_def)

text \<open>What the program does to have a connection: \<open>asyncConnect\<close>, or \<open>syncConnect\<close> until it succeeds.\<close>

definition engaged :: "link \<Rightarrow> link \<Rightarrow> bool" where
  "engaged w w' \<longleftrightarrow> (\<exists>ep. w' = link_perform (asyncConnect ep (link_client w)) w)
     \<or> (\<exists>ep peer pec. w' = link_perform (snd (syncConnect ep 0 peer pec (link_client w))) w)"

lemma engaged_alive:
  assumes "callback w = Reconnect" "engaged w w'"
  shows "alive w'"
  using assms
  by (auto simp: engaged_def alive_def callback_def session_simps syncConnect_def client_isConnected_def
      startSession_def readHead_def Let_def)

text \<open>Without either there is nothing to give up: neither a new client nor a \<open>syncConnect\<close> that failed has
  an attempt or a timer; the business calls \<open>syncConnect\<close> again itself, every five minutes.\<close>

lemma idle_clients:
  "attempts link_start = 0 \<and> \<not> client_isConnected (link_client link_start)"
  "ec \<noteq> 0 \<Longrightarrow> attempts (link_perform (snd (syncConnect ep ec peer pec (link_client link_start))) link_start) = 0"
  by (simp_all add: attempts_def link_start_def TcpClient_def client_isConnected_def TcpSession_def)
     (simp add: link_perform_def syncConnect_def Let_def)

text \<open>C22: The client does not give up.  From the call of \<open>asyncConnect\<close>, or of a \<open>syncConnect\<close> that
  succeeds, on, in whatever state it was before, and as long as the reconnection is switched on
  (\<open>setAutoReconnect (false)\<close> and \<open>stop\<close> are not called), in every state it is connected or an
  attempt is under way or a timer that makes one is set, whatever fails and in what order.  Before
  such a call, and after a \<open>syncConnect\<close> that fails, it has nothing under way.\<close>

theorem client_never_gives_up:
  assumes "callback w0 = Reconnect" "engaged w0 w1"
    "rtranclp (\<lambda>w w'. turn L strerror w w' \<and> callback w' = Reconnect) w1 w"
  shows "client_isConnected (link_client w) \<or> link_connects w \<noteq> [] \<or> link_waits w \<noteq> [] \<or> link_ready w \<noteq> []"
  using attempting.reached [OF assms(3) engaged_alive [OF assms(1,2)]] by (auto simp: alive_def attempts_def)

text \<open>The connection of a \<open>syncConnect\<close> breaks, and the attempt that follows fails.\<close>

theorem client_never_gives_up_witness:
  "\<exists>w1 w. engaged link_start w1 \<and> client_isConnected (link_client w1)
    \<and> rtranclp (\<lambda>w w'. turn ref_lib (\<lambda>_. []) w w' \<and> callback w' = Reconnect) w1 w
    \<and> \<not> client_isConnected (link_client w) \<and> link_delays w = [2]
    \<and> (link_connects w \<noteq> [] \<or> link_waits w \<noteq> [] \<or> link_ready w \<noteq> [])"
proof -
  let ?step = "\<lambda>w w'. turn ref_lib (\<lambda>_. []) w w' \<and> callback w' = Reconnect"
  let ?ep = "([] :: bytes, 80 :: nat)"
  let ?w1 = "link_perform (snd (syncConnect ?ep 0 [] 0 (link_client link_start))) link_start"
  let ?w2 = "link_perform (on_session (on_readHead (\<lambda>_. []) 2 [] (cl_session (link_client ?w1))) (link_client ?w1)) ?w1"
  let ?w3 = "link_perform (on_connect 10061 [] 0 (link_client ?w2)) (?w2\<lparr>link_connects := [] @ []\<rparr>)"
  note defs = link_perform_def syncConnect_def on_session_def startSession_def readHead_def on_readHead_def
    handleNetError_def link_start_def TcpClient_def TcpSession_def client_effect_def asyncConnect_def Let_def
    callback_def on_connect_def client_isConnected_def client_effects.simps
  have e: "engaged link_start ?w1" unfolding engaged_def by blast
  have s: "callback link_start = Reconnect" by (simp add: defs)
  have t2: "turn ref_lib (\<lambda>_. []) ?w1 ?w2" by (rule turn.session_ran) (rule handled.read_head)
  have c2: "callback ?w2 = Reconnect" by (simp add: defs)
  have t3: "turn ref_lib (\<lambda>_. []) ?w2 ?w3"
    by (rule turn.connected [where ep = ?ep]) (simp add: defs)
  have c3: "callback ?w3 = Reconnect" by (simp add: defs)
  have r: "rtranclp ?step ?w1 ?w3"
    by (rule converse_rtranclp_into_rtranclp [where r = ?step, OF conjI [OF t2 c2]
          r_into_rtranclp [where r = ?step, OF conjI [OF t3 c3]]])
  have c: "client_isConnected (link_client ?w1)" and n: "\<not> client_isConnected (link_client ?w3)"
    and d: "link_delays ?w3 = [2]"
    by (simp_all add: defs)
  have "link_connects ?w3 \<noteq> [] \<or> link_waits ?w3 \<noteq> [] \<or> link_ready ?w3 \<noteq> []"
    using client_never_gives_up [OF s e r] by (rule disjE) (rule notE [OF n])
  with e c r n d show ?thesis by (intro exI [of _ ?w1] exI [of _ ?w3] conjI)
qed

text \<open>In every reachable state the reconnect interval and every delay ever set is a power of two
  from 1 to 1024 seconds; the multiplication never overflows its \<open>int\<close>.\<close>

theorem reconnect_interval_bounded:
  assumes "rtranclp (turn L strerror) link_start w" "t \<in> insert (cl_reconnectInterval (link_client w)) (set (link_delays w))"
  shows "\<exists>k \<le> 10. t = 2 ^ k \<and> sint t = 2 ^ k"
proof -
  have "interval_ok t" using pacing.reached [OF assms(1) paced_start] assms(2) by (auto simp: paced_def)
  then show ?thesis
    unfolding interval_ok_def
    by (elim insertE emptyE)
       (rule exI [of _ 0] exI [of _ 1] exI [of _ 2] exI [of _ 3] exI [of _ 4] exI [of _ 5] exI [of _ 6]
          exI [of _ 7] exI [of _ 8] exI [of _ 9] exI [of _ 10], simp; fail)+
qed

theorem reconnect_interval_bounded_witness:
  "\<exists>k \<le> 10. (2 :: i32) = 2 ^ k \<and> sint (2 :: i32) = 2 ^ k"
  by (rule reconnect_interval_bounded [where w = "calling ([], 80)" and L = ref_lib and strerror = "\<lambda>_. []"],
      rule r_into_rtranclp, rule reach_calling) (simp add: calling_eq)

text \<open>The delays while no attempt succeeds: 2, 4, 8, \<dots>, 512, 1024, and 1024 seconds from then
  on, each followed by one new attempt at the same end point.  The tenth delay already exceeds the
  ten minutes the header gives as the limit.\<close>

theorem reconnect_backoff:
  assumes "ec \<noteq> 0"
  shows "link_delays (((fail_and_wait ep ec) ^^ n) (calling ep)) = map (\<lambda>i. 2 ^ min (Suc i) 10) [0..<n]
    \<and> link_connects (((fail_and_wait ep ec) ^^ n) (calling ep)) = [ep]
    \<and> (9 < n \<longrightarrow> 10 * 60 < sint (link_delays (((fail_and_wait ep ec) ^^ n) (calling ep)) ! 9))"
  using assms by (simp add: backoff_states backoff_def)

theorem reconnect_backoff_witness:
  "link_delays (((fail_and_wait ([], 80) 10061) ^^ 10) (calling ([], 80))) = map (\<lambda>i. 2 ^ min (Suc i) 10) [0..<10]
    \<and> link_connects (((fail_and_wait ([], 80) 10061) ^^ 10) (calling ([], 80))) = [([], 80)]
    \<and> 10 * 60 < sint (link_delays (((fail_and_wait ([], 80) 10061) ^^ 10) (calling ([], 80))) ! 9)"
proof -
  have "(10061 :: int) \<noteq> 0" "9 < (10 :: nat)" by simp_all
  then show ?thesis using reconnect_backoff [of 10061 10 "([], 80)"] by blast
qed

text \<open>\<open>stop\<close> does not cancel the timer.  When it is called while the client waits to reconnect,
  the timer still fires, the attempt is made, and if it succeeds the stopped client is connected
  again.\<close>

theorem stopped_client_reconnects:
  assumes "link_waits w = [ep]" "link_connects w = []"
  shows "\<exists>w'. rtranclp (turn L strerror) (w\<lparr>link_client := client_stop (link_client w)\<rparr>) w'
    \<and> client_isConnected (link_client w')"
proof -
  let ?w0 = "w\<lparr>link_client := client_stop (link_client w)\<rparr>"
  let ?w1 = "link_perform (on_timer ep (link_client ?w0)) (?w0\<lparr>link_waits := [] @ []\<rparr>)"
  let ?w2 = "link_perform (on_connect 0 [] 0 (link_client ?w1)) (?w1\<lparr>link_connects := [] @ []\<rparr>)"
  have "turn L strerror ?w0 ?w1" by (rule turn.expired) (simp add: assms)
  moreover have "turn L strerror ?w1 ?w2"
    by (rule turn.connected [where ep = ep])
       (simp add: assms link_perform_def on_timer_def session_simps)
  moreover have "client_isConnected (link_client ?w2)"
    by (simp add: session_simps on_connect_def startSession_def readHead_def client_isConnected_def)
  ultimately show ?thesis
    by (intro exI [of _ ?w2] conjI) (blast intro: rtranclp.rtrancl_into_rtrancl rtranclp.rtrancl_refl)
qed

definition waiting :: link where
  "waiting = link_start\<lparr>link_waits := [([], 80)]\<rparr>"

theorem stopped_client_reconnects_witness:
  "\<exists>w'. rtranclp (turn ref_lib (\<lambda>_. [])) (waiting\<lparr>link_client := client_stop (link_client waiting)\<rparr>) w'
    \<and> client_isConnected (link_client w')"
  by (rule stopped_client_reconnects) (simp_all add: waiting_def link_start_def)

end
