(* ===== verification/Server.thy ===== *)
theory Server
  imports SessionOwner
begin

text \<open>
  The accepting side, class TcpServer of \<^verbatim>\<open>src/TcpServer.cpp\<close>: it accepts
  connections one at a time and keeps the sessions it started in a pool until they fail.
  Sessions are shared objects; \<open>srv_sessions\<close> maps the number of a session, its address,
  to the object, and the pool is a set of numbers.
\<close>

section \<open>The object and its operations\<close>

record server =
  srv_acceptor :: bool
  srv_pool :: "nat set"
  srv_sessions :: "nat \<Rightarrow> session option"
  srv_next :: nat

datatype server_action =
    StartAccept nat
  | LogAccept int
  | OfPooled nat action

definition TcpServer :: server where
  "TcpServer = \<lparr>srv_acceptor = True, srv_pool = {}, srv_sessions = Map.empty, srv_next = 0\<rparr>"

definition modify :: "nat \<Rightarrow> (session \<Rightarrow> session) \<Rightarrow> server \<Rightarrow> server" where
  "modify n f v = v\<lparr>srv_sessions := (srv_sessions v)(n := map_option f (srv_sessions v n))\<rparr>"

text \<open>\<open>new TcpSession\<close> and the start of \<open>async_accept\<close> on its socket.\<close>

definition doAccept :: "server \<Rightarrow> server \<times> server_action list" where
  "doAccept v =
     (let n = srv_next v
      in (v\<lparr>srv_sessions := (srv_sessions v)(n \<mapsto> TcpSession), srv_next := Suc n\<rparr>, [StartAccept n]))"

text \<open>The function \<open>startSession\<close> sets as \<open>_afterNetError\<close>.  That it destroys itself by clearing
  \<open>_afterNetError\<close> while it runs is not visible here.\<close>

definition unpool :: "nat \<Rightarrow> server \<Rightarrow> server" where
  "unpool n v =
     (let v1 = modify n (\<lambda>s. s\<lparr>ses_afterNetError := NoCallback, ses_requestHandler := False\<rparr>) v
      in v1\<lparr>srv_pool := srv_pool v1 - {n}\<rparr>)"

text \<open>A method of session \<open>n\<close>, with result \<open>r\<close>; where the session calls \<open>_afterNetError\<close>, the function
  above runs.\<close>

fun server_effects :: "nat \<Rightarrow> action list \<Rightarrow> server \<Rightarrow> server \<times> server_action list" where
  "server_effects n [] v = (v, [])"
| "server_effects n (a # as) v =
     (let (v1, r1) = (if a = CallAfterNetError Unpool then (unpool n v, []) else (v, [OfPooled n a]));
          (v2, r2) = server_effects n as v1
      in (v2, r1 @ r2))"

definition on_pooled :: "nat \<Rightarrow> session \<times> action list \<Rightarrow> server \<Rightarrow> server \<times> server_action list" where
  "on_pooled n r v = server_effects n (snd r) (v\<lparr>srv_sessions := (srv_sessions v)(n \<mapsto> fst r)\<rparr>)"

text \<open>\<open>TcpServer::startSession\<close>.\<close>

definition server_startSession :: "bytes \<Rightarrow> int \<Rightarrow> nat \<Rightarrow> server \<Rightarrow> server \<times> server_action list" where
  "server_startSession peer pec n v =
     (let v1 = modify n (\<lambda>s. s\<lparr>ses_afterNetError := Unpool\<rparr>) v;
          v2 = v1\<lparr>srv_pool := insert n (srv_pool v1)\<rparr>
      in (case srv_sessions v2 n of
            Some s \<Rightarrow> on_pooled n (startSession peer pec s) v2
          | None \<Rightarrow> (v2, [])))"

text \<open>The completion handler of \<open>async_accept\<close>.  It accepts again in either case.\<close>

definition on_accept :: "int \<Rightarrow> bytes \<Rightarrow> int \<Rightarrow> nat \<Rightarrow> server \<Rightarrow> server \<times> server_action list" where
  "on_accept ec peer pec n v =
     (let (v1, acts) =
            (if ec = 0
             then server_startSession peer pec n
                    (modify n (\<lambda>s. s\<lparr>ses_requestHandler := True, ses_open := True\<rparr>) v)
             else (v, [LogAccept ec]));
          (v2, acts') = doAccept v1
      in (v2, acts @ acts'))"

definition server_start :: "server \<Rightarrow> server \<times> server_action list" where
  "server_start v = doAccept v"

definition server_stop :: "server \<Rightarrow> server" where
  "server_stop v =
     v\<lparr>srv_acceptor := False,
       srv_sessions := (\<lambda>n. if n \<in> srv_pool v then map_option stopSession (srv_sessions v n) else srv_sessions v n),
       srv_pool := {}\<rparr>"

section \<open>Runs\<close>

text \<open>The server with the accepts in flight and the errors of accepting that were logged.\<close>

record hub =
  hub_server :: server
  hub_accepts :: "nat list"
  hub_errors :: "int list"

fun hub_effect :: "server_action \<Rightarrow> hub \<Rightarrow> hub" where
  "hub_effect (StartAccept n) w = w\<lparr>hub_accepts := hub_accepts w @ [n]\<rparr>"
| "hub_effect (LogAccept ec) w = w\<lparr>hub_errors := hub_errors w @ [ec]\<rparr>"
| "hub_effect (OfPooled n a) w = w"

definition hub_perform :: "server \<times> server_action list \<Rightarrow> hub \<Rightarrow> hub" where
  "hub_perform r w = fold hub_effect (snd r) (w\<lparr>hub_server := fst r\<rparr>)"

definition hub_start :: hub where
  "hub_start = hub_perform (server_start TcpServer) \<lparr>hub_server = TcpServer, hub_accepts = [], hub_errors = []\<rparr>"

inductive serve :: "pb_lib \<Rightarrow> (int \<Rightarrow> bytes) \<Rightarrow> hub \<Rightarrow> hub \<Rightarrow> bool"
  for L :: pb_lib and strerror :: "int \<Rightarrow> bytes" where
  accepted: "hub_accepts w = n # ns \<Longrightarrow>
     serve L strerror w (hub_perform (on_accept ec peer pec n (hub_server w)) (w\<lparr>hub_accepts := ns\<rparr>))"
| ran: "srv_sessions (hub_server w) n = Some s \<Longrightarrow> handled L strerror s r \<Longrightarrow>
     serve L strerror w (hub_perform (on_pooled n r (hub_server w)) w)"
| halted: "serve L strerror w (w\<lparr>hub_server := server_stop (hub_server w)\<rparr>)"

inductive_cases serveE: "serve L strerror w w'"

section \<open>The pool\<close>

text \<open>A session handler that calls back takes its session out of the pool and nothing else.\<close>

lemma unpool_idem [simp]: "unpool n (unpool n v) = unpool n v"
  by (auto simp: unpool_def modify_def Let_def map_option.compositionality comp_def
      intro!: server.equality ext)

lemma server_effects_eq:
  "server_effects n as v =
     (if CallAfterNetError Unpool \<in> set as then unpool n v else v,
      map (OfPooled n) (filter (\<lambda>a. a \<noteq> CallAfterNetError Unpool) as))"
  by (induction as arbitrary: v) simp_all

lemma hub_effects_pooled [simp]: "fold hub_effect (map (OfPooled n) as) w = w"
  by (induction as) simp_all

text \<open>The pool holds the connected sessions, each with its handler and its callback; one accept is
  always in flight, on a session that is not connected.\<close>

definition pooled_ok :: "nat set \<Rightarrow> nat \<Rightarrow> session \<Rightarrow> bool" where
  "pooled_ok pool n s \<longleftrightarrow>
     (n \<in> pool \<longleftrightarrow> ses_isConnected s)
     \<and> (n \<in> pool \<longrightarrow> ses_afterNetError s = Unpool \<and> ses_requestHandler s)
     \<and> ses_afterNetError s \<noteq> Reconnect"

definition pool_ok :: "server \<Rightarrow> bool" where
  "pool_ok v \<longleftrightarrow>
     dom (srv_sessions v) = {..<srv_next v} \<and> srv_pool v \<subseteq> {..<srv_next v}
     \<and> (\<forall>n s. srv_sessions v n = Some s \<longrightarrow> pooled_ok (srv_pool v) n s)"

lemma pool_okD:
  assumes "pool_ok v"
  shows "dom (srv_sessions v) = {..<srv_next v}" "srv_pool v \<subseteq> {..<srv_next v}"
    "srv_sessions v n = Some s \<Longrightarrow> pooled_ok (srv_pool v) n s"
    "srv_sessions v n = Some s \<Longrightarrow> n < srv_next v" "srv_next v \<notin> srv_pool v"
  using assms by (simp_all add: pool_ok_def) (blast, blast)

lemma pool_ok_doAccept:
  assumes "pool_ok v"
  shows "pool_ok (fst (doAccept v))"
proof -
  let ?v = "fst (doAccept v)"
  have new: "srv_sessions ?v = (srv_sessions v)(srv_next v \<mapsto> TcpSession)" "srv_pool ?v = srv_pool v"
    "srv_next ?v = Suc (srv_next v)" by (simp_all add: doAccept_def Let_def)
  have "pooled_ok (srv_pool v) n s" if "srv_sessions ?v n = Some s" for n s
    using that pool_okD(3) [OF assms, of n s] pool_okD(5) [OF assms]
    by (cases "n = srv_next v") (auto simp: new pooled_ok_def TcpSession_def)
  then show ?thesis
    using pool_okD(1,2) [OF assms] unfolding pool_ok_def new by (simp add: new lessThan_Suc) blast
qed

text \<open>One session is replaced, the pool changes at most at its number.\<close>

lemma pool_ok_replace:
  assumes "pool_ok v" "n < srv_next v" "pool - {n} = srv_pool v - {n}" "pooled_ok pool n s'"
    "srv_sessions v' = (srv_sessions v)(n \<mapsto> s')" "srv_pool v' = pool" "srv_next v' = srv_next v"
  shows "pool_ok v'"
proof -
  have same: "(m \<in> pool) = (m \<in> srv_pool v)" if "m \<noteq> n" for m using assms(3) that by blast
  have "pooled_ok pool m s" if "srv_sessions v' m = Some s" for m s
    using that assms(4) pool_okD(3) [OF assms(1), of m s] same [of m]
    by (cases "m = n") (simp_all add: assms(5) pooled_ok_def)
  moreover have "pool \<subseteq> {..<srv_next v}" using assms(2,3) pool_okD(2) [OF assms(1)] by blast
  moreover have "dom (srv_sessions v') = {..<srv_next v'}"
    using assms(2) pool_okD(1) [OF assms(1)] by (simp add: assms(5,7)) blast
  ultimately show ?thesis by (simp add: pool_ok_def assms(6,7))
qed

lemma pool_ok_ran:
  assumes "pool_ok v" "srv_sessions v n = Some s" "well_behaved s r"
  shows "pool_ok (fst (on_pooled n r v))"
proof -
  note n = pool_okD(4) [OF assms(1,2)] and s = pool_okD(3) [OF assms(1,2)]
  show ?thesis
  proof (cases "CallAfterNetError Unpool \<in> set (snd r)")
    case True
    let ?s = "(fst r)\<lparr>ses_afterNetError := NoCallback, ses_requestHandler := False\<rparr>"
    have "\<not> ses_isConnected (fst r)" using True assms(3) by (auto simp: well_behaved_def)
    then have "pooled_ok (srv_pool v - {n}) n ?s" by (simp add: pooled_ok_def)
    then show ?thesis
      by (rule pool_ok_replace [OF assms(1) n, rotated])
         (simp_all add: True on_pooled_def server_effects_eq unpool_def modify_def Let_def)
  next
    case False
    have "pooled_ok (srv_pool v) n (fst r)"
      using False assms(3) s by (auto simp: pooled_ok_def well_behaved_def)
    then show ?thesis
      by (rule pool_ok_replace [OF assms(1) n, rotated])
         (simp_all add: False on_pooled_def server_effects_eq)
  qed
qed

lemma pool_ok_startSession:
  assumes "pool_ok v" "srv_sessions v n = Some s"
  shows "pool_ok (fst (server_startSession peer pec n
    (modify n (\<lambda>s. s\<lparr>ses_requestHandler := True, ses_open := True\<rparr>) v)))"
proof -
  let ?s = "fst (startSession peer pec (s\<lparr>ses_requestHandler := True, ses_open := True, ses_afterNetError := Unpool\<rparr>))"
  have "pooled_ok (insert n (srv_pool v)) n ?s"
    by (simp add: pooled_ok_def startSession_def readHead_def)
  then show ?thesis
    by (rule pool_ok_replace [OF assms(1) pool_okD(4) [OF assms], rotated])
       (simp_all add: server_startSession_def modify_def assms(2) on_pooled_def server_effects_eq
        startSession_def readHead_def Let_def)
qed

lemma pool_ok_stop:
  assumes "pool_ok v"
  shows "pool_ok (server_stop v)"
proof -
  have "pooled_ok {} n s'" if d: "srv_sessions (server_stop v) n = Some s'" for n s'
  proof -
    obtain s where "srv_sessions v n = Some s"
      using d by (auto simp: server_stop_def split: if_splits)
    then show ?thesis
      using d pool_okD(3) [OF assms, of n s]
      by (cases "n \<in> srv_pool v") (auto simp: server_stop_def pooled_ok_def stopSession_def)
  qed
  moreover have "dom (srv_sessions (server_stop v)) = dom (srv_sessions v)"
    by (auto simp: server_stop_def dom_def split: if_splits)
  ultimately show ?thesis
    using pool_okD(1) [OF assms] by (simp add: pool_ok_def) (simp add: server_stop_def)
qed

section \<open>Runs keep the pool and one accept\<close>

lemma hub_perform_sel [session_simps]:
  "hub_server (hub_perform r w) = fst r"
  "hub_accepts (hub_perform r w) = hub_accepts w @ concat (map (\<lambda>a. case a of StartAccept n \<Rightarrow> [n] | _ \<Rightarrow> []) (snd r))"
  "hub_errors (hub_perform r w) = hub_errors w @ concat (map (\<lambda>a. case a of LogAccept e \<Rightarrow> [e] | _ \<Rightarrow> []) (snd r))"
proof -
  have "hub_server (fold hub_effect as u) = hub_server u \<and>
      hub_accepts (fold hub_effect as u) = hub_accepts u @ concat (map (\<lambda>a. case a of StartAccept n \<Rightarrow> [n] | _ \<Rightarrow> []) as) \<and>
      hub_errors (fold hub_effect as u) = hub_errors u @ concat (map (\<lambda>a. case a of LogAccept e \<Rightarrow> [e] | _ \<Rightarrow> []) as)"
    for as u
  proof (induction as arbitrary: u)
    case (Cons a as)
    then show ?case by (cases a) simp_all
  qed simp
  then show "hub_server (hub_perform r w) = fst r"
    "hub_accepts (hub_perform r w) = hub_accepts w @ concat (map (\<lambda>a. case a of StartAccept n \<Rightarrow> [n] | _ \<Rightarrow> []) (snd r))"
    "hub_errors (hub_perform r w) = hub_errors w @ concat (map (\<lambda>a. case a of LogAccept e \<Rightarrow> [e] | _ \<Rightarrow> []) (snd r))"
    by (simp_all add: hub_perform_def)
qed

lemma pooled_no_accepts [simp]:
  "concat (map ((\<lambda>a. case a of StartAccept n \<Rightarrow> [n] | _ \<Rightarrow> []) \<circ> OfPooled n) as) = []"
  "concat (map ((\<lambda>a. case a of LogAccept e \<Rightarrow> [e] | _ \<Rightarrow> []) \<circ> OfPooled n) as) = []"
  by (induction as) simp_all

lemma startSession_accepts [simp]:
  "concat (map (\<lambda>a. case a of StartAccept n \<Rightarrow> [n] | _ \<Rightarrow> []) (snd (server_startSession peer pec n v))) = []"
  "concat (map (\<lambda>a. case a of LogAccept e \<Rightarrow> [e] | _ \<Rightarrow> []) (snd (server_startSession peer pec n v))) = []"
  by (simp_all add: server_startSession_def on_pooled_def server_effects_eq Let_def split: option.split)

lemma on_pooled_accepts [simp]:
  "concat (map (\<lambda>a. case a of StartAccept n \<Rightarrow> [n] | _ \<Rightarrow> []) (snd (on_pooled n r v))) = []"
  by (simp add: on_pooled_def server_effects_eq)

lemma on_accept_eq:
  "on_accept ec peer pec n v =
     (let r = (if ec = 0 then server_startSession peer pec n
                    (modify n (\<lambda>s. s\<lparr>ses_requestHandler := True, ses_open := True\<rparr>) v)
               else (v, [LogAccept ec]))
      in (fst (doAccept (fst r)), snd r @ [StartAccept (srv_next (fst r))]))"
  by (simp add: on_accept_def doAccept_def Let_def split: prod.split)

lemma doAccept_sessions [simp]:
  "srv_sessions (fst (doAccept v)) = (srv_sessions v)(srv_next v \<mapsto> TcpSession)"
  by (simp add: doAccept_def Let_def)

definition hub_ok :: "hub \<Rightarrow> bool" where
  "hub_ok w \<longleftrightarrow> pool_ok (hub_server w) \<and>
     (\<exists>n. hub_accepts w = [n] \<and> n < srv_next (hub_server w))"

lemma hub_ok_start: "hub_ok hub_start"
proof -
  have "pool_ok TcpServer" by (simp add: pool_ok_def TcpServer_def)
  from pool_ok_doAccept [OF this] show ?thesis
    by (simp add: hub_ok_def hub_start_def hub_perform_sel server_start_def) (simp add: doAccept_def Let_def)
qed

lemma on_pooled_next [simp]: "srv_next (fst (on_pooled n r v)) = srv_next v"
  by (simp add: on_pooled_def server_effects_eq unpool_def modify_def Let_def)

lemma hub_ok_serve:
  assumes "hub_ok w" "serve L strerror w w'"
  shows "hub_ok w'"
  using assms(2)
proof cases
  case (accepted n ns ec peer pec)
  let ?v = "hub_server w"
  let ?r = "if ec = 0 then server_startSession peer pec n
                    (modify n (\<lambda>s. s\<lparr>ses_requestHandler := True, ses_open := True\<rparr>) ?v)
               else (?v, [LogAccept ec])"
  have ok: "pool_ok ?v" and n: "n < srv_next ?v" "ns = []"
    using assms(1) accepted(2) by (auto simp: hub_ok_def)
  obtain s where "srv_sessions ?v n = Some s"
    using pool_okD(1) [OF ok] n(1) by (auto simp: dom_def)
  then have "pool_ok (fst ?r)" using ok pool_ok_startSession by simp
  from pool_ok_doAccept [OF this] show ?thesis
    using n(2) by (cases "ec = 0") (simp_all add: hub_ok_def accepted(1) session_simps on_accept_eq Let_def, simp_all add: doAccept_def Let_def)
next
  case (ran n s r)
  from pool_ok_ran [OF _ ran(2) well_behaved_handled [OF ran(3)]] assms(1) show ?thesis
    by (auto simp: hub_ok_def ran(1) session_simps)
next
  case halted
  have "srv_next (server_stop (hub_server w)) = srv_next (hub_server w)" by (simp add: server_stop_def)
  then show ?thesis using assms(1) pool_ok_stop by (auto simp: hub_ok_def halted)
qed

interpretation hosting: stable "serve L strerror" hub_ok for L strerror
  by unfold_locales (rule hub_ok_serve)

section \<open>Properties\<close>

text \<open>C23: In every reachable state of the server the pool is exactly the set of connected sessions,
  each of which calls the server back when it fails and has its request handler, and exactly one
  accept is in flight.\<close>

theorem pool_is_connected_sessions:
  assumes "rtranclp (serve L strerror) hub_start w"
  shows "srv_pool (hub_server w) = {n. \<exists>s. srv_sessions (hub_server w) n = Some s \<and> ses_isConnected s}
    \<and> (\<forall>n \<in> srv_pool (hub_server w). \<exists>s. srv_sessions (hub_server w) n = Some s
         \<and> ses_afterNetError s = Unpool \<and> ses_requestHandler s)
    \<and> length (hub_accepts w) = 1"
proof -
  have ok: "hub_ok w" by (rule hosting.reached [OF assms hub_ok_start])
  then have pool: "pool_ok (hub_server w)" and "length (hub_accepts w) = 1" by (auto simp: hub_ok_def)
  have some: "\<exists>s. srv_sessions (hub_server w) n = Some s \<and> pooled_ok (srv_pool (hub_server w)) n s"
    if "n \<in> srv_pool (hub_server w)" for n
  proof -
    have "n \<in> dom (srv_sessions (hub_server w))" using that pool_okD(1,2) [OF pool] by blast
    then show ?thesis using pool_okD(3) [OF pool, of n] by blast
  qed
  have "srv_pool (hub_server w) = {n. \<exists>s. srv_sessions (hub_server w) n = Some s \<and> ses_isConnected s}"
    using some pool_okD(3) [OF pool] unfolding pooled_ok_def by blast
  moreover have "\<forall>n \<in> srv_pool (hub_server w). \<exists>s. srv_sessions (hub_server w) n = Some s
         \<and> ses_afterNetError s = Unpool \<and> ses_requestHandler s"
    using some unfolding pooled_ok_def by blast
  ultimately show ?thesis using \<open>length (hub_accepts w) = 1\<close> by blast
qed

definition serving :: hub where
  "serving = hub_perform (on_accept 0 [] 0 0 (hub_server hub_start)) (hub_start\<lparr>hub_accepts := []\<rparr>)"

lemma reach_serving: "serve L strerror hub_start serving"
  unfolding serving_def
  by (rule serve.accepted) (simp add: hub_start_def session_simps server_start_def doAccept_def TcpServer_def)

theorem pool_is_connected_sessions_witness:
  "srv_pool (hub_server serving) = {n. \<exists>s. srv_sessions (hub_server serving) n = Some s \<and> ses_isConnected s}
    \<and> length (hub_accepts serving) = 1"
proof -
  have "rtranclp (serve ref_lib (\<lambda>_. [])) hub_start serving" by (rule r_into_rtranclp) (rule reach_serving)
  from pool_is_connected_sessions [OF this] show ?thesis by blast
qed

text \<open>A server that was stopped never stops accepting: its completion handler accepts again after
  every error, so with the acceptor closed the event loop runs that handler, and logs the error,
  any number of times.\<close>

theorem stopped_server_keeps_accepting:
  assumes "hub_accepts w = [n]" "ec \<noteq> 0"
  shows "\<exists>w'. rtranclp (serve L strerror) (w\<lparr>hub_server := server_stop (hub_server w)\<rparr>) w'
    \<and> \<not> srv_acceptor (hub_server w') \<and> length (hub_accepts w') = 1
    \<and> hub_errors w' = hub_errors w @ replicate k ec"
proof (induction k)
  case 0
  then show ?case
    using assms by (intro exI [of _ "w\<lparr>hub_server := server_stop (hub_server w)\<rparr>"]) (simp add: server_stop_def)
next
  case (Suc k)
  then obtain w' m where w': "rtranclp (serve L strerror) (w\<lparr>hub_server := server_stop (hub_server w)\<rparr>) w'"
    "\<not> srv_acceptor (hub_server w')" "hub_accepts w' = [m]" "hub_errors w' = hub_errors w @ replicate k ec"
    by (auto simp: length_Suc_conv)
  let ?w = "hub_perform (on_accept ec [] 0 m (hub_server w')) (w'\<lparr>hub_accepts := []\<rparr>)"
  have "serve L strerror w' ?w" by (rule serve.accepted) (simp add: w'(3))
  then have "rtranclp (serve L strerror) (w\<lparr>hub_server := server_stop (hub_server w)\<rparr>) ?w"
    using w'(1) by (rule rtranclp.rtrancl_into_rtrancl [rotated])
  moreover have "\<not> srv_acceptor (hub_server ?w)" "length (hub_accepts ?w) = 1"
    "hub_errors ?w = hub_errors w @ replicate (Suc k) ec"
    using w'(2,4) assms(2)
    by (simp_all add: session_simps on_accept_eq replicate_append_same)
       (simp add: doAccept_def Let_def)
  ultimately show ?case by blast
qed

theorem stopped_server_keeps_accepting_witness:
  "\<exists>w'. rtranclp (serve ref_lib (\<lambda>_. [])) (hub_start\<lparr>hub_server := server_stop (hub_server hub_start)\<rparr>) w'
    \<and> \<not> srv_acceptor (hub_server w') \<and> length (hub_accepts w') = 1
    \<and> hub_errors w' = hub_errors hub_start @ replicate 3 10009"
  by (rule stopped_server_keeps_accepting [where n = 0])
     (simp_all add: hub_start_def session_simps server_start_def doAccept_def TcpServer_def)

end
