(* ===== verification/Com.thy ===== *)
theory Com
  imports AdPrelude
begin

text \<open>
  The Media Foundation objects that \<^verbatim>\<open>src/player.cpp\<close> works with.  The framework
  is not part of the program: what the calls answer is the argument \<open>api\<close>, which gives the
  result of the first, second, \<dots> call.  \<open>com\<close> is what the program itself is responsible
  for: the references it holds to each object, and whether it has called a method through
  a null pointer or through a reference it no longer holds.  The functions of the file that
  build a topology are translated line by line, with \<open>CHECK_HR\<close> as the jump to the
  clean-up at their end.
\<close>

section \<open>Results and references\<close>

type_synonym hresult = i32
type_synonym ptr = "nat option"

definition FAILED :: "hresult \<Rightarrow> bool" where
  "FAILED hr \<longleftrightarrow> sint hr < 0"

definition S_OK :: hresult where "S_OK = 0"
definition E_POINTER :: hresult where "E_POINTER = 0x80004003"
definition E_OUTOFMEMORY :: hresult where "E_OUTOFMEMORY = 0x8007000E"
definition E_FAIL :: hresult where "E_FAIL = 0x80004005"
definition E_UNEXPECTED :: hresult where "E_UNEXPECTED = 0x8000FFFF"
definition MF_E_INVALIDREQUEST :: hresult where "MF_E_INVALIDREQUEST = 0xC00D36B2"
definition MF_E_INVALIDTYPE :: hresult where "MF_E_INVALIDTYPE = 0xC00D36BD"

text \<open>One answer of the framework: the result code and what the call has as output besides
  pointers: a number, the major type of a stream, the type of an event, the status of a
  topology, and whether the value of an event is an object.\<close>

datatype major_type = MFMediaType_Audio | MFMediaType_Video | MFMediaType_Other

datatype event_type =
    MESessionTopologyStatus | MEEndOfPresentation | MENewPresentation | MESessionEnded
  | MESessionClosed | MEOther

datatype topo_status =
    MF_TOPOSTATUS_READY | MF_TOPOSTATUS_STARTED_SOURCE | MF_TOPOSTATUS_ENDED | MF_TOPOSTATUS_OTHER

record answer =
  ans_hr :: hresult
  ans_num :: u32
  ans_major :: major_type
  ans_event :: event_type
  ans_status :: topo_status
  ans_unknown :: bool

type_synonym api = "nat \<Rightarrow> answer"

datatype com_call =
    MFStartup | MFShutdown
  | MFCreateMediaSession | MFCreateSourceResolver | MFCreateTopology
  | MFCreateAudioRendererActivate | MFCreateVideoRendererActivate nat
  | MFCreateTopologyNode bool | MFGetService | MFCreateMFByteStreamOnStream ptr
  | SHCreateMemStream bytes
  | CreateObjectFromURL bytes | CreateObjectFromByteStream ptr bytes | QueryInterface
  | CreatePresentationDescriptor | GetStreamDescriptorCount | GetStreamDescriptorByIndex nat
  | GetMediaTypeHandler | GetMajorType
  | SetUnknownSource ptr | SetUnknownPresentation ptr | SetUnknownStream ptr
  | SetObject ptr | SetStreamId nat | SetNoShutdown bool
  | AddNode ptr | ConnectOutput ptr
  | GetTopologyID | GetFullTopology u32 | SetTopology ptr | ClearTopology
  | BeginGetEvent | EndGetEvent | GetEventType | GetStatus | GetTopologyStatus | GetValue
  | SessionStart | SessionPause | SessionStop | SessionClose | ShutdownObject
  | RepaintVideo | SetVideoPosition u32 u32 | WaitForCloseEvent nat | CreateEvent

record com =
  com_refs :: "nat \<Rightarrow> nat"
  com_next :: nat
  com_tick :: nat
  com_fault :: bool
  com_calls :: "(ptr \<times> com_call) list"

text \<open>A pointer may be used when it is not null and the program holds a reference to the object.\<close>

fun valid :: "ptr \<Rightarrow> com \<Rightarrow> bool" where
  "valid None w = False"
| "valid (Some i) w = (0 < com_refs w i)"

text \<open>A call of a function of the framework, and a call of a method of the object \<open>p\<close>.\<close>

definition global :: "api \<Rightarrow> com_call \<Rightarrow> com \<Rightarrow> answer \<times> com" where
  "global api c w =
     (api (com_tick w), w\<lparr>com_tick := Suc (com_tick w), com_calls := com_calls w @ [(None, c)]\<rparr>)"

definition invoke :: "api \<Rightarrow> ptr \<Rightarrow> com_call \<Rightarrow> com \<Rightarrow> answer \<times> com" where
  "invoke api p c w =
     (api (com_tick w), w\<lparr>com_tick := Suc (com_tick w), com_calls := com_calls w @ [(p, c)],
        com_fault := (com_fault w \<or> \<not> valid p w)\<rparr>)"

text \<open>A call with an output pointer gives, when it succeeds, one reference to an object.\<close>

definition receive :: "answer \<times> com \<Rightarrow> hresult \<times> ptr \<times> com" where
  "receive r =
     (let (ans, w) = r
      in if FAILED (ans_hr ans) then (ans_hr ans, None, w)
         else (ans_hr ans, Some (com_next w),
               w\<lparr>com_refs := (com_refs w)(com_next w := 1), com_next := Suc (com_next w)\<rparr>))"

definition AddRef :: "ptr \<Rightarrow> com \<Rightarrow> com" where
  "AddRef p w =
     (case p of
        None \<Rightarrow> w\<lparr>com_fault := True\<rparr>
      | Some i \<Rightarrow> w\<lparr>com_refs := (com_refs w)(i := Suc (com_refs w i)), com_fault := (com_fault w \<or> \<not> valid p w)\<rparr>)"

text \<open>\<open>SafeRelease\<close>; the pointer itself becomes null, which the callers write as \<open>None\<close>.\<close>

definition SafeRelease :: "ptr \<Rightarrow> com \<Rightarrow> com" where
  "SafeRelease p w =
     (case p of
        None \<Rightarrow> w
      | Some i \<Rightarrow> w\<lparr>com_refs := (com_refs w)(i := com_refs w i - 1), com_fault := (com_fault w \<or> \<not> valid p w)\<rparr>)"

text \<open>\<open>GetEventObject\<close>: the object the event carries.\<close>

definition GetEventObject :: "api \<Rightarrow> ptr \<Rightarrow> com \<Rightarrow> hresult \<times> ptr \<times> com" where
  "GetEventObject api pEvent w =
     (let (ans, w) = invoke api pEvent GetValue w
      in if \<not> FAILED (ans_hr ans)
         then if ans_unknown ans then receive (global api QueryInterface w)
              else (MF_E_INVALIDTYPE, None, w)
         else (ans_hr ans, None, w))"

section \<open>Sources\<close>

definition CreateMediaSource_stream :: "api \<Rightarrow> bytes \<Rightarrow> ptr \<Rightarrow> ptr \<Rightarrow> com \<Rightarrow> hresult \<times> ptr \<times> com" where
  "CreateMediaSource_stream api pwszFileName pByteStream ppSource w =
     (let fin = (\<lambda>hr pSourceResolver pSource ppSource w.
                   (hr, ppSource, SafeRelease pSource (SafeRelease pSourceResolver w)));
          (hr, pSourceResolver, w) = receive (global api MFCreateSourceResolver w)
      in if FAILED hr then fin hr pSourceResolver None ppSource w
         else
      let (hr, pSource, w) =
            receive (invoke api pSourceResolver (CreateObjectFromByteStream pByteStream pwszFileName) w)
      in if FAILED hr then fin hr pSourceResolver pSource ppSource w
         else
      let (hr, ppSource, w) = receive (invoke api pSource QueryInterface w)
      in fin hr pSourceResolver pSource ppSource w)"

definition CreateMediaSource_URL :: "api \<Rightarrow> bytes \<Rightarrow> ptr \<Rightarrow> com \<Rightarrow> hresult \<times> ptr \<times> com" where
  "CreateMediaSource_URL api sURL ppSource w =
     (let fin = (\<lambda>hr pSourceResolver pSource ppSource w.
                   (hr, ppSource, SafeRelease pSource (SafeRelease pSourceResolver w)));
          (hr, pSourceResolver, w) = receive (global api MFCreateSourceResolver w)
      in if FAILED hr then fin hr pSourceResolver None ppSource w
         else
      let (hr, pSource, w) = receive (invoke api pSourceResolver (CreateObjectFromURL sURL) w)
      in if FAILED hr then fin hr pSourceResolver pSource ppSource w
         else
      let (hr, ppSource, w) = receive (invoke api pSource QueryInterface w)
      in fin hr pSourceResolver pSource ppSource w)"

section \<open>Topologies\<close>

definition CreateMediaSinkActivate :: "api \<Rightarrow> ptr \<Rightarrow> nat \<Rightarrow> com \<Rightarrow> hresult \<times> ptr \<times> com" where
  "CreateMediaSinkActivate api pSourceSD hVideoWindow w =
     (let fin = (\<lambda>hr pHandler pActivate ppActivate w.
                   (hr, ppActivate, SafeRelease pActivate (SafeRelease pHandler w)));
          (hr, pHandler, w) = receive (invoke api pSourceSD GetMediaTypeHandler w)
      in if FAILED hr then fin hr pHandler None None w
         else
      let (ans, w) = invoke api pHandler GetMajorType w; hr = ans_hr ans; guidMajorType = ans_major ans
      in if FAILED hr then fin hr pHandler None None w
         else
      let (hr, pActivate, w) =
            (if MFMediaType_Audio = guidMajorType then receive (global api MFCreateAudioRendererActivate w)
             else if MFMediaType_Video = guidMajorType then receive (global api (MFCreateVideoRendererActivate hVideoWindow) w)
             else (E_FAIL, None, w))
      in if FAILED hr then fin hr pHandler pActivate None w
         else fin hr pHandler pActivate pActivate (AddRef pActivate w))"

definition AddSourceNode :: "api \<Rightarrow> ptr \<Rightarrow> ptr \<Rightarrow> ptr \<Rightarrow> ptr \<Rightarrow> com \<Rightarrow> hresult \<times> ptr \<times> com" where
  "AddSourceNode api pTopology pSource pPD pSD w =
     (let fin = (\<lambda>hr pNode ppNode w. (hr, ppNode, SafeRelease pNode w));
          (hr, pNode, w) = receive (global api (MFCreateTopologyNode True) w)
      in if FAILED hr then fin hr pNode None w
         else
      let (ans, w) = invoke api pNode (SetUnknownSource pSource) w
      in if FAILED (ans_hr ans) then fin (ans_hr ans) pNode None w
         else
      let (ans, w) = invoke api pNode (SetUnknownPresentation pPD) w
      in if FAILED (ans_hr ans) then fin (ans_hr ans) pNode None w
         else
      let (ans, w) = invoke api pNode (SetUnknownStream pSD) w
      in if FAILED (ans_hr ans) then fin (ans_hr ans) pNode None w
         else
      let (ans, w) = invoke api pTopology (AddNode pNode) w
      in if FAILED (ans_hr ans) then fin (ans_hr ans) pNode None w
         else fin (ans_hr ans) pNode pNode (AddRef pNode w))"

definition AddOutputNode :: "api \<Rightarrow> ptr \<Rightarrow> ptr \<Rightarrow> nat \<Rightarrow> com \<Rightarrow> hresult \<times> ptr \<times> com" where
  "AddOutputNode api pTopology pActivate dwId w =
     (let fin = (\<lambda>hr pNode ppNode w. (hr, ppNode, SafeRelease pNode w));
          (hr, pNode, w) = receive (global api (MFCreateTopologyNode False) w)
      in if FAILED hr then fin hr pNode None w
         else
      let (ans, w) = invoke api pNode (SetObject pActivate) w
      in if FAILED (ans_hr ans) then fin (ans_hr ans) pNode None w
         else
      let (ans, w) = invoke api pNode (SetStreamId dwId) w
      in if FAILED (ans_hr ans) then fin (ans_hr ans) pNode None w
         else
      let (ans, w) = invoke api pNode (SetNoShutdown False) w
      in if FAILED (ans_hr ans) then fin (ans_hr ans) pNode None w
         else
      let (ans, w) = invoke api pTopology (AddNode pNode) w
      in if FAILED (ans_hr ans) then fin (ans_hr ans) pNode None w
         else fin (ans_hr ans) pNode pNode (AddRef pNode w))"

text \<open>\<open>GetStreamDescriptorByIndex\<close> has two outputs, the descriptor and whether it is selected.\<close>

definition AddBranchToPartialTopology :: "api \<Rightarrow> ptr \<Rightarrow> ptr \<Rightarrow> ptr \<Rightarrow> nat \<Rightarrow> nat \<Rightarrow> com \<Rightarrow> hresult \<times> com" where
  "AddBranchToPartialTopology api pTopology pSource pPD iStream hVideoWnd w =
     (let fin = (\<lambda>hr pSD pSinkActivate pSourceNode pOutputNode w.
                   (hr, SafeRelease pOutputNode (SafeRelease pSourceNode
                          (SafeRelease pSinkActivate (SafeRelease pSD w)))));
          r = invoke api pPD (GetStreamDescriptorByIndex iStream) w;
          fSelected = ans_num (fst r);
          (hr, pSD, w) = receive r
      in if FAILED hr then fin hr pSD None None None w
         else if fSelected = 0 then fin hr pSD None None None w
         else
      let (hr, pSinkActivate, w) = CreateMediaSinkActivate api pSD hVideoWnd w
      in if FAILED hr then fin hr pSD pSinkActivate None None w
         else
      let (hr, pSourceNode, w) = AddSourceNode api pTopology pSource pPD pSD w
      in if FAILED hr then fin hr pSD pSinkActivate pSourceNode None w
         else
      let (hr, pOutputNode, w) = AddOutputNode api pTopology pSinkActivate 0 w
      in if FAILED hr then fin hr pSD pSinkActivate pSourceNode pOutputNode w
         else
      let (ans, w) = invoke api pSourceNode (ConnectOutput pOutputNode) w
      in fin (ans_hr ans) pSD pSinkActivate pSourceNode pOutputNode w)"

text \<open>The loop over the streams, from stream \<open>i\<close> with \<open>n\<close> streams left.\<close>

fun add_branches :: "api \<Rightarrow> ptr \<Rightarrow> ptr \<Rightarrow> ptr \<Rightarrow> nat \<Rightarrow> nat \<Rightarrow> nat \<Rightarrow> hresult \<Rightarrow> com \<Rightarrow> hresult \<times> com" where
  "add_branches api pTopology pSource pPD hVideoWnd i 0 hr w = (hr, w)"
| "add_branches api pTopology pSource pPD hVideoWnd i (Suc n) hr w =
     (let (hr, w) = AddBranchToPartialTopology api pTopology pSource pPD i hVideoWnd w
      in if FAILED hr then (hr, w)
         else add_branches api pTopology pSource pPD hVideoWnd (Suc i) n hr w)"

definition CreatePlaybackTopology :: "api \<Rightarrow> ptr \<Rightarrow> ptr \<Rightarrow> nat \<Rightarrow> com \<Rightarrow> hresult \<times> ptr \<times> com" where
  "CreatePlaybackTopology api pSource pPD hVideoWnd w =
     (let fin = (\<lambda>hr pTopology ppTopology w. (hr, ppTopology, SafeRelease pTopology w));
          (hr, pTopology, w) = receive (global api MFCreateTopology w)
      in if FAILED hr then fin hr pTopology None w
         else
      let (ans, w) = invoke api pPD GetStreamDescriptorCount w
      in if FAILED (ans_hr ans) then fin (ans_hr ans) pTopology None w
         else
      let (hr, w) = add_branches api pTopology pSource pPD hVideoWnd 0 (unat (ans_num ans)) (ans_hr ans) w
      in if FAILED hr then fin hr pTopology None w
         else fin hr pTopology pTopology (AddRef pTopology w))"

end
