(* ===== verification/Player.thy ===== *)
theory Player
  imports Com
begin

text \<open>
  The player of the lock screen, class CPlayer of \<^verbatim>\<open>src/player.cpp\<close> and
  \<^verbatim>\<open>src/player.h\<close>.  A method takes the object and the references the program
  holds (\<open>com\<close>) and returns both; the answers of Media Foundation are the argument \<open>api\<close>.
\<close>

section \<open>The object\<close>

datatype player_state = Closed | Ready | OpenPending | Started | Paused | Stopped | Closing

record play_item =
  item_id :: u32
  item_type :: u32
  item_filename :: bytes
  item_adfile :: "bytes option"

record player =
  pl_nRefCount :: i32
  pl_pSession :: ptr
  pl_pSource :: ptr
  pl_pVideoDisplay :: ptr
  pl_hwndVideo :: nat
  pl_hwndEvent :: nat
  pl_state :: player_state
  pl_hCloseEvent :: bool
  pl_playList :: "play_item list"
  pl_posted :: "(ptr \<times> event_type) list"
  pl_slept :: nat

text \<open>The constructor.  \<open>pl_posted\<close> are the messages posted to the event window, \<open>pl_slept\<close> the
  milliseconds slept.\<close>

definition CPlayer :: "nat \<Rightarrow> nat \<Rightarrow> player" where
  "CPlayer hVideo hEvent = \<lparr>pl_nRefCount = 1, pl_pSession = None, pl_pSource = None,
     pl_pVideoDisplay = None, pl_hwndVideo = hVideo, pl_hwndEvent = hEvent, pl_state = Closed,
     pl_hCloseEvent = False, pl_playList = [], pl_posted = [], pl_slept = 0\<rparr>"

section \<open>Opening a file\<close>

text \<open>The name is copied into an array of 2046 wide characters with no check of its length.\<close>

definition OpenMem :: "api \<Rightarrow> bytes \<Rightarrow> bytes \<Rightarrow> player \<Rightarrow> com \<Rightarrow> hresult \<times> player \<times> com" where
  "OpenMem api name buf p w =
     (let pSourceTmp = pl_pSource p;
          w = (if 2046 \<le> length name then w\<lparr>com_fault := True\<rparr> else w);
          fin = (\<lambda>hr p pMemStream pByteStream pSourcePD pTopology w.
                   (hr, if FAILED hr then p\<lparr>pl_state := Closed\<rparr> else p,
                    SafeRelease pSourceTmp (SafeRelease pTopology (SafeRelease pSourcePD
                      (SafeRelease pByteStream (SafeRelease pMemStream w))))));
          (hr, pMemStream, w) = receive (global api (SHCreateMemStream buf) w)
      in if FAILED hr then fin (- 1) p None None None None w
         else
      let (hr, pByteStream, w) = receive (global api (MFCreateMFByteStreamOnStream pMemStream) w)
      in if FAILED hr then fin hr p pMemStream pByteStream None None w
         else
      let (hr, pSource, w) = CreateMediaSource_stream api name pByteStream (pl_pSource p) w;
          p = p\<lparr>pl_pSource := pSource\<rparr>
      in if FAILED hr then fin hr p pMemStream pByteStream None None w
         else
      let (hr, pSourcePD, w) = receive (invoke api (pl_pSource p) CreatePresentationDescriptor w)
      in if FAILED hr then fin hr p pMemStream pByteStream pSourcePD None w
         else
      let (hr, pTopology, w) = CreatePlaybackTopology api (pl_pSource p) pSourcePD (pl_hwndVideo p) w
      in if FAILED hr then fin hr p pMemStream pByteStream pSourcePD pTopology w
         else
      let (ans, w) = invoke api (pl_pSession p) (SetTopology pTopology) w
      in if FAILED (ans_hr ans) then fin (ans_hr ans) p pMemStream pByteStream pSourcePD pTopology w
         else
      if pSourceTmp \<noteq> None
      then let (ans, w) = invoke api pSourceTmp ShutdownObject w
           in if FAILED (ans_hr ans) then fin (ans_hr ans) p pMemStream pByteStream pSourcePD pTopology w
              else fin (ans_hr ans) (p\<lparr>pl_state := OpenPending\<rparr>) pMemStream pByteStream pSourcePD pTopology w
      else fin (ans_hr ans) (p\<lparr>pl_state := OpenPending\<rparr>) pMemStream pByteStream pSourcePD pTopology w)"

section \<open>Playback\<close>

definition Pause :: "api \<Rightarrow> player \<Rightarrow> com \<Rightarrow> hresult \<times> player \<times> com" where
  "Pause api p w =
     (if pl_state p \<noteq> Started then (MF_E_INVALIDREQUEST, p, w)
      else if pl_pSession p = None \<or> pl_pSource p = None then (E_UNEXPECTED, p, w)
      else let (ans, w) = invoke api (pl_pSession p) SessionPause w
           in (ans_hr ans, if FAILED (ans_hr ans) then p else p\<lparr>pl_state := Paused\<rparr>, w))"

definition Stop :: "api \<Rightarrow> player \<Rightarrow> com \<Rightarrow> hresult \<times> player \<times> com" where
  "Stop api p w =
     (if pl_state p \<noteq> Started \<and> pl_state p \<noteq> Paused then (MF_E_INVALIDREQUEST, p, w)
      else if pl_pSession p = None then (E_UNEXPECTED, p, w)
      else let (ans, w) = invoke api (pl_pSession p) SessionStop w
           in (ans_hr ans, if FAILED (ans_hr ans) then p else p\<lparr>pl_state := Stopped\<rparr>, w))"

definition StartPlayback :: "api \<Rightarrow> player \<Rightarrow> com \<Rightarrow> hresult \<times> player \<times> com" where
  "StartPlayback api p w =
     (let (ans, w) = invoke api (pl_pSession p) SessionStart w
      in (ans_hr ans, if FAILED (ans_hr ans) then p else p\<lparr>pl_state := Started\<rparr>, w))"

definition Play :: "api \<Rightarrow> player \<Rightarrow> com \<Rightarrow> hresult \<times> player \<times> com" where
  "Play api p w =
     (if pl_state p \<noteq> Paused \<and> pl_state p \<noteq> Stopped then (MF_E_INVALIDREQUEST, p, w)
      else if pl_pSession p = None \<or> pl_pSource p = None then (E_UNEXPECTED, p, w)
      else StartPlayback api p w)"

definition Repaint :: "api \<Rightarrow> player \<Rightarrow> com \<Rightarrow> hresult \<times> com" where
  "Repaint api p w =
     (if pl_pVideoDisplay p \<noteq> None
      then let (ans, w) = invoke api (pl_pVideoDisplay p) RepaintVideo w in (ans_hr ans, w)
      else (S_OK, w))"

definition ResizeVideo :: "api \<Rightarrow> u32 \<Rightarrow> u32 \<Rightarrow> player \<Rightarrow> com \<Rightarrow> hresult \<times> com" where
  "ResizeVideo api width height p w =
     (if pl_pVideoDisplay p \<noteq> None
      then let (ans, w) = invoke api (pl_pVideoDisplay p) (SetVideoPosition width height) w in (ans_hr ans, w)
      else (S_OK, w))"

section \<open>The play list\<close>

definition UpdatePlayList :: "u32 \<Rightarrow> bytes \<Rightarrow> player \<Rightarrow> player" where
  "UpdatePlayList i adfile p =
     p\<lparr>pl_playList := map (\<lambda>it. if item_id it = i then it\<lparr>item_adfile := Some adfile\<rparr> else it) (pl_playList p)\<rparr>"

text \<open>The loop of \<open>NotifyPlay\<close>; it runs \<open>count\<close> times at most, and the list keeps its length.\<close>

fun notify_loop :: "api \<Rightarrow> nat \<Rightarrow> player \<Rightarrow> com \<Rightarrow> player \<times> com" where
  "notify_loop api 0 p w = (p, w)"
| "notify_loop api (Suc count) p w =
     (case pl_playList p of
        [] \<Rightarrow> (p, w)
      | item # rest \<Rightarrow>
          let p = p\<lparr>pl_playList := rest @ [item]\<rparr>
          in if item_type item = 1 \<and> item_adfile item \<noteq> None
             then let (hr, p, w) = OpenMem api (item_filename item) (the (item_adfile item)) p w in (p, w)
             else notify_loop api count p w)"

definition NotifyPlay :: "api \<Rightarrow> player \<Rightarrow> com \<Rightarrow> player \<times> com" where
  "NotifyPlay api p w = notify_loop api (length (pl_playList p)) p w"

section \<open>Sessions\<close>

definition CloseSession :: "api \<Rightarrow> player \<Rightarrow> com \<Rightarrow> hresult \<times> player \<times> com" where
  "CloseSession api p w =
     (let w = SafeRelease (pl_pVideoDisplay p) w;
          p = p\<lparr>pl_pVideoDisplay := None\<rparr>;
          (hr, p, w) =
            (if pl_pSession p \<noteq> None
             then let p = p\<lparr>pl_state := Closing\<rparr>;
                      (ans, w) = invoke api (pl_pSession p) SessionClose w;
                      w = (if FAILED (ans_hr ans) then w else snd (global api (WaitForCloseEvent 5000) w))
                  in (ans_hr ans, p, w)
             else (S_OK, p, w));
          w = (if FAILED hr then w
               else let w = (if pl_pSource p \<noteq> None then snd (invoke api (pl_pSource p) ShutdownObject w) else w)
                    in if pl_pSession p \<noteq> None then snd (invoke api (pl_pSession p) ShutdownObject w) else w);
          w = SafeRelease (pl_pSession p) (SafeRelease (pl_pSource p) w)
      in (hr, p\<lparr>pl_pSource := None, pl_pSession := None, pl_state := Closed\<rparr>, w))"

definition CreateSession :: "api \<Rightarrow> player \<Rightarrow> com \<Rightarrow> hresult \<times> player \<times> com" where
  "CreateSession api p w =
     (let (hr, p, w) = CloseSession api p w
      in if FAILED hr then (hr, p, w)
         else
      let (hr, pSession, w) = receive (global api MFCreateMediaSession w);
          p = p\<lparr>pl_pSession := pSession\<rparr>
      in if FAILED hr then (hr, p, w)
         else
      let (ans, w) = invoke api (pl_pSession p) BeginGetEvent w
      in if FAILED (ans_hr ans) then (ans_hr ans, p, w)
         else (ans_hr ans, p\<lparr>pl_state := Ready\<rparr>, w))"

text \<open>\<open>mfshutdown\<close>: whether \<open>lpfMFShutdown\<close> was loaded.\<close>

definition Shutdown :: "api \<Rightarrow> bool \<Rightarrow> player \<Rightarrow> com \<Rightarrow> hresult \<times> player \<times> com" where
  "Shutdown api mfshutdown p w =
     (let (hr, p, w) = CloseSession api p w;
          w = (if mfshutdown then snd (global api MFShutdown w) else w)
      in (hr, p\<lparr>pl_hCloseEvent := False\<rparr>, w))"

text \<open>The loop that waits for the media source; \<open>ready i\<close> is the flag at the \<open>i\<close>-th look.\<close>

fun await_ready :: "api \<Rightarrow> (nat \<Rightarrow> bool) \<Rightarrow> nat \<Rightarrow> nat \<Rightarrow> player \<Rightarrow> com \<Rightarrow> player \<times> com" where
  "await_ready api ready i 0 p w = (p, w)"
| "await_ready api ready i (Suc n) p w =
     (if ready i then NotifyPlay api p w
      else await_ready api ready (Suc i) n (p\<lparr>pl_slept := pl_slept p + 100\<rparr>) w)"

definition SetVideoWindow :: "api \<Rightarrow> (nat \<Rightarrow> bool) \<Rightarrow> nat \<Rightarrow> player \<Rightarrow> com \<Rightarrow> player \<times> com" where
  "SetVideoWindow api ready hVideo p w =
     (let p = p\<lparr>pl_hwndVideo := hVideo, pl_hwndEvent := hVideo\<rparr>;
          (ans, w) = global api MFStartup w
      in if FAILED (ans_hr ans) then (p, w)
         else
      let (ans, w) = global api CreateEvent w;
          p = p\<lparr>pl_hCloseEvent := (ans_num ans \<noteq> 0)\<rparr>
      in if \<not> pl_hCloseEvent p then (p, w)
         else
      let (hr, p, w) = CreateSession api p w
      in await_ready api ready 0 30 p w)"

section \<open>Events\<close>

text \<open>The callback of the media session, on the worker thread.\<close>

definition Invoke :: "api \<Rightarrow> player \<Rightarrow> com \<Rightarrow> hresult \<times> player \<times> com" where
  "Invoke api p w =
     (let fin = (\<lambda>p pEvent w. (S_OK, p, SafeRelease pEvent w));
          (hr, pEvent, w) = receive (invoke api (pl_pSession p) EndGetEvent w)
      in if FAILED hr then fin p pEvent w
         else
      let (ans, w) = invoke api pEvent GetEventType w; meType = ans_event ans
      in if FAILED (ans_hr ans) then fin p pEvent w
         else
      let (hr, w) = (if meType = MESessionClosed then (S_OK, w)
                     else let (ans, w) = invoke api (pl_pSession p) BeginGetEvent w in (ans_hr ans, w))
      in if FAILED hr then fin p pEvent w
         else if pl_state p \<noteq> Closing
              then fin (p\<lparr>pl_posted := pl_posted p @ [(pEvent, meType)]\<rparr>) pEvent (AddRef pEvent w)
              else fin p pEvent w)"

definition OnTopologyStatus :: "api \<Rightarrow> ptr \<Rightarrow> player \<Rightarrow> com \<Rightarrow> hresult \<times> player \<times> com" where
  "OnTopologyStatus api pEvent p w =
     (let fin = (\<lambda>hr p pTopology pFullTopo w. (hr, p, SafeRelease pFullTopo (SafeRelease pTopology w)));
          (ans, w) = invoke api pEvent GetTopologyStatus w; status = ans_status ans
      in if FAILED (ans_hr ans) then fin (ans_hr ans) p None None w
         else if status = MF_TOPOSTATUS_READY
         then
      let (hr, pTopology, w) = GetEventObject api pEvent w
      in if FAILED hr then fin hr p pTopology None w
         else
      let (ans, w) = invoke api pTopology GetTopologyID w; TopoID = ans_num ans
      in if FAILED (ans_hr ans) then fin (ans_hr ans) p pTopology None w
         else
      let (hr, pFullTopo, w) = receive (invoke api (pl_pSession p) (GetFullTopology TopoID) w)
      in if FAILED hr then fin hr p pTopology pFullTopo w
         else
      let w = SafeRelease (pl_pVideoDisplay p) w;
          (hr, pVideoDisplay, w) = receive (global api MFGetService w);
          p = p\<lparr>pl_pVideoDisplay := pVideoDisplay\<rparr>;
          (hr, p, w) = StartPlayback api p w
      in fin hr p pTopology pFullTopo w
         else if status = MF_TOPOSTATUS_ENDED
         then let (ans, w) = invoke api (pl_pSession p) ClearTopology w in fin (ans_hr ans) p None None w
         else fin (ans_hr ans) p None None w)"

definition OnPresentationEnded :: "player \<Rightarrow> hresult \<times> player" where
  "OnPresentationEnded p = (S_OK, p\<lparr>pl_state := Stopped\<rparr>)"

definition OnNewPresentation :: "api \<Rightarrow> ptr \<Rightarrow> player \<Rightarrow> com \<Rightarrow> hresult \<times> player \<times> com" where
  "OnNewPresentation api pEvent p w =
     (let fin = (\<lambda>p pTopology pPD w. (S_OK, p, SafeRelease pPD (SafeRelease pTopology w)));
          (hr, pPD, w) = GetEventObject api pEvent w
      in if FAILED hr then fin p None pPD w
         else
      let (hr, pTopology, w) = CreatePlaybackTopology api (pl_pSource p) pPD (pl_hwndVideo p) w
      in if FAILED hr then fin p pTopology pPD w
         else
      let (ans, w) = invoke api (pl_pSession p) (SetTopology pTopology) w
      in if FAILED (ans_hr ans) then fin p pTopology pPD w
         else fin (p\<lparr>pl_state := OpenPending\<rparr>) pTopology pPD w)"

text \<open>The handler of the posted message, on the window's thread.  It owns the reference that
  \<open>Invoke\<close> took.\<close>

definition HandleEvent :: "api \<Rightarrow> ptr \<Rightarrow> player \<Rightarrow> com \<Rightarrow> hresult \<times> player \<times> com" where
  "HandleEvent api pEvent p w =
     (let fin = (\<lambda>hr p w. (hr, p, SafeRelease pEvent w))
      in if pEvent = None then (E_POINTER, p, w)
         else
      let (ans, w) = invoke api pEvent GetEventType w; meType = ans_event ans
      in if FAILED (ans_hr ans) then fin (ans_hr ans) p w
         else
      let (ans, w) = invoke api pEvent GetStatus w; hrStatus = ans_num ans;
          hr = (if \<not> FAILED (ans_hr ans) \<and> FAILED hrStatus then hrStatus else ans_hr ans)
      in if FAILED hr then fin hr p w
         else
      (case meType of
         MESessionTopologyStatus \<Rightarrow> let (hr, p, w) = OnTopologyStatus api pEvent p w in fin hr p w
       | MEEndOfPresentation \<Rightarrow> let (hr, p) = OnPresentationEnded p in fin hr p w
       | MENewPresentation \<Rightarrow> let (hr, p, w) = OnNewPresentation api pEvent p w in fin hr p w
       | MESessionEnded \<Rightarrow>
           let (p, w) = NotifyPlay api (p\<lparr>pl_slept := pl_slept p + 1000\<rparr>) w in fin hr p w
       | _ \<Rightarrow> fin S_OK p w))"

section \<open>Creation and destruction\<close>

text \<open>The loading of functions from a library.  \<open>loader\<close> gives the functions of a library that can
  be loaded; \<open>procs\<close> are the function pointers, \<open>None\<close> for null.\<close>

fun load_procs :: "(string \<Rightarrow> nat option) \<Rightarrow> string list \<Rightarrow> (string \<Rightarrow> nat option) \<Rightarrow> bool \<times> (string \<Rightarrow> nat option)" where
  "load_procs lib [] procs = (True, procs)"
| "load_procs lib (name # names) procs =
     (let procs = procs(name := lib name)
      in if procs name = None then (False, procs) else load_procs lib names procs)"

definition GetProcAddresses ::
    "(string \<Rightarrow> (string \<Rightarrow> nat option) option) \<Rightarrow> string \<Rightarrow> string list \<Rightarrow> (string \<Rightarrow> nat option)
      \<Rightarrow> bool \<times> (string \<Rightarrow> nat option)" where
  "GetProcAddresses loader library names procs =
     (case loader library of
        Some lib \<Rightarrow> load_procs lib names procs
      | None \<Rightarrow> (False, procs))"

definition mfplat_procs :: "string list" where
  "mfplat_procs = [''MFCreateMFByteStreamOnStream'', ''MFCreateSourceResolver'', ''MFShutdown'', ''MFStartup'']"

definition mf_procs :: "string list" where
  "mf_procs = [''MFCreateAudioRendererActivate'', ''MFCreateMediaSession'', ''MFCreateTopology'',
     ''MFCreateTopologyNode'', ''MFCreateVideoRendererActivate'', ''MFGetService'']"

definition Initialize ::
    "(string \<Rightarrow> (string \<Rightarrow> nat option) option) \<Rightarrow> (string \<Rightarrow> nat option) \<Rightarrow> hresult \<times> (string \<Rightarrow> nat option)" where
  "Initialize loader procs =
     (let (ok, procs) = GetProcAddresses loader ''mfplat.dll'' mfplat_procs procs
      in if \<not> ok then (- 1, procs)
         else
      let (ok, procs) = GetProcAddresses loader ''mf.dll'' mf_procs procs
      in if \<not> ok then (- 1, procs) else (S_OK, procs))"

definition player_AddRef :: "player \<Rightarrow> i32 \<times> player" where
  "player_AddRef p = (pl_nRefCount p + 1, p\<lparr>pl_nRefCount := pl_nRefCount p + 1\<rparr>)"

text \<open>\<open>Release\<close>; the destructor, which runs when the count is zero, is \<open>Shutdown\<close>.\<close>

definition player_Release :: "api \<Rightarrow> bool \<Rightarrow> player \<Rightarrow> com \<Rightarrow> i32 \<times> player option \<times> com" where
  "player_Release api mfshutdown p w =
     (let uCount = pl_nRefCount p - 1; p = p\<lparr>pl_nRefCount := uCount\<rparr>
      in if uCount = 0 then let (hr, p, w) = Shutdown api mfshutdown p w in (uCount, None, w)
         else (uCount, Some p, w))"

text \<open>\<open>allocated\<close>: whether \<open>new (std::nothrow)\<close> gives an object.\<close>

definition CreateInstance ::
    "api \<Rightarrow> (string \<Rightarrow> (string \<Rightarrow> nat option) option) \<Rightarrow> bool \<Rightarrow> nat \<Rightarrow> nat \<Rightarrow> (string \<Rightarrow> nat option) \<Rightarrow> com
      \<Rightarrow> hresult \<times> player option \<times> (string \<Rightarrow> nat option) \<times> com" where
  "CreateInstance api loader allocated hVideo hEvent procs w =
     (if \<not> allocated then (E_OUTOFMEMORY, None, procs, w)
      else
        let p = CPlayer hVideo hEvent; (hr, procs) = Initialize loader procs
        in if \<not> FAILED hr then (hr, Some p, procs, w)
           else let (n, q, w) = player_Release api (procs ''MFShutdown'' \<noteq> None) p w
                in (hr, None, procs, w))"

end
