(* ===== verification/ComBalance.thy ===== *)
theory ComBalance
  imports Com "HOL-Library.Multiset"
begin

text \<open>
  The references the topology functions take and give back.  Each of them, on every path and
  whatever the framework answers, calls methods only through references it holds, releases
  every temporary, and leaves its caller exactly the one reference it returns.  The proofs
  walk the source: one rule for each kind of call, which says what the program holds after
  it.
\<close>

section \<open>What the program holds\<close>

definition fresh_refs :: "com \<Rightarrow> bool" where
  "fresh_refs w \<longleftrightarrow> (\<forall>i \<ge> com_next w. com_refs w i = 0)"

text \<open>Since \<open>w0\<close> the program has used no bad pointer and has taken the references \<open>M\<close>.\<close>

definition holds :: "com \<Rightarrow> nat multiset \<Rightarrow> com \<Rightarrow> bool" where
  "holds w0 M w \<longleftrightarrow>
     fresh_refs w \<and> com_fault w = com_fault w0 \<and> com_next w0 \<le> com_next w \<and>
     (\<forall>i. com_refs w i = com_refs w0 i + count M i)"

text \<open>A function that returns a reference exactly when it succeeds.\<close>

definition gives :: "com \<Rightarrow> hresult \<times> ptr \<times> com \<Rightarrow> bool" where
  "gives w0 r \<longleftrightarrow>
     (case r of
        (hr, None, w) \<Rightarrow> FAILED hr \<and> holds w0 {#} w
      | (hr, Some n, w) \<Rightarrow> \<not> FAILED hr \<and> holds w0 {#n#} w)"

definition keeps :: "com \<Rightarrow> hresult \<times> com \<Rightarrow> bool" where
  "keeps w0 r \<longleftrightarrow> holds w0 {#} (snd r)"

named_theorems com_intros \<open>what the program holds after one call\<close>

lemma gives_None [com_intros]: "FAILED hr \<Longrightarrow> holds w0 {#} w \<Longrightarrow> gives w0 (hr, None, w)"
  by (simp add: gives_def)

lemma gives_Some [com_intros]: "\<not> FAILED hr \<Longrightarrow> holds w0 {#n#} w \<Longrightarrow> gives w0 (hr, Some n, w)"
  by (simp add: gives_def)

lemma keeps_pair [com_intros]: "holds w0 {#} w \<Longrightarrow> keeps w0 (hr, w)"
  by (simp add: keeps_def)

lemma holds_start: "fresh_refs w \<Longrightarrow> holds w {#} w"
  by (simp add: holds_def)

lemma holds_fresh: "holds w0 M w \<Longrightarrow> fresh_refs w"
  by (simp add: holds_def)

lemma valid_holds [com_intros]: "valid p w0 \<Longrightarrow> holds w0 M w \<Longrightarrow> valid p w"
  by (cases p) (auto simp: holds_def)

lemma valid_taken [com_intros]: "holds w0 M w \<Longrightarrow> n \<in># M \<Longrightarrow> valid (Some n) w"
  by (simp add: holds_def)

text \<open>Calls.\<close>

lemma receive_intro:
  assumes "holds w0 M w'"
    "\<And>hr. FAILED hr \<Longrightarrow> holds w0 M w' \<Longrightarrow> P (f hr None w')"
    "\<And>hr w''. \<not> FAILED hr \<Longrightarrow> holds w0 (add_mset (com_next w') M) w'' \<Longrightarrow> P (f hr (Some (com_next w')) w'')"
  shows "P (case receive (ans, w') of (hr, out, w) \<Rightarrow> f hr out w)"
proof (cases "FAILED (ans_hr ans)")
  case True
  then show ?thesis using assms(1,2) by (simp add: receive_def)
next
  case False
  let ?w = "w'\<lparr>com_refs := (com_refs w')(com_next w' := 1), com_next := Suc (com_next w')\<rparr>"
  have "holds w0 (add_mset (com_next w') M) ?w"
    using assms(1) by (auto simp: holds_def fresh_refs_def)
  then show ?thesis using assms(3) False by (simp add: receive_def)
qed

lemma holds_same:
  assumes "holds w0 M w" "com_refs w' = com_refs w" "com_next w' = com_next w" "com_fault w' = com_fault w"
  shows "holds w0 M w'"
  using assms(1) unfolding holds_def fresh_refs_def assms(2-4) .

lemma holds_method:
  assumes "holds w0 M w" "valid p w"
  shows "holds w0 M (snd (invoke api p c w))"
  by (rule holds_same [OF assms(1)]) (simp_all add: invoke_def assms(2))

lemma holds_global:
  assumes "holds w0 M w"
  shows "holds w0 M (snd (global api c w))"
  by (rule holds_same [OF assms]) (simp_all add: global_def)

lemma call_method:
  assumes "holds w0 M w" "valid p w" "\<And>ans w'. holds w0 M w' \<Longrightarrow> P (f ans w')"
  shows "P (case invoke api p c w of (ans, w) \<Rightarrow> f ans w)"
  unfolding case_prod_beta by (rule assms(3) [OF holds_method [OF assms(1,2)]])

lemma call_receive:
  assumes "holds w0 M w" "valid p w"
    "\<And>hr w'. FAILED hr \<Longrightarrow> holds w0 M w' \<Longrightarrow> P (f hr None w')"
    "\<And>hr n w'. \<not> FAILED hr \<Longrightarrow> holds w0 (add_mset n M) w' \<Longrightarrow> P (f hr (Some n) w')"
  shows "P (case receive (invoke api p c w) of (hr, out, w) \<Rightarrow> f hr out w)"
proof -
  obtain ans w1 where r: "invoke api p c w = (ans, w1)" by (cases "invoke api p c w")
  then have "holds w0 M w1" using holds_method [OF assms(1,2), of api c] by simp
  then show ?thesis unfolding r by (rule receive_intro) (fact assms(3,4))+
qed

lemma call_create:
  assumes "holds w0 M w"
    "\<And>hr w'. FAILED hr \<Longrightarrow> holds w0 M w' \<Longrightarrow> P (f hr None w')"
    "\<And>hr n w'. \<not> FAILED hr \<Longrightarrow> holds w0 (add_mset n M) w' \<Longrightarrow> P (f hr (Some n) w')"
  shows "P (case receive (global api c w) of (hr, out, w) \<Rightarrow> f hr out w)"
proof -
  obtain ans w1 where r: "global api c w = (ans, w1)" by (cases "global api c w")
  then have "holds w0 M w1" using holds_global [OF assms(1), of api c] by simp
  then show ?thesis unfolding r by (rule receive_intro) (fact assms(2,3))+
qed

text \<open>A call of which only the result code is looked at.\<close>

lemma call_method_hr:
  assumes "holds w0 M w" "valid p w" "\<And>hr w'. holds w0 M w' \<Longrightarrow> P (f hr w')"
  shows "P (case (case invoke api p c w of (ans, x) \<Rightarrow> (ans_hr ans, x)) of (hr, w) \<Rightarrow> f hr w)"
  unfolding case_prod_beta by (simp add: assms(3) [OF holds_method [OF assms(1,2)]])

lemma holds_trans: "holds w0 M w \<Longrightarrow> holds w N w' \<Longrightarrow> holds w0 (M + N) w'"
  by (simp add: holds_def)

lemma call_gives:
  assumes "holds w0 M w" "gives w r"
    "\<And>hr w'. FAILED hr \<Longrightarrow> holds w0 M w' \<Longrightarrow> P (f hr None w')"
    "\<And>hr n w'. \<not> FAILED hr \<Longrightarrow> holds w0 (add_mset n M) w' \<Longrightarrow> P (f hr (Some n) w')"
  shows "P (case r of (hr, out, w) \<Rightarrow> f hr out w)"
proof -
  obtain hr out w' where r: "r = (hr, out, w')" by (cases r)
  show ?thesis
    using assms(2) assms(3) [of hr w'] assms(4) [of hr _ w']
      holds_trans [OF assms(1), of "{#}" w'] holds_trans [OF assms(1), of "{#_#}" w']
    by (cases out) (auto simp: r gives_def)
qed

lemma call_keeps:
  assumes "holds w0 M w" "keeps w r" "\<And>hr w'. holds w0 M w' \<Longrightarrow> P (f hr w')"
  shows "P (case r of (hr, w) \<Rightarrow> f hr w)"
  using assms holds_trans [OF assms(1), of "{#}"] by (cases r) (auto simp: keeps_def)

text \<open>References.\<close>

lemma release_None [simp]: "SafeRelease None w = w"
  by (simp add: SafeRelease_def)

lemma holds_release [com_intros]: "holds w0 (add_mset n M) w \<Longrightarrow> holds w0 M (SafeRelease (Some n) w)"
  by (auto simp: SafeRelease_def holds_def fresh_refs_def)

text \<open>The right way round for a proof from the end of the function: the last step may find the
  references in another order.\<close>

lemma holds_AddRef: "holds w0 N w \<Longrightarrow> n \<in># N \<Longrightarrow> M = add_mset n N \<Longrightarrow> holds w0 M (AddRef (Some n) w)"
  by (auto simp: AddRef_def holds_def fresh_refs_def not_le) (metis count_greater_zero_iff less_irrefl not_le)+

lemma holds_mset: "holds w0 N w \<Longrightarrow> M = N \<Longrightarrow> holds w0 M w"
  by simp

lemma E_FAIL_fails [simp]: "FAILED E_FAIL"
  by (simp add: FAILED_def E_FAIL_def)

lemma S_OK_succeeds [simp]: "\<not> FAILED S_OK"
  by (simp add: FAILED_def S_OK_def)

lemmas gives_calls =
  call_receive [where P = "gives v" for v] call_create [where P = "gives v" for v]
  call_method [where P = "gives v" for v]

lemmas keeps_calls =
  call_receive [where P = "keeps v" for v] call_create [where P = "keeps v" for v]
  call_method [where P = "keeps v" for v]

lemmas ends = gives_None gives_Some keeps_pair holds_release holds_AddRef

section \<open>The functions\<close>

lemma CreateMediaSinkActivate_gives:
  assumes "fresh_refs w" "valid pSD w"
  shows "gives w (CreateMediaSinkActivate api pSD hwnd w)"
  unfolding CreateMediaSinkActivate_def Let_def
  by (rule call_receive [OF holds_start [OF assms(1)] assms(2)])
     (rule gives_calls ends valid_taken conjI impI | assumption | simp)+

lemma AddSourceNode_gives:
  assumes "fresh_refs w" "valid pTopology w"
  shows "gives w (AddSourceNode api pTopology pSource pPD pSD w)"
  unfolding AddSourceNode_def Let_def
  by (rule call_create [OF holds_start [OF assms(1)]])
     (rule gives_calls ends valid_taken valid_holds [OF assms(2)] conjI impI | assumption | simp)+

lemma AddOutputNode_gives:
  assumes "fresh_refs w" "valid pTopology w"
  shows "gives w (AddOutputNode api pTopology pActivate dwId w)"
  unfolding AddOutputNode_def Let_def
  by (rule call_create [OF holds_start [OF assms(1)]])
     (rule gives_calls ends valid_taken valid_holds [OF assms(2)] conjI impI | assumption | simp
      | (erule holds_mset, simp add: add_mset_commute))+

lemma CreateMediaSource_stream_gives:
  assumes "fresh_refs w"
  shows "gives w (CreateMediaSource_stream api name pByteStream None w)"
  unfolding CreateMediaSource_stream_def Let_def
  by (rule call_create [OF holds_start [OF assms]],
      (rule gives_calls ends valid_taken conjI impI | assumption | simp
        | (erule holds_mset, simp add: add_mset_commute))+)

lemma CreateMediaSource_URL_gives:
  assumes "fresh_refs w"
  shows "gives w (CreateMediaSource_URL api name None w)"
  unfolding CreateMediaSource_URL_def Let_def
  by (rule call_create [OF holds_start [OF assms]],
      (rule gives_calls ends valid_taken conjI impI | assumption | simp
        | (erule holds_mset, simp add: add_mset_commute))+)

lemma AddBranch_keeps:
  assumes "fresh_refs w" "valid pTopology w" "valid pPD w"
  shows "keeps w (AddBranchToPartialTopology api pTopology pSource pPD i hwnd w)"
proof -
  note sink = call_gives [where P = "keeps w", OF _ CreateMediaSinkActivate_gives [OF holds_fresh]]
  note source = call_gives [where P = "keeps w", OF _ AddSourceNode_gives [OF holds_fresh valid_holds [OF assms(2)]]]
  note outputs = call_gives [where P = "keeps w", OF _ AddOutputNode_gives [OF holds_fresh valid_holds [OF assms(2)]]]
  have "holds w {#} (snd (invoke api pPD (GetStreamDescriptorByIndex i) w))"
    by (rule holds_method [OF holds_start [OF assms(1)] assms(3)])
  then show ?thesis
    unfolding AddBranchToPartialTopology_def Let_def
    by (cases "invoke api pPD (GetStreamDescriptorByIndex i) w")
       (simp, rule receive_intro [where P = "keeps w"], assumption,
        (rule keeps_calls sink source outputs ends valid_taken conjI impI | assumption | simp
      | (erule holds_mset, simp add: add_mset_commute))+)
qed

lemma add_branches_keeps:
  assumes "fresh_refs w" "valid pTopology w" "valid pPD w"
  shows "keeps w (add_branches api pTopology pSource pPD hwnd i n hr w)"
  using assms
proof (induction n arbitrary: i hr w)
  case 0
  then show ?case by (simp add: keeps_def holds_start)
next
  case (Suc n)
  obtain hr1 w1 where r: "AddBranchToPartialTopology api pTopology pSource pPD i hwnd w = (hr1, w1)"
    by (cases "AddBranchToPartialTopology api pTopology pSource pPD i hwnd w")
  then have h: "holds w {#} w1" using AddBranch_keeps [OF Suc.prems, of api pSource i hwnd] by (simp add: keeps_def)
  have "keeps w1 (add_branches api pTopology pSource pPD hwnd (Suc i) n hr1 w1)"
    by (rule Suc.IH) (use h Suc.prems in \<open>auto intro: holds_fresh valid_holds\<close>)
  then show ?case
    using h holds_trans [OF h, of "{#}"] by (auto simp: r keeps_def)
qed

text \<open>The topology is built and returned, or everything is given back.\<close>

lemma CreatePlaybackTopology_gives:
  assumes "fresh_refs w" "valid pPD w"
  shows "gives w (CreatePlaybackTopology api pSource pPD hwnd w)"
proof -
  note branches = call_keeps [where P = "gives w", OF _ add_branches_keeps [OF holds_fresh]]
  show ?thesis
    unfolding CreatePlaybackTopology_def Let_def
    by (rule call_create [OF holds_start [OF assms(1)]])
       (rule gives_calls branches ends valid_taken valid_holds [OF assms(2)] conjI impI | assumption | simp
      | (erule holds_mset, simp add: add_mset_commute))+
qed

end
