(* ===== verification/PlayerProps.thy ===== *)
theory PlayerProps
  imports Player ComBalance
begin

text \<open>
  What the player does with the references it holds, with its state and with its play list.
\<close>

section \<open>Ownership\<close>

definition ptr_mset :: "ptr \<Rightarrow> nat multiset" where
  "ptr_mset p = (case p of None \<Rightarrow> {#} | Some i \<Rightarrow> {#i#})"

lemma ptr_mset_simps [simp]: "ptr_mset None = {#}" "ptr_mset (Some i) = {#i#}"
  by (simp_all add: ptr_mset_def)

text \<open>The references a player should hold: one for each of its pointers that is not null, and one for
  each event it has posted.\<close>

definition pointers :: "player \<Rightarrow> nat multiset" where
  "pointers p = ptr_mset (pl_pSession p) + ptr_mset (pl_pSource p) + ptr_mset (pl_pVideoDisplay p)
     + sum_list (map (ptr_mset \<circ> fst) (pl_posted p))"

definition com_start :: com where
  "com_start = \<lparr>com_refs = (\<lambda>_. 0), com_next = 0, com_tick = 0, com_fault = False, com_calls = []\<rparr>"

text \<open>The program holds exactly those references, and has never used a bad pointer.\<close>

definition owned :: "player \<Rightarrow> com \<Rightarrow> bool" where
  "owned p w \<longleftrightarrow> holds com_start (pointers p) w"

lemma owned_iff:
  "owned p w \<longleftrightarrow> fresh_refs w \<and> \<not> com_fault w \<and> com_refs w = count (pointers p)"
  by (auto simp: owned_def holds_def com_start_def)

lemma valid_member:
  assumes "holds v M w" "ptr_mset q \<subseteq># M" "q \<noteq> None"
  shows "valid q w"
proof -
  obtain i where "q = Some i" using assms(3) by blast
  then show ?thesis using valid_taken [OF assms(1)] assms(2) by simp
qed

lemma pointers_member [simp]:
  "ptr_mset (pl_pSession p) \<subseteq># pointers p" "ptr_mset (pl_pSource p) \<subseteq># pointers p"
  "ptr_mset (pl_pVideoDisplay p) \<subseteq># pointers p"
  by (simp_all add: pointers_def subset_mset.add_increasing subset_mset.add_increasing2)

text \<open>Releasing a pointer that may be null.\<close>

lemma holds_release_ptr: "holds v (ptr_mset q + M) w \<Longrightarrow> holds v M (SafeRelease q w)"
  by (cases q) (simp_all add: holds_release)

section \<open>Closing\<close>

lemma method_on:
  assumes "holds v M w" "q \<noteq> None" "ptr_mset q \<subseteq># M"
  shows "holds v M (snd (invoke api q c w))"
  by (rule holds_method [OF assms(1) valid_member [OF assms(1,3,2)]])

lemma pointers_parts:
  "pointers p = ptr_mset (pl_pVideoDisplay p) + (ptr_mset (pl_pSession p) + (ptr_mset (pl_pSource p)
     + sum_list (map (ptr_mset \<circ> fst) (pl_posted p))))"
  by (simp add: pointers_def)

lemma CloseSession_eq:
  "fst (snd (CloseSession api p w)) =
     p\<lparr>pl_pVideoDisplay := None, pl_pSource := None, pl_pSession := None, pl_state := Closed\<rparr>"
  by (simp add: CloseSession_def Let_def split: prod.split)

lemma CloseSession_owned:
  assumes "owned p w"
  shows "owned (fst (snd (CloseSession api p w))) (snd (snd (CloseSession api p w)))"
proof -
  let ?posted = "sum_list (map (ptr_mset \<circ> fst) (pl_posted p))"
  let ?M = "ptr_mset (pl_pSession p) + (ptr_mset (pl_pSource p) + ?posted)"
  let ?w1 = "SafeRelease (pl_pVideoDisplay p) w"
  have 1: "holds com_start ?M ?w1"
    by (rule holds_release_ptr) (use assms in \<open>simp add: owned_def pointers_parts\<close>)
  show ?thesis
    unfolding CloseSession_eq unfolding owned_def pointers_def CloseSession_def Let_def
    using 1
    by (cases "pl_pSession p"; cases "pl_pSource p"; simp add: case_prod_beta)
       (rule holds_release holds_method holds_global valid_taken conjI impI | assumption | simp
         | (erule holds_mset, simp add: add_mset_commute))+
qed

section \<open>The other operations\<close>

definition owns :: "hresult \<times> player \<times> com \<Rightarrow> bool" where
  "owns r \<longleftrightarrow> (case r of (hr, p, w) \<Rightarrow> owned p w)"

lemma owns_intro: "holds com_start (pointers p) w \<Longrightarrow> owns (hr, p, w)"
  by (simp add: owns_def owned_def)

lemma owns_call: "owns r \<Longrightarrow> (\<And>hr p w. owned p w \<Longrightarrow> P (f hr p w)) \<Longrightarrow> P (case r of (hr, p, w) \<Rightarrow> f hr p w)"
  by (cases r) (simp add: owns_def)

lemma pointers_upd [simp]:
  "pointers (p\<lparr>pl_state := st\<rparr>) = pointers p" "pointers (p\<lparr>pl_playList := l\<rparr>) = pointers p"
  "pointers (p\<lparr>pl_hwndVideo := h\<rparr>) = pointers p" "pointers (p\<lparr>pl_hwndEvent := h\<rparr>) = pointers p"
  "pointers (p\<lparr>pl_slept := t\<rparr>) = pointers p" "pointers (p\<lparr>pl_hCloseEvent := b\<rparr>) = pointers p"
  "pointers (p\<lparr>pl_posted := pl_posted p @ [(q, t')]\<rparr>) = ptr_mset q + pointers p"
  "pl_pSource p = None \<Longrightarrow> pointers (p\<lparr>pl_pSource := q\<rparr>) = ptr_mset q + pointers p"
  "pl_pSession p = None \<Longrightarrow> pointers (p\<lparr>pl_pSession := q\<rparr>) = ptr_mset q + pointers p"
  by (simp_all add: pointers_def)

lemmas owns_calls =
  call_receive [where P = owns] call_create [where P = owns] call_method [where P = owns]
  call_method_hr [where P = owns]

lemma session_valid: "holds com_start (pointers p) w \<Longrightarrow> pl_pSession p \<noteq> None \<Longrightarrow> valid (pl_pSession p) w"
  by (erule valid_member) simp_all

lemma session_valid_add:
  "holds com_start (M + pointers p) w \<Longrightarrow> pl_pSession p \<noteq> None \<Longrightarrow> valid (pl_pSession p) w"
  by (erule valid_member) (simp_all add: subset_mset.add_increasing)

lemma StartPlayback_owns:
  assumes "owned p w" "pl_pSession p \<noteq> None"
  shows "owns (StartPlayback api p w)"
  unfolding StartPlayback_def Let_def
  by (rule call_method [where P = owns, OF _ session_valid [OF _ assms(2)]])
     (use assms(1) in \<open>auto simp: owned_def intro!: owns_intro\<close>)

lemma playback_owns:
  assumes "owned p w"
  shows "owns (Pause api p w)" "owns (Stop api p w)" "owns (Play api p w)"
proof -
  have go: "owns (case invoke api (pl_pSession p) c w of (ans, w) \<Rightarrow> (ans_hr ans, if FAILED (ans_hr ans) then p else p\<lparr>pl_state := st\<rparr>, w))"
    if "pl_pSession p \<noteq> None" for c st
    by (rule call_method [where P = owns, OF _ session_valid [OF _ that]])
       (use assms in \<open>auto simp: owned_def intro!: owns_intro\<close>)
  show "owns (Pause api p w)" "owns (Stop api p w)" "owns (Play api p w)"
    using assms go StartPlayback_owns [OF assms]
    by (auto simp: Pause_def Stop_def Play_def Let_def owned_def intro!: owns_intro)
qed

lemma CreateSession_owns:
  assumes "owned p w"
  shows "owns (CreateSession api p w)"
proof -
  obtain hr p' w' where r: "CloseSession api p w = (hr, p', w')" by (cases "CloseSession api p w")
  then have o: "holds com_start (pointers p') w'" and n: "pl_pSession p' = None"
    using CloseSession_owned [OF assms, of api] CloseSession_eq [of api p w] by (auto simp: owned_def)
  show ?thesis
    unfolding CreateSession_def Let_def r
    by (simp add: owns_intro o, rule impI, rule call_create [where P = owns, OF o])
       (simp_all add: owns_intro n, rule call_method [where P = owns], assumption,
        rule valid_taken, assumption, simp_all add: owns_intro n)
qed

lemma Shutdown_owns:
  assumes "owned p w"
  shows "owns (Shutdown api b p w)"
  using CloseSession_owned [OF assms, of api]
  by (cases "CloseSession api p w") (simp add: Shutdown_def Let_def owned_def owns_intro holds_global)

lemma Invoke_owns:
  assumes "owned p w" "pl_pSession p \<noteq> None"
  shows "owns (Invoke api p w)"
proof -
  have s: "valid (pl_pSession p) w'" if "holds com_start (add_mset n (pointers p)) w'" for n w'
    using session_valid_add [of "{#n#}" p w'] that assms(2) by simp
  have 0: "holds com_start (pointers p) w" using assms(1) by (simp add: owned_def)
  show ?thesis
    unfolding Invoke_def Let_def
    by (rule call_receive [where P = owns, OF 0 session_valid [OF 0 assms(2)]])
       (rule owns_calls owns_intro holds_release holds_AddRef valid_taken s conjI impI | assumption | simp)+
qed

section \<open>Opening a file\<close>

lemma CreateMediaSource_stream_start:
  assumes "CreateMediaSource_stream api name s pp w = (hr, out, w')"
  obtains out0 where "CreateMediaSource_stream api name s None w = (hr, out0, w')"
    "FAILED hr \<longrightarrow> out = None \<or> out = pp" "\<not> FAILED hr \<longrightarrow> out = out0"
proof -
  have "\<exists>out0. CreateMediaSource_stream api name s None w = (hr, out0, w') \<and>
     (FAILED hr \<longrightarrow> out = None \<or> out = pp) \<and> (\<not> FAILED hr \<longrightarrow> out = out0)"
    using assms
    by (cases "receive (global api MFCreateSourceResolver w)")
       (auto simp: CreateMediaSource_stream_def receive_def split: prod.splits if_splits)
  then show ?thesis using that by blast
qed

lemma call_source:
  assumes "holds v M w"
    "\<And>hr w'. FAILED hr \<Longrightarrow> holds v M w' \<Longrightarrow> P (f hr None w')"
    "\<And>hr w'. FAILED hr \<Longrightarrow> holds v M w' \<Longrightarrow> P (f hr pp w')"
    "\<And>hr n w'. \<not> FAILED hr \<Longrightarrow> holds v (add_mset n M) w' \<Longrightarrow> P (f hr (Some n) w')"
  shows "P (case CreateMediaSource_stream api name s pp w of (hr, out, w) \<Rightarrow> f hr out w)"
proof -
  obtain hr out w' where r: "CreateMediaSource_stream api name s pp w = (hr, out, w')"
    by (cases "CreateMediaSource_stream api name s pp w")
  then obtain out0 where 0: "CreateMediaSource_stream api name s None w = (hr, out0, w')"
    "FAILED hr \<longrightarrow> out = None \<or> out = pp" "\<not> FAILED hr \<longrightarrow> out = out0"
    by (rule CreateMediaSource_stream_start)
  have g: "gives w (hr, out0, w')"
    using CreateMediaSource_stream_gives [OF holds_fresh [OF assms(1)], of api name s] 0(1) by simp
  show ?thesis
  proof (cases out0)
    case None
    then have "FAILED hr" "holds w {#} w'" using g by (simp_all add: gives_def)
    then show ?thesis using assms(2,3) 0(2) holds_trans [OF assms(1), of "{#}" w'] by (auto simp: r)
  next
    case (Some n)
    then have "\<not> FAILED hr" "holds w {#n#} w'" using g by (simp_all add: gives_def)
    then show ?thesis using assms(4) 0(3) Some holds_trans [OF assms(1), of "{#n#}" w'] by (simp add: r)
  qed
qed

text \<open>The player holds what it should, and \<open>N\<close> besides.\<close>

definition keeping :: "nat multiset \<Rightarrow> player \<Rightarrow> com \<Rightarrow> bool" where
  "keeping N p w \<longleftrightarrow> holds com_start (N + pointers p) w"

text \<open>What \<open>OpenMem\<close> promises: that, unless it failed and left the source it had in place.\<close>

definition stale :: "player \<Rightarrow> player \<Rightarrow> bool" where
  "stale p p' \<longleftrightarrow> pl_state p' = Closed \<and> pl_pSource p \<noteq> None \<and> pl_pSource p' = pl_pSource p"

definition opened :: "nat multiset \<Rightarrow> player \<Rightarrow> hresult \<times> player \<times> com \<Rightarrow> bool" where
  "opened N p r \<longleftrightarrow> (case r of (hr, p', w') \<Rightarrow> FAILED hr \<and> stale p p' \<or> keeping N p' w')"

lemma stale_upd [simp]:
  "stale (p\<lparr>pl_playList := l\<rparr>) p' = stale p p'" "stale (p\<lparr>pl_slept := t\<rparr>) p' = stale p p'"
  "stale (p\<lparr>pl_posted := es\<rparr>) p' = stale p p'"
  by (simp_all add: stale_def)

lemma opened_intro: "holds com_start (N + pointers p') w' \<Longrightarrow> opened N p (hr, p', w')"
  by (simp add: opened_def keeping_def)

lemma opened_stale:
  "FAILED hr \<Longrightarrow> pl_pSource p = Some o' \<Longrightarrow> pl_pSource p' = Some o' \<Longrightarrow> pl_state p' = Closed \<Longrightarrow> opened N p (hr, p', w')"
  by (simp add: opened_def stale_def)

lemma FAILED_minus_1 [simp]: "FAILED (- 1)"
  by (simp add: FAILED_def)

lemmas opened_calls =
  call_receive [where P = "opened N p" for N p] call_create [where P = "opened N p" for N p]
  call_method [where P = "opened N p" for N p] call_source [where P = "opened N p" for N p]

lemma OpenMem_opened:
  assumes "keeping N p w" "pl_pSession p \<noteq> None" "length name < 2046"
  shows "opened N p (OpenMem api name buf p w)"
proof -
  obtain s where s: "pl_pSession p = Some s" using assms(2) by blast
  note topology = call_gives [where P = "opened N p", OF _ CreatePlaybackTopology_gives [OF holds_fresh]]
  have 0: "holds com_start (N + pointers p) w" using assms(1) by (simp add: keeping_def)
  show ?thesis
    unfolding OpenMem_def Let_def using 0 assms(3)
    by (cases "pl_pSource p"; simp add: s pointers_def)
       ((rule opened_stale, (simp; fail), (simp; fail), (simp; fail), (simp; fail))
         | rule opened_calls topology opened_intro holds_release valid_taken conjI impI
         | assumption | simp add: pointers_def s
         | (erule holds_mset, simp add: pointers_def s ac_simps add_mset_commute))+
qed

lemma OpenMem_session: "pl_pSession (fst (snd (OpenMem api name buf p w))) = pl_pSession p"
  by (simp add: OpenMem_def Let_def split: prod.splits)

section \<open>Events\<close>

definition keeps_ev :: "nat \<Rightarrow> hresult \<times> player \<times> com \<Rightarrow> bool" where
  "keeps_ev e r \<longleftrightarrow> (case r of (hr, p, w) \<Rightarrow> keeping {#e#} p w)"

lemma keeps_ev_intro: "holds com_start (add_mset e (pointers p)) w \<Longrightarrow> keeps_ev e (hr, p, w)"
  by (simp add: keeps_ev_def keeping_def)

lemmas ev_calls =
  call_receive [where P = "keeps_ev e" for e] call_create [where P = "keeps_ev e" for e]
  call_method [where P = "keeps_ev e" for e] call_method_hr [where P = "keeps_ev e" for e]

lemma create_gives: "holds v {#} w \<Longrightarrow> gives v (receive (global api c w))"
  using call_create [where P = "gives v" and f = "\<lambda>hr out w. (hr, out, w)" and api = api and c = c]
  by (simp add: gives_None gives_Some)

lemma GetEventObject_gives:
  assumes "fresh_refs w" "valid q w"
  shows "gives w (GetEventObject api q w)"
  unfolding GetEventObject_def Let_def
  by (rule call_method [where P = "gives w", OF holds_start [OF assms(1)] assms(2)])
     (auto simp: MF_E_INVALIDTYPE_def FAILED_def create_gives intro!: gives_None)

lemma event_holds:
  assumes "holds com_start (add_mset e (pointers p)) w"
  shows "valid (Some e) w" "pl_pSession p \<noteq> None \<Longrightarrow> valid (pl_pSession p) w"
  using valid_taken [OF assms] session_valid_add [of "{#e#}" p w] assms by simp_all

lemma OnNewPresentation_keeps:
  assumes "keeping {#e#} p w" "pl_pSession p \<noteq> None"
  shows "keeps_ev e (OnNewPresentation api (Some e) p w)"
proof -
  obtain s where s: "pl_pSession p = Some s" using assms(2) by blast
  have 0: "holds com_start (add_mset e (pointers p)) w" using assms(1) by (simp add: keeping_def)
  note object = call_gives [where P = "keeps_ev e", OF _ GetEventObject_gives [OF holds_fresh]]
  note topology = call_gives [where P = "keeps_ev e", OF _ CreatePlaybackTopology_gives [OF holds_fresh]]
  show ?thesis
    unfolding OnNewPresentation_def Let_def using 0
    by (simp add: s pointers_def)
       (rule ev_calls object topology keeps_ev_intro holds_release valid_taken conjI impI
         | assumption | simp add: pointers_def s
         | (erule holds_mset, simp add: pointers_def s ac_simps add_mset_commute))+
qed

lemma call_start:
  assumes "holds v M w" "valid (pl_pSession p) w"
    "\<And>hr w'. holds v M w' \<Longrightarrow> P (f hr p w')"
    "\<And>hr w'. holds v M w' \<Longrightarrow> P (f hr (p\<lparr>pl_state := Started\<rparr>) w')"
  shows "P (case StartPlayback api p w of (hr, p, w) \<Rightarrow> f hr p w)"
  using assms(3,4) holds_method [OF assms(1,2)]
  by (simp add: StartPlayback_def Let_def case_prod_beta)

lemma OnTopologyStatus_keeps:
  assumes "keeping {#e#} p w" "pl_pSession p \<noteq> None"
  shows "keeps_ev e (OnTopologyStatus api (Some e) p w)"
proof -
  obtain s where s: "pl_pSession p = Some s" using assms(2) by blast
  have 0: "holds com_start (add_mset e (pointers p)) w" using assms(1) by (simp add: keeping_def)
  note object = call_gives [where P = "keeps_ev e", OF _ GetEventObject_gives [OF holds_fresh]]
  show ?thesis
    unfolding OnTopologyStatus_def Let_def using 0
    by (cases "pl_pVideoDisplay p"; simp add: s pointers_def)
       (rule ev_calls object call_start [where P = "keeps_ev e"] keeps_ev_intro holds_release valid_taken conjI impI
         | assumption | simp add: pointers_def s del: valid.simps
         | (erule holds_mset, simp add: pointers_def s ac_simps add_mset_commute))+
qed

section \<open>The play list\<close>

definition playable :: "play_item \<Rightarrow> bool" where
  "playable item \<longleftrightarrow> item_type item = 1 \<and> item_adfile item \<noteq> None"

definition first_playable :: "play_item list \<Rightarrow> nat" where
  "first_playable l = length (takeWhile (\<lambda>it. \<not> playable it) l)"

lemma first_playable_rotate1:
  assumes "\<not> playable x" "first_playable xs < length xs"
  shows "first_playable (x # xs) = Suc (first_playable (rotate1 (x # xs)))"
proof -
  have "takeWhile (\<lambda>it. \<not> playable it) (xs @ [x]) = takeWhile (\<lambda>it. \<not> playable it) xs"
    using assms(2) unfolding first_playable_def
    by (induction xs) auto
  then show ?thesis using assms(1) by (simp add: first_playable_def)
qed

text \<open>One lap: the list turns until the first item that can be played is at its end.\<close>

lemma notify_loop_eq:
  assumes "n \<le> length (pl_playList p)"
  shows "notify_loop api n p w =
    (if first_playable (pl_playList p) < n
     then let k = first_playable (pl_playList p); item = pl_playList p ! k
          in snd (OpenMem api (item_filename item) (the (item_adfile item))
               (p\<lparr>pl_playList := rotate (Suc k) (pl_playList p)\<rparr>) w)
     else (p\<lparr>pl_playList := rotate n (pl_playList p)\<rparr>, w))"
  using assms
proof (induction n arbitrary: p)
  case (Suc n)
  then obtain x xs where l: "pl_playList p = x # xs" by (cases "pl_playList p") auto
  show ?case
  proof (cases "playable x")
    case True
    then obtain buf where "item_type x = 1" "item_adfile x = Some buf" by (auto simp: playable_def)
    then show ?thesis
      using l by (simp add: first_playable_def playable_def case_prod_beta)
  next
    case False
    let ?p = "p\<lparr>pl_playList := xs @ [x]\<rparr>"
    have step: "notify_loop api (Suc n) p w = notify_loop api n ?p w"
      using False l by (auto simp: playable_def)
    have IH: "notify_loop api n ?p w =
      (if first_playable (xs @ [x]) < n
       then let k = first_playable (xs @ [x]); item = (xs @ [x]) ! k
            in snd (OpenMem api (item_filename item) (the (item_adfile item))
               (p\<lparr>pl_playList := rotate (Suc k) (xs @ [x])\<rparr>) w)
       else (p\<lparr>pl_playList := rotate n (xs @ [x])\<rparr>, w))"
      using Suc.IH [of ?p] Suc.prems l by simp
    have rot: "rotate (Suc m) (x # xs) = rotate m (xs @ [x])" for m by (simp add: rotate1_rotate_swap)
    show ?thesis
    proof (cases "first_playable xs < length xs")
      case True
      have k: "first_playable (x # xs) = Suc (first_playable (xs @ [x]))"
        using first_playable_rotate1 [OF False True] by simp
      have "first_playable (xs @ [x]) = first_playable xs"
        using k False by (simp add: first_playable_def)
      then have "(xs @ [x]) ! first_playable (xs @ [x]) = xs ! first_playable (xs @ [x])"
        using True by (simp add: nth_append)
      then show ?thesis
        unfolding step IH l k rot by (simp add: Let_def rot del: rotate_Suc)
    next
      case no: False
      have all: "takeWhile (\<lambda>it. \<not> playable it) xs = xs"
        using no unfolding first_playable_def by (metis length_takeWhile_le nat_less_le takeWhile_eq_take take_all)
      then have "\<forall>y \<in> set xs. \<not> playable y" by (simp add: takeWhile_eq_all_conv)
      then have "first_playable (x # xs) = Suc (length xs)" "first_playable (xs @ [x]) = Suc (length xs)"
        using False by (simp_all add: first_playable_def all takeWhile_append)
      then show ?thesis
        unfolding step IH using Suc.prems l by (simp add: rot del: rotate_Suc)
    qed
  qed
qed simp

text \<open>\<open>NotifyPlay\<close> opens the first item that can be played, if there is one.\<close>

lemma NotifyPlay_eq:
  "NotifyPlay api p w =
    (let l = pl_playList p; k = first_playable l
     in if k < length l
        then snd (OpenMem api (item_filename (l ! k)) (the (item_adfile (l ! k)))
               (p\<lparr>pl_playList := rotate (Suc k) l\<rparr>) w)
        else (p, w))"
  using notify_loop_eq [of "length (pl_playList p)" p api w]
  by (simp add: NotifyPlay_def Let_def del: rotate_Suc)

lemma keeping_upd [simp]:
  "keeping N (p\<lparr>pl_playList := l\<rparr>) w = keeping N p w" "keeping N (p\<lparr>pl_slept := t\<rparr>) w = keeping N p w"
  "keeping N (p\<lparr>pl_state := st\<rparr>) w = keeping N p w"
  by (simp_all add: keeping_def)

definition short_names :: "player \<Rightarrow> bool" where
  "short_names p \<longleftrightarrow> (\<forall>it \<in> set (pl_playList p). length (item_filename it) < 2046)"

text \<open>Whether \<open>NotifyPlay\<close> opens a file.\<close>

definition has_playable :: "player \<Rightarrow> bool" where
  "has_playable p \<longleftrightarrow> (\<exists>it \<in> set (pl_playList p). playable it)"

lemma has_playable_upd [simp]:
  "has_playable (p\<lparr>pl_slept := t\<rparr>) = has_playable p" "has_playable (p\<lparr>pl_posted := es\<rparr>) = has_playable p"
  by (simp_all add: has_playable_def)

lemma first_playable_less: "first_playable (pl_playList p) < length (pl_playList p) \<Longrightarrow> has_playable p"
  unfolding first_playable_def has_playable_def using nth_length_takeWhile nth_mem by blast

lemma OpenMem_playList: "pl_playList (fst (snd (OpenMem api name buf p w))) = pl_playList p"
  by (simp add: OpenMem_def Let_def split: prod.splits)

lemma NotifyPlay_keeping:
  assumes "keeping N p w" "pl_pSession p \<noteq> None" "short_names p" "NotifyPlay api p w = (p', w')"
    "has_playable p \<Longrightarrow> \<not> stale p p'"
  shows "keeping N p' w' \<and> short_names p'"
proof (cases "first_playable (pl_playList p) < length (pl_playList p)")
  case True
  let ?k = "first_playable (pl_playList p)" and ?l = "pl_playList p"
  let ?p = "p\<lparr>pl_playList := rotate (Suc ?k) ?l\<rparr>"
  obtain hr where r: "OpenMem api (item_filename (?l ! ?k)) (the (item_adfile (?l ! ?k))) ?p w = (hr, p', w')"
    using True assms(4) by (auto simp: NotifyPlay_eq Let_def prod_eq_iff simp del: rotate_Suc)
  have "opened N ?p (hr, p', w')"
    unfolding r [symmetric]
    by (rule OpenMem_opened) (use assms(1-3) True in \<open>simp_all add: short_names_def del: rotate_Suc\<close>)
  moreover have "pl_playList p' = rotate (Suc ?k) ?l"
    using OpenMem_playList [of api "item_filename (?l ! ?k)" "the (item_adfile (?l ! ?k))" ?p w] by (simp add: r del: rotate_Suc)
  ultimately show ?thesis
    using assms(3,5) first_playable_less [OF True] by (auto simp: opened_def short_names_def simp del: rotate_Suc)
next
  case False
  then show ?thesis using assms by (simp add: NotifyPlay_eq)
qed

lemma slept_frames:
  "pl_slept (fst (snd (OpenMem api name buf p w))) = pl_slept p"
  "pl_slept (fst (snd (CloseSession api p w))) = pl_slept p"
  by (simp_all add: OpenMem_def CloseSession_def Let_def split: prod.splits)

lemma NotifyPlay_slept: "pl_slept (fst (NotifyPlay api p w)) = pl_slept p"
  using slept_frames(1) by (simp add: NotifyPlay_eq Let_def del: rotate_Suc)

section \<open>All runs\<close>

lemma OnTopologyStatus_list: "pl_playList (fst (snd (OnTopologyStatus api q p w))) = pl_playList p"
  by (simp add: OnTopologyStatus_def StartPlayback_def Let_def split: prod.splits)

lemma OnNewPresentation_list: "pl_playList (fst (snd (OnNewPresentation api q p w))) = pl_playList p"
  by (simp add: OnNewPresentation_def Let_def split: prod.splits)

lemma HandleEvent_owned:
  assumes "keeping {#e#} p w" "pl_pSession p \<noteq> None" "short_names p"
    "HandleEvent api (Some e) p w = (hr, p', w')"
    "pl_slept p' \<noteq> pl_slept p \<Longrightarrow> has_playable p \<Longrightarrow> \<not> stale p p'"
  shows "owned p' w' \<and> short_names p'"
proof -
  have k: "holds com_start (add_mset e (pointers p)) w" using assms(1) by (simp add: keeping_def)
  obtain ans w1 where r1: "invoke api (Some e) GetEventType w = (ans, w1)" by (cases "invoke api (Some e) GetEventType w")
  have k1: "holds com_start (add_mset e (pointers p)) w1"
    using holds_method [OF k event_holds(1) [OF k], of api GetEventType] r1 by simp
  obtain st w2 where r2: "invoke api (Some e) GetStatus w1 = (st, w2)" by (cases "invoke api (Some e) GetStatus w1")
  have k2: "holds com_start (add_mset e (pointers p)) w2"
    using holds_method [OF k1 event_holds(1) [OF k1], of api GetStatus] r2 by simp
  have rel: "owned q (SafeRelease (Some e) v)" if "holds com_start (add_mset e (pointers q)) v" for q v
    using that by (simp add: owned_def holds_release)
  have top: "keeps_ev e (OnTopologyStatus api (Some e) p w2)" "keeps_ev e (OnNewPresentation api (Some e) p w2)"
    by (rule OnTopologyStatus_keeps OnNewPresentation_keeps; use k2 assms(2) in \<open>simp add: keeping_def\<close>)+
  show ?thesis
    using assms(3-5) rel [OF k1] rel [OF k2] top k2
      NotifyPlay_keeping [of "{#e#}" "p\<lparr>pl_slept := pl_slept p + 1000\<rparr>" w2 api] assms(2)
      NotifyPlay_slept [of api "p\<lparr>pl_slept := pl_slept p + 1000\<rparr>" w2]
      OnTopologyStatus_list [of api "Some e" p w2] OnNewPresentation_list [of api "Some e" p w2]
    by (auto simp: HandleEvent_def r1 r2 Let_def keeps_ev_def keeping_def short_names_def OnPresentationEnded_def
        intro: rel split: if_splits prod.splits event_type.splits)
qed

text \<open>One call of a method of the player.  What the code does not survive is left out: methods that use
  the media session are called while there is one (for \<open>SetVideoWindow\<close>, when it could make one), the
  name of a file fits the buffer of \<open>OpenMem\<close>, and no \<open>OpenMem\<close> fails and leaves the old source in
  place, of which it has given the reference back.  \<open>NotifyPlay\<close> opens a file exactly if the list has
  one that can be played, and \<open>HandleEvent\<close> goes on to it exactly if it sleeps.\<close>

inductive acts :: "api \<Rightarrow> player \<times> com \<Rightarrow> player \<times> com \<Rightarrow> bool" for api :: api where
  paused: "acts api (p, w) (snd (Pause api p w))"
| stopped: "acts api (p, w) (snd (Stop api p w))"
| played: "acts api (p, w) (snd (Play api p w))"
| repainted: "acts api (p, w) (p, snd (Repaint api p w))"
| resized: "acts api (p, w) (p, snd (ResizeVideo api width height p w))"
| created: "acts api (p, w) (snd (CreateSession api p w))"
| closed: "acts api (p, w) (snd (CloseSession api p w))"
| shut: "acts api (p, w) (snd (Shutdown api mfshutdown p w))"
| called: "acts api (p, w) (p, snd (global api c w))"
| listed: "length (item_filename item) < 2046 \<Longrightarrow>
     acts api (p, w) (p\<lparr>pl_playList := pl_playList p @ [item]\<rparr>, w)"
| updated: "acts api (p, w) (UpdatePlayList i adfile p, w)"
| windowed: "SetVideoWindow api rdy hVideo p w = (p', w') \<Longrightarrow> pl_pSession p' \<noteq> None \<Longrightarrow>
     acts api (p, w) (p', w')"
| invoked: "pl_pSession p \<noteq> None \<Longrightarrow> acts api (p, w) (snd (Invoke api p w))"
| opened: "pl_pSession p \<noteq> None \<Longrightarrow> length name < 2046 \<Longrightarrow> OpenMem api name buf p w = (hr, p', w') \<Longrightarrow>
     \<not> stale p p' \<Longrightarrow> acts api (p, w) (p', w')"
| notified: "pl_pSession p \<noteq> None \<Longrightarrow> NotifyPlay api p w = (p', w') \<Longrightarrow>
     (has_playable p \<Longrightarrow> \<not> stale p p') \<Longrightarrow> acts api (p, w) (p', w')"
| handled: "pl_posted p = (Some e, t) # rest \<Longrightarrow> pl_pSession p \<noteq> None \<Longrightarrow>
     HandleEvent api (Some e) (p\<lparr>pl_posted := rest\<rparr>) w = (hr, p', w') \<Longrightarrow>
     (pl_slept p' \<noteq> pl_slept p \<Longrightarrow> has_playable p \<Longrightarrow> \<not> stale p p') \<Longrightarrow> acts api (p, w) (p', w')"

inductive_cases actsE: "acts api pw pw'"

definition player_ok :: "player \<times> com \<Rightarrow> bool" where
  "player_ok pw \<longleftrightarrow> owned (fst pw) (snd pw) \<and> short_names (fst pw)"

lemma list_frames:
  "pl_playList (fst (snd (Pause api p w))) = pl_playList p"
  "pl_playList (fst (snd (Stop api p w))) = pl_playList p"
  "pl_playList (fst (snd (Play api p w))) = pl_playList p"
  "pl_playList (fst (snd (CloseSession api p w))) = pl_playList p"
  "pl_playList (fst (snd (Shutdown api b p w))) = pl_playList p"
  "pl_playList (fst (snd (Invoke api p w))) = pl_playList p"
  by (simp_all add: Pause_def Stop_def Play_def StartPlayback_def CloseSession_def Shutdown_def Invoke_def Let_def
      split: prod.splits)

lemma CreateSession_list: "pl_playList (fst (snd (CreateSession api p w))) = pl_playList p"
  using list_frames(4) [of api p w]
  by (cases "CloseSession api p w") (auto simp: CreateSession_def Let_def split: prod.splits)

lemma owns_snd: "owns r \<Longrightarrow> owned (fst (snd r)) (snd (snd r))"
  by (cases r) (simp add: owns_def)

lemma Repaint_owned:
  assumes "owned p w"
  shows "owned p (snd (Repaint api p w))" "owned p (snd (ResizeVideo api width height p w))"
proof -
  have "owned p (snd (invoke api (pl_pVideoDisplay p) c w))" if "pl_pVideoDisplay p \<noteq> None" for c
    using method_on [of com_start "pointers p" w "pl_pVideoDisplay p" api c] assms that by (simp add: owned_def)
  then show "owned p (snd (Repaint api p w))" "owned p (snd (ResizeVideo api width height p w))"
    using assms by (simp_all add: Repaint_def ResizeVideo_def Let_def case_prod_beta)
qed

text \<open>\<open>SetVideoWindow\<close> plays with a session it has just made, and with no source.\<close>

lemma NotifyPlay_session: "pl_pSession (fst (NotifyPlay api p w)) = pl_pSession p"
  by (simp add: NotifyPlay_eq OpenMem_session Let_def del: rotate_Suc)

lemma await_ready_keeping:
  assumes "keeping {#} p w" "short_names p" "pl_pSource p = None" "await_ready api rdy i n p w = (p', w')"
    "pl_pSession p' \<noteq> None"
  shows "keeping {#} p' w' \<and> short_names p'"
  using assms
proof (induction api rdy i n p w rule: await_ready.induct)
  case (2 api rdy i n p w)
  show ?case
  proof (cases "rdy i")
    case True
    then have n: "NotifyPlay api p w = (p', w')" using 2(5) by simp
    then have "pl_pSession p \<noteq> None" using NotifyPlay_session [of api p w] 2(6) by simp
    then show ?thesis using NotifyPlay_keeping [OF 2(2) _ 2(3) n] 2(4) by (simp add: stale_def)
  next
    case False
    then show ?thesis using 2 by (simp add: short_names_def)
  qed
qed simp

lemma CreateSession_source: "pl_pSource (fst (snd (CreateSession api p w))) = None"
  using CloseSession_eq [of api p w]
  by (cases "CloseSession api p w") (auto simp: CreateSession_def Let_def split: prod.splits)

lemma SetVideoWindow_owned:
  assumes "owned p w" "short_names p" "SetVideoWindow api rdy hVideo p w = (p', w')" "pl_pSession p' \<noteq> None"
  shows "owned p' w' \<and> short_names p'"
proof -
  let ?p = "p\<lparr>pl_hwndVideo := hVideo, pl_hwndEvent := hVideo\<rparr>"
  obtain a1 w1 where r1: "global api MFStartup w = (a1, w1)" by (cases "global api MFStartup w")
  obtain a2 w2 where r2: "global api CreateEvent w1 = (a2, w2)" by (cases "global api CreateEvent w1")
  let ?q = "?p\<lparr>pl_hCloseEvent := True\<rparr>"
  obtain hr q w3 where r3: "CreateSession api ?q w2 = (hr, q, w3)" by (cases "CreateSession api ?q w2")
  have o1: "owned ?p w1" using holds_global [of com_start "pointers p" w api MFStartup] assms(1) r1 by (simp add: owned_def)
  have o2: "owned (?p\<lparr>pl_hCloseEvent := c\<rparr>) w2" for c using holds_global [of com_start "pointers p" w1 api CreateEvent] o1 r2 by (simp add: owned_def)
  have o3: "keeping {#} q w3" using CreateSession_owns [OF o2 [of True], of api] r3 by (simp add: owns_def owned_def keeping_def)
  have s3: "short_names q" "pl_pSource q = None"
    using CreateSession_list [of api ?q w2] CreateSession_source [of api ?q w2] r3 assms(2) by (simp_all add: short_names_def)
  have "keeping {#} p' w' \<and> short_names p'" if "await_ready api rdy 0 30 q w3 = (p', w')"
    by (rule await_ready_keeping [OF o3 s3 that assms(4)])
  then show ?thesis
    using assms(2,3) o1 o2
    by (auto simp: SetVideoWindow_def r1 r2 r3 Let_def keeping_def owned_def short_names_def split: if_splits)
qed

lemma player_ok_acts:
  assumes "player_ok pw" "acts api pw pw'"
  shows "player_ok pw'"
  using assms(2)
proof cases
  case (handled p e t rest w hr p' w')
  have "keeping {#e#} (p\<lparr>pl_posted := rest\<rparr>) w"
    using assms(1) handled by (simp add: player_ok_def owned_def keeping_def pointers_def)
  then show ?thesis
    using HandleEvent_owned [OF _ _ _ handled(5)] assms(1) handled by (simp add: player_ok_def short_names_def)
next
  case (windowed rdy hVideo p w p' w')
  then show ?thesis using SetVideoWindow_owned [of p w api rdy hVideo p' w'] assms(1) by (simp add: player_ok_def)
next
  case (opened p name buf w hr p' w')
  then show ?thesis
    using OpenMem_opened [of "{#}" p w name api buf] OpenMem_playList [of api name buf p w] assms(1)
    by (simp add: player_ok_def keeping_def owned_def opened_def short_names_def)
next
  case (notified p w p' w')
  then show ?thesis
    using NotifyPlay_keeping [of "{#}" p w api p' w'] assms(1)
    by (simp add: player_ok_def keeping_def owned_def)
next
  case (updated p w i adfile)
  then show ?thesis using assms(1)
    by (auto simp: player_ok_def owned_def short_names_def UpdatePlayList_def)
next
  case (listed item p w)
  then show ?thesis using assms(1) by (auto simp: player_ok_def owned_def short_names_def)
next
  case (called p w c)
  then show ?thesis using assms(1) by (simp add: player_ok_def owned_def holds_global)
qed (use assms(1) in \<open>simp_all add: player_ok_def short_names_def list_frames CreateSession_list
    playback_owns Repaint_owned CreateSession_owns Shutdown_owns Invoke_owns owns_snd CloseSession_owned\<close>)

interpretation playing: stable "acts api" player_ok for api
  by unfold_locales (rule player_ok_acts)

lemma player_ok_start: "player_ok (CPlayer hVideo hEvent, com_start)"
  by (simp add: player_ok_def owned_iff short_names_def CPlayer_def pointers_def com_start_def fresh_refs_def fun_eq_iff)

section \<open>Properties\<close>

abbreviation all_well :: api where
  "all_well \<equiv> \<lambda>_. \<lparr>ans_hr = 0, ans_num = 1, ans_major = MFMediaType_Video, ans_event = MESessionTopologyStatus,
     ans_status = MF_TOPOSTATUS_READY, ans_unknown = True\<rparr>"

text \<open>C24: The player loses no reference and uses no bad pointer, in runs that avoid three things the code
  does not survive.  In every state reached by calls of its methods in any order, whatever Media
  Foundation answers, the references the program holds are exactly those of the player's three
  pointers and of the events it has posted, and no call went through a bad pointer, as long as
  \<open>OpenMem\<close>, \<open>NotifyPlay\<close>, \<open>Invoke\<close> and \<open>HandleEvent\<close> are called while there is a media session (and
  \<open>SetVideoWindow\<close> when it can make one), no file name has 2046 characters or more, and no \<open>OpenMem\<close>
  fails with the old source still in place, which is the dangling pointer of
  \<open>failed_open_mem_dangles\<close>.  An \<open>OpenMem\<close> that fails for a player without a source, or after it had
  replaced the source, is included.\<close>

theorem player_references_exact:
  assumes "rtranclp (acts api) (CPlayer hVideo hEvent, com_start) (p, w)"
  shows "\<not> com_fault w \<and> com_refs w = count (pointers p)"
proof -
  have "player_ok (p, w)" by (rule playing.reached [OF assms player_ok_start])
  then show ?thesis by (simp add: player_ok_def owned_iff)
qed

text \<open>C25: The topology.  Whatever the framework answers and however many streams the source has,
  \<open>CreatePlaybackTopology\<close> calls methods only through references it holds, gives back every
  node, descriptor and renderer it took, and leaves its caller one reference to the topology if it
  succeeds and none if it fails.\<close>

theorem topology_references_balanced:
  assumes "fresh_refs w" "valid pPD w"
  shows "case CreatePlaybackTopology api pSource pPD hwnd w of (hr, out, w') \<Rightarrow>
    com_fault w' = com_fault w
    \<and> (if FAILED hr then out = None \<and> com_refs w' = com_refs w
       else \<exists>n. out = Some n \<and> com_refs w' = (com_refs w)(n := Suc (com_refs w n)))"
  using CreatePlaybackTopology_gives [OF assms, of api pSource hwnd]
  by (auto simp: gives_def holds_def fun_eq_iff split: prod.splits option.splits)

definition with_descriptor :: com where
  "with_descriptor = com_start\<lparr>com_refs := (com_refs com_start)(0 := 1), com_next := 1\<rparr>"

theorem topology_references_balanced_witness:
  "case CreatePlaybackTopology all_well (Some 0) (Some 0) 5 with_descriptor of (hr, out, w') \<Rightarrow>
    com_fault w' = com_fault with_descriptor
    \<and> (if FAILED hr then out = None \<and> com_refs w' = com_refs with_descriptor
       else \<exists>n. out = Some n \<and> com_refs w' = (com_refs with_descriptor)(n := Suc (com_refs with_descriptor n)))"
  by (rule topology_references_balanced) (simp_all add: with_descriptor_def com_start_def fresh_refs_def)

text \<open>Closing releases everything: after \<open>CloseSession\<close> the player's pointers are null, its state
  is \<open>Closed\<close>, each reference was given back exactly once, and only those of posted events are
  left, also when the media session refuses to close.\<close>

theorem close_session_releases_all:
  assumes "owned p w"
  shows "case CloseSession api p w of (hr, p', w') \<Rightarrow>
    p' = p\<lparr>pl_pSession := None, pl_pSource := None, pl_pVideoDisplay := None, pl_state := Closed\<rparr>
    \<and> \<not> com_fault w' \<and> com_refs w' = count (sum_list (map (ptr_mset \<circ> fst) (pl_posted p)))"
  using CloseSession_owned [OF assms, of api] CloseSession_eq [of api p w]
  by (cases "CloseSession api p w") (simp add: owned_iff pointers_def)

definition open_player :: player where
  "open_player = (CPlayer 0 0)\<lparr>pl_pSession := Some 0, pl_pSource := Some 1, pl_state := Started\<rparr>"

definition open_com :: com where
  "open_com = com_start\<lparr>com_refs := (\<lambda>i. if i < 2 then 1 else 0), com_next := 2\<rparr>"

lemma open_owned: "owned open_player open_com"
  by (auto simp: owned_iff open_player_def open_com_def com_start_def fresh_refs_def pointers_def CPlayer_def fun_eq_iff)

theorem close_session_releases_all_witness:
  "case CloseSession all_well open_player open_com of (hr, p', w') \<Rightarrow>
    p' = open_player\<lparr>pl_pSession := None, pl_pSource := None, pl_pVideoDisplay := None, pl_state := Closed\<rparr>
    \<and> \<not> com_fault w' \<and> com_refs w' = count (sum_list (map (ptr_mset \<circ> fst) (pl_posted open_player)))"
  by (rule close_session_releases_all [OF open_owned])

lemma any_call:
  "(\<And>a b c. P (f a b c)) \<Longrightarrow> P (case x of (a, b, c) \<Rightarrow> f a b c)"
  "(\<And>a b. P (g a b)) \<Longrightarrow> P (case y of (a, b) \<Rightarrow> g a b)"
  by (cases x, simp, cases y, simp)

definition pending :: "hresult \<times> player \<times> com \<Rightarrow> bool" where
  "pending r \<longleftrightarrow> FAILED (fst r) \<or> pl_state (fst (snd r)) = OpenPending"

lemma pending_pair: "pending (hr, p, w) = (FAILED hr \<or> pl_state p = OpenPending)"
  by (simp add: pending_def)

lemma OpenMem_pending: "pending (OpenMem api name buf p w)"
  unfolding OpenMem_def Let_def
  by (rule any_call [where P = pending] conjI impI | simp add: pending_pair)+

text \<open>A framework in which every call succeeds.\<close>

definition well :: "hresult \<times> ptr \<times> com \<Rightarrow> bool" where
  "well r \<longleftrightarrow> fst r = 0 \<and> fst (snd r) \<noteq> None"

lemma FAILED_0 [simp]: "\<not> FAILED 0"
  by (simp add: FAILED_def)

lemma well_pair [simp]: "well (hr, q, w) = (hr = 0 \<and> q \<noteq> None)"
  by (simp add: well_def)

lemma well_receive:
  "(\<And>n w'. P (f 0 (Some n) w')) \<Longrightarrow> P (case receive (global all_well c w) of (hr, q, w) \<Rightarrow> f hr q w)"
  "(\<And>n w'. P (f 0 (Some n) w')) \<Longrightarrow> P (case receive (invoke all_well q' c w) of (hr, q, w) \<Rightarrow> f hr q w)"
  "(\<And>w'. P (g (all_well 0) w')) \<Longrightarrow> P (case invoke all_well q' c w of (ans, w) \<Rightarrow> g ans w)"
  by (simp_all add: receive_def global_def invoke_def)

lemma well_call: "well r \<Longrightarrow> (\<And>n w'. P (f 0 (Some n) w')) \<Longrightarrow> P (case r of (hr, q, w) \<Rightarrow> f hr q w)"
  by (cases r) auto

lemmas well_wells = well_receive [where P = well]

lemma CreateMediaSource_well: "well (CreateMediaSource_stream all_well name b q w)"
  unfolding CreateMediaSource_stream_def Let_def by (rule well_wells | simp)+

lemma Sink_well: "well (CreateMediaSinkActivate all_well q h w)"
  unfolding CreateMediaSinkActivate_def Let_def by (rule well_wells | simp)+

lemma Nodes_well: "well (AddSourceNode all_well t q pd sd w)" "well (AddOutputNode all_well t q i w)"
  unfolding AddSourceNode_def AddOutputNode_def Let_def by (rule well_wells | simp)+

lemma Branch_well: "fst (AddBranchToPartialTopology all_well t q pd i h w) = 0"
proof -
  let ?P = "\<lambda>r :: hresult \<times> com. fst r = 0"
  show ?thesis
    unfolding AddBranchToPartialTopology_def Let_def
    by (rule well_receive [where P = ?P] well_call [where P = ?P, OF Sink_well]
         well_call [where P = ?P, OF Nodes_well(1)] well_call [where P = ?P, OF Nodes_well(2)]
       | simp add: invoke_def)+
qed

lemma branches_well: "fst (add_branches all_well t q pd h i n 0 w) = 0"
proof (induction n arbitrary: i w)
  case (Suc n)
  then show ?case
    using Branch_well [of t q pd i h w] by (cases "AddBranchToPartialTopology all_well t q pd i h w") simp
qed simp

lemma branches_call:
  "(\<And>w'. well (g 0 w')) \<Longrightarrow> well (case add_branches all_well t q pd h i n 0 w of (hr, w) \<Rightarrow> g hr w)"
  using branches_well [of t q pd h i n w] by (cases "add_branches all_well t q pd h i n 0 w") simp

lemma Topology_well: "well (CreatePlaybackTopology all_well q pd h w)"
  unfolding CreatePlaybackTopology_def Let_def
  by (rule well_wells branches_call | simp del: add_branches.simps)+

lemma OpenMem_well: "fst (OpenMem all_well name buf p w) = 0"
proof -
  let ?P = "\<lambda>r :: hresult \<times> player \<times> com. fst r = 0"
  show ?thesis
    unfolding OpenMem_def Let_def
    by (rule well_receive [where P = ?P] well_call [where P = ?P, OF CreateMediaSource_well]
         well_call [where P = ?P, OF Topology_well] impI | simp)+
qed

text \<open>C26: Opening a file while another is open: if it succeeds the player is \<open>OpenPending\<close>, owns the
  new source and the session, and everything else, the old source included, has been given back.\<close>

theorem open_mem_replaces_source:
  assumes "owned p w" "pl_pSession p \<noteq> None" "length name < 2046"
  shows "case OpenMem api name buf p w of (hr, p', w') \<Rightarrow>
    \<not> FAILED hr \<longrightarrow> pl_state p' = OpenPending \<and> pl_pSession p' = pl_pSession p
      \<and> \<not> com_fault w' \<and> com_refs w' = count (pointers p')"
proof -
  have "opened {#} p (OpenMem api name buf p w)"
    by (rule OpenMem_opened [OF _ assms(2,3)]) (use assms(1) in \<open>simp add: keeping_def owned_def\<close>)
  then have "opened {#} p (OpenMem api name buf p w)" .
  moreover have "keeping {#} q v = owned q v" for q v by (simp add: keeping_def owned_def)
  ultimately show ?thesis
    using OpenMem_pending [of api name buf p w] OpenMem_session [of api name buf p w]
    by (cases "OpenMem api name buf p w") (auto simp: opened_def owned_iff pending_def)
qed

theorem open_mem_replaces_source_witness:
  "case OpenMem all_well [97] [1, 2] open_player open_com of (hr, p', w') \<Rightarrow>
    \<not> FAILED hr \<and> pl_state p' = OpenPending \<and> pl_pSession p' = pl_pSession open_player
      \<and> \<not> com_fault w' \<and> com_refs w' = count (pointers p')"
proof -
  have "\<not> FAILED (fst (OpenMem all_well [97] [1, 2] open_player open_com))"
    using OpenMem_well [of "[97]" "[1, 2]" open_player open_com] by simp
  then show ?thesis
    using open_mem_replaces_source [OF open_owned, of "[97]" all_well "[1, 2]"]
    by (cases "OpenMem all_well [97] [1, 2] open_player open_com") (simp add: open_player_def)
qed

text \<open>A session is made, a file opened and replaced by another.\<close>

lemma OpenMem_source: "pl_pSource (fst (snd (OpenMem all_well name buf p w))) \<noteq> None"
proof -
  let ?P = "\<lambda>r :: hresult \<times> player \<times> com. pl_pSource (fst (snd r)) \<noteq> None"
  show ?thesis
    unfolding OpenMem_def Let_def
    by (rule well_receive [where P = ?P] well_call [where P = ?P, OF CreateMediaSource_well]
         well_call [where P = ?P, OF Topology_well] impI | simp del: not_None_eq)+
qed

lemma CreateSession_well: "pl_pSession (fst (snd (CreateSession all_well (CPlayer 0 0) w))) \<noteq> None"
  by (simp add: CreateSession_def CloseSession_def CPlayer_def receive_def global_def invoke_def Let_def)

lemma opened_well:
  assumes "pl_pSession p \<noteq> None" "pl_pSource p = None \<or> pl_state p' \<noteq> Closed" "length name < 2046"
    "OpenMem all_well name buf p w = (hr, p', w')"
  shows "acts all_well (p, w) (p', w')"
  by (rule acts.opened [OF assms(1,3,4)]) (use assms(2) in \<open>auto simp: stale_def\<close>)

theorem player_references_exact_witness:
  "\<exists>p w. rtranclp (acts all_well) (CPlayer 0 0, com_start) (p, w) \<and> pl_state p = OpenPending
    \<and> pl_pSession p \<noteq> None \<and> pl_pSource p \<noteq> None \<and> \<not> com_fault w \<and> com_refs w = count (pointers p)"
proof -
  have run: "\<exists>p' w'. acts all_well (p, w) (p', w') \<and> pl_state p' = OpenPending \<and> pl_pSession p' \<noteq> None
      \<and> pl_pSource p' \<noteq> None" if "pl_pSession p \<noteq> None" for p w
  proof -
    obtain hr p' w' where o: "OpenMem all_well [97] [1, 2] p w = (hr, p', w')"
      by (cases "OpenMem all_well [97] [1, 2] p w")
    then have "pl_state p' = OpenPending" "pl_pSession p' \<noteq> None" "pl_pSource p' \<noteq> None"
      using OpenMem_well [of "[97]" "[1, 2]" p w] OpenMem_pending [of all_well "[97]" "[1, 2]" p w]
        OpenMem_session [of all_well "[97]" "[1, 2]" p w] OpenMem_source [of "[97]" "[1, 2]" p w] that
      by (simp_all add: pending_def)
    then show ?thesis using opened_well [OF that _ _ o] by force
  qed
  let ?c = "snd (CreateSession all_well (CPlayer 0 0) com_start)"
  have c: "acts all_well (CPlayer 0 0, com_start) (fst ?c, snd ?c)" using acts.created by simp
  obtain p1 w1 where 1: "acts all_well (fst ?c, snd ?c) (p1, w1)" "pl_pSession p1 \<noteq> None"
    using run [OF CreateSession_well] by blast
  obtain p2 w2 where 2: "acts all_well (p1, w1) (p2, w2)" "pl_state p2 = OpenPending" "pl_pSession p2 \<noteq> None"
    "pl_pSource p2 \<noteq> None"
    using run [OF 1(2)] by blast
  have r: "rtranclp (acts all_well) (CPlayer 0 0, com_start) (p2, w2)"
    by (rule rtranclp.rtrancl_into_rtrancl [OF rtranclp.rtrancl_into_rtrancl [OF r_into_rtranclp [of "acts all_well", OF c] 1(1)] 2(1)])
  show ?thesis
    by (rule exI [of _ p2], rule exI [of _ w2]) (use player_references_exact [OF r] 2(2-4) r in blast)
qed

text \<open>C27: A failed \<open>OpenMem\<close> leaves a dangling pointer.  It releases the source it was about to
  replace at its end in every case; when it fails before the new source is created, \<open>m_pSource\<close>
  still points to the released object, and closing the session then uses it.\<close>

theorem failed_open_mem_dangles:
  assumes "pl_pSource p = Some s" "com_refs w s = 1" "FAILED (ans_hr (api (com_tick w)))"
  shows "case OpenMem api name buf p w of (hr, p', w') \<Rightarrow>
    FAILED hr \<and> pl_pSource p' = Some s \<and> com_refs w' s = 0
    \<and> com_fault (snd (snd (CloseSession api p' w')))"
proof -
  let ?w1 = "if 2046 \<le> length name then w\<lparr>com_fault := True\<rparr> else w"
  let ?w2 = "snd (global api (SHCreateMemStream buf) ?w1)"
  have c: "receive (global api (SHCreateMemStream buf) ?w1) = (ans_hr (api (com_tick w)), None, ?w2)"
    by (simp add: receive_def global_def assms(3))
  have "OpenMem api name buf p w = (- 1, p\<lparr>pl_state := Closed\<rparr>, SafeRelease (Some s) ?w2)"
    unfolding OpenMem_def Let_def c by (simp add: assms(1,3))
  moreover have "com_refs (SafeRelease (Some s) ?w2) s = 0" using assms(2) by (simp add: SafeRelease_def global_def)
  ultimately obtain p' w' where r: "OpenMem api name buf p w = (- 1, p', w')" "pl_pSource p' = Some s" "com_refs w' s = 0"
    using assms(1) by simp
  have "com_refs (SafeRelease q v) s = 0" if "com_refs v s = 0" for q v
    using that by (auto simp: SafeRelease_def split: option.split)
  moreover have "com_fault (SafeRelease q v)" if "com_fault v" for q v
    using that by (auto simp: SafeRelease_def split: option.split)
  moreover have "com_fault (SafeRelease (Some s) v)" if "com_refs v s = 0" for v
    using that by (auto simp: SafeRelease_def)
  ultimately have "com_fault (snd (snd (CloseSession api p' w')))"
    using r(2,3) by (simp add: CloseSession_def Let_def case_prod_beta invoke_def global_def)
  then show ?thesis using r by simp
qed

abbreviation no_memory :: api where
  "no_memory \<equiv> \<lambda>i. (all_well i)\<lparr>ans_hr := E_OUTOFMEMORY\<rparr>"

theorem failed_open_mem_dangles_witness:
  "case OpenMem no_memory [97] [1, 2] open_player open_com of (hr, p', w') \<Rightarrow>
    FAILED hr \<and> pl_pSource p' = Some 1 \<and> com_refs w' 1 = 0
    \<and> com_fault (snd (snd (CloseSession no_memory p' w')))"
  by (rule failed_open_mem_dangles) (simp_all add: open_player_def open_com_def FAILED_def E_OUTOFMEMORY_def)

text \<open>The play list.  \<open>NotifyPlay\<close> opens the first item of type 1 whose file has arrived, if there
  is one, and the list then starts behind that item, with the order of the items kept; if there is
  none nothing changes.\<close>

theorem notify_plays_next:
  "NotifyPlay api p w =
    (let l = pl_playList p; k = length (takeWhile (\<lambda>it. \<not> (item_type it = 1 \<and> item_adfile it \<noteq> None)) l)
     in if k < length l
        then snd (OpenMem api (item_filename (l ! k)) (the (item_adfile (l ! k)))
               (p\<lparr>pl_playList := drop (Suc k) l @ take (Suc k) l\<rparr>) w)
        else (p, w))"
proof -
  have turn: "rotate (Suc k) l = drop (Suc k) l @ take (Suc k) l" if "k < length l" for k and l :: "play_item list"
  proof (cases "Suc k < length l")
    case False
    then have "length l = Suc k" using that by simp
    then show ?thesis by (metis append_Nil2 append_self_conv2 drop_all order_refl rotate_id mod_self take_all)
  qed (simp add: rotate_drop_take del: rotate_Suc)
  show ?thesis
    by (simp add: NotifyPlay_eq first_playable_def playable_def turn Let_def del: rotate_Suc)
qed

text \<open>The transport controls.  \<open>Pause\<close> works only while playing, \<open>Stop\<close> while playing or paused,
  \<open>Play\<close> while paused or stopped, and only with a session; the state changes exactly when the
  session accepts, and a refused request touches nothing.\<close>

theorem transport_state_machine:
  "(case Pause api p w of (hr, p', w') \<Rightarrow>
      if pl_state p = Started \<and> pl_pSession p \<noteq> None \<and> pl_pSource p \<noteq> None
      then p' = p\<lparr>pl_state := (if FAILED hr then Started else Paused)\<rparr>
      else FAILED hr \<and> p' = p \<and> w' = w)
   \<and> (case Stop api p w of (hr, p', w') \<Rightarrow>
      if (pl_state p = Started \<or> pl_state p = Paused) \<and> pl_pSession p \<noteq> None
      then p' = p\<lparr>pl_state := (if FAILED hr then pl_state p else Stopped)\<rparr>
      else FAILED hr \<and> p' = p \<and> w' = w)
   \<and> (case Play api p w of (hr, p', w') \<Rightarrow>
      if (pl_state p = Paused \<or> pl_state p = Stopped) \<and> pl_pSession p \<noteq> None \<and> pl_pSource p \<noteq> None
      then p' = p\<lparr>pl_state := (if FAILED hr then pl_state p else Started)\<rparr>
      else FAILED hr \<and> p' = p \<and> w' = w)"
  by (auto simp: Pause_def Stop_def Play_def StartPlayback_def Let_def FAILED_def MF_E_INVALIDREQUEST_def
      E_UNEXPECTED_def split: prod.splits)

lemma await_ready_slept: "pl_slept (fst (await_ready api rdy i n p w)) \<le> pl_slept p + 100 * n"
proof (induction n arbitrary: i p)
  case (Suc n)
  from Suc.IH [of "Suc i" "p\<lparr>pl_slept := pl_slept p + 100\<rparr>"] show ?case
    by (simp add: NotifyPlay_slept)
qed simp

lemma CreateSession_slept: "pl_slept (fst (snd (CreateSession api p w))) = pl_slept p"
  using slept_frames(2) [of api p w]
  by (cases "CloseSession api p w") (auto simp: CreateSession_def Let_def split: prod.splits)

text \<open>\<open>SetVideoWindow\<close> blocks its caller for at most three seconds of waiting for the media source,
  whatever the flag does.\<close>

theorem set_video_window_waits:
  "pl_slept (fst (SetVideoWindow api rdy hVideo p w)) \<le> pl_slept p + 3000"
proof -
  have "pl_slept (fst (await_ready api rdy 0 30 q v)) \<le> pl_slept p + 3000"
    if "CreateSession api (p\<lparr>pl_hwndVideo := hVideo, pl_hwndEvent := hVideo, pl_hCloseEvent := b\<rparr>) u = (hr, q, v)"
    for q v u hr b
    using CreateSession_slept [of api "p\<lparr>pl_hwndVideo := hVideo, pl_hwndEvent := hVideo, pl_hCloseEvent := b\<rparr>" u] that
      await_ready_slept [of api rdy 0 30 q v] by simp
  then show ?thesis
    by (auto simp: SetVideoWindow_def Let_def split: prod.splits)
qed

end
