(* ===== verification/Logger.thy ===== *)
theory Logger
  imports AdPrelude
begin

text \<open>
  The log of the program, \<^verbatim>\<open>src/Logger.cpp\<close> and \<^verbatim>\<open>src/Logger.h\<close>: which
  records reach which of the two files.  The names of files, their rotation and the layout of a line
  are those of Boost.Log and are not modelled.
\<close>

section \<open>Severities\<close>

datatype severity = sev_trace | sev_debug | sev_notify | sev_info | sev_warn | sev_error | sev_fatal

text \<open>The number of an enumerator, and the comparison of enumerators by their numbers.\<close>

fun severity_number :: "severity \<Rightarrow> nat" where
  "severity_number sev_trace = 0"
| "severity_number sev_debug = 1"
| "severity_number sev_notify = 2"
| "severity_number sev_info = 3"
| "severity_number sev_warn = 4"
| "severity_number sev_error = 5"
| "severity_number sev_fatal = 6"

lemma severity_number_inject: "severity_number a = severity_number b \<Longrightarrow> a = b"
  by (cases a; cases b) simp_all

instantiation severity :: linorder
begin

definition less_eq_severity :: "severity \<Rightarrow> severity \<Rightarrow> bool" where
  "less_eq_severity a b \<longleftrightarrow> severity_number a \<le> severity_number b"

definition less_severity :: "severity \<Rightarrow> severity \<Rightarrow> bool" where
  "less_severity a b \<longleftrightarrow> severity_number a < severity_number b"

instance
  by standard (auto simp: less_eq_severity_def less_severity_def dest: severity_number_inject)

end

text \<open>The formatter: a name from the table, or the number if the table has none.\<close>

definition severity_names :: "string list" where
  "severity_names = [''TRACE'', ''DEBUG'', ''NTFY '', ''INFO '', ''WARN '', ''ERROR'', ''FATAL'']"

definition severity_name :: "nat \<Rightarrow> string option" where
  "severity_name level = (if level < length severity_names then Some (severity_names ! level) else None)"

section \<open>The log\<close>

text \<open>The static \<open>inited\<close>, the filter of the core and the filters of the file sinks in the order they were
  added; \<open>None\<close> as a filter lets everything through.  A filter sees the severity of a record, which
  a record may not have.\<close>

datatype filter_expr = at_least severity | or_default severity severity

fun filter_passes :: "filter_expr option \<Rightarrow> severity option \<Rightarrow> bool" where
  "filter_passes None sev = True"
| "filter_passes (Some (at_least lvl)) sev = (case sev of None \<Rightarrow> False | Some s \<Rightarrow> lvl \<le> s)"
| "filter_passes (Some (or_default d lvl)) sev = (lvl \<le> (case sev of None \<Rightarrow> d | Some s \<Rightarrow> s))"

record logger =
  lg_inited :: bool
  lg_core :: "filter_expr option"
  lg_sinks :: "filter_expr option list"

definition logger_new :: logger where
  "logger_new = \<lparr>lg_inited = False, lg_core = None, lg_sinks = []\<rparr>"

text \<open>\<open>initLogger\<close> of the release build.\<close>

definition initLogger :: "severity \<Rightarrow> logger \<Rightarrow> logger" where
  "initLogger lvl L =
     (if lg_inited L then L
      else L\<lparr>lg_inited := True, lg_sinks := lg_sinks L @ [None, Some (or_default sev_debug lvl)],
             lg_core := Some (at_least lvl)\<rparr>)"

text \<open>The files a record is written to.\<close>

definition log_files :: "logger \<Rightarrow> severity option \<Rightarrow> bool list" where
  "log_files L sev = map (\<lambda>f. filter_passes (lg_core L) sev \<and> filter_passes f sev) (lg_sinks L)"

text \<open>Every severity has its name.\<close>

lemma severity_named: "severity_name (severity_number s) \<noteq> None"
  by (cases s) (simp_all add: severity_name_def severity_names_def)

lemma initLogger_once: "initLogger lvl' (initLogger lvl L) = initLogger lvl L"
  by (simp add: initLogger_def)

text \<open>the two log files get the same records.  The filter of the core comes before those of the
  files, so the first file, which has none and was to have everything, gets no more than the second:
  the records from the level on with which the log was first set up.  Later levels change nothing,
  and the default for records without a severity is never used.\<close>
theorem log_files_agree:
  "log_files (initLogger lvl' (initLogger lvl logger_new)) sev =
     replicate 2 (case sev of None \<Rightarrow> False | Some s \<Rightarrow> lvl \<le> s)"
  by (simp add: log_files_def initLogger_def logger_new_def numeral_2_eq_2 split: option.split)

end
