(* ===== verification/Manager.thy ===== *)
theory Manager
  imports DigestStream Client Server Player Logger
begin

text \<open>
  The advertisement business, class AdManager of \<^verbatim>\<open>src/AdManager.cpp\<close>,
  \<^verbatim>\<open>src/AdManager.h\<close> and \<^verbatim>\<open>src/AdManagerImpl.h\<close>: it fetches the play policy and
  the list of advertisements, downloads the files the policy needs, checks their digests,
  keeps them in memory and, on the server of a bar, answers the requests of its clients.
  Everything runs on the business thread, one function at a time; a request to the peer
  blocks until the answer is there, and with it the thread: an operation is \<open>None\<close> if an answer it
  waits for never comes.
\<close>

section \<open>Data\<close>

record ad =
  ad_id :: i32
  ad_name :: bytes
  ad_filename :: bytes
  ad_advertiser :: bytes
  ad_type :: i32
  ad_url :: bytes
  ad_image :: bytes
  ad_width :: i32
  ad_height :: i32
  ad_format :: bytes
  ad_size :: i32
  ad_md5 :: bytes
  ad_duration :: i32
  ad_download :: "bytes list"
  ad_minage :: i32
  ad_maxage :: i32
  ad_sex :: i32
  ad_visitstatcode :: "bytes list"
  ad_pausepopadids :: "i32 list"
  ad_unlockpopadids :: "i32 list"

definition Ad_new :: ad where
  "Ad_new = \<lparr>ad_id = 0, ad_name = [], ad_filename = [], ad_advertiser = [], ad_type = 0, ad_url = [],
     ad_image = [], ad_width = 0, ad_height = 0, ad_format = [], ad_size = 0, ad_md5 = [], ad_duration = 0,
     ad_download = [], ad_minage = 0, ad_maxage = 0, ad_sex = 0, ad_visitstatcode = [],
     ad_pausepopadids = [], ad_unlockpopadids = []\<rparr>"

record adplay =
  play_location :: i32
  play_mode :: i32
  play_needsync :: bool
  play_playtimes :: "(bytes \<times> bytes) list"
  play_adids :: "i32 list"

record policy =
  pol_id :: i32
  pol_version :: bytes
  pol_datetime :: bytes
  pol_adplays :: "adplay list"

text \<open>What surrounds the manager: the protobuf runtime, the generated parsers of the three messages
  (\<open>ParseFromString\<close>: whether it succeeded, and the object it leaves in either case), the
  conversion to GB2312, \<open>lexical_cast\<close>, the web client, the memory a new MD5 object starts with,
  the peer, and the result of the \<open>k\<close>-th attempt to connect with what \<open>remote_endpoint\<close> gives after it.  The web answers the last of all
  addresses fetched so far, the peer the last of all requests; \<open>None\<close> says that the answer never comes,
  so that the call that waits for it, \<open>future.get\<close> or \<open>status\<close> of a response, does not return.
  \<open>Inl\<close> of a download is an exception.\<close>

record env =
  env_lib :: pb_lib
  env_parse_ad :: "bytes \<Rightarrow> bool \<times> ad"
  env_parse_result :: "bytes \<Rightarrow> bool \<times> ad list"
  env_parse_policy :: "bytes \<Rightarrow> bool \<times> policy"
  env_from_utf :: "bytes \<Rightarrow> bytes"
  env_to_utf :: "bytes \<Rightarrow> bytes"
  env_lexical_cast :: "bytes \<Rightarrow> i32 option"
  env_http :: "bytes list \<Rightarrow> (unit + (nat \<times> bytes)) option"
  env_md5 :: md5
  env_peer :: "message list \<Rightarrow> message option"
  env_connect :: "nat \<Rightarrow> int"
  env_remote :: "nat \<Rightarrow> bytes \<times> int"

datatype timer = TimerPolicy | TimerAdList | TimerDownload

record manager =
  mg_pPlayer :: "player option"
  mg_hwnd :: nat
  mg_barId :: bytes
  mg_listenPort :: nat
  mg_isBarServer :: bool
  mg_endpoint :: "bytes \<times> nat"
  mg_logger :: logger
  mg_isEndBusiness :: bool
  mg_policy :: policy
  mg_mapAd :: "u32 \<Rightarrow> ad option"
  mg_lockAds :: "u32 list"
  mg_bufPolicy :: bytes
  mg_bufAdList :: bytes
  mg_bufImages :: "u32 \<Rightarrow> bytes option"
  mg_delay :: "timer \<Rightarrow> nat"
  mg_waiting :: "timer list"
  mg_ready :: "timer list"
  mg_sent :: "message list"
  mg_fetched :: "bytes list"
  mg_files :: "(bytes \<times> bytes) list"
  mg_sourceReady :: bool
  mg_client :: client
  mg_server :: "server option"

section \<open>Helpers\<close>

definition ascii :: "string \<Rightarrow> bytes" where
  "ascii s = map (\<lambda>c. of_nat (of_char c)) s"

text \<open>\<open>boost::to_upper_copy\<close> in the classic locale.\<close>

definition to_upper :: "byte \<Rightarrow> byte" where
  "to_upper b = (if 97 \<le> b \<and> b \<le> 122 then b - 32 else b)"

definition to_upper_copy :: "bytes \<Rightarrow> bytes" where
  "to_upper_copy bs = map to_upper bs"

text \<open>The bytes of an integer in memory.\<close>

definition le32 :: "u32 \<Rightarrow> bytes" where
  "le32 w = rev (be32 w)"

text \<open>A sorted set, as \<open>std::set\<close> keeps it; \<open>key\<close> gives the order.\<close>

fun set_insert :: "('a \<Rightarrow> int) \<Rightarrow> 'a \<Rightarrow> 'a list \<Rightarrow> 'a list" where
  "set_insert key x [] = [x]"
| "set_insert key x (y # ys) =
     (if key x < key y then x # y # ys else if key x = key y then y # ys else y # set_insert key x ys)"

text \<open>The digest of a file as the manager computes it: \<open>None\<close> if \<open>update\<close> does not return.\<close>

definition file_md5 :: "env \<Rightarrow> bytes \<Rightarrow> bytes option" where
  "file_md5 E body =
     (case update body (of_nat (length body)) (init (env_md5 E)) of
        None \<Rightarrow> None
      | Some ctx \<Rightarrow> map_option (\<lambda>ctx. ascii (hex_digest ctx)) (finalize ctx))"

definition utf8ToGB2312_msg :: "env \<Rightarrow> message \<Rightarrow> message" where
  "utf8ToGB2312_msg E msg = msg\<lparr>msg_returnmsg := env_from_utf E (msg_returnmsg msg)\<rparr>"

definition gb2312ToUTF8 :: "env \<Rightarrow> message \<Rightarrow> message" where
  "gb2312ToUTF8 E msg = msg\<lparr>msg_returnmsg := env_to_utf E (msg_returnmsg msg)\<rparr>"

definition utf8ToGB2312_ad :: "env \<Rightarrow> ad \<Rightarrow> ad" where
  "utf8ToGB2312_ad E a =
     a\<lparr>ad_name := env_from_utf E (ad_name a), ad_filename := env_from_utf E (ad_filename a),
       ad_advertiser := env_from_utf E (ad_advertiser a),
       ad_download := map (env_from_utf E) (ad_download a)\<rparr>"

text \<open>\<open>_mapAd.insert\<close>, which keeps an entry that is there, and \<open>_mapAd[id]\<close>, which makes one that is
  not.\<close>

definition map_insert :: "u32 \<Rightarrow> ad \<Rightarrow> manager \<Rightarrow> manager" where
  "map_insert i a m = (if mg_mapAd m i = None then m\<lparr>mg_mapAd := (mg_mapAd m)(i \<mapsto> a)\<rparr> else m)"

definition map_at :: "u32 \<Rightarrow> manager \<Rightarrow> ad \<times> manager" where
  "map_at i m =
     (case mg_mapAd m i of Some a \<Rightarrow> (a, m) | None \<Rightarrow> (Ad_new, m\<lparr>mg_mapAd := (mg_mapAd m)(i \<mapsto> Ad_new)\<rparr>))"

text \<open>\<open>expires_from_now\<close> cancels the pending waits of its timer; their handlers are bound without the
  error code and run all the same.\<close>

definition expires_from_now :: "timer \<Rightarrow> nat \<Rightarrow> manager \<Rightarrow> manager" where
  "expires_from_now t secs m =
     m\<lparr>mg_delay := (mg_delay m)(t := secs),
       mg_ready := mg_ready m @ filter (\<lambda>s. s = t) (mg_waiting m),
       mg_waiting := filter (\<lambda>s. s \<noteq> t) (mg_waiting m)\<rparr>"

definition async_wait :: "timer \<Rightarrow> manager \<Rightarrow> manager" where
  "async_wait t m = m\<lparr>mg_waiting := mg_waiting m @ [t]\<rparr>"

text \<open>\<open>_tcpClient->session ()->request (msg).get ()\<close>, and the conversion of the answer's text; \<open>get\<close>
  waits until the promise of the request is kept.\<close>

definition ask :: "env \<Rightarrow> message \<Rightarrow> manager \<Rightarrow> (message \<times> manager) option" where
  "ask E msg m =
     (let m = m\<lparr>mg_sent := mg_sent m @ [msg]\<rparr>
      in case env_peer E (mg_sent m) of
           None \<Rightarrow> None
         | Some rsp \<Rightarrow> Some (utf8ToGB2312_msg E rsp, m))"

section \<open>Construction\<close>

definition initResponseBuf :: "env \<Rightarrow> manager \<Rightarrow> manager" where
  "initResponseBuf E m =
     (let msgPolicy = Message_new\<lparr>msg_id := 0, msg_returncode := 2, msg_method := ascii ''getAdPlayPolicy'',
            msg_returnmsg := ascii ''AdPlayPolicy not exist''\<rparr>;
          msgAdList = Message_new\<lparr>msg_id := 0, msg_returncode := 2, msg_method := ascii ''getAdList'',
            msg_returnmsg := ascii ''AdList not exist''\<rparr>
      in m\<lparr>mg_bufPolicy := Message_SerializeAsString (env_lib E) msgPolicy,
           mg_bufAdList := Message_SerializeAsString (env_lib E) msgAdList\<rparr>)"

definition AdManagerImpl :: "env \<Rightarrow> manager" where
  "AdManagerImpl E = initResponseBuf E
     \<lparr>mg_pPlayer = None, mg_hwnd = 0, mg_barId = [], mg_listenPort = 0, mg_isBarServer = False,
      mg_endpoint = ([], 0), mg_logger = logger_new, mg_isEndBusiness = False,
      mg_policy = \<lparr>pol_id = 0, pol_version = [], pol_datetime = [], pol_adplays = []\<rparr>,
      mg_mapAd = Map.empty, mg_lockAds = [], mg_bufPolicy = [], mg_bufAdList = [],
      mg_bufImages = Map.empty, mg_delay = (\<lambda>_. 0), mg_waiting = [], mg_ready = [], mg_sent = [],
      mg_fetched = [], mg_files = [], mg_sourceReady = False, mg_client = TcpClient, mg_server = None\<rparr>"

definition logger_level :: "string \<Rightarrow> severity" where
  "logger_level logLvl =
     (if logLvl = ''trace'' then sev_trace else if logLvl = ''debug'' then sev_debug
      else if logLvl = ''notify'' then sev_notify else if logLvl = ''info'' then sev_info
      else if logLvl = ''warn'' then sev_warn else if logLvl = ''error'' then sev_error
      else if logLvl = ''fatal'' then sev_fatal else sev_debug)"

text \<open>The log is set up once in a process, which here has one manager.\<close>

definition setConfig :: "bytes \<Rightarrow> nat \<Rightarrow> bytes \<Rightarrow> bool \<Rightarrow> nat \<Rightarrow> string \<Rightarrow> manager \<Rightarrow> manager" where
  "setConfig peerAddr peerPort barId isBarServer listenPort logLvl m =
     m\<lparr>mg_endpoint := (peerAddr, peerPort), mg_barId := barId, mg_isBarServer := isBarServer,
       mg_listenPort := listenPort,
       mg_logger := initLogger (logger_level logLvl) (mg_logger m)\<rparr>"

section \<open>Downloading\<close>

definition img_insert :: "u32 \<Rightarrow> bytes \<Rightarrow> manager \<Rightarrow> manager" where
  "img_insert i buf m =
     (if mg_bufImages m i = None then m\<lparr>mg_bufImages := (mg_bufImages m)(i \<mapsto> buf)\<rparr> else m)"

text \<open>The answer a server keeps for a file: a message without number.\<close>

definition file_response :: "bytes \<Rightarrow> message" where
  "file_response body =
     Message_new\<lparr>msg_id := 0, msg_returncode := 0, msg_method := ascii ''getAdFile'', msg_content := body\<rparr>"

text \<open>The loop over the addresses, which the source compiles for \<open>_MSC_VER > 1600\<close> only, as here;
  \<open>ofs << body << std::endl\<close> appends a line feed.  \<open>None\<close> if the response of an address never comes.\<close>

fun download_urls :: "env \<Rightarrow> u32 \<Rightarrow> ad \<Rightarrow> bytes list \<Rightarrow> manager \<Rightarrow> manager option" where
  "download_urls E i a [] m = Some m"
| "download_urls E i a (url # urls) m =
     (let m = m\<lparr>mg_fetched := mg_fetched m @ [url]\<rparr>
      in case env_http E (mg_fetched m) of
           None \<Rightarrow> None
         | Some (Inl _) \<Rightarrow> download_urls E i a urls m
         | Some (Inr (status, body)) \<Rightarrow>
             if status \<noteq> 200 then download_urls E i a urls m
             else (case file_md5 E body of
                     None \<Rightarrow> None
                   | Some md5 \<Rightarrow>
                       if to_upper_copy (ad_md5 a) \<noteq> to_upper_copy md5 then download_urls E i a urls m
                       else let m = img_insert i (Message_SerializeAsString (env_lib E) (file_response body)) m
                            in Some (m\<lparr>mg_files := mg_files m @ [(ad_filename a, body @ [10])]\<rparr>)))"

definition download_peer :: "env \<Rightarrow> u32 \<Rightarrow> ad \<Rightarrow> manager \<Rightarrow> manager option" where
  "download_peer E i a m =
     (case ask E (Message_new\<lparr>msg_method := ascii ''getAdFile'', msg_content := le32 i\<rparr>) m of
        None \<Rightarrow> None
      | Some (msgRsp, m) \<Rightarrow>
          if msg_returncode msgRsp \<noteq> 0 then Some m
          else let body = msg_content msgRsp
               in case file_md5 E body of
                    None \<Rightarrow> None
                  | Some md5 \<Rightarrow>
                      if to_upper_copy (ad_md5 a) \<noteq> to_upper_copy md5 then Some m
                      else let m = img_insert i body m
                           in Some (if i \<in> set (mg_lockAds m)
                                    then (case mg_pPlayer m of
                                            None \<Rightarrow> m
                                          | Some p \<Rightarrow> m\<lparr>mg_pPlayer := Some (UpdatePlayList i body p),
                                                        mg_sourceReady := True\<rparr>)
                                    else m))"

definition downloadAd :: "env \<Rightarrow> u32 \<Rightarrow> manager \<Rightarrow> manager option" where
  "downloadAd E i m =
     (case mg_mapAd m i of
        None \<Rightarrow> Some m
      | Some a \<Rightarrow>
          if ad_download a = [] then Some m
          else if mg_isBarServer m then download_urls E i a (ad_download a) m
          else download_peer E i a m)"

text \<open>The loops of \<open>downloadAds\<close>: the numbers needed, in the order of \<open>std::set<int32>\<close>, and the
  downloads.\<close>

fun needed_ids :: "i32 list \<Rightarrow> i32 list \<Rightarrow> manager \<Rightarrow> i32 list \<times> manager" where
  "needed_ids [] idSet m = (idSet, m)"
| "needed_ids (i # ids) idSet m =
     (let (a, m) = map_at i m
      in needed_ids ids (if ad_download a \<noteq> [] then set_insert sint i idSet else idSet) m)"

fun needed_plays :: "adplay list \<Rightarrow> i32 list \<Rightarrow> manager \<Rightarrow> i32 list \<times> manager" where
  "needed_plays [] idSet m = (idSet, m)"
| "needed_plays (p # ps) idSet m =
     (let (idSet, m) = needed_ids (play_adids p) idSet m in needed_plays ps idSet m)"

definition evict :: "i32 list \<Rightarrow> manager \<Rightarrow> manager" where
  "evict idSet m = m\<lparr>mg_bufImages := (mg_bufImages m) |` set idSet\<rparr>"

fun download_missing :: "env \<Rightarrow> i32 list \<Rightarrow> manager \<Rightarrow> manager option" where
  "download_missing E [] m = Some m"
| "download_missing E (i # ids) m =
     (case (if mg_bufImages m i = None then downloadAd E i m else Some m) of
        None \<Rightarrow> None
      | Some m \<Rightarrow> download_missing E ids m)"

definition downloadAds :: "env \<Rightarrow> manager \<Rightarrow> manager option" where
  "downloadAds E m =
     (if mg_isEndBusiness m then Some m
      else
        let (idSet, m) = needed_plays (pol_adplays (mg_policy m)) [] m
        in case download_missing E idSet (evict idSet m) of
             None \<Rightarrow> None
           | Some m \<Rightarrow>
               Some (if list_ex (\<lambda>i. mg_bufImages m i = None) idSet
                     then async_wait TimerDownload (expires_from_now TimerDownload (5 * 60) m)
                     else m))"

section \<open>Requests to the peer\<close>

definition requestAd :: "env \<Rightarrow> i32 \<Rightarrow> manager \<Rightarrow> (bool \<times> manager) option" where
  "requestAd E adId m =
     (case ask E (Message_new\<lparr>msg_method := ascii ''getAd'', msg_content := be32 adId\<rparr>) m of
        None \<Rightarrow> None
      | Some (msgRsp, m) \<Rightarrow>
          let (ok, a) = env_parse_ad E (msg_content msgRsp)
          in Some (if msg_returncode msgRsp = 0 \<and> ok
                   then let a = utf8ToGB2312_ad E a in (True, map_insert (ad_id a) a m)
                   else (False, m)))"

text \<open>The loops of \<open>requestAdList\<close>: the list into the map, and the advertisements of the lock screen
  (location 1) into \<open>_lockAds\<close> and the play list.\<close>

fun insert_ads :: "env \<Rightarrow> ad list \<Rightarrow> manager \<Rightarrow> manager" where
  "insert_ads E [] m = m"
| "insert_ads E (a # ads) m = (let a = utf8ToGB2312_ad E a in insert_ads E ads (map_insert (ad_id a) a m))"

fun lock_ids :: "i32 list \<Rightarrow> manager \<Rightarrow> manager" where
  "lock_ids [] m = m"
| "lock_ids (i # ids) m =
     (let m = m\<lparr>mg_lockAds := set_insert uint i (mg_lockAds m)\<rparr>;
          (a, m) = map_at i m;
          item = \<lparr>item_id = i, item_type = ad_type a, item_filename = ad_filename a, item_adfile = None\<rparr>
      in lock_ids ids
           (case mg_pPlayer m of
              None \<Rightarrow> m
            | Some p \<Rightarrow> m\<lparr>mg_pPlayer := Some (p\<lparr>pl_playList := pl_playList p @ [item]\<rparr>)\<rparr>))"

fun lock_plays :: "adplay list \<Rightarrow> manager \<Rightarrow> manager" where
  "lock_plays [] m = m"
| "lock_plays (p # ps) m = lock_plays ps (if play_location p = 1 then lock_ids (play_adids p) m else m)"

definition list_response :: "bytes \<Rightarrow> message" where
  "list_response content =
     Message_new\<lparr>msg_id := 0, msg_returncode := 0, msg_method := ascii ''getAdList'', msg_content := content\<rparr>"

definition requestAdList :: "env \<Rightarrow> manager \<Rightarrow> manager option" where
  "requestAdList E m =
     (if mg_isEndBusiness m then Some m
      else
        (case ask E (Message_new\<lparr>msg_method := ascii ''getAdList''\<rparr>) m of
           None \<Rightarrow> None
         | Some (msgRsp, m) \<Rightarrow>
             let (ok, ads) = env_parse_result E (msg_content msgRsp)
             in if msg_returncode msgRsp = 0 \<and> ok
                then
                  let m = m\<lparr>mg_bufAdList := Message_SerializeAsString (env_lib E) (list_response (msg_content msgRsp))\<rparr>;
                      m = insert_ads E ads m;
                      m = (if \<not> mg_isBarServer m then lock_plays (pol_adplays (mg_policy m)) m else m)
                  in downloadAds E m
                else Some (async_wait TimerAdList (expires_from_now TimerAdList (5 * 60) m))))"

definition policy_response :: "bytes \<Rightarrow> message" where
  "policy_response content =
     Message_new\<lparr>msg_id := 0, msg_returncode := 0, msg_method := ascii ''getAdPlayPolicy'', msg_content := content\<rparr>"

text \<open>\<open>_policy.ParseFromString\<close> runs only if the return code is 0, and then changes \<open>_policy\<close> also
  when it fails.\<close>

definition requestAdPlayPolicy :: "env \<Rightarrow> manager \<Rightarrow> manager option" where
  "requestAdPlayPolicy E m =
     (if mg_isEndBusiness m then Some m
      else
        let i = (case env_lexical_cast E (mg_barId m) of Some i \<Rightarrow> i | None \<Rightarrow> 0)
        in case ask E (Message_new\<lparr>msg_method := ascii ''getAdPlayPolicy'', msg_content := be32 i\<rparr>) m of
             None \<Rightarrow> None
           | Some (msgRsp, m) \<Rightarrow>
               let (ok, pol) = env_parse_policy E (msg_content msgRsp);
                   m = (if msg_returncode msgRsp = 0 then m\<lparr>mg_policy := pol\<rparr> else m)
               in map_option (async_wait TimerPolicy)
                    (if msg_returncode msgRsp = 0 \<and> ok
                     then
                       let m = expires_from_now TimerPolicy (6 * 60 * 60) m;
                           m = m\<lparr>mg_bufPolicy := Message_SerializeAsString (env_lib E)
                                   (policy_response (msg_content msgRsp))\<rparr>
                       in requestAdList E m
                     else Some (expires_from_now TimerPolicy (5 * 60) m)))"

section \<open>Requests of the clients\<close>

text \<open>\<open>memcpy (&id, msg.content ().c_str (), 4)\<close>: the content is followed by one zero byte, and
  nothing says what comes after it.\<close>

definition content_id :: "bytes \<Rightarrow> u32 option" where
  "content_id content =
     (if 3 \<le> length content then Some (be32_dec (rev (take 4 (content @ [0])))) else None)"

text \<open>The handler, run on the session \<open>s\<close> the request came from; \<open>None\<close> if it reads past the content.
  Between the two uses of the iterator \<open>it\<close> the business thread may erase the entry; here the
  handler runs as one step.\<close>

definition handleRequest ::
    "pb_lib \<Rightarrow> message \<Rightarrow> manager \<Rightarrow> session \<Rightarrow> (session \<times> action list) option" where
  "handleRequest L msg m s =
     (if msg_method msg = ascii ''getAdPlayPolicy'' then Some (queueRspData L (msg_id msg) (mg_bufPolicy m) s)
      else if msg_method msg = ascii ''getAdList'' then Some (queueRspData L (msg_id msg) (mg_bufAdList m) s)
      else if msg_method msg = ascii ''getAd''
      then (case content_id (msg_content msg) of None \<Rightarrow> None | Some i \<Rightarrow> Some (s, []))
      else if msg_method msg = ascii ''getAdFile''
      then (case content_id (msg_content msg) of
              None \<Rightarrow> None
            | Some i \<Rightarrow>
                (case mg_bufImages m i of
                   Some buf \<Rightarrow> Some (queueRspData L (msg_id msg) buf s)
                 | None \<Rightarrow>
                     Some (queueRspMsg L
                       (msg\<lparr>msg_returncode := 2, msg_returnmsg := ascii ''AdFile not exist''\<rparr>) s)))
      else Some (queueRspMsg L
             (msg\<lparr>msg_returncode := 1, msg_returnmsg := ascii ''method handler not exist''\<rparr>) s))"

section \<open>Queries of the program\<close>

definition getAd :: "i32 \<Rightarrow> manager \<Rightarrow> ad \<times> manager" where
  "getAd adId m = map_at adId m"

text \<open>The loop of \<open>getLockImage\<close>; the \<open>else\<close> belongs to the inner \<open>if\<close>.\<close>

fun lock_image :: "manager \<Rightarrow> u32 list \<Rightarrow> bytes" where
  "lock_image m [] = []"
| "lock_image m (i # ids) =
     (case mg_mapAd m i of
        None \<Rightarrow> lock_image m ids
      | Some a \<Rightarrow>
          if ad_type a \<noteq> 4 then lock_image m ids
          else if ad_image a \<noteq> [] then ad_image a
          else (case mg_bufImages m i of Some buf \<Rightarrow> buf | None \<Rightarrow> lock_image m ids))"

definition getLockImage :: "manager \<Rightarrow> bytes" where
  "getLockImage m = lock_image m (mg_lockAds m)"

text \<open>\<open>*_bufImages[adId]\<close>: \<open>None\<close> if the entry is missing, a null pointer is then dereferenced.\<close>

definition getAdFile :: "i32 \<Rightarrow> manager \<Rightarrow> bytes option" where
  "getAdFile adId m = mg_bufImages m adId"

definition getAdList :: "manager \<Rightarrow> u32 \<Rightarrow> ad option" where
  "getAdList m = mg_mapAd m"

definition getAdPlayPolicy :: "manager \<Rightarrow> policy" where
  "getAdPlayPolicy m = mg_policy m"

section \<open>The life of the business\<close>

text \<open>\<open>while (!_tcpClient->syncConnect (_endpoint)) sleep\<close>; \<open>None\<close> if no attempt succeeds.\<close>

partial_function (option) connect_until :: "env \<Rightarrow> nat \<Rightarrow> endpoint \<Rightarrow> client \<Rightarrow> client option" where
  "connect_until E k ep c =
     (let (peer, pec) = env_remote E k; (ok, c, acts) = syncConnect ep (env_connect E k) peer pec c
      in if ok then Some c else connect_until E (Suc k) ep c)"

text \<open>\<open>created\<close> is what \<open>CPlayer::CreateInstance\<close> gives.  The function posted to the business thread is
  \<open>posted_business\<close>.\<close>

definition bgnBusiness :: "player option \<Rightarrow> manager \<Rightarrow> manager" where
  "bgnBusiness created m =
     (if mg_isBarServer m then m\<lparr>mg_server := Some (fst (server_start TcpServer))\<rparr>
      else m\<lparr>mg_pPlayer := created\<rparr>)"

definition posted_business :: "env \<Rightarrow> manager \<Rightarrow> manager option" where
  "posted_business E m =
     (case connect_until E 0 (mg_endpoint m) (mg_client m) of
        None \<Rightarrow> None
      | Some c \<Rightarrow> requestAdPlayPolicy E (m\<lparr>mg_client := c\<rparr>))"

definition setVideoWnd :: "api \<Rightarrow> (nat \<Rightarrow> bool) \<Rightarrow> nat \<Rightarrow> manager \<Rightarrow> com \<Rightarrow> manager \<times> com" where
  "setVideoWnd api rdy hwnd m w =
     (let m = m\<lparr>mg_hwnd := hwnd\<rparr>
      in case mg_pPlayer m of
           None \<Rightarrow> (m, w)
         | Some p \<Rightarrow> let (p, w) = SetVideoWindow api rdy hwnd p w in (m\<lparr>mg_pPlayer := Some p\<rparr>, w))"

definition closeVideoWnd :: "api \<Rightarrow> bool \<Rightarrow> manager \<Rightarrow> com \<Rightarrow> manager \<times> com" where
  "closeVideoWnd api mfshutdown m w =
     (case mg_pPlayer m of
        None \<Rightarrow> (m, w)
      | Some p \<Rightarrow> let (hr, p, w) = Shutdown api mfshutdown p w in (m\<lparr>mg_pPlayer := Some p\<rparr>, w))"

text \<open>After \<open>_iosBiz.stop\<close> and the join no handler runs any more.\<close>

definition endBusiness :: "api \<Rightarrow> bool \<Rightarrow> manager \<Rightarrow> com \<Rightarrow> manager \<times> com" where
  "endBusiness api mfshutdown m w =
     (let m = m\<lparr>mg_isEndBusiness := True, mg_client := client_stop (mg_client m),
                mg_server := map_option server_stop (mg_server m), mg_waiting := [], mg_ready := []\<rparr>
      in case mg_pPlayer m of
           None \<Rightarrow> (m, w)
         | Some p \<Rightarrow>
             let (hr, p, w) = Shutdown api mfshutdown p w; (n, q, w) = player_Release api mfshutdown p w
             in (m\<lparr>mg_pPlayer := q\<rparr>, w))"

end
