(* ===== verification/ManagerRun.thy ===== *)
theory ManagerRun
  imports Manager "HOL-Library.Sublist"
begin

text \<open>
  The runs of the advertisement business and what its operations keep: the handlers of the three
  timers, what an operation may do to the state besides its own work (\<open>extends\<close>, \<open>quiet\<close>), the
  check of the digests, and the loops of \<open>downloadAds\<close> against the set of files the policy needs.
\<close>

section \<open>Runs\<close>

fun run_timer :: "env \<Rightarrow> timer \<Rightarrow> manager \<Rightarrow> manager option" where
  "run_timer E TimerPolicy m = requestAdPlayPolicy E m"
| "run_timer E TimerAdList m = requestAdList E m"
| "run_timer E TimerDownload m = downloadAds E m"

text \<open>The handler of a cancelled wait runs at once.\<close>

inductive hurry :: "env \<Rightarrow> manager \<Rightarrow> manager \<Rightarrow> bool" for E :: env where
  cancelled: "mg_ready m = t # ts \<Longrightarrow> run_timer E t (m\<lparr>mg_ready := ts\<rparr>) = Some m' \<Longrightarrow> hurry E m m'"

text \<open>A step of the business: the posted start, a timer that expires, a cancelled wait, or a call of the
  program.\<close>

inductive biz :: "env \<Rightarrow> manager \<Rightarrow> manager \<Rightarrow> bool" for E :: env where
  posted: "posted_business E m = Some m' \<Longrightarrow> biz E m m'"
| expired: "mg_waiting m = xs @ t # ys \<Longrightarrow> run_timer E t (m\<lparr>mg_waiting := xs @ ys\<rparr>) = Some m' \<Longrightarrow> biz E m m'"
| hurried: "hurry E m m' \<Longrightarrow> biz E m m'"
| requested: "requestAd E i m = Some (ok, m') \<Longrightarrow> biz E m m'"
| queried: "biz E m (snd (getAd i m))"
| shown: "biz E m (fst (setVideoWnd api rdy hwnd m w))"
| closed: "biz E m (fst (closeVideoWnd api mfshutdown m w))"
| ended: "biz E m (fst (endBusiness api mfshutdown m w))"

inductive_cases hurryE: "hurry E m m'"
inductive_cases bizE: "biz E m m'"

section \<open>What the operations leave alone\<close>

definition pend :: "manager \<Rightarrow> timer set" where
  "pend m = set (mg_waiting m) \<union> set (mg_ready m)"

text \<open>The requests that were added to a history, none of them for the policy.\<close>

definition appends :: "message list \<Rightarrow> message list \<Rightarrow> bool" where
  "appends hist hist' \<longleftrightarrow>
     (\<exists>more. hist' = hist @ more \<and> (\<forall>x \<in> set more. msg_method x \<noteq> ascii ''getAdPlayPolicy''))"

lemma appends_refl [simp]: "appends hist hist"
  by (simp add: appends_def)

lemma appends_trans: "appends h1 h2 \<Longrightarrow> appends h2 h3 \<Longrightarrow> appends h1 h3"
  by (force simp: appends_def)

lemma appends_prefix: "appends hist hist' \<Longrightarrow> prefix hist hist'"
  by (auto simp: appends_def)

lemma appends_one [simp]: "appends hist (hist @ [x]) \<longleftrightarrow> msg_method x \<noteq> ascii ''getAdPlayPolicy''"
  by (auto simp: appends_def)

lemma methods_differ:
  "ascii ''getAdList'' \<noteq> ascii ''getAdPlayPolicy''" "ascii ''getAdFile'' \<noteq> ascii ''getAdPlayPolicy''"
  "ascii ''getAd'' \<noteq> ascii ''getAdPlayPolicy''"
  "ascii ''getAdFile'' \<noteq> ascii ''getAdList''" "ascii ''getAdFile'' \<noteq> ascii ''getAd''"
  by (simp_all add: ascii_def)

definition extends :: "manager \<Rightarrow> manager \<Rightarrow> bool" where
  "extends m m' \<longleftrightarrow>
     mg_isBarServer m' = mg_isBarServer m \<and> mg_isEndBusiness m' = mg_isEndBusiness m
     \<and> mg_mapAd m \<subseteq>\<^sub>m mg_mapAd m' \<and> appends (mg_sent m) (mg_sent m')
     \<and> mg_bufPolicy m' = mg_bufPolicy m \<and> pend m \<subseteq> pend m'"

definition quiet :: "manager \<Rightarrow> manager \<Rightarrow> bool" where
  "quiet m m' \<longleftrightarrow> extends m m' \<and> mg_bufImages m' = mg_bufImages m"

text \<open>The policy request also replaces the answer it serves.\<close>

definition grows :: "manager \<Rightarrow> manager \<Rightarrow> bool" where
  "grows m m' \<longleftrightarrow> mg_isBarServer m' = mg_isBarServer m \<and> mg_isEndBusiness m' = mg_isEndBusiness m
     \<and> mg_mapAd m \<subseteq>\<^sub>m mg_mapAd m' \<and> prefix (mg_sent m) (mg_sent m') \<and> pend m \<subseteq> pend m'"

lemma grows_extends: "extends m m' \<Longrightarrow> grows m m'"
  by (simp add: grows_def extends_def appends_prefix)

lemma grows_trans:
  assumes "grows m m'" "grows m' m''"
  shows "grows m m''"
proof -
  have "mg_mapAd m \<subseteq>\<^sub>m mg_mapAd m''"
    by (rule map_le_trans [of _ "mg_mapAd m'"]) (use assms in \<open>simp_all add: grows_def\<close>)
  moreover have "prefix (mg_sent m) (mg_sent m'')"
    by (rule prefix_order.trans [of _ "mg_sent m'"]) (use assms in \<open>simp_all add: grows_def\<close>)
  ultimately show ?thesis using assms by (auto simp: grows_def)
qed

lemma extends_refl [simp]: "extends m m"
  by (simp add: extends_def)

lemma extends_trans: "extends m m' \<Longrightarrow> extends m' m'' \<Longrightarrow> extends m m''"
  unfolding extends_def using map_le_trans appends_trans by (metis subset_trans)

lemma extends_known: "extends m m' \<Longrightarrow> mg_mapAd m i = Some a \<Longrightarrow> mg_mapAd m' i = Some a"
  unfolding extends_def map_le_def by (metis domI)

lemma quiet_refl [simp]: "quiet m m"
  by (simp add: quiet_def)

lemma quiet_trans: "quiet m m' \<Longrightarrow> quiet m' m'' \<Longrightarrow> quiet m m''"
  unfolding quiet_def using extends_trans by metis

lemma map_le_insert: "f i = None \<Longrightarrow> f \<subseteq>\<^sub>m f(i \<mapsto> a)"
  by (auto simp: map_le_def)

lemma quiet_map_insert: "quiet m (map_insert i a m)"
  by (simp add: quiet_def extends_def map_insert_def pend_def map_le_insert)

lemma quiet_map_at: "quiet m (snd (map_at i m))"
  by (simp add: quiet_def extends_def map_at_def pend_def map_le_insert split: option.split)

text \<open>A request that is answered.\<close>

lemma askE:
  assumes "ask E msg m = Some r"
  obtains rsp where "env_peer E (mg_sent m @ [msg]) = Some rsp"
    "r = (utf8ToGB2312_msg E rsp, m\<lparr>mg_sent := mg_sent m @ [msg]\<rparr>)"
  using assms by (auto simp: ask_def Let_def split: option.splits)

lemma utf8ToGB2312_msg_sel [simp]:
  "msg_content (utf8ToGB2312_msg E rsp) = msg_content rsp"
  "msg_returncode (utf8ToGB2312_msg E rsp) = msg_returncode rsp"
  by (simp_all add: utf8ToGB2312_msg_def)

lemma quiet_sent:
  "msg_method msg \<noteq> ascii ''getAdPlayPolicy'' \<Longrightarrow> quiet m (m\<lparr>mg_sent := mg_sent m @ [msg]\<rparr>)"
  by (simp add: quiet_def extends_def pend_def)

lemma quiet_ask: "ask E msg m = Some (rsp, m') \<Longrightarrow> msg_method msg \<noteq> ascii ''getAdPlayPolicy'' \<Longrightarrow> quiet m m'"
  by (erule askE) (simp add: quiet_sent)

lemma pend_expires [manager_simps]: "pend (expires_from_now t n m) = pend m"
  by (auto simp: pend_def expires_from_now_def)

lemma pend_wait [manager_simps]: "pend (async_wait t m) = insert t (pend m)"
  by (auto simp: pend_def async_wait_def)

lemma quiet_timer: "quiet m (async_wait t (expires_from_now t n m))"
  by (auto simp: quiet_def extends_def manager_simps) (simp_all add: async_wait_def expires_from_now_def)

lemma quiet_needed_ids: "quiet m (snd (needed_ids ids S m))"
proof (induction ids S m rule: needed_ids.induct)
  case (2 i ids S m)
  then show ?case
    using quiet_trans [OF quiet_map_at [of m i]] by (simp add: split_beta Let_def)
qed simp

lemma quiet_needed_plays: "quiet m (snd (needed_plays ps S m))"
proof (induction ps S m rule: needed_plays.induct)
  case (2 p ps S m)
  then show ?case
    using quiet_trans [OF quiet_needed_ids [of m "play_adids p" S]] by (simp add: split_beta Let_def)
qed simp

lemma quiet_insert_ads: "quiet m (insert_ads E ads m)"
  by (induction E ads m rule: insert_ads.induct)
     (auto simp: Let_def intro: quiet_trans [OF quiet_map_insert])

lemma quiet_player: "quiet m (m\<lparr>mg_pPlayer := p\<rparr>)" "quiet m (m\<lparr>mg_lockAds := l\<rparr>)"
  "quiet m (m\<lparr>mg_sourceReady := b\<rparr>)" "quiet m (m\<lparr>mg_hwnd := h\<rparr>)" "quiet m (m\<lparr>mg_bufAdList := buf\<rparr>)"
  "quiet m (m\<lparr>mg_policy := pol\<rparr>)" "quiet m (m\<lparr>mg_client := c\<rparr>)" "quiet m (m\<lparr>mg_fetched := us\<rparr>)"
  "quiet m (m\<lparr>mg_files := fs\<rparr>)"
  by (simp_all add: quiet_def extends_def pend_def)

lemma quiet_lock_ids: "quiet m (lock_ids ids m)"
proof (induction ids arbitrary: m)
  case (Cons i ids)
  let ?m = "m\<lparr>mg_lockAds := set_insert uint i (mg_lockAds m)\<rparr>"
  have q: "quiet m (snd (map_at i ?m))" by (rule quiet_trans [OF quiet_player(2) quiet_map_at])
  show ?case
    by (auto simp: split_beta Let_def intro!: quiet_trans [OF _ Cons.IH] q quiet_trans [OF q quiet_player(1)]
        split: option.split)
qed simp

lemma quiet_lock_plays: "quiet m (lock_plays ps m)"
  by (induction ps m rule: lock_plays.induct) (auto intro: quiet_trans [OF quiet_lock_ids])


section \<open>The check of the digests\<close>

text \<open>Every file kept in memory belongs to a known advertisement that can be downloaded, and is a body
  that the web or the peer delivered and whose digest is the one of the advertisement, with no
  regard to the case of the digits: the body itself on a client, the answer to a client on a
  server.\<close>

definition delivered :: "env \<Rightarrow> bool \<Rightarrow> bytes \<Rightarrow> bool" where
  "delivered E isBarServer body \<longleftrightarrow>
     (if isBarServer then \<exists>urls. env_http E urls = Some (Inr (200, body))
      else \<exists>hist rsp. env_peer E hist = Some rsp \<and> msg_content rsp = body)"

definition verified_image :: "env \<Rightarrow> manager \<Rightarrow> u32 \<Rightarrow> bytes \<Rightarrow> bool" where
  "verified_image E m i buf \<longleftrightarrow>
     (\<exists>a body md5. mg_mapAd m i = Some a \<and> ad_download a \<noteq> [] \<and> file_md5 E body = Some md5
        \<and> to_upper_copy (ad_md5 a) = to_upper_copy md5 \<and> delivered E (mg_isBarServer m) body
        \<and> buf = (if mg_isBarServer m then Message_SerializeAsString (env_lib E) (file_response body) else body))"

definition verified :: "env \<Rightarrow> manager \<Rightarrow> bool" where
  "verified E m \<longleftrightarrow> (\<forall>i buf. mg_bufImages m i = Some buf \<longrightarrow> verified_image E m i buf)"

lemma verified_image_mono:
  assumes "extends m m'" "verified_image E m i buf"
  shows "verified_image E m' i buf"
proof -
  have "mg_isBarServer m' = mg_isBarServer m" using assms(1) by (simp add: extends_def)
  then show ?thesis using assms(2) extends_known [OF assms(1)] unfolding verified_image_def by (simp only:) blast
qed

lemma verified_quiet: "quiet m m' \<Longrightarrow> verified E m \<Longrightarrow> verified E m'"
  unfolding verified_def quiet_def by (metis verified_image_mono)

lemma img_insert_keeps [manager_simps]:
  "mg_isBarServer (img_insert i buf m) = mg_isBarServer m"
  "mg_mapAd (img_insert i buf m) = mg_mapAd m"
  "mg_lockAds (img_insert i buf m) = mg_lockAds m"
  "mg_pPlayer (img_insert i buf m) = mg_pPlayer m"
  "mg_waiting (img_insert i buf m) = mg_waiting m"
  by (simp_all add: img_insert_def)

lemma extends_img_insert: "extends m (img_insert i buf m)"
  by (simp add: extends_def img_insert_def pend_def)

lemma verified_insert:
  assumes "verified E m" "verified_image E m i buf"
  shows "verified E (img_insert i buf m)"
proof -
  have "verified_image E (img_insert i buf m) j b" if "mg_bufImages (img_insert i buf m) j = Some b" for j b
  proof -
    have "mg_bufImages m j = Some b \<or> j = i \<and> b = buf"
      using that by (auto simp: img_insert_def split: if_splits)
    then have "verified_image E m j b" using assms by (auto simp: verified_def)
    then show ?thesis by (rule verified_image_mono [OF extends_img_insert])
  qed
  then show ?thesis by (simp add: verified_def)
qed

text \<open>What a download does: it verifies what it inserts, and touches no other file.\<close>

definition fetches :: "env \<Rightarrow> u32 \<Rightarrow> manager \<Rightarrow> manager \<Rightarrow> bool" where
  "fetches E i m m' \<longleftrightarrow> extends m m' \<and> (verified E m \<longrightarrow> verified E m')
     \<and> (\<forall>j. j \<noteq> i \<longrightarrow> mg_bufImages m' j = mg_bufImages m j) \<and> mg_bufImages m \<subseteq>\<^sub>m mg_bufImages m'"

lemma fetches_quiet: "quiet m m' \<Longrightarrow> fetches E i m m'"
  unfolding fetches_def using verified_quiet by (auto simp: quiet_def)

lemma fetches_trans: "fetches E i m m' \<Longrightarrow> fetches E i m' m'' \<Longrightarrow> fetches E i m m''"
  unfolding fetches_def using extends_trans map_le_trans by metis

lemma fetches_insert:
  "verified_image E m i buf \<Longrightarrow> fetches E i m (img_insert i buf m)"
  unfolding fetches_def using extends_img_insert verified_insert
  by (auto simp: img_insert_def map_le_insert)

lemma download_urls_fetches:
  assumes "download_urls E i a urls m = Some m'" "mg_mapAd m i = Some a" "ad_download a \<noteq> []" "mg_isBarServer m"
  shows "fetches E i m m'"
  using assms
proof (induction urls arbitrary: m)
  case (Cons url urls)
  let ?m = "m\<lparr>mg_fetched := mg_fetched m @ [url]\<rparr>"
  have q: "fetches E i m ?m" by (rule fetches_quiet [OF quiet_player(8)])
  have next_url: "fetches E i m m'" if "download_urls E i a urls ?m = Some m'"
    using fetches_trans [OF q Cons.IH [OF that]] Cons.prems by simp
  show ?case
  proof (cases "\<exists>body md5. env_http E (mg_fetched ?m) = Some (Inr (200, body)) \<and> file_md5 E body = Some md5
      \<and> to_upper_copy (ad_md5 a) = to_upper_copy md5")
    case True
    then obtain body md5 where b: "env_http E (mg_fetched ?m) = Some (Inr (200, body))" "file_md5 E body = Some md5"
      "to_upper_copy (ad_md5 a) = to_upper_copy md5" by blast
    have v: "verified_image E ?m i (Message_SerializeAsString (env_lib E) (file_response body))"
      using Cons.prems b by (simp add: verified_image_def delivered_def) blast
    show ?thesis
      using Cons.prems(1) b
        fetches_trans [OF fetches_trans [OF q fetches_insert [OF v]] fetches_quiet [OF quiet_player(9)]]
      by (auto simp: Let_def)
  next
    case False
    then show ?thesis
      using Cons.prems(1) next_url by (auto simp: Let_def split: sum.splits option.splits if_splits)
  qed
qed (simp add: fetches_quiet)

lemma download_peer_fetches:
  assumes "download_peer E i a m = Some m'" "mg_mapAd m i = Some a" "ad_download a \<noteq> []" "\<not> mg_isBarServer m"
  shows "fetches E i m m'"
proof -
  obtain rsp m1 where r: "ask E (Message_new\<lparr>msg_method := ascii ''getAdFile'', msg_content := le32 i\<rparr>) m = Some (rsp, m1)"
    using assms(1) by (auto simp: download_peer_def split: option.splits)
  have q: "quiet m m1" using quiet_ask [OF r] methods_differ(2) by simp
  have d: "\<exists>hist rsp'. env_peer E hist = Some rsp' \<and> msg_content rsp' = msg_content rsp"
    using r by (elim askE) auto
  have m1: "mg_mapAd m1 i = Some a" "\<not> mg_isBarServer m1"
    using q assms(2,4) extends_known by (auto simp: quiet_def extends_def)
  show ?thesis
  proof (cases "msg_returncode rsp = 0 \<and> (\<exists>md5. file_md5 E (msg_content rsp) = Some md5
      \<and> to_upper_copy (ad_md5 a) = to_upper_copy md5)")
    case True
    then obtain md5 where "file_md5 E (msg_content rsp) = Some md5" "to_upper_copy (ad_md5 a) = to_upper_copy md5"
      by blast
    then have v: "verified_image E m1 i (msg_content rsp)"
      using m1 assms(3) d by (simp add: verified_image_def delivered_def)
    have f: "fetches E i m (img_insert i (msg_content rsp) m1)"
      by (rule fetches_trans [OF fetches_quiet [OF q] fetches_insert [OF v]])
    have "fetches E i m
        ((img_insert i (msg_content rsp) m1)\<lparr>mg_pPlayer := p, mg_sourceReady := True\<rparr>)" for p
      by (rule fetches_trans [OF f fetches_quiet [OF quiet_trans [OF quiet_player(1) quiet_player(3)]]])
    then show ?thesis
      using assms(1) r True f by (auto simp: download_peer_def Let_def split: if_splits option.splits)
  next
    case False
    then show ?thesis
      using assms(1) r fetches_quiet [OF q]
      by (auto simp: download_peer_def Let_def split: if_splits option.splits)
  qed
qed

lemma downloadAd_fetches: "downloadAd E i m = Some m' \<Longrightarrow> fetches E i m m'"
  unfolding downloadAd_def
  by (auto split: option.splits if_splits
      intro: download_urls_fetches download_peer_fetches fetches_quiet [OF quiet_refl])


section \<open>The files the policy needs\<close>

definition downloadable :: "manager \<Rightarrow> i32 \<Rightarrow> bool" where
  "downloadable m i \<longleftrightarrow> (case mg_mapAd m i of None \<Rightarrow> False | Some a \<Rightarrow> ad_download a \<noteq> [])"

text \<open>The reference for the loops of \<open>downloadAds\<close>: a set.\<close>

definition wanted :: "manager \<Rightarrow> i32 set" where
  "wanted m = {i \<in> (\<Union>p \<in> set (pol_adplays (mg_policy m)). set (play_adids p)). downloadable m i}"

lemma set_set_insert: "inj key \<Longrightarrow> set (set_insert key x ys) = insert x (set ys)"
  by (induction key x ys rule: set_insert.induct) (auto dest: injD)

lemma set_insert_sorted:
  "sorted_wrt (\<lambda>x y. key x < key y) ys \<Longrightarrow> inj key \<Longrightarrow> sorted_wrt (\<lambda>x y. key x < key y) (set_insert key x ys)"
  by (induction key x ys rule: set_insert.induct) (auto simp: set_set_insert)

lemma inj_sint: "inj (sint :: 'a::len word \<Rightarrow> int)"
  by (rule inj_on_inverseI [where g = word_of_int]) simp

lemma inj_uint: "inj (uint :: 'a::len word \<Rightarrow> int)"
  by (rule inj_on_inverseI [where g = word_of_int]) simp

lemma downloadable_map_at [manager_simps]: "downloadable (snd (map_at i m)) = downloadable m"
  by (rule ext) (auto simp: downloadable_def map_at_def Ad_new_def split: option.split)

lemma fst_map_at: "ad_download (fst (map_at i m)) \<noteq> [] \<longleftrightarrow> downloadable m i"
  by (auto simp: downloadable_def map_at_def Ad_new_def split: option.split)

lemma needed_ids_set:
  "set (fst (needed_ids ids S m)) = set S \<union> {i \<in> set ids. downloadable m i}
   \<and> downloadable (snd (needed_ids ids S m)) = downloadable m"
proof (induction ids arbitrary: S m)
  case (Cons i ids)
  then show ?case
    by (auto simp: split_beta Let_def manager_simps fst_map_at set_set_insert [OF inj_sint] simp del: not_Cons_self2)
qed simp

lemma needed_plays_set:
  "set (fst (needed_plays ps S m)) = set S \<union> {i \<in> (\<Union>p \<in> set ps. set (play_adids p)). downloadable m i}
   \<and> downloadable (snd (needed_plays ps S m)) = downloadable m"
  by (induction ps arbitrary: S m) (auto simp: split_beta Let_def needed_ids_set)

lemma needed_wanted: "set (fst (needed_plays (pol_adplays (mg_policy m)) [] m)) = wanted m"
  by (simp add: needed_plays_set wanted_def)

lemma extends_evict: "extends m (evict S m)"
  by (simp add: extends_def evict_def pend_def)

lemma verified_evict:
  assumes "verified E m"
  shows "verified E (evict S m)"
  unfolding verified_def
proof (intro allI impI)
  fix i buf assume "mg_bufImages (evict S m) i = Some buf"
  then have "mg_bufImages m i = Some buf" by (auto simp: evict_def restrict_map_def split: if_splits)
  then have "verified_image E m i buf" using assms by (simp add: verified_def)
  then show "verified_image E (evict S m) i buf" by (rule verified_image_mono [OF extends_evict])
qed

lemma download_missing_fetches:
  assumes "download_missing E ids m = Some m'"
  shows "extends m m' \<and> (verified E m \<longrightarrow> verified E m') \<and> mg_bufImages m \<subseteq>\<^sub>m mg_bufImages m'
    \<and> (\<forall>j. j \<notin> set ids \<longrightarrow> mg_bufImages m' j = mg_bufImages m j)"
  using assms
proof (induction ids arbitrary: m)
  case (Cons i ids)
  then obtain m1 where m1: "(if mg_bufImages m i = None then downloadAd E i m else Some m) = Some m1"
    "download_missing E ids m1 = Some m'"
    by (auto split: option.splits if_splits)
  then have "fetches E i m m1"
    using downloadAd_fetches fetches_quiet [OF quiet_refl] by (auto split: if_splits)
  with Cons.IH [OF m1(2)] show ?case
    unfolding fetches_def using extends_trans map_le_trans by (metis list.set_intros)
qed simp

section \<open>What is asked for\<close>

text \<open>The request for a file, the body of a good answer to the last of the requests \<open>hist\<close>, and the body
  the web gives for the last of the addresses \<open>hist\<close>: good is a body of the right digest, with return
  code 0 or status 200.\<close>

definition file_request :: "u32 \<Rightarrow> message" where
  "file_request i = Message_new\<lparr>msg_method := ascii ''getAdFile'', msg_content := le32 i\<rparr>"

definition good_body :: "env \<Rightarrow> ad \<Rightarrow> bytes \<Rightarrow> bool" where
  "good_body E a body \<longleftrightarrow>
     (case file_md5 E body of None \<Rightarrow> False | Some md5 \<Rightarrow> to_upper_copy (ad_md5 a) = to_upper_copy md5)"

definition peer_file :: "env \<Rightarrow> ad \<Rightarrow> message list \<Rightarrow> bytes option" where
  "peer_file E a hist =
     (case env_peer E hist of
        None \<Rightarrow> None
      | Some rsp \<Rightarrow> if msg_returncode rsp = 0 \<and> good_body E a (msg_content rsp) then Some (msg_content rsp) else None)"

definition web_file :: "env \<Rightarrow> ad \<Rightarrow> bytes list \<Rightarrow> bytes option" where
  "web_file E a hist =
     (case env_http E hist of
        Some (Inr (status, body)) \<Rightarrow> if status = 200 \<and> good_body E a body then Some body else None
      | _ \<Rightarrow> None)"

text \<open>A client sends one request for each of the files \<open>ids\<close>, in this order, and keeps the good answers.\<close>

definition asks_peer :: "env \<Rightarrow> manager \<Rightarrow> i32 list \<Rightarrow> manager \<Rightarrow> bool" where
  "asks_peer E m ids m' \<longleftrightarrow> mg_fetched m' = mg_fetched m \<and> mg_sent m' = mg_sent m @ map file_request ids
     \<and> (\<forall>k < length ids. mg_bufImages m' (ids ! k) =
          peer_file E (the (mg_mapAd m (ids ! k))) (mg_sent m @ map file_request (take (Suc k) ids)))"

text \<open>A server fetches for each of the files \<open>ids\<close> some of its addresses, in their order, up to the first
  that gives a good body, whose answer it keeps, or all of them.\<close>

definition tries :: "env \<Rightarrow> ad \<Rightarrow> bytes list \<Rightarrow> bytes list \<Rightarrow> bytes option \<Rightarrow> bool" where
  "tries E a hist log img \<longleftrightarrow> log \<noteq> [] \<and> prefix log (ad_download a)
     \<and> (\<forall>n. 0 < n \<and> n < length log \<longrightarrow> web_file E a (hist @ take n log) = None)
     \<and> (case web_file E a (hist @ log) of
          Some body \<Rightarrow> img = Some (Message_SerializeAsString (env_lib E) (file_response body))
        | None \<Rightarrow> log = ad_download a \<and> img = None)"

definition asks_web :: "env \<Rightarrow> manager \<Rightarrow> i32 list \<Rightarrow> manager \<Rightarrow> bool" where
  "asks_web E m ids m' \<longleftrightarrow> mg_sent m' = mg_sent m
     \<and> (\<exists>logs. length logs = length ids \<and> mg_fetched m' = mg_fetched m @ concat logs
          \<and> (\<forall>k < length ids. tries E (the (mg_mapAd m (ids ! k))) (mg_fetched m @ concat (take k logs))
               (logs ! k) (mg_bufImages m' (ids ! k))))"

lemma download_urls_asks:
  assumes "download_urls E i a urls m = Some m'" "mg_bufImages m i = None" "urls \<noteq> []"
  shows "mg_sent m' = mg_sent m \<and> (\<exists>log. mg_fetched m' = mg_fetched m @ log
    \<and> tries E (a\<lparr>ad_download := urls\<rparr>) (mg_fetched m) log (mg_bufImages m' i))"
  using assms
proof (induction urls arbitrary: m)
  case (Cons url urls)
  let ?m = "m\<lparr>mg_fetched := mg_fetched m @ [url]\<rparr>"
  have w: "web_file E (a\<lparr>ad_download := us\<rparr>) = web_file E a" for us
    by (auto simp: fun_eq_iff web_file_def good_body_def split: option.split sum.split)
  show ?case
  proof (cases "web_file E a (mg_fetched m @ [url])")
    case (Some body)
    then have "m' = (img_insert i (Message_SerializeAsString (env_lib E) (file_response body)) ?m)
        \<lparr>mg_files := mg_files m @ [(ad_filename a, body @ [10])]\<rparr>"
      using Cons.prems(1)
      by (auto simp: web_file_def good_body_def img_insert_def Let_def split: option.splits sum.splits if_splits)
    then show ?thesis
      using Some Cons.prems(2) by (auto simp: tries_def w img_insert_def intro!: exI [of _ "[url]"])
  next
    case None
    then have m': "download_urls E i a urls ?m = Some m'"
      using Cons.prems(1)
      by (auto simp: web_file_def good_body_def Let_def split: option.splits sum.splits if_splits)
    show ?thesis
    proof (cases "urls = []")
      case True
      then show ?thesis using m' None Cons.prems(2) by (auto simp: tries_def w)
    next
      case False
      from Cons.IH [OF m' _ False] Cons.prems(2) obtain log where "mg_sent m' = mg_sent m"
        "mg_fetched m' = mg_fetched ?m @ log"
        and t: "tries E (a\<lparr>ad_download := urls\<rparr>) (mg_fetched ?m) log (mg_bufImages m' i)" by auto
      moreover have "web_file E a (mg_fetched m @ take n (url # log)) = None" if "0 < n" "n < length (url # log)" for n
      proof (cases "n = 1")
        case True
        then show ?thesis using None by simp
      next
        case False
        then have "0 < n - 1" "n - 1 < length log" "take n (url # log) = url # take (n - 1) log"
          using that by (auto simp: take_Cons')
        then show ?thesis using t by (auto simp: tries_def w)
      qed
      ultimately show ?thesis
        by (auto simp: tries_def w intro!: exI [of _ "url # log"] split: option.splits)
    qed
  qed
qed simp

lemma download_peer_asks:
  assumes "download_peer E i a m = Some m'" "mg_bufImages m i = None"
  shows "mg_fetched m' = mg_fetched m \<and> mg_sent m' = mg_sent m @ [file_request i]
    \<and> mg_bufImages m' i = peer_file E a (mg_sent m @ [file_request i])"
  using assms
  by (auto simp: download_peer_def ask_def file_request_def peer_file_def good_body_def img_insert_def Let_def
      split: option.splits if_splits)

lemma downloadAd_keeps_map:
  assumes "downloadAd E i m = Some m'"
  shows "mg_mapAd m' = mg_mapAd m \<and> mg_isBarServer m' = mg_isBarServer m \<and> mg_waiting m' = mg_waiting m"
proof -
  have urls: "mg_mapAd m' = mg_mapAd m \<and> mg_waiting m' = mg_waiting m" if "download_urls E i a urls m = Some m'" for a urls m m'
    using that by (induction urls arbitrary: m)
      (auto simp: Let_def manager_simps split: sum.splits option.splits if_splits)
  have "mg_isBarServer m' = mg_isBarServer m"
    using downloadAd_fetches [OF assms] by (simp add: fetches_def extends_def)
  then show ?thesis
    using assms urls
    by (auto simp: downloadAd_def download_peer_def ask_def Let_def manager_simps split: option.splits if_splits)
qed

lemma asks_peer_Cons:
  assumes "mg_fetched m1 = mg_fetched m" "mg_sent m1 = mg_sent m @ [file_request i]" "mg_mapAd m1 = mg_mapAd m"
    "mg_bufImages m' i = peer_file E (the (mg_mapAd m i)) (mg_sent m @ [file_request i])" "asks_peer E m1 ids m'"
  shows "asks_peer E m (i # ids) m'"
  using assms by (simp add: asks_peer_def All_less_Suc2)

lemma asks_web_Cons:
  assumes "mg_sent m1 = mg_sent m" "mg_fetched m1 = mg_fetched m @ log" "mg_mapAd m1 = mg_mapAd m"
    "tries E (the (mg_mapAd m i)) (mg_fetched m) log (mg_bufImages m' i)" "asks_web E m1 ids m'"
  shows "asks_web E m (i # ids) m'"
proof -
  obtain logs where "mg_sent m' = mg_sent m1" "length logs = length ids" "mg_fetched m' = mg_fetched m1 @ concat logs"
    "\<forall>k < length ids. tries E (the (mg_mapAd m1 (ids ! k))) (mg_fetched m1 @ concat (take k logs)) (logs ! k)
       (mg_bufImages m' (ids ! k))"
    using assms(5) unfolding asks_web_def by blast
  then show ?thesis
    using assms(1-4) by (auto simp: asks_web_def All_less_Suc2 intro!: exI [of _ "log # logs"])
qed

lemma asks_cong:
  assumes "mg_sent m1 = mg_sent m" "mg_fetched m1 = mg_fetched m" "mg_bufImages m' = mg_bufImages m2"
    "mg_sent m' = mg_sent m2" "mg_fetched m' = mg_fetched m2" "\<And>i. i \<in> set ids \<Longrightarrow> mg_mapAd m1 i = mg_mapAd m i"
  shows "asks_web E m1 ids m2 \<Longrightarrow> asks_web E m ids m'" "asks_peer E m1 ids m2 \<Longrightarrow> asks_peer E m ids m'"
proof -
  have k: "mg_mapAd m1 (ids ! k) = mg_mapAd m (ids ! k)" if "k < length ids" for k using that assms(6) by simp
  show "asks_web E m ids m'" if "asks_web E m1 ids m2"
    using that k unfolding asks_web_def assms(1-5) by (elim conjE exE) (intro conjI exI, assumption+, simp)
  show "asks_peer E m ids m'" if "asks_peer E m1 ids m2"
    using that k unfolding asks_peer_def assms(1-5) by simp
qed

lemma download_missing_asks:
  assumes "download_missing E ids m = Some m'" "distinct ids" "\<forall>i \<in> set ids. downloadable m i"
  shows "(if mg_isBarServer m then asks_web else asks_peer) E m (filter (\<lambda>i. mg_bufImages m i = None) ids) m'"
  using assms
proof (induction ids arbitrary: m)
  case Nil
  then show ?case by (auto simp: asks_web_def asks_peer_def)
next
  case (Cons i ids)
  show ?case
  proof (cases "mg_bufImages m i = None")
    case False
    then show ?thesis using Cons.IH [of m] Cons.prems by auto
  next
    case True
    then obtain m1 where m1: "downloadAd E i m = Some m1" "download_missing E ids m1 = Some m'"
      using Cons.prems(1) by (auto split: option.splits)
    obtain a where a: "mg_mapAd m i = Some a" "ad_download a \<noteq> []"
      using Cons.prems(3) by (auto simp: downloadable_def split: option.splits)
    note k = downloadAd_keeps_map [OF m1(1)]
    have f: "filter (\<lambda>i. mg_bufImages m1 i = None) ids = filter (\<lambda>i. mg_bufImages m i = None) ids"
      using downloadAd_fetches [OF m1(1)] Cons.prems(2) by (auto simp: fetches_def intro!: filter_cong)
    have i: "mg_bufImages m' i = mg_bufImages m1 i"
      using download_missing_fetches [OF m1(2)] Cons.prems(2) by simp
    have ih: "(if mg_isBarServer m then asks_web else asks_peer) E m1 (filter (\<lambda>i. mg_bufImages m i = None) ids) m'"
      using Cons.IH [OF m1(2)] Cons.prems(2,3) k f by (simp add: downloadable_def)
    show ?thesis
    proof (cases "mg_isBarServer m")
      case True': True
      then have "download_urls E i a (ad_download a) m = Some m1"
        using m1(1) a by (simp add: downloadAd_def)
      from download_urls_asks [OF this True a(2)] obtain log where "mg_sent m1 = mg_sent m"
        "mg_fetched m1 = mg_fetched m @ log" "tries E a (mg_fetched m) log (mg_bufImages m1 i)" by auto
      then show ?thesis using asks_web_Cons [of m1 m log E i m'] ih True True' a i k by simp
    next
      case False
      then have "download_peer E i a m = Some m1" using m1(1) a by (simp add: downloadAd_def)
      from download_peer_asks [OF this True] show ?thesis
        using asks_peer_Cons [of m1 m i m' E] ih True False a i k by simp
    qed
  qed
qed

lemma needed_ids_sorted:
  "sorted_wrt (\<lambda>i j. sint i < sint j) S \<Longrightarrow> sorted_wrt (\<lambda>i j. sint i < sint j) (fst (needed_ids ids S m))"
  by (induction ids arbitrary: S m) (auto simp: split_beta Let_def set_insert_sorted inj_sint)

lemma needed_plays_sorted:
  "sorted_wrt (\<lambda>i j. sint i < sint j) S \<Longrightarrow> sorted_wrt (\<lambda>i j. sint i < sint j) (fst (needed_plays ps S m))"
  by (induction ps arbitrary: S m) (auto simp: split_beta Let_def needed_ids_sorted)

lemma sint_sorted_distinct: "sorted_wrt (\<lambda>i j :: i32. sint i < sint j) ids \<Longrightarrow> distinct ids"
  by (induction ids) auto

text \<open>\<open>downloadAds\<close> against the set: nothing stale stays, nothing wanted is dropped, and if something is
  missing the timer is set to five minutes.\<close>

lemma downloadAds_meets:
  assumes "downloadAds E m = Some m'" "\<not> mg_isEndBusiness m"
  shows "extends m m' \<and> (verified E m \<longrightarrow> verified E m')"
    "dom (mg_bufImages m') \<subseteq> wanted m"
    "mg_bufImages m |` wanted m \<subseteq>\<^sub>m mg_bufImages m'"
    "wanted m \<subseteq> dom (mg_bufImages m') \<or> mg_waiting m' \<noteq> [] \<and> last (mg_waiting m') = TimerDownload \<and> mg_delay m' TimerDownload = 300"
proof -
  let ?ids = "fst (needed_plays (pol_adplays (mg_policy m)) [] m)"
  let ?m1 = "snd (needed_plays (pol_adplays (mg_policy m)) [] m)"
  obtain m2 where m2: "download_missing E ?ids (evict ?ids ?m1) = Some m2"
    "m' = (if list_ex (\<lambda>i. mg_bufImages m2 i = None) ?ids
           then async_wait TimerDownload (expires_from_now TimerDownload 300 m2) else m2)"
    using assms by (auto simp: downloadAds_def split_beta Let_def split: option.splits)
  have q: "quiet m ?m1" by (rule quiet_needed_plays)
  have q2: "quiet m2 m'" unfolding m2(2) by (simp add: quiet_timer)
  note f = download_missing_fetches [OF m2(1)]
  have im: "mg_bufImages m' = mg_bufImages m2" using q2 by (simp add: quiet_def)
  have ev: "mg_bufImages (evict ?ids ?m1) = mg_bufImages m |` wanted m"
    using q by (simp add: evict_def quiet_def needed_wanted)
  show "extends m m' \<and> (verified E m \<longrightarrow> verified E m')"
  proof
    have "extends m ?m1" "extends m2 m'" using q q2 by (simp_all add: quiet_def)
    moreover have "extends ?m1 m2" by (rule extends_trans [OF extends_evict]) (use f in blast)
    ultimately show "extends m m'" using extends_trans by blast
    show "verified E m \<longrightarrow> verified E m'"
      using f verified_quiet [OF q] verified_quiet [OF q2] verified_evict by blast
  qed
  show "dom (mg_bufImages m') \<subseteq> wanted m"
    using f unfolding im ev needed_wanted by (auto simp: restrict_map_def)
  show "mg_bufImages m |` wanted m \<subseteq>\<^sub>m mg_bufImages m'"
    using f unfolding im ev by simp
  show "wanted m \<subseteq> dom (mg_bufImages m') \<or> mg_waiting m' \<noteq> [] \<and> last (mg_waiting m') = TimerDownload \<and> mg_delay m' TimerDownload = 300"
  proof (cases "list_ex (\<lambda>i. mg_bufImages m2 i = None) ?ids")
    case True
    then show ?thesis by (simp add: m2(2) async_wait_def expires_from_now_def)
  next
    case False
    then show ?thesis
      using needed_wanted [of m] by (auto simp: im list_ex_iff)
  qed
qed

lemma needed_ids_only: "\<exists>ads. snd (needed_ids ids S m) = m\<lparr>mg_mapAd := ads\<rparr>"
proof (induction ids arbitrary: S m)
  case Nil
  show ?case by (rule exI [of _ "mg_mapAd m"]) simp
next
  case (Cons i ids)
  have "\<exists>ads. snd (map_at i m) = m\<lparr>mg_mapAd := ads\<rparr>"
    by (rule exI [of _ "mg_mapAd (snd (map_at i m))"]) (simp add: map_at_def split: option.split)
  then obtain ads where "snd (map_at i m) = m\<lparr>mg_mapAd := ads\<rparr>" by blast
  then show ?case using Cons.IH [of _ "snd (map_at i m)"] by (simp add: split_beta Let_def)
qed

lemma needed_plays_only: "\<exists>ads. snd (needed_plays ps S m) = m\<lparr>mg_mapAd := ads\<rparr>"
proof (induction ps arbitrary: S m)
  case Nil
  show ?case by (rule exI [of _ "mg_mapAd m"]) simp
next
  case (Cons p ps)
  obtain ads where "snd (needed_ids (play_adids p) S m) = m\<lparr>mg_mapAd := ads\<rparr>" using needed_ids_only by blast
  then show ?case
    using Cons.IH [of _ "snd (needed_ids (play_adids p) S m)"] by (simp add: split_beta Let_def)
qed

lemma download_missing_waiting: "download_missing E ids m = Some m' \<Longrightarrow> mg_waiting m' = mg_waiting m"
proof (induction ids arbitrary: m)
  case (Cons i ids)
  then show ?case by (auto simp: downloadAd_keeps_map split: option.splits if_splits)
qed simp

text \<open>The whole effect of \<open>downloadAds\<close> on the files, the requests and the timers.\<close>

lemma downloadAds_asks:
  assumes "downloadAds E m = Some m'" "\<not> mg_isEndBusiness m"
  obtains ids where "sorted_wrt (\<lambda>i j. sint i < sint j) ids" "set ids = wanted m - dom (mg_bufImages m)"
    "(if mg_isBarServer m then asks_web else asks_peer) E m ids m'"
    "\<forall>i. i \<notin> set ids \<longrightarrow> mg_bufImages m' i = (mg_bufImages m |` wanted m) i"
    "if wanted m \<subseteq> dom (mg_bufImages m') then mg_waiting m' = mg_waiting m
     else mg_waiting m' = filter (\<lambda>t. t \<noteq> TimerDownload) (mg_waiting m) @ [TimerDownload]
       \<and> mg_delay m' TimerDownload = 300"
proof -
  let ?ids = "fst (needed_plays (pol_adplays (mg_policy m)) [] m)"
  let ?m1 = "snd (needed_plays (pol_adplays (mg_policy m)) [] m)"
  let ?e = "evict ?ids ?m1"
  obtain m2 where m2: "download_missing E ?ids ?e = Some m2"
    "m' = (if list_ex (\<lambda>i. mg_bufImages m2 i = None) ?ids
           then async_wait TimerDownload (expires_from_now TimerDownload 300 m2) else m2)"
    using assms by (auto simp: downloadAds_def split_beta Let_def split: option.splits)
  obtain ads where m1: "?m1 = m\<lparr>mg_mapAd := ads\<rparr>" using needed_plays_only by blast
  have e: "mg_bufImages ?e = mg_bufImages m |` wanted m" "mg_sent ?e = mg_sent m" "mg_fetched ?e = mg_fetched m"
    "mg_waiting ?e = mg_waiting m" "mg_isBarServer ?e = mg_isBarServer m" "mg_mapAd ?e = ads"
    by (simp_all add: evict_def m1 needed_wanted)
  have d: "downloadable ?e = downloadable m"
    using needed_plays_set [of "pol_adplays (mg_policy m)" "[]" m] by (simp add: fun_eq_iff downloadable_def evict_def)
  have same: "mg_bufImages m' = mg_bufImages m2" "mg_sent m' = mg_sent m2" "mg_fetched m' = mg_fetched m2"
    by (simp_all add: m2(2) async_wait_def expires_from_now_def)
  let ?miss = "filter (\<lambda>i. mg_bufImages ?e i = None) ?ids"
  have sorted: "sorted_wrt (\<lambda>i j. sint i < sint j) ?ids" by (rule needed_plays_sorted) simp
  have known: "mg_mapAd ?e i = mg_mapAd m i" if "i \<in> set ?miss" for i
  proof -
    have "downloadable m i" using that by (simp add: needed_wanted wanted_def)
    then obtain a where a: "mg_mapAd m i = Some a" by (auto simp: downloadable_def split: option.splits)
    have "extends m ?m1" using quiet_needed_plays by (simp only: quiet_def)
    then have "mg_mapAd ?m1 i = Some a" by (rule extends_known [OF _ a])
    then show ?thesis using a by (simp add: evict_def)
  qed
  have "(if mg_isBarServer m then asks_web else asks_peer) E ?e ?miss m2"
    using download_missing_asks [OF m2(1) sint_sorted_distinct [OF sorted]]
    unfolding e(5) d needed_wanted by (simp add: wanted_def)
  moreover note asks_cong [where ids = ?miss and E = E, OF e(2,3) same known]
  ultimately have asks: "(if mg_isBarServer m then asks_web else asks_peer) E m ?miss m'"
    by (cases "mg_isBarServer m") (simp_all only: if_True if_False)
  have f: "mg_bufImages m2 i = mg_bufImages ?e i" if stays: "i \<notin> set ?miss" for i
  proof (cases "i \<in> set ?ids")
    case True
    then obtain b where "mg_bufImages ?e i = Some b" using stays by auto
    then show ?thesis using download_missing_fetches [OF m2(1)] unfolding map_le_def by (metis domI)
  next
    case False
    then show ?thesis using download_missing_fetches [OF m2(1)] by blast
  qed
  have w: "mg_waiting m2 = mg_waiting m" using download_missing_waiting [OF m2(1)] e(4) by simp
  have missing: "list_ex (\<lambda>i. mg_bufImages m2 i = None) ?ids \<longleftrightarrow> \<not> wanted m \<subseteq> dom (mg_bufImages m')"
    using needed_wanted [of m] by (auto simp: list_ex_iff same)
  show ?thesis
  proof (rule that [of ?miss])
    show "sorted_wrt (\<lambda>i j. sint i < sint j) ?miss" by (rule sorted_wrt_filter [OF sorted])
    show "set ?miss = wanted m - dom (mg_bufImages m)"
      by (auto simp: e(1) needed_wanted restrict_map_def dom_def)
    show "\<forall>i. i \<notin> set ?miss \<longrightarrow> mg_bufImages m' i = (mg_bufImages m |` wanted m) i"
      using f by (simp add: same e(1))
    show "if wanted m \<subseteq> dom (mg_bufImages m') then mg_waiting m' = mg_waiting m
     else mg_waiting m' = filter (\<lambda>t. t \<noteq> TimerDownload) (mg_waiting m) @ [TimerDownload] \<and> mg_delay m' TimerDownload = 300"
    proof (cases "list_ex (\<lambda>i. mg_bufImages m2 i = None) ?ids")
      case True
      then have "\<not> wanted m \<subseteq> dom (mg_bufImages m')" using missing by blast
      then show ?thesis using True w by (simp add: m2(2) async_wait_def expires_from_now_def)
    next
      case False
      then have "wanted m \<subseteq> dom (mg_bufImages m')" using missing by blast
      then show ?thesis using False w by (simp add: m2(2))
    qed
  qed (rule asks)
qed

lemma requestAdList_keeps:
  assumes "requestAdList E m = Some m'"
  shows "extends m m' \<and> (verified E m \<longrightarrow> verified E m')"
proof (cases "mg_isEndBusiness m")
  case False
  obtain rsp m0 where r: "ask E (Message_new\<lparr>msg_method := ascii ''getAdList''\<rparr>) m = Some (rsp, m0)"
    using assms False by (auto simp: requestAdList_def split: option.splits)
  let ?res = "env_parse_result E (msg_content rsp)"
  have q: "quiet m m0" using quiet_ask [OF r] methods_differ(1) by simp
  show ?thesis
  proof (cases "msg_returncode rsp = 0 \<and> fst ?res")
    case True
    let ?m1 = "insert_ads E (snd ?res) (m0\<lparr>mg_bufAdList :=
        Message_SerializeAsString (env_lib E) (list_response (msg_content rsp))\<rparr>)"
    let ?m2 = "if \<not> mg_isBarServer ?m1 then lock_plays (pol_adplays (mg_policy ?m1)) ?m1 else ?m1"
    have d: "downloadAds E ?m2 = Some m'"
      using assms False True by (simp add: requestAdList_def r split_beta Let_def)
    have q1: "quiet m ?m1" by (rule quiet_trans [OF q quiet_trans [OF quiet_player(5) quiet_insert_ads]])
    have "quiet ?m1 ?m2" by (simp add: quiet_lock_plays)
    with q1 have q2: "quiet m ?m2" by (rule quiet_trans)
    then have "\<not> mg_isEndBusiness ?m2" using False by (simp add: quiet_def extends_def)
    note m = downloadAds_meets(1) [OF d this]
    have "extends m ?m2" using q2 by (simp only: quiet_def)
    with m have "extends m m'" using extends_trans by blast
    then show ?thesis using m verified_quiet [OF q2] by blast
  next
    case F: False
    then have "m' = async_wait TimerAdList (expires_from_now TimerAdList 300 m0)"
      using assms False by (auto simp: requestAdList_def r split_beta Let_def)
    then have "quiet m m'" by (simp only: quiet_trans [OF q quiet_timer])
    then show ?thesis using verified_quiet by (auto simp: quiet_def)
  qed
qed (use assms in \<open>auto simp: requestAdList_def\<close>)

end
