(* ===== verification/ManagerLive.thy ===== *)
theory ManagerLive
  imports ManagerRun
begin

text \<open>
  The invariants of the business over its runs, that its handlers return, and what the retries of
  its timers do.
\<close>

section \<open>The policy request\<close>

text \<open>What \<open>_bufPolicy\<close> should be, read off the history of the requests: the content, unchanged, of the
  latest successful answer to a policy request, or the answer that there is none.  An answer is
  successful if its return code is 0 and its content parses.\<close>

definition no_policy :: message where
  "no_policy = Message_new\<lparr>msg_id := 0, msg_returncode := 2, msg_method := ascii ''getAdPlayPolicy'',
     msg_returnmsg := ascii ''AdPlayPolicy not exist''\<rparr>"

definition policy_answer :: "env \<Rightarrow> message list \<Rightarrow> bytes option" where
  "policy_answer E hist =
     (if hist \<noteq> [] \<and> msg_method (last hist) = ascii ''getAdPlayPolicy''
      then (case env_peer E hist of
              None \<Rightarrow> None
            | Some rsp \<Rightarrow>
                if msg_returncode rsp = 0 \<and> fst (env_parse_policy E (msg_content rsp)) then Some (msg_content rsp)
                else None)
      else None)"

definition latest_policy :: "env \<Rightarrow> message list \<Rightarrow> message" where
  "latest_policy E hist =
     (case rev (List.map_filter (policy_answer E) (prefixes hist)) of
        [] \<Rightarrow> no_policy
      | content # earlier \<Rightarrow> policy_response content)"

definition serves_policy :: "env \<Rightarrow> manager \<Rightarrow> bool" where
  "serves_policy E m \<longleftrightarrow> mg_bufPolicy m = Message_SerializeAsString (env_lib E) (latest_policy E (mg_sent m))"

lemma latest_policy_Nil [simp]: "latest_policy E [] = no_policy"
  by (simp add: latest_policy_def policy_answer_def List.map_filter_def)

lemma latest_policy_snoc:
  "latest_policy E (hist @ [req]) =
     (case policy_answer E (hist @ [req]) of None \<Rightarrow> latest_policy E hist | Some content \<Rightarrow> policy_response content)"
  by (simp add: latest_policy_def prefixes_snoc List.map_filter_def split: option.split)

lemma latest_policy_append:
  "\<forall>x \<in> set new. msg_method x \<noteq> ascii ''getAdPlayPolicy'' \<Longrightarrow> latest_policy E (hist @ new) = latest_policy E hist"
proof (induction new rule: rev_induct)
  case (snoc x new)
  have "policy_answer E (hist @ new @ [x]) = None" using snoc.prems by (simp add: policy_answer_def)
  then show ?case using snoc latest_policy_snoc [of E "hist @ new" x] by simp
qed simp

lemma latest_policy_cases:
  "latest_policy E hist = no_policy
   \<or> (\<exists>hist' rsp. env_peer E hist' = Some rsp \<and> latest_policy E hist = policy_response (msg_content rsp))"
proof (induction hist rule: rev_induct)
  case (snoc req hist)
  then show ?case
    by (cases "policy_answer E (hist @ [req])")
       (auto simp: latest_policy_snoc policy_answer_def split: option.splits if_splits)
qed simp

lemma serves_policy_extends:
  assumes "extends m m'" "serves_policy E m"
  shows "serves_policy E m'"
proof -
  obtain new where "mg_sent m' = mg_sent m @ new" "\<forall>x \<in> set new. msg_method x \<noteq> ascii ''getAdPlayPolicy''"
    using assms(1) by (auto simp: extends_def appends_def)
  then show ?thesis
    using assms latest_policy_append [of new E "mg_sent m"] by (simp add: serves_policy_def extends_def)
qed

definition policy_armed :: "manager \<Rightarrow> bool" where
  "policy_armed m \<longleftrightarrow> mg_isEndBusiness m \<or> TimerPolicy \<in> pend m"

lemma policy_armed_extends: "extends m m' \<Longrightarrow> policy_armed m \<Longrightarrow> policy_armed m'"
  by (auto simp: policy_armed_def extends_def)

lemma extends_expires: "extends m (expires_from_now t n m)"
  by (auto simp: extends_def manager_simps) (simp_all add: expires_from_now_def)

lemma quiet_expires: "quiet m (expires_from_now t n m)"
  by (simp add: quiet_def extends_expires) (simp add: expires_from_now_def)

lemma quiet_wait: "quiet m (async_wait t m)"
  by (auto simp: quiet_def extends_def manager_simps) (simp_all add: async_wait_def)

lemma verified_cong:
  assumes "mg_isBarServer m' = mg_isBarServer m" "mg_mapAd m' = mg_mapAd m" "mg_bufImages m' = mg_bufImages m"
  shows "verified E m' = verified E m"
  by (simp add: verified_def verified_image_def assms)

definition policy_request :: "env \<Rightarrow> manager \<Rightarrow> message" where
  "policy_request E m = Message_new\<lparr>msg_method := ascii ''getAdPlayPolicy'',
     msg_content := be32 (case env_lexical_cast E (mg_barId m) of Some i \<Rightarrow> i | None \<Rightarrow> 0)\<rparr>"

lemma policy_request_method [simp]: "msg_method (policy_request E m) = ascii ''getAdPlayPolicy''"
  by (simp add: policy_request_def)

lemma requestAdPlayPolicy_keeps:
  assumes "requestAdPlayPolicy E m = Some m'"
  shows "verified E m \<longrightarrow> verified E m'" "serves_policy E m \<longrightarrow> serves_policy E m'" "policy_armed m'"
    "grows m m'"
proof (atomize (full), cases "mg_isEndBusiness m", goal_cases)
  case 1
  then show ?case using assms by (auto simp: requestAdPlayPolicy_def policy_armed_def grows_extends)
next
  case 2
  let ?req = "policy_request E m"
  let ?hist = "mg_sent m @ [?req]"
  let ?m1 = "m\<lparr>mg_sent := ?hist\<rparr>"
  obtain rsp where rsp: "env_peer E ?hist = Some rsp"
    "ask E ?req m = Some (utf8ToGB2312_msg E rsp, ?m1)"
    using assms 2 by (auto simp: requestAdPlayPolicy_def policy_request_def ask_def Let_def split: option.splits)
  let ?parsed = "env_parse_policy E (msg_content rsp)"
  have answer: "policy_answer E ?hist =
      (if msg_returncode rsp = 0 \<and> fst ?parsed then Some (msg_content rsp) else None)"
    by (simp add: policy_answer_def rsp(1))
  let ?m2 = "if msg_returncode rsp = 0 then ?m1\<lparr>mg_policy := snd ?parsed\<rparr> else ?m1"
  have same: "mg_isBarServer ?m2 = mg_isBarServer m" "mg_isEndBusiness ?m2 = mg_isEndBusiness m"
    "mg_mapAd ?m2 = mg_mapAd m" "mg_bufImages ?m2 = mg_bufImages m" "mg_sent ?m2 = ?hist"
    "mg_bufPolicy ?m2 = mg_bufPolicy m" "pend ?m2 = pend m"
    by (simp_all add: pend_def)
  show ?case
  proof (cases "msg_returncode rsp = 0 \<and> fst ?parsed")
    case True
    let ?m3 = "(expires_from_now TimerPolicy 21600 ?m2)\<lparr>mg_bufPolicy :=
       Message_SerializeAsString (env_lib E) (policy_response (msg_content rsp))\<rparr>"
    obtain m4 where m4: "requestAdList E ?m3 = Some m4" "m' = async_wait TimerPolicy m4"
      using assms 2 True rsp(2) unfolding policy_request_def
      by (auto simp: requestAdPlayPolicy_def split_beta Let_def)
    note k = requestAdList_keeps [OF m4(1)]
    have s: "serves_policy E ?m3"
      using True by (simp add: serves_policy_def expires_from_now_def latest_policy_snoc answer)
    have v: "verified E ?m3 = verified E m"
      by (rule verified_cong) (simp_all add: expires_from_now_def)
    have p: "grows m ?m3" by (auto simp: grows_def pend_def expires_from_now_def)
    have q4: "quiet m4 m'" unfolding m4(2) by (rule quiet_wait)
    show ?thesis
    proof (intro conjI)
      show "verified E m \<longrightarrow> verified E m'" using v k verified_quiet [OF q4] by blast
      show "serves_policy E m \<longrightarrow> serves_policy E m'"
        using s k q4 serves_policy_extends by (simp only: quiet_def) blast
      show "policy_armed m'" by (simp add: m4(2) policy_armed_def manager_simps)
      have "grows ?m3 m4" "grows m4 m'" using k q4 by (simp_all only: quiet_def grows_extends)
      then show "grows m m'" using p grows_trans by blast
    qed
  next
    case False
    then have m': "m' = async_wait TimerPolicy (expires_from_now TimerPolicy 300 ?m2)"
      using assms 2 rsp(2) unfolding policy_request_def
      by (auto simp: requestAdPlayPolicy_def split_beta Let_def)
    have q: "quiet ?m2 m'" unfolding m' by (rule quiet_timer)
    have "serves_policy E m \<longrightarrow> serves_policy E ?m2"
      using False by (simp add: serves_policy_def latest_policy_snoc answer)
    moreover have "verified E ?m2 = verified E m" by (rule verified_cong) simp_all
    moreover have "grows m ?m2" by (simp add: grows_def same)
    moreover have "grows ?m2 m'" using q by (simp only: quiet_def grows_extends)
    moreover have "policy_armed m'" by (simp add: m' policy_armed_def manager_simps)
    ultimately show ?thesis
      using verified_quiet [OF q] serves_policy_extends [of ?m2 m' E] q grows_trans by (simp only: quiet_def) blast
  qed
qed

section \<open>Invariants\<close>

definition business_ok :: "env \<Rightarrow> manager \<Rightarrow> bool" where
  "business_ok E m \<longleftrightarrow> verified E m \<and> serves_policy E m"

lemma business_ok_quiet: "quiet m m' \<Longrightarrow> business_ok E m \<Longrightarrow> business_ok E m'"
  unfolding business_ok_def using verified_quiet serves_policy_extends by (auto simp: quiet_def)

lemma business_ok_extends:
  assumes "extends m m' \<and> (verified E m \<longrightarrow> verified E m')" "business_ok E m"
  shows "business_ok E m'"
  using assms serves_policy_extends by (metis business_ok_def)

lemma run_timer_ok:
  assumes "run_timer E t m = Some m'" "business_ok E m"
  shows "business_ok E m'"
proof (cases t)
  case TimerPolicy
  then show ?thesis using assms requestAdPlayPolicy_keeps by (auto simp: business_ok_def)
next
  case TimerAdList
  then show ?thesis
    using assms(1) business_ok_extends [OF requestAdList_keeps assms(2)] by simp
next
  case TimerDownload
  show ?thesis
  proof (cases "mg_isEndBusiness m")
    case True
    then show ?thesis using assms TimerDownload by (simp add: downloadAds_def)
  next
    case False
    then show ?thesis
      using assms(1) TimerDownload business_ok_extends [OF downloadAds_meets(1) assms(2)] by simp
  qed
qed

lemma business_ok_cong:
  assumes "mg_isBarServer m' = mg_isBarServer m" "mg_mapAd m' = mg_mapAd m" "mg_bufImages m' = mg_bufImages m"
    "mg_bufPolicy m' = mg_bufPolicy m" "mg_sent m' = mg_sent m"
  shows "business_ok E m' = business_ok E m"
  by (simp add: business_ok_def verified_def verified_image_def serves_policy_def assms)

lemma business_ok_timers:
  "business_ok E (m\<lparr>mg_waiting := ts\<rparr>) = business_ok E m" "business_ok E (m\<lparr>mg_ready := ts\<rparr>) = business_ok E m"
  by (rule business_ok_cong; simp)+

lemma quiet_requestAd:
  assumes "requestAd E i m = Some (ok, m')"
  shows "quiet m m'"
proof -
  obtain rsp m1 where r: "ask E (Message_new\<lparr>msg_method := ascii ''getAd'', msg_content := be32 i\<rparr>) m = Some (rsp, m1)"
    using assms by (auto simp: requestAd_def split: option.splits)
  then have "quiet m m1" using quiet_ask methods_differ(3) by simp
  moreover have "quiet m1 m'"
    using assms by (auto simp: requestAd_def r split_beta Let_def quiet_map_insert split: if_splits)
  ultimately show ?thesis by (rule quiet_trans)
qed

lemma quiet_video:
  "quiet m (fst (setVideoWnd api rdy hwnd m w))" "quiet m (fst (closeVideoWnd api mfshutdown m w))"
proof -
  have "quiet m (m\<lparr>mg_hwnd := hwnd, mg_pPlayer := p\<rparr>)" for p
    by (rule quiet_trans [OF quiet_player(4) quiet_player(1)])
  then show "quiet m (fst (setVideoWnd api rdy hwnd m w))" "quiet m (fst (closeVideoWnd api mfshutdown m w))"
    by (auto simp: setVideoWnd_def closeVideoWnd_def split_beta Let_def quiet_player split: option.split)
qed

lemma endBusiness_ok: "business_ok E (fst (endBusiness api mfshutdown m w)) = business_ok E m"
  by (rule business_ok_cong) (simp_all add: endBusiness_def split_beta Let_def split: option.split)

lemma biz_ok:
  assumes "business_ok E m" "biz E m m'"
  shows "business_ok E m'"
  using assms(2,1)
proof cases
  case posted
  then show ?thesis
    using assms(1) requestAdPlayPolicy_keeps business_ok_quiet [OF quiet_player(7)]
    by (auto simp: posted_business_def business_ok_def split: option.splits)
next
  case (expired xs t ys)
  then show ?thesis using assms(1) run_timer_ok by (simp add: business_ok_timers)
next
  case hurried
  then show ?thesis
    by (rule hurryE) (use assms(1) run_timer_ok in \<open>simp add: business_ok_timers\<close>)
next
  case (requested i ok)
  then show ?thesis using assms(1) business_ok_quiet [OF quiet_requestAd] by blast
qed (use assms(1) in \<open>simp_all add: getAd_def endBusiness_ok business_ok_quiet [OF quiet_map_at] business_ok_quiet [OF quiet_video(1)]
      business_ok_quiet [OF quiet_video(2)]\<close>)

interpretation business: stable "biz E" "business_ok E"
  by unfold_locales (rule biz_ok)


section \<open>The handlers return\<close>

text \<open>Every request to the peer and every address is answered, be it with an error.\<close>

definition answering :: "env \<Rightarrow> bool" where
  "answering E \<longleftrightarrow> (\<forall>hist. env_peer E hist \<noteq> None) \<and> (\<forall>urls. env_http E urls \<noteq> None)"

text \<open>Files are smaller than the lengths at which the loop of \<open>MD5::update\<close> goes wrong.\<close>

definition small_bodies :: "env \<Rightarrow> bool" where
  "small_bodies E \<longleftrightarrow> length (buffer (env_md5 E)) = 64 \<and>
     (\<forall>b body. delivered E b body \<longrightarrow> length body \<le> 2 ^ 32 - 64)"

lemma file_md5_spec:
  assumes "length (buffer (env_md5 E)) = 64" "length body \<le> 2 ^ 32 - 64"
  shows "file_md5 E body = Some (ascii (concat (map hex2 (md5_spec body))))"
proof -
  obtain c1 where 1: "update body (of_nat (length body)) (init (env_md5 E)) = Some c1" "absorbs c1 ([] @ body)"
    using update_absorbs [OF absorbs_init [OF assms(1)] assms(2)] by blast
  obtain c2 where "finalize c1 = Some c2" "finalized c2" "digest c2 = md5_spec body"
    using finalize_absorbs [OF 1(2)] by auto
  with 1(1) show ?thesis
    by (simp add: file_md5_def hex_digest_raw raw_digest_def length_md5_spec)
qed

lemma small_md5: "small_bodies E \<Longrightarrow> delivered E b body \<Longrightarrow> \<exists>md5. file_md5 E body = Some md5"
  using file_md5_spec unfolding small_bodies_def by blast

lemma answered:
  assumes "answering E"
  obtains rsp where "env_peer E (mg_sent m @ [msg]) = Some rsp"
    "ask E msg m = Some (utf8ToGB2312_msg E rsp, m\<lparr>mg_sent := mg_sent m @ [msg]\<rparr>)"
proof -
  obtain rsp where "env_peer E (mg_sent m @ [msg]) = Some rsp" using assms by (auto simp: answering_def)
  then show ?thesis using that by (simp add: ask_def)
qed

lemma download_urls_returns: "small_bodies E \<Longrightarrow> answering E \<Longrightarrow> \<exists>m'. download_urls E i a urls m = Some m'"
proof (induction urls arbitrary: m)
  case (Cons url urls)
  let ?m = "m\<lparr>mg_fetched := mg_fetched m @ [url]\<rparr>"
  have "\<exists>md5. file_md5 E body = Some md5" if "env_http E (mg_fetched ?m) = Some (Inr (200, body))" for body
    using small_md5 [OF Cons.prems(1), of True body] that by (auto simp: delivered_def)
  moreover obtain r where "env_http E (mg_fetched ?m) = Some r" using Cons.prems(2) by (auto simp: answering_def)
  ultimately show ?case using Cons.IH [OF Cons.prems] by (auto simp: Let_def split: sum.split)
qed simp

lemma download_peer_returns:
  assumes "small_bodies E" "answering E"
  shows "\<exists>m'. download_peer E i a m = Some m'"
proof -
  obtain rsp where r: "env_peer E (mg_sent m @ [file_request i]) = Some rsp"
    "ask E (file_request i) m = Some (utf8ToGB2312_msg E rsp, m\<lparr>mg_sent := mg_sent m @ [file_request i]\<rparr>)"
    using answered [OF assms(2)] by blast
  obtain md5 where "file_md5 E (msg_content rsp) = Some md5"
    using small_md5 [OF assms(1), of False "msg_content rsp"] r(1) by (auto simp: delivered_def)
  then show ?thesis using r(2) unfolding file_request_def by (simp add: download_peer_def Let_def)
qed

lemma download_missing_returns: "small_bodies E \<Longrightarrow> answering E \<Longrightarrow> \<exists>m'. download_missing E ids m = Some m'"
proof (induction ids arbitrary: m)
  case (Cons i ids)
  have "\<exists>m1. downloadAd E i m = Some m1"
    using download_urls_returns [OF Cons.prems] download_peer_returns [OF Cons.prems]
    by (auto simp: downloadAd_def split: option.split)
  then show ?case using Cons.IH [OF Cons.prems] by auto
qed simp

lemma downloadAds_returns: "small_bodies E \<Longrightarrow> answering E \<Longrightarrow> \<exists>m'. downloadAds E m = Some m'"
  using download_missing_returns [of E] by (auto simp: downloadAds_def split_beta Let_def split: option.split)
    (metis option.distinct(1))

lemma requestAdList_returns:
  assumes "small_bodies E" "answering E"
  shows "\<exists>m'. requestAdList E m = Some m'"
proof -
  let ?req = "Message_new\<lparr>msg_method := ascii ''getAdList''\<rparr>"
  obtain rsp where "ask E ?req m = Some (utf8ToGB2312_msg E rsp, m\<lparr>mg_sent := mg_sent m @ [?req]\<rparr>)"
    using answered [OF assms(2)] by metis
  then show ?thesis using downloadAds_returns [OF assms] by (simp add: requestAdList_def split_beta Let_def)
qed

lemma requestAdPlayPolicy_returns:
  assumes "small_bodies E" "answering E"
  shows "\<exists>m'. requestAdPlayPolicy E m = Some m'"
proof -
  obtain rsp where "ask E (policy_request E m) m =
      Some (utf8ToGB2312_msg E rsp, m\<lparr>mg_sent := mg_sent m @ [policy_request E m]\<rparr>)"
    using answered [OF assms(2)] by metis
  then show ?thesis
    using requestAdList_returns [OF assms] unfolding policy_request_def
    by (auto simp: requestAdPlayPolicy_def split_beta Let_def)
qed

lemma run_timer_returns: "small_bodies E \<Longrightarrow> answering E \<Longrightarrow> \<exists>m'. run_timer E t m = Some m'"
  by (cases t) (simp_all add: requestAdPlayPolicy_returns requestAdList_returns downloadAds_returns)

section \<open>Connecting\<close>

text \<open>The loop of the start returns exactly when an attempt succeeds.\<close>

lemma connect_until_Some:
  "(\<forall>j < k. env_connect E (i + j) \<noteq> 0) \<Longrightarrow> env_connect E (i + k) = 0 \<Longrightarrow>
     \<exists>c'. connect_until E i ep c = Some c' \<and> cl_endpoint c' = ep \<and> client_isConnected c'"
proof (induction k arbitrary: i c)
  case 0
  then show ?case
    by (subst connect_until.simps)
       (simp add: syncConnect_def startSession_def readHead_def client_isConnected_def session_simps
         split_beta Let_def on_session_def)
next
  case (Suc k)
  have "\<forall>j < k. env_connect E (Suc i + j) \<noteq> 0" using Suc.prems(1) by auto
  moreover have "env_connect E (Suc i + k) = 0" using Suc.prems(2) by simp
  ultimately have "\<exists>c'. connect_until E (Suc i) ep (c\<lparr>cl_endpoint := ep\<rparr>) = Some c' \<and> cl_endpoint c' = ep \<and> client_isConnected c'"
    by (rule Suc.IH)
  moreover have "env_connect E i \<noteq> 0" using Suc.prems(1) by (metis add_0_right zero_less_Suc)
  ultimately show ?case by (subst connect_until.simps) (simp add: syncConnect_def Let_def)
qed

lemma connect_until_succeeds:
  assumes "connect_until E i ep c = Some c'"
  shows "\<exists>j. env_connect E j = 0"
proof (rule connect_until.raw_induct [OF _ assms, where P = "\<lambda>E k ep c r. \<exists>j. env_connect E j = 0"])
  fix rec E k ep c r
  assume "\<And>E k ep c r. rec E k ep c = Some r \<Longrightarrow> \<exists>j. env_connect E j = 0"
    and "(let (peer, pec) = env_remote E k; (ok, c, acts) = syncConnect ep (env_connect E k) peer pec c
          in if ok then Some c else rec E (Suc k) ep c) = Some r"
  then show "\<exists>j. env_connect E j = 0"
    by (cases "env_connect E k = 0") (auto simp: syncConnect_def Let_def split_beta)
qed

section \<open>Downloads that succeed\<close>

text \<open>The peer has the files: it answers each request for a wanted file with a body of the right
  digest.\<close>

definition has_files :: "env \<Rightarrow> manager \<Rightarrow> bool" where
  "has_files E m \<longleftrightarrow>
     (\<forall>hist i a. hist \<noteq> [] \<longrightarrow> msg_method (last hist) = ascii ''getAdFile'' \<longrightarrow> msg_content (last hist) = le32 i \<longrightarrow>
        mg_mapAd m i = Some a \<longrightarrow>
        (\<exists>rsp md5. env_peer E hist = Some rsp \<and> msg_returncode rsp = 0 \<and>
           file_md5 E (msg_content rsp) = Some md5 \<and> to_upper_copy (ad_md5 a) = to_upper_copy md5))"

lemma downloadAd_succeeds:
  assumes "has_files E m" "mg_mapAd m i = Some a" "ad_download a \<noteq> []" "\<not> mg_isBarServer m"
  shows "\<exists>m'. downloadAd E i m = Some m' \<and> mg_bufImages m' i \<noteq> None \<and> mg_waiting m' = mg_waiting m"
proof -
  let ?req = "Message_new\<lparr>msg_method := ascii ''getAdFile'', msg_content := le32 i\<rparr>"
  let ?hist = "mg_sent m @ [?req]"
  obtain rsp md5 where "env_peer E ?hist = Some rsp" "msg_returncode rsp = 0" "file_md5 E (msg_content rsp) = Some md5"
    "to_upper_copy (ad_md5 a) = to_upper_copy md5"
    using assms(1) [unfolded has_files_def, rule_format, of ?hist i a] assms(2) by auto
  then show ?thesis
    using assms(2-4)
    by (auto simp: downloadAd_def download_peer_def ask_def img_insert_def Let_def split: option.split)
qed

lemma download_missing_succeeds:
  assumes "has_files E m" "\<forall>i \<in> set ids. downloadable m i" "\<not> mg_isBarServer m"
  shows "\<exists>m'. download_missing E ids m = Some m' \<and> set ids \<subseteq> dom (mg_bufImages m') \<and> mg_waiting m' = mg_waiting m"
  using assms
proof (induction ids arbitrary: m)
  case (Cons i ids)
  obtain a where a: "mg_mapAd m i = Some a" "ad_download a \<noteq> []"
    using Cons.prems(2) by (auto simp: downloadable_def split: option.splits)
  obtain m1 where m1: "(if mg_bufImages m i = None then downloadAd E i m else Some m) = Some m1"
    "mg_bufImages m1 i \<noteq> None" "mg_waiting m1 = mg_waiting m" "mg_mapAd m1 = mg_mapAd m \<and> mg_isBarServer m1 = mg_isBarServer m"
    using downloadAd_succeeds [OF Cons.prems(1) a Cons.prems(3)] downloadAd_keeps_map
    by (cases "mg_bufImages m i = None") (metis, simp)
  have "has_files E m1" "\<forall>i \<in> set ids. downloadable m1 i" "\<not> mg_isBarServer m1"
    using Cons.prems m1(4) by (simp_all add: has_files_def downloadable_def)
  from Cons.IH [OF this] obtain m' where m': "download_missing E ids m1 = Some m'"
    "set ids \<subseteq> dom (mg_bufImages m')" "mg_waiting m' = mg_waiting m1" by blast
  moreover have "i \<in> dom (mg_bufImages m')"
    using download_missing_fetches [OF m'(1)] m1(2) map_le_implies_dom_le by blast
  ultimately show ?case using m1 by auto
qed simp

lemma needed_ids_map:
  assumes "\<forall>i \<in> set ids. mg_mapAd m i \<noteq> None"
  shows "snd (needed_ids ids S m) = m"
  using assms by (induction ids arbitrary: S) (auto simp: map_at_def split_beta Let_def)

lemma needed_plays_map:
  assumes "\<forall>p \<in> set ps. \<forall>i \<in> set (play_adids p). mg_mapAd m i \<noteq> None"
  shows "snd (needed_plays ps S m) = m"
  using assms by (induction ps arbitrary: S) (auto simp: needed_ids_map split_beta Let_def)

text \<open>When all numbers of the policy are known and the peer has the files, one round is enough.\<close>

lemma downloadAds_completes:
  assumes "has_files E m" "\<not> mg_isBarServer m" "\<not> mg_isEndBusiness m"
    "\<forall>p \<in> set (pol_adplays (mg_policy m)). \<forall>i \<in> set (play_adids p). mg_mapAd m i \<noteq> None"
  shows "\<exists>m'. downloadAds E m = Some m' \<and> dom (mg_bufImages m') = wanted m \<and> mg_waiting m' = mg_waiting m"
proof -
  let ?ids = "fst (needed_plays (pol_adplays (mg_policy m)) [] m)"
  have ids: "needed_plays (pol_adplays (mg_policy m)) [] m = (?ids, m)" "set ?ids = wanted m"
    by (rule prod_eqI; simp only: fst_conv snd_conv needed_plays_map [OF assms(4)]) (rule needed_wanted)
  have "has_files E (evict ?ids m)" "\<forall>i \<in> set ?ids. downloadable (evict ?ids m) i" "\<not> mg_isBarServer (evict ?ids m)"
    using assms(1,2) ids(2) by (simp_all add: has_files_def evict_def downloadable_def wanted_def)
  from download_missing_succeeds [OF this] obtain m2 where m2: "download_missing E ?ids (evict ?ids m) = Some m2"
    "set ?ids \<subseteq> dom (mg_bufImages m2)" "mg_waiting m2 = mg_waiting (evict ?ids m)" by blast
  have nomissing: "\<not> list_ex (\<lambda>i. mg_bufImages m2 i = None) ?ids"
    using m2(2) by (auto simp: list_ex_iff)
  have d: "downloadAds E m = Some m2"
    using assms(3) m2(1) nomissing unfolding downloadAds_def
    by (subst ids(1)) simp
  have "dom (mg_bufImages m2) \<subseteq> wanted m" by (rule downloadAds_meets(2) [OF d assms(3)])
  then show ?thesis using d m2(2,3) ids(2) by (simp add: evict_def)
qed

section \<open>Retries that do not wait\<close>

text \<open>A wait of \<open>_timerAdList\<close> and a cancelled one.\<close>

definition storming :: "manager \<Rightarrow> bool" where
  "storming m \<longleftrightarrow> \<not> mg_isEndBusiness m \<and> mg_ready m = [TimerAdList]
     \<and> filter (\<lambda>t. t = TimerAdList) (mg_waiting m) = [TimerAdList]"

definition list_fails :: "env \<Rightarrow> bool" where
  "list_fails E \<longleftrightarrow>
     (\<forall>hist. msg_method (last (Message_new # hist)) = ascii ''getAdList'' \<longrightarrow>
        (\<exists>rsp. env_peer E hist = Some rsp \<and> msg_returncode rsp \<noteq> 0))"

lemma failed_list:
  assumes "list_fails E" "\<not> mg_isEndBusiness m"
  shows "\<exists>m'. requestAdList E m = Some m' \<and> \<not> mg_isEndBusiness m'
    \<and> length (mg_sent m') = Suc (length (mg_sent m))
    \<and> mg_ready m' = mg_ready m @ filter (\<lambda>t. t = TimerAdList) (mg_waiting m)
    \<and> filter (\<lambda>t. t = TimerAdList) (mg_waiting m') = [TimerAdList]"
proof -
  let ?req = "Message_new\<lparr>msg_method := ascii ''getAdList''\<rparr>"
  have "\<exists>rsp. env_peer E (mg_sent m @ [?req]) = Some rsp \<and> msg_returncode rsp \<noteq> 0"
    using assms(1) by (simp add: list_fails_def)
  then obtain rsp where "env_peer E (mg_sent m @ [?req]) = Some rsp" "msg_returncode rsp \<noteq> 0" by blast
  then show ?thesis
    using assms(2)
    by (simp add: requestAdList_def ask_def async_wait_def expires_from_now_def split_beta Let_def filter_empty_conv)
qed

lemma storm_step:
  assumes "list_fails E" "storming m"
  shows "\<exists>m'. hurry E m m' \<and> storming m' \<and> length (mg_sent m') = Suc (length (mg_sent m))"
proof -
  obtain m' where m': "requestAdList E (m\<lparr>mg_ready := []\<rparr>) = Some m'" "\<not> mg_isEndBusiness m'"
    "length (mg_sent m') = Suc (length (mg_sent m))"
    "mg_ready m' = filter (\<lambda>t. t = TimerAdList) (mg_waiting m)"
    "filter (\<lambda>t. t = TimerAdList) (mg_waiting m') = [TimerAdList]"
    using failed_list [OF assms(1), of "m\<lparr>mg_ready := []\<rparr>"] assms(2) by (auto simp: storming_def)
  have "hurry E m m'"
    by (rule hurry.cancelled [of m TimerAdList "[]"]) (use assms(2) m'(1) in \<open>simp_all add: storming_def\<close>)
  then show ?thesis using m' assms(2) by (auto simp: storming_def)
qed

lemma storm:
  assumes "list_fails E" "storming m"
  shows "\<exists>m'. (hurry E ^^ n) m m' \<and> storming m' \<and> length (mg_sent m') = length (mg_sent m) + n"
proof (induction n)
  case (Suc n)
  then obtain m1 where "(hurry E ^^ n) m m1" "storming m1" "length (mg_sent m1) = length (mg_sent m) + n" by blast
  moreover obtain m' where "hurry E m1 m'" "storming m'" "length (mg_sent m') = Suc (length (mg_sent m1))"
    using storm_step [OF assms(1) \<open>storming m1\<close>] by blast
  ultimately show ?case by (intro exI [of _ m']) (auto intro: relcomppI)
qed (use assms(2) in auto)

end
