(* ===== verification/ManagerProps.thy ===== *)
theory ManagerProps
  imports ManagerLive SessionProps
begin

text \<open>
  The properties of the advertisement business: from the start of the program, over any run of its
  timers and calls.  Answers to clients are followed through the session to the bytes on the wire.
\<close>

section \<open>The start\<close>

definition business_start :: "env \<Rightarrow> bytes \<Rightarrow> nat \<Rightarrow> bytes \<Rightarrow> bool \<Rightarrow> nat \<Rightarrow> string \<Rightarrow> player option \<Rightarrow> manager" where
  "business_start E addr port bar server listen lvl created =
     bgnBusiness created (setConfig addr port bar server listen lvl (AdManagerImpl E))"

lemma AdManagerImpl_ok: "business_ok E (AdManagerImpl E)"
proof -
  have "mg_bufImages (AdManagerImpl E) = Map.empty"
    by (simp add: AdManagerImpl_def initResponseBuf_def Let_def)
  moreover have "mg_bufPolicy (AdManagerImpl E) = Message_SerializeAsString (env_lib E) no_policy"
    by (simp add: AdManagerImpl_def initResponseBuf_def no_policy_def Let_def)
  moreover have "mg_sent (AdManagerImpl E) = []"
    by (simp add: AdManagerImpl_def initResponseBuf_def Let_def)
  ultimately show ?thesis
    by (simp add: business_ok_def verified_def serves_policy_def)
qed

lemma start_ok: "business_ok E (business_start E addr port bar server listen lvl created)"
proof -
  have "business_ok E (setConfig addr port bar server listen lvl (AdManagerImpl E))"
  proof -
    have "mg_bufImages (AdManagerImpl E) = Map.empty"
      by (simp add: AdManagerImpl_def initResponseBuf_def Let_def)
    then show ?thesis
      using AdManagerImpl_ok [of E]
      by (simp add: business_ok_def verified_def serves_policy_def setConfig_def)
  qed
  moreover have "business_ok E (bgnBusiness created m) = business_ok E m" for m
    by (rule business_ok_cong) (simp_all add: bgnBusiness_def)
  ultimately show ?thesis by (simp add: business_start_def)
qed

text \<open>The role of the program and the advertisements it knows.\<close>

lemma run_timer_grows:
  assumes "run_timer E t m = Some m'"
  shows "grows m m'"
proof (cases t)
  case TimerPolicy
  then show ?thesis using assms requestAdPlayPolicy_keeps(4) by simp
next
  case TimerAdList
  then show ?thesis using assms grows_extends requestAdList_keeps by simp
next
  case TimerDownload
  then show ?thesis
    using assms grows_extends downloadAds_meets(1)
    by (cases "mg_isEndBusiness m") (auto simp: downloadAds_def)
qed


text \<open>A step without its timer, which \<open>pend\<close> has lost.\<close>

definition knows :: "manager \<Rightarrow> manager \<Rightarrow> bool" where
  "knows m m' \<longleftrightarrow> mg_isBarServer m' = mg_isBarServer m \<and> mg_mapAd m \<subseteq>\<^sub>m mg_mapAd m'"

lemma knows_grows: "grows m m' \<Longrightarrow> knows m m'"
  by (simp add: knows_def grows_def)

lemma knows_quiet: "quiet m m' \<Longrightarrow> knows m m'"
  by (simp add: knows_def quiet_def extends_def)

lemma biz_knows:
  assumes "biz E m m'"
  shows "knows m m'"
  using assms
proof cases
  case posted
  then obtain c where "requestAdPlayPolicy E (m\<lparr>mg_client := c\<rparr>) = Some m'"
    by (auto simp: posted_business_def split: option.splits)
  then have "knows (m\<lparr>mg_client := c\<rparr>) m'" by (rule knows_grows [OF requestAdPlayPolicy_keeps(4)])
  then show ?thesis by (simp add: knows_def)
next
  case (expired xs t ys)
  from knows_grows [OF run_timer_grows [OF this(2)]] show ?thesis by (simp add: knows_def)
next
  case hurried
  then show ?thesis
  proof (rule hurryE)
    fix t ts assume "run_timer E t (m\<lparr>mg_ready := ts\<rparr>) = Some m'"
    from knows_grows [OF run_timer_grows [OF this]] show ?thesis by (simp add: knows_def)
  qed
next
  case ended
  then show ?thesis by (auto simp: knows_def endBusiness_def split_beta Let_def split: option.split)
next
  case (requested i ok)
  then show ?thesis by (rule knows_quiet [OF quiet_requestAd])
qed (simp_all add: getAd_def knows_quiet [OF quiet_map_at]
      knows_quiet [OF quiet_video(1)] knows_quiet [OF quiet_video(2)])




lemma knows_trans: "knows m m' \<Longrightarrow> knows m' m'' \<Longrightarrow> knows m m''"
  by (simp add: knows_def) (blast intro: map_le_trans)

interpretation knowing: stable "biz E" "knows m0"
  by unfold_locales (blast intro: knows_trans biz_knows)


section \<open>Answers\<close>

context pb_runtime
begin

lemma Message_length_le:
  assumes "Message_valid L x"
  shows "length (Message_SerializeAsString L x)
    \<le> length (msg_method x) + length (msg_content x) + length (msg_returnmsg x) + 40"
proof -
  have s: "StringSize L b \<le> 5 + length b" if "length b \<le> INT_MAX" for b
    using length_venc_le [of "length b" 4] that by (simp add: StringSize_eq INT_MAX_def)
  have i: "Int64Size L w \<le> 10" for w
    using length_venc_le [of "unat w" 9] unat_u64_bound [of w] by (simp add: Int64Size_eq)
  have j: "Int32Size L v \<le> 10" for v
    using length_venc_le [of "unat (scast v :: u64)" 9] unat_u64_bound [of "scast v :: u64"]
    by (simp add: Int32Size_eq)
  have v: "length (msg_method x) \<le> INT_MAX" "length (msg_content x) \<le> INT_MAX" "length (msg_returnmsg x) \<le> INT_MAX"
    using assms by (simp_all add: Message_valid_def)
  have "length (Message_SerializeAsString L x) = fst (Message_ByteSizeLong L x)"
    using Message_size_eq [OF assms] by (simp add: Message_ser_eq)
  then show ?thesis
    using s [OF v(1)] s [OF v(2)] s [OF v(3)] i [of "msg_id x"] j [of "msg_returncode x"]
    by (auto simp: Message_ByteSizeLong_def Let_def)
qed

text \<open>A kept answer that fits reaches the client, with the number of the request.\<close>

lemma answer_carried:
  assumes "msg_id x = 0" "length (msg_content x) \<le> 67000000" "length (msg_method x) + length (msg_returnmsg x) \<le> 100"
    "VerifyUtf8String L (msg_method x)" "VerifyUtf8String L (msg_returnmsg x)" "ses_msgQueue s = []"
  shows "\<exists>e. queueRspData L i (Message_SerializeAsString L x) s
      = (s\<lparr>ses_msgQueue := [e]\<rparr>, [StartWrite (entry_bytes e)])
    \<and> carries L e (x\<lparr>msg_id := i, msg_cached_size := 0\<rparr>)"
proof -
  have v: "Message_valid L x" using assms by (auto simp: Message_valid_def INT_MAX_def)
  have "length (Message_SerializeAsString L x) \<le> 67108000"
    using Message_length_le [OF v] assms(2,3) by simp
  note c = carries_response_data [OF v assms(1) this]
  show ?thesis
    unfolding queueRspData_def Let_def enqueue_empty [OF assms(6)]
    by (intro exI conjI, rule HOL.refl) (rule c)
qed

end

text \<open>The texts of the answers are ASCII, which the UTF-8 check accepts.\<close>

definition accepts_ascii :: "pb_lib \<Rightarrow> bool" where
  "accepts_ascii L \<longleftrightarrow> (\<forall>s. list_all (\<lambda>c. of_char c < (128 :: nat)) s \<longrightarrow> VerifyUtf8String L (ascii s))"

lemma accepts_texts:
  assumes "accepts_ascii L"
  shows "VerifyUtf8String L (ascii ''getAdPlayPolicy'')" "VerifyUtf8String L (ascii ''getAdFile'')"
    "VerifyUtf8String L (ascii ''AdPlayPolicy not exist'')" "VerifyUtf8String L []"
  using assms [unfolded accepts_ascii_def, rule_format, of "''getAdPlayPolicy''"]
    assms [unfolded accepts_ascii_def, rule_format, of "''getAdFile''"]
    assms [unfolded accepts_ascii_def, rule_format, of "''AdPlayPolicy not exist''"]
    assms [unfolded accepts_ascii_def, rule_format, of "[]"]
  by (simp_all add: ascii_def)

lemma length_ascii [simp]: "length (ascii s) = length s"
  by (simp add: ascii_def)

section \<open>A sample business\<close>

definition sample_ad :: ad where
  "sample_ad = Ad_new\<lparr>ad_id := 7, ad_type := 1, ad_filename := [97],
     ad_md5 := ascii (concat (map hex2 (md5_spec [1, 2, 3]))), ad_download := [[104]]\<rparr>"

definition sample_policy :: policy where
  "sample_policy = \<lparr>pol_id = 1, pol_version = [], pol_datetime = [],
     pol_adplays = [\<lparr>play_location = 1, play_mode = 0, play_needsync = False, play_playtimes = [], play_adids = [7]\<rparr>]\<rparr>"

text \<open>A peer that has one advertisement and answers every request with the same bytes.\<close>

definition sample_env :: env where
  "sample_env = \<lparr>env_lib = ref_lib, env_parse_ad = (\<lambda>_. (True, sample_ad)),
     env_parse_result = (\<lambda>_. (True, [sample_ad])), env_parse_policy = (\<lambda>_. (True, sample_policy)),
     env_from_utf = id, env_to_utf = id, env_lexical_cast = (\<lambda>_. None),
     env_http = (\<lambda>_. Some (Inr (200, [1, 2, 3]))), env_md5 = blank_md5,
     env_peer = (\<lambda>_. Some (Message_new\<lparr>msg_content := [1, 2, 3]\<rparr>)), env_connect = (\<lambda>_. 0), env_remote = (\<lambda>_. ([], 0))\<rparr>"

lemma sample_env_sel [simp]:
  "env_lib sample_env = ref_lib" "env_md5 sample_env = blank_md5"
  "env_parse_result sample_env bs = (True, [sample_ad])" "env_parse_policy sample_env bs = (True, sample_policy)"
  "env_peer sample_env hist = Some (Message_new\<lparr>msg_content := [1, 2, 3]\<rparr>)" "env_connect sample_env k = 0"
  "env_remote sample_env k = ([], 0)" "env_from_utf sample_env bs = bs" "env_http sample_env urls = Some (Inr (200, [1, 2, 3]))"
  "env_parse_ad sample_env bs = (True, sample_ad)" "env_lexical_cast sample_env bs = None"
  by (simp_all add: sample_env_def)

lemma sample_small: "small_bodies sample_env"
  by (auto simp: small_bodies_def delivered_def blank_md5_def Message_new_def)

lemma sample_answering: "answering sample_env"
  by (simp add: answering_def)

lemma sample_md5: "file_md5 sample_env [1, 2, 3] = Some (ad_md5 sample_ad)"
  using file_md5_spec [of sample_env "[1, 2, 3]"] by (simp add: sample_ad_def blank_md5_def)

lemma sample_ad_sel [simp]: "ad_id sample_ad = 7" "ad_download sample_ad = [[104]]" "utf8ToGB2312_ad sample_env sample_ad = sample_ad"
  by (simp_all add: sample_ad_def utf8ToGB2312_ad_def)

definition sample_start :: "bool \<Rightarrow> manager" where
  "sample_start server = business_start sample_env [] 0 [] server 0 [] None"

lemma sample_start_sel [simp]:
  "mg_isEndBusiness (sample_start server) = False" "mg_mapAd (sample_start server) = Map.empty"
  "mg_bufImages (sample_start server) = Map.empty" "mg_isBarServer (sample_start server) = server"
  "mg_lockAds (sample_start server) = []" "mg_pPlayer (sample_start server) = None"
  "mg_waiting (sample_start server) = []" "mg_ready (sample_start server) = []" "mg_sent (sample_start server) = []"
  by (simp_all add: sample_start_def business_start_def bgnBusiness_def setConfig_def AdManagerImpl_def
      initResponseBuf_def Let_def)

lemma sample_ask [simp]:
  "ask sample_env req m = Some (Message_new\<lparr>msg_content := [1, 2, 3]\<rparr>, m\<lparr>mg_sent := mg_sent m @ [req]\<rparr>)"
  by (simp add: ask_def utf8ToGB2312_msg_def Message_new_def Let_def)

lemma Message_new_returncode [simp]: "msg_returncode (Message_new\<lparr>msg_content := bs\<rparr>) = 0"
  by (simp add: Message_new_def)

text \<open>The first round: connect, policy, list, file.\<close>

lemma sample_downloads:
  assumes "\<not> mg_isEndBusiness m" "mg_mapAd m = [7 \<mapsto> sample_ad]" "mg_bufImages m = Map.empty"
    "mg_policy m = sample_policy" "mg_pPlayer m = None"
  shows "\<exists>m'. downloadAds sample_env m = Some m'
     \<and> mg_bufImages m' = [7 \<mapsto> if mg_isBarServer m then Message_SerializeAsString ref_lib (file_response [1, 2, 3])
                             else [1, 2, 3]]
     \<and> mg_waiting m' = mg_waiting m \<and> mg_isBarServer m' = mg_isBarServer m
     \<and> prefix (mg_sent m) (mg_sent m')"
  using assms
  by (cases "mg_isBarServer m")
     (simp_all add: downloadAds_def sample_policy_def map_at_def evict_def downloadAd_def download_peer_def
      ask_def utf8ToGB2312_msg_def sample_md5 img_insert_def Message_new_def Let_def)

lemma sample_round:
  "\<exists>m. posted_business sample_env (sample_start server) = Some m
     \<and> mg_bufImages m = [7 \<mapsto> if server then Message_SerializeAsString ref_lib (file_response [1, 2, 3]) else [1, 2, 3]]
     \<and> mg_waiting m = [TimerPolicy] \<and> mg_isBarServer m = server
     \<and> (\<exists>req \<in> set (mg_sent m). msg_method req = ascii ''getAdPlayPolicy'')"
proof -
  obtain c where c: "connect_until sample_env 0 (mg_endpoint (sample_start server)) (mg_client (sample_start server)) = Some c"
    using connect_until_Some [of 0 sample_env 0 "mg_endpoint (sample_start server)"] by fastforce
  let ?m = "sample_start server"
  define m1 where "m1 = (expires_from_now TimerPolicy (6 * 60 * 60)
      (?m\<lparr>mg_client := c, mg_sent := [Message_new\<lparr>msg_method := ascii ''getAdPlayPolicy'', msg_content := be32 0\<rparr>],
          mg_policy := sample_policy\<rparr>))
      \<lparr>mg_bufPolicy := Message_SerializeAsString ref_lib (policy_response [1, 2, 3])\<rparr>"
  have m1: "mg_isEndBusiness m1 = False" "mg_mapAd m1 = Map.empty" "mg_bufImages m1 = Map.empty"
    "mg_lockAds m1 = []" "mg_policy m1 = sample_policy" "mg_pPlayer m1 = None" "mg_waiting m1 = []"
    "mg_isBarServer m1 = server"
    by (simp_all add: m1_def expires_from_now_def)
  define m2 where "m2 = map_insert 7 sample_ad (m1\<lparr>mg_sent := mg_sent m1 @ [Message_new\<lparr>msg_method := ascii ''getAdList''\<rparr>],
       mg_bufAdList := Message_SerializeAsString ref_lib (list_response [1, 2, 3])\<rparr>)"
  have m2: "mg_isEndBusiness m2 = False" "mg_mapAd m2 = [7 \<mapsto> sample_ad]" "mg_bufImages m2 = Map.empty"
    "mg_lockAds m2 = []" "mg_policy m2 = sample_policy" "mg_pPlayer m2 = None" "mg_waiting m2 = []"
    "mg_isBarServer m2 = server"
    by (simp_all add: m2_def map_insert_def m1)
  define m3 where "m3 = (if server then m2 else m2\<lparr>mg_lockAds := [7]\<rparr>)"
  have "lock_plays (pol_adplays sample_policy) m2 = m2\<lparr>mg_lockAds := [7]\<rparr>"
    using m2 by (simp add: sample_policy_def map_at_def Let_def)
  then have l: "requestAdList sample_env m1 = downloadAds sample_env m3"
    using m2(5,8) by (simp add: requestAdList_def m1(1) m2_def [symmetric] m3_def Let_def)
  have p: "posted_business sample_env ?m = map_option (async_wait TimerPolicy) (requestAdList sample_env m1)"
    unfolding posted_business_def c option.case
    by (simp add: requestAdPlayPolicy_def m1_def Let_def)
  have "\<exists>m'. downloadAds sample_env m3 = Some m'
     \<and> mg_bufImages m' = [7 \<mapsto> if mg_isBarServer m3 then Message_SerializeAsString ref_lib (file_response [1, 2, 3])
                             else [1, 2, 3]]
     \<and> mg_waiting m' = mg_waiting m3 \<and> mg_isBarServer m' = mg_isBarServer m3 \<and> prefix (mg_sent m3) (mg_sent m')"
    by (rule sample_downloads) (simp_all add: m3_def m2)
  moreover have "\<exists>req \<in> set hist. msg_method req = ascii ''getAdPlayPolicy''" if p: "prefix (mg_sent m3) hist" for hist
  proof -
    let ?req = "Message_new\<lparr>msg_method := ascii ''getAdPlayPolicy'', msg_content := be32 0\<rparr>"
    have "?req \<in> set (mg_sent m3)"
      by (simp add: m3_def m2_def m1_def map_insert_def expires_from_now_def)
    then have "?req \<in> set hist" using set_mono_prefix [OF p] by blast
    then show ?thesis by (intro bexI [of _ ?req]) simp_all
  qed
  ultimately show ?thesis unfolding p l by (auto simp: m3_def m2 async_wait_def)
qed


lemma sample_completed:
  obtains m where "biz sample_env (sample_start server) m" "mg_isBarServer m = server" "mg_waiting m = [TimerPolicy]"
    "mg_bufImages m 7 = Some (if server then Message_SerializeAsString ref_lib (file_response [1, 2, 3]) else [1, 2, 3])"
    "latest_policy sample_env (mg_sent m) = policy_response [1, 2, 3]"
proof -
  have l: "latest_policy sample_env hist = policy_response [1, 2, 3]"
    if "\<exists>req \<in> set hist. msg_method req = ascii ''getAdPlayPolicy''" for hist
    using that
  proof (induction hist rule: rev_induct)
    case (snoc req hist)
    then show ?case
      by (cases "msg_method req = ascii ''getAdPlayPolicy''") (auto simp: latest_policy_snoc policy_answer_def)
  qed simp
  obtain m where "posted_business sample_env (sample_start server) = Some m"
    "mg_bufImages m = [7 \<mapsto> if server then Message_SerializeAsString ref_lib (file_response [1, 2, 3]) else [1, 2, 3]]"
    "mg_waiting m = [TimerPolicy]" "mg_isBarServer m = server"
    "\<exists>req \<in> set (mg_sent m). msg_method req = ascii ''getAdPlayPolicy''"
    using sample_round [of server] by blast
  then show ?thesis using that [of m] l biz.posted by simp
qed

section \<open>Properties\<close>

text \<open>The printed digest of a body.\<close>

definition md5_text :: "bytes \<Rightarrow> bytes" where
  "md5_text body = ascii (concat (map hex2 (md5_spec body)))"

text \<open>C1: Only verified files are kept.  In every state that the business reaches, a file in
  \<open>_bufImages\<close> belongs to an advertisement that is known and can be downloaded, it is a body that
  the web (on a server) or the peer (on a client) delivered, and the RFC 1321 digest of that body is
  the one of the advertisement up to the case of its digits; a server keeps the serialised answer, a
  client the body.  Bodies are below the length at which the MD5 code goes wrong.\<close>

theorem kept_files_are_verified:
  assumes "small_bodies E" "rtranclp (biz E) (business_start E addr port bar server listen lvl created) m"
    "mg_bufImages m i = Some buf"
  shows "\<exists>a body. mg_mapAd m i = Some a \<and> ad_download a \<noteq> [] \<and> delivered E (mg_isBarServer m) body
     \<and> to_upper_copy (ad_md5 a) = to_upper_copy (md5_text body)
     \<and> buf = (if mg_isBarServer m then Message_SerializeAsString (env_lib E) (file_response body) else body)"
proof -
  have "business_ok E m" by (rule business.reached [OF assms(2) start_ok])
  then obtain a body md5 where v: "mg_mapAd m i = Some a" "ad_download a \<noteq> []" "file_md5 E body = Some md5"
    "to_upper_copy (ad_md5 a) = to_upper_copy md5" "delivered E (mg_isBarServer m) body"
    "buf = (if mg_isBarServer m then Message_SerializeAsString (env_lib E) (file_response body) else body)"
    using assms(3) unfolding business_ok_def verified_def verified_image_def by blast
  have "md5 = md5_text body"
    using file_md5_spec [of E body] assms(1) v(3,5) by (auto simp: small_bodies_def md5_text_def)
  with v show ?thesis by blast
qed

theorem kept_files_are_verified_witness:
  "\<exists>(m :: manager) a body. mg_mapAd m 7 = Some a \<and> ad_download a \<noteq> [] \<and> delivered sample_env (mg_isBarServer m) body
     \<and> to_upper_copy (ad_md5 a) = to_upper_copy (md5_text body)
     \<and> [1, 2, 3] = (if mg_isBarServer m then Message_SerializeAsString (env_lib sample_env) (file_response body) else body)"
proof -
  obtain m where m: "biz sample_env (sample_start False) m" "mg_bufImages m 7 = Some [1, 2, 3]"
    by (rule sample_completed [of False]) simp
  from kept_files_are_verified [OF sample_small r_into_rtranclp [where r = "biz sample_env", OF m(1) [unfolded sample_start_def]] m(2)]
  show ?thesis by (rule exI [of _ m])
qed



text \<open>C6: \<open>downloadAds\<close> fetches what the policy wants and nothing else.  The files that are asked for are
  exactly the wanted ones that are not in memory, each once and in the order of their numbers.  A
  client sends the request for each of them and keeps the body of the answer if it is good; a server
  asks the addresses of each in their order up to the first that gives a good body, whose answer it
  keeps, or all of them.  Of the other files exactly those that are still wanted stay.  If a wanted
  file is missing afterwards the download timer, and no other, was set to five minutes; if none is,
  the timers are as they were.\<close>

theorem downloads_follow_policy:
  assumes "downloadAds E m = Some m'" "\<not> mg_isEndBusiness m"
  shows "\<exists>ids. sorted_wrt (\<lambda>i j. sint i < sint j) ids \<and> set ids = wanted m - dom (mg_bufImages m)
    \<and> (if mg_isBarServer m then asks_web E m ids m' else asks_peer E m ids m')
    \<and> (\<forall>i. i \<notin> set ids \<longrightarrow> mg_bufImages m' i = (mg_bufImages m |` wanted m) i)
    \<and> (if wanted m \<subseteq> dom (mg_bufImages m') then mg_waiting m' = mg_waiting m
       else mg_waiting m' = filter (\<lambda>t. t \<noteq> TimerDownload) (mg_waiting m) @ [TimerDownload]
         \<and> mg_delay m' TimerDownload = 300)"
  by (rule downloadAds_asks [OF assms], rule exI, intro conjI, assumption+)
     (simp_all split: if_splits)

definition sample_known :: "bool \<Rightarrow> manager" where
  "sample_known server = (sample_start server)\<lparr>mg_mapAd := [7 \<mapsto> sample_ad], mg_policy := sample_policy\<rparr>"

lemma sample_wanted: "wanted (sample_known server) = {7}"
  by (auto simp: wanted_def sample_known_def sample_policy_def downloadable_def)

theorem downloads_follow_policy_witness:
  "\<exists>m'. downloadAds sample_env (sample_known False) = Some m'
    \<and> mg_sent m' = [file_request 7] \<and> mg_bufImages m' 7 = Some [1, 2, 3]"
proof -
  obtain m' where d: "downloadAds sample_env (sample_known False) = Some m'"
    using downloadAds_returns [OF sample_small sample_answering] by blast
  have s: "\<not> mg_isEndBusiness (sample_known False)" "\<not> mg_isBarServer (sample_known False)"
    "mg_sent (sample_known False) = []" "mg_bufImages (sample_known False) = Map.empty"
    "mg_mapAd (sample_known False) 7 = Some sample_ad"
    by (simp_all add: sample_known_def)
  obtain ids where ids: "sorted_wrt (\<lambda>i j. sint i < sint j) ids" "set ids = {7}"
    "asks_peer sample_env (sample_known False) ids m'"
    using downloads_follow_policy [OF d s(1)] s sample_wanted by auto
  have "distinct ids" by (rule sint_sorted_distinct [OF ids(1)])
  then have "ids = [7]" using ids(2) by (cases ids; cases "tl ids") auto
  then show ?thesis
    using ids(3) s d sample_md5 by (auto simp: asks_peer_def peer_file_def good_body_def)
qed

text \<open>C7: A client whose peer has the files gets them all in one round: when every number of the policy
  is known and the peer answers each \<open>getAdFile\<close> with a body of the right digest, after \<open>downloadAds\<close>
  exactly the wanted files are in memory and no retry was set.\<close>

theorem client_downloads_complete:
  assumes "has_files E m" "\<not> mg_isBarServer m" "\<not> mg_isEndBusiness m"
    "\<forall>p \<in> set (pol_adplays (mg_policy m)). \<forall>i \<in> set (play_adids p). mg_mapAd m i \<noteq> None"
  shows "\<exists>m'. downloadAds E m = Some m' \<and> dom (mg_bufImages m') = wanted m \<and> mg_waiting m' = mg_waiting m"
  using assms by (rule downloadAds_completes)

theorem client_downloads_complete_witness:
  "\<exists>m'. downloadAds sample_env (sample_known False) = Some m' \<and> dom (mg_bufImages m') = wanted (sample_known False)
     \<and> mg_waiting m' = mg_waiting (sample_known False)"
proof (rule client_downloads_complete)
  show "has_files sample_env (sample_known False)"
    using sample_md5 by (auto simp: has_files_def sample_known_def Message_new_def split: if_splits)
qed (simp_all add: sample_known_def sample_policy_def)


text \<open>C10: A retry that waits is lost to the next failure, and from then on retries do not wait.  When the
  list is refused while a retry of it is already waiting (the refresh of the policy asks for the
  list too), setting the timer cancels that wait, whose handler takes no error code and runs at
  once, is refused, and cancels the wait again: for every \<open>n\<close> the business sends \<open>n\<close> further
  requests with no timer having expired.\<close>

theorem refused_list_storms:
  assumes "list_fails E" "\<not> mg_isEndBusiness m" "mg_ready m = []"
    "filter (\<lambda>t. t = TimerAdList) (mg_waiting m) = [TimerAdList]"
  shows "\<exists>m1 m'. requestAdList E m = Some m1 \<and> (hurry E ^^ n) m1 m'
    \<and> length (mg_sent m') = length (mg_sent m) + Suc n"
proof -
  obtain m1 where m1: "requestAdList E m = Some m1" "storming m1" "length (mg_sent m1) = Suc (length (mg_sent m))"
    using failed_list [OF assms(1,2)] assms(3,4) by (auto simp: storming_def)
  obtain m' where "(hurry E ^^ n) m1 m'" "length (mg_sent m') = length (mg_sent m1) + n"
    using storm [OF assms(1) m1(2)] by blast
  with m1 show ?thesis by auto
qed

definition refusing_env :: env where
  "refusing_env = sample_env\<lparr>env_peer := (\<lambda>_. Some (Message_new\<lparr>msg_returncode := - 1\<rparr>))\<rparr>"

theorem refused_list_storms_witness:
  "\<exists>m1 m'. requestAdList refusing_env ((sample_start True)\<lparr>mg_waiting := [TimerAdList]\<rparr>) = Some m1
    \<and> (hurry refusing_env ^^ 1000) m1 m'
    \<and> length (mg_sent m') = length (mg_sent ((sample_start True)\<lparr>mg_waiting := [TimerAdList]\<rparr>)) + Suc 1000"
  by (rule refused_list_storms) (simp_all add: list_fails_def refusing_env_def Message_new_def)

text \<open>The start connects exactly when some attempt succeeds; it then has a connected client that is
  bound to the configured end point, and the policy is asked for.\<close>

theorem start_connects_iff:
  "(\<exists>c. connect_until E 0 ep c0 = Some c \<and> cl_endpoint c = ep \<and> client_isConnected c)
     \<longleftrightarrow> (\<exists>k. env_connect E k = 0)"
proof
  assume "\<exists>k. env_connect E k = 0"
  then obtain k where k: "env_connect E k = 0" "\<forall>j < k. env_connect E j \<noteq> 0"
    using exists_least_iff [of "\<lambda>k. env_connect E k = 0"] by auto
  then have "\<forall>j < k. env_connect E (0 + j) \<noteq> 0" "env_connect E (0 + k) = 0" by simp_all
  then show "\<exists>c. connect_until E 0 ep c0 = Some c \<and> cl_endpoint c = ep \<and> client_isConnected c"
    by (rule connect_until_Some)
qed (use connect_until_succeeds in blast)

text \<open>C3: What a client program gets for a policy request.  In every state the business reaches, the
  answer to \<open>getAdPlayPolicy\<close> is one frame that parses to a message with the number of the request
  and, unchanged, the content of the latest successful answer of the peer to a policy request; if
  no policy request was answered with success so far, to return code 2.\<close>

theorem policy_is_relayed:
  assumes "pb_runtime (env_lib E)" "accepts_ascii (env_lib E)"
    "\<And>hist rsp. env_peer E hist = Some rsp \<Longrightarrow> length (msg_content rsp) \<le> 67000000"
    "rtranclp (biz E) (business_start E addr port bar server listen lvl created) m"
    "msg_method msg = ascii ''getAdPlayPolicy''" "ses_msgQueue s = []"
  shows "\<exists>e. handleRequest (env_lib E) msg m s = Some (s\<lparr>ses_msgQueue := [e]\<rparr>, [StartWrite (entry_bytes e)])
    \<and> carries (env_lib E) e ((latest_policy E (mg_sent m))\<lparr>msg_id := msg_id msg, msg_cached_size := 0\<rparr>)"
proof -
  have "business_ok E m" by (rule business.reached [OF assms(4) start_ok])
  then have x: "mg_bufPolicy m = Message_SerializeAsString (env_lib E) (latest_policy E (mg_sent m))"
    by (simp add: business_ok_def serves_policy_def)
  let ?x = "latest_policy E (mg_sent m)"
  have "?x = no_policy \<or> (\<exists>hist rsp. env_peer E hist = Some rsp \<and> ?x = policy_response (msg_content rsp))"
    by (rule latest_policy_cases)
  then have "msg_id ?x = 0" "length (msg_content ?x) \<le> 67000000" "length (msg_method ?x) + length (msg_returnmsg ?x) \<le> 100"
    "VerifyUtf8String (env_lib E) (msg_method ?x)" "VerifyUtf8String (env_lib E) (msg_returnmsg ?x)"
    using assms(3) accepts_texts [OF assms(2)] by (auto simp: no_policy_def policy_response_def Message_new_def)
  from pb_runtime.answer_carried [OF assms(1) this assms(6)] x show ?thesis
    unfolding handleRequest_def assms(5) by auto
qed

lemma ascii_small: "list_all (\<lambda>c. of_char c < (128 :: nat)) s \<Longrightarrow> list_all (\<lambda>b. b < 128) (ascii s)"
  by (induction s) (simp_all add: ascii_def word_less_nat_alt unat_of_nat_byte)

lemma ref_accepts_ascii: "accepts_ascii ref_lib"
  using ascii_small by (simp add: accepts_ascii_def ref_lib_def)

theorem policy_is_relayed_witness:
  "\<exists>m e. biz sample_env (sample_start True) m
    \<and> handleRequest ref_lib (Message_new\<lparr>msg_method := ascii ''getAdPlayPolicy''\<rparr>) m TcpSession
       = Some (TcpSession\<lparr>ses_msgQueue := [e]\<rparr>, [StartWrite (entry_bytes e)])
    \<and> carries ref_lib e ((policy_response [1, 2, 3])\<lparr>msg_id := 0, msg_cached_size := 0\<rparr>)"
proof -
  obtain m where m: "biz sample_env (sample_start True) m" "latest_policy sample_env (mg_sent m) = policy_response [1, 2, 3]"
    by (rule sample_completed [of True])
  have "\<exists>e. handleRequest (env_lib sample_env) (Message_new\<lparr>msg_method := ascii ''getAdPlayPolicy''\<rparr>) m TcpSession
       = Some (TcpSession\<lparr>ses_msgQueue := [e]\<rparr>, [StartWrite (entry_bytes e)])
    \<and> carries (env_lib sample_env) e ((latest_policy sample_env (mg_sent m))
        \<lparr>msg_id := msg_id (Message_new\<lparr>msg_method := ascii ''getAdPlayPolicy''\<rparr>), msg_cached_size := 0\<rparr>)"
    by (rule policy_is_relayed [OF _ _ _ r_into_rtranclp [where r = "biz sample_env", OF m(1) [unfolded sample_start_def]]])
       (simp_all add: ref.pb_runtime_axioms ref_accepts_ascii Message_new_def)
  then show ?thesis using m by (auto simp: Message_new_def)
qed

text \<open>C2: The answer to \<open>getAdFile\<close> on a server: a file that is in memory is sent as one frame that parses
  to return code 0, the number of the request and a body whose RFC 1321 digest is the one of the
  advertisement.\<close>

theorem served_file_has_its_digest:
  assumes "pb_runtime (env_lib E)" "accepts_ascii (env_lib E)" "length (buffer (env_md5 E)) = 64"
    "\<And>b body. delivered E b body \<Longrightarrow> length body \<le> 67000000"
    "rtranclp (biz E) (business_start E addr port bar server listen lvl created) m" "mg_isBarServer m"
    "msg_method msg = ascii ''getAdFile''" "content_id (msg_content msg) = Some i" "mg_bufImages m i = Some buf"
    "ses_msgQueue s = []"
  shows "\<exists>a body e. mg_mapAd m i = Some a \<and> to_upper_copy (ad_md5 a) = to_upper_copy (md5_text body)
    \<and> handleRequest (env_lib E) msg m s = Some (s\<lparr>ses_msgQueue := [e]\<rparr>, [StartWrite (entry_bytes e)])
    \<and> carries (env_lib E) e ((file_response body)\<lparr>msg_id := msg_id msg, msg_cached_size := 0\<rparr>)"
proof -
  have "business_ok E m" by (rule business.reached [OF assms(5) start_ok])
  then have "verified_image E m i buf" using assms(9) by (simp add: business_ok_def verified_def)
  then obtain a body md5 where v: "mg_mapAd m i = Some a" "file_md5 E body = Some md5"
    "to_upper_copy (ad_md5 a) = to_upper_copy md5" "delivered E True body"
    "buf = Message_SerializeAsString (env_lib E) (file_response body)"
    by (simp only: verified_image_def assms(6) if_True) blast
  have len: "length body \<le> 67000000" using assms(4) [OF v(4)] .
  then have "md5 = md5_text body"
    using file_md5_spec [OF assms(3), of body] v(2) by (simp add: md5_text_def)
  moreover have "msg_id (file_response body) = 0" "length (msg_content (file_response body)) \<le> 67000000"
    "length (msg_method (file_response body)) + length (msg_returnmsg (file_response body)) \<le> 100"
    "VerifyUtf8String (env_lib E) (msg_method (file_response body))"
    "VerifyUtf8String (env_lib E) (msg_returnmsg (file_response body))"
    using len accepts_texts [OF assms(2)] by (simp_all add: file_response_def Message_new_def)
  note c = pb_runtime.answer_carried [OF assms(1) this assms(10), of "msg_id msg"]
  have "handleRequest (env_lib E) msg m s = Some (queueRspData (env_lib E) (msg_id msg) buf s)"
    by (simp add: handleRequest_def assms(7-9) methods_differ)
  ultimately show ?thesis using v c by auto
qed


theorem served_file_has_its_digest_witness:
  "\<exists>(m :: manager) a body e. mg_mapAd m 7 = Some a \<and> to_upper_copy (ad_md5 a) = to_upper_copy (md5_text body)
    \<and> handleRequest (env_lib sample_env) (Message_new\<lparr>msg_method := ascii ''getAdFile'', msg_content := [7, 0, 0, 0]\<rparr>) m TcpSession
       = Some (TcpSession\<lparr>ses_msgQueue := [e]\<rparr>, [StartWrite (entry_bytes e)])
    \<and> carries (env_lib sample_env) e ((file_response body)
        \<lparr>msg_id := msg_id (Message_new\<lparr>msg_method := ascii ''getAdFile'', msg_content := [7, 0, 0, 0]\<rparr>), msg_cached_size := 0\<rparr>)"
proof -
  obtain m where m: "biz sample_env (sample_start True) m" "mg_isBarServer m"
    "mg_bufImages m 7 = Some (Message_SerializeAsString ref_lib (file_response [1, 2, 3]))"
    by (rule sample_completed [of True]) simp
  show ?thesis
    by (rule exI [of _ m], rule served_file_has_its_digest
        [OF _ _ _ _ r_into_rtranclp [where r = "biz sample_env", OF m(1) [unfolded sample_start_def]] m(2) _ _ m(3)])
       (auto simp: ref.pb_runtime_axioms ref_accepts_ascii blank_md5_def delivered_def Message_new_def
         content_id_def be32_dec_def split: if_splits)
qed

text \<open>What is known of an advertisement is never replaced: \<open>_mapAd.insert\<close> keeps the entry that is
  there, so over any run of the business an advertisement keeps the data of the first list that had
  it, whatever later lists say.\<close>

theorem known_ads_are_frozen:
  assumes "rtranclp (biz E) m m'" "mg_mapAd m i = Some a"
  shows "mg_mapAd m' i = Some a"
proof -
  have "knows m m" by (simp add: knows_def)
  then have "knows m m'" by (rule knowing.reached [OF assms(1)])
  then show ?thesis using assms(2) unfolding knows_def map_le_def by (metis domI)
qed

theorem known_ads_are_frozen_witness:
  "\<exists>m'. biz sample_env (sample_known True) m' \<and> mg_mapAd m' 7 = Some sample_ad"
proof -
  have b: "biz sample_env (sample_known True) (snd (getAd 8 (sample_known True)))" by (rule biz.queried)
  have "mg_mapAd (sample_known True) 7 = Some sample_ad" by (simp add: sample_known_def)
  with known_ads_are_frozen [OF r_into_rtranclp [where r = "biz sample_env", OF b] this] b show ?thesis by blast
qed

text \<open>C8: The handler answers each request with exactly one entry of the session's queue, except
  \<open>getAd\<close>, which it never answers; it does not touch the requests of its own side.  The content of a
  request for a file must have the bytes of its number.\<close>

theorem requests_answered_once:
  assumes "msg_method msg \<in> {ascii ''getAd'', ascii ''getAdFile''} \<Longrightarrow> 3 \<le> length (msg_content msg)"
  shows "\<exists>s' acts. handleRequest L msg m s = Some (s', acts)
    \<and> length (ses_msgQueue s') = length (ses_msgQueue s) + (if msg_method msg = ascii ''getAd'' then 0 else 1)
    \<and> ses_lstRequestCtx s' = ses_lstRequestCtx s"
proof -
  have e: "length (ses_msgQueue (fst (enqueue e s))) = Suc (length (ses_msgQueue s))
      \<and> ses_lstRequestCtx (fst (enqueue e s)) = ses_lstRequestCtx s" for e
    by (simp add: enqueue_def writeData_def Let_def)
  have q: "length (ses_msgQueue (fst (queueRspMsg L x s))) = Suc (length (ses_msgQueue s))
      \<and> ses_lstRequestCtx (fst (queueRspMsg L x s)) = ses_lstRequestCtx s"
    "length (ses_msgQueue (fst (queueRspData L i d s))) = Suc (length (ses_msgQueue s))
      \<and> ses_lstRequestCtx (fst (queueRspData L i d s)) = ses_lstRequestCtx s" for x i d
    by (simp_all only: queueRspMsg_def queueRspData_def Let_def e)
  have differ: "ascii ''getAdPlayPolicy'' \<noteq> ascii ''getAd''" "ascii ''getAdList'' \<noteq> ascii ''getAd''"
    by (simp_all add: ascii_def)
  have "\<exists>r. handleRequest L msg m s = Some r
    \<and> length (ses_msgQueue (fst r)) = length (ses_msgQueue s) + (if msg_method msg = ascii ''getAd'' then 0 else 1)
    \<and> ses_lstRequestCtx (fst r) = ses_lstRequestCtx s"
    using assms differ methods_differ(5)
    by (auto simp: handleRequest_def content_id_def q simp del: split_paired_Ex split: option.split)
  then show ?thesis by (metis prod.collapse)
qed

theorem requests_answered_once_witness:
  "\<exists>s' acts. handleRequest ref_lib (Message_new\<lparr>msg_method := ascii ''getAdFile'', msg_content := le32 7\<rparr>)
      (sample_start True) TcpSession = Some (s', acts)
    \<and> length (ses_msgQueue s') = length (ses_msgQueue TcpSession)
       + (if msg_method (Message_new\<lparr>msg_method := ascii ''getAdFile'', msg_content := le32 7\<rparr>) = ascii ''getAd'' then 0 else 1)
    \<and> ses_lstRequestCtx s' = ses_lstRequestCtx TcpSession"
  by (rule requests_answered_once) (simp add: le32_def)

end
