(* ===== verification/HttpParser.thy ===== *)
theory HttpParser
  imports AdPrelude
begin

text \<open>
  The incremental parser of HTTP responses, struct \<open>response_parser\<close> of
  \<^verbatim>\<open>boost/network/protocol/http/parser/incremental.hpp\<close>, which the web client of the
  program uses for its downloads.  The parser is a scanner of one state per position of the grammar;
  \<open>parse_until\<close> runs it on a range of characters until it enters a given state.
\<close>

section \<open>Characters\<close>

text \<open>The classes of \<open>boost::algorithm\<close> in the classic locale; no class has a character above 127.\<close>

definition is_digit :: "byte \<Rightarrow> bool" where
  "is_digit c \<longleftrightarrow> 48 \<le> c \<and> c \<le> 57"

definition is_alnum :: "byte \<Rightarrow> bool" where
  "is_alnum c \<longleftrightarrow> is_digit c \<or> 65 \<le> c \<and> c \<le> 90 \<or> 97 \<le> c \<and> c \<le> 122"

definition is_punct :: "byte \<Rightarrow> bool" where
  "is_punct c \<longleftrightarrow> 33 \<le> c \<and> c \<le> 126 \<and> \<not> is_alnum c"

definition is_space :: "byte \<Rightarrow> bool" where
  "is_space c \<longleftrightarrow> c = 32 \<or> 9 \<le> c \<and> c \<le> 13"

definition is_cntrl :: "byte \<Rightarrow> bool" where
  "is_cntrl c \<longleftrightarrow> c \<le> 31 \<or> c = 127"

section \<open>The scanner\<close>

datatype parser_state =
    http_response_begin
  | http_version_h | http_version_t1 | http_version_t2 | http_version_p | http_version_slash
  | http_version_major | http_version_dot | http_version_minor | http_version_done
  | http_status_digit | http_status_done
  | http_status_message_char | http_status_message_cr | http_status_message_done
  | http_header_name_char | http_header_colon | http_header_value_char
  | http_header_line_cr | http_header_line_done | http_headers_end_cr | http_headers_done

datatype tribool = parsed_true | parsed_false | indeterminate

text \<open>One turn of the switch: the new state and whether the start of the range moves along with the
  current position; \<open>None\<close> if the character is refused.\<close>

fun parser_switch :: "parser_state \<Rightarrow> byte \<Rightarrow> (parser_state \<times> bool) option" where
  "parser_switch http_response_begin c =
     (if c = 32 \<or> c = 13 \<or> c = 10 then Some (http_response_begin, True)
      else if c = 72 then Some (http_version_h, False) else None)"
| "parser_switch http_version_h c = (if c = 84 then Some (http_version_t1, False) else None)"
| "parser_switch http_version_t1 c = (if c = 84 then Some (http_version_t2, False) else None)"
| "parser_switch http_version_t2 c = (if c = 80 then Some (http_version_p, False) else None)"
| "parser_switch http_version_p c = (if c = 47 then Some (http_version_slash, False) else None)"
| "parser_switch http_version_slash c = (if is_digit c then Some (http_version_major, False) else None)"
| "parser_switch http_version_major c = (if c = 46 then Some (http_version_dot, False) else None)"
| "parser_switch http_version_dot c = (if is_digit c then Some (http_version_minor, False) else None)"
| "parser_switch http_version_minor c = (if c = 32 then Some (http_version_done, False) else None)"
| "parser_switch http_version_done c = (if is_digit c then Some (http_status_digit, False) else None)"
| "parser_switch http_status_digit c =
     (if is_digit c then Some (http_status_digit, False)
      else if c = 32 then Some (http_status_done, False) else None)"
| "parser_switch http_status_done c = (if is_alnum c then Some (http_status_message_char, False) else None)"
| "parser_switch http_status_message_char c =
     (if is_alnum c \<or> is_punct c \<or> c = 32 then Some (http_status_message_char, False)
      else if c = 13 then Some (http_status_message_cr, False) else None)"
| "parser_switch http_status_message_cr c = (if c = 10 then Some (http_status_message_done, False) else None)"
| "parser_switch http_status_message_done c =
     (if is_alnum c then Some (http_header_name_char, False)
      else if c = 13 then Some (http_headers_end_cr, False) else None)"
| "parser_switch http_header_line_done c =
     (if is_alnum c then Some (http_header_name_char, False)
      else if c = 13 then Some (http_headers_end_cr, False) else None)"
| "parser_switch http_header_name_char c =
     (if c = 58 then Some (http_header_colon, False)
      else if is_alnum c \<or> is_space c \<or> is_punct c then Some (http_header_name_char, False) else None)"
| "parser_switch http_header_colon c =
     (if is_space c then Some (http_header_colon, False)
      else if is_alnum c \<or> is_punct c then Some (http_header_value_char, False) else None)"
| "parser_switch http_header_value_char c =
     (if c = 13 then Some (http_header_line_cr, False)
      else if is_cntrl c then None else Some (http_header_value_char, False))"
| "parser_switch http_header_line_cr c = (if c = 10 then Some (http_header_line_done, False) else None)"
| "parser_switch http_headers_end_cr c = (if c = 10 then Some (http_headers_done, False) else None)"
| "parser_switch http_headers_done c = None"

text \<open>The loop of \<open>parse_until\<close>.  \<open>r\<close> is the text from \<open>start\<close> to \<open>current\<close>, the last argument the text
  from \<open>current\<close> to \<open>end\<close>.\<close>

fun parse_loop :: "parser_state \<Rightarrow> parser_state \<Rightarrow> bytes \<Rightarrow> bytes \<Rightarrow> tribool \<times> parser_state \<times> bytes \<times> bytes" where
  "parse_loop stop st r [] = (indeterminate, st, r, [])"
| "parse_loop stop st r (c # cs) =
     (if st = stop then (parsed_true, st, r, c # cs)
      else case parser_switch st c of
             None \<Rightarrow> (parsed_false, st, r, c # cs)
           | Some (st', skip) \<Rightarrow> parse_loop stop st' (if skip then drop 1 (r @ [c]) else r @ [c]) cs)"

text \<open>The result, the state of the parser after it, the range \<open>(start, current)\<close> and what is behind it.\<close>

definition parse_until :: "parser_state \<Rightarrow> parser_state \<Rightarrow> bytes \<Rightarrow> tribool \<times> parser_state \<times> bytes \<times> bytes" where
  "parse_until stop st input =
     (let (parsed_ok, st', r, rest) = parse_loop stop st [] input
      in (if st' = stop then parsed_true else parsed_ok, st', r, rest))"

section \<open>Laws of the scanner\<close>

text \<open>The input in pieces: the scanner goes on where it stopped.\<close>

lemma parse_loop_append:
  "parse_loop stop st r (xs @ ys) =
     (case parse_loop stop st r xs of
        (indeterminate, st', r', rest) \<Rightarrow> parse_loop stop st' r' ys
      | (ok, st', r', rest) \<Rightarrow> (ok, st', r', rest @ ys))"
  by (induction stop st r xs rule: parse_loop.induct) (auto split: option.split)

lemma parse_loop_indeterminate:
  "parse_loop stop st r xs = (indeterminate, st', r', rest) \<Longrightarrow> rest = []"
  by (induction stop st r xs rule: parse_loop.induct) (auto split: option.splits if_splits)

text \<open>White space is skipped only in front of the first character.\<close>

lemma switch_skips: "parser_switch st c = Some (st', True) \<Longrightarrow> st = http_response_begin \<and> st' = http_response_begin"
  by (cases "(st, c)" rule: parser_switch.cases) (auto split: if_splits)

lemma switch_leaves_begin: "parser_switch st c = Some (http_response_begin, b) \<Longrightarrow> st = http_response_begin \<and> b"
  by (cases "(st, c)" rule: parser_switch.cases) (auto split: if_splits)

text \<open>The range without the text it starts with.\<close>

lemma parse_loop_prefix:
  assumes "p = [] \<or> st \<noteq> http_response_begin"
  shows "parse_loop stop st (p @ r) xs =
    (case parse_loop stop st r xs of (ok, st', r', rest) \<Rightarrow> (ok, st', p @ r', rest))"
  using assms
proof (induction xs arbitrary: st r)
  case (Cons c cs)
  show ?case
  proof (cases "p = []")
    case False
    then have st: "st \<noteq> http_response_begin" using Cons.prems by simp
    show ?thesis
    proof (cases "parser_switch st c")
      case (Some q)
      obtain st' skip where q: "q = (st', skip)" by (cases q)
      have "\<not> skip" "st' \<noteq> http_response_begin"
        using Some q st switch_skips switch_leaves_begin by (metis (full_types))+
      then show ?thesis using Cons.IH [of st' "r @ [c]"] Some q by simp
    qed simp
  qed (simp split: prod.split)
qed simp

text \<open>What the scanner consumes is the input, but for the white space in front.\<close>

lemma parse_loop_consumes:
  assumes "st \<noteq> http_response_begin" "parse_loop stop st r xs = (ok, st', r', rest)"
  shows "r' @ rest = r @ xs"
  using assms
proof (induction xs arbitrary: st r)
  case (Cons c cs)
  show ?case
  proof (cases "st = stop \<or> parser_switch st c = None")
    case True
    then show ?thesis using Cons.prems by (auto split: if_splits)
  next
    case False
    then obtain st1 skip where s: "parser_switch st c = Some (st1, skip)" by (cases "parser_switch st c") auto
    have "\<not> skip" "st1 \<noteq> http_response_begin"
      using s Cons.prems(1) switch_skips switch_leaves_begin by (metis (full_types))+
    then show ?thesis using Cons.IH [of st1 "r @ [c]"] Cons.prems(2) False s by simp
  qed
qed simp

end
