(* ===== verification/HttpClient.thy ===== *)
theory HttpClient
  imports HttpParser
begin

text \<open>
  The web client behind \<open>boost::network::http::client\<close>, of the vendored cpp-netlib: the protocol
  handler (\<^verbatim>\<open>async_protocol_handler.hpp\<close>), the connection
  (\<^verbatim>\<open>async_normal.hpp\<close>) and the text of a request
  (\<^verbatim>\<open>linearize.hpp\<close>).  As for the sessions of the program, an operation
  returns the object and its effects in the order of the calls; a strand runs one handler of a
  connection at a time.
\<close>

section \<open>The object\<close>

text \<open>The promises of a response, and what they are given: a text, the status code, the headers in the
  order of their insertion, or an exception.\<close>

datatype http_promise =
    version_promise | status_promise | status_message_promise | headers_promise
  | source_promise | destination_promise | body_promise

datatype http_error =
    InvalidVersion | InvalidStatus | InvalidStatusMessage | InvalidHeader | SystemError int

datatype http_value =
    TextValue bytes | StatusValue "16 word" | HeadersValue "(bytes \<times> bytes) list" | Exception http_error

text \<open>\<open>state_t\<close> of the connection: which part of the response the next data belongs to.\<close>

datatype http_phase = in_version | in_status | in_status_message | in_headers | in_body

datatype http_action =
    ReadSome http_phase
  | Settle http_promise http_value
  | Callback bytes int
  | StartResolve
  | HttpConnect nat
  | StartSend bytes
  | BadLexicalCast
  | Diverges

record http =
  ht_parser :: parser_state
  ht_part :: bytes
  ht_begin :: nat
  ht_partial :: bytes
  ht_command :: bytes

definition http_async_connection :: "bytes \<Rightarrow> http" where
  "http_async_connection part =
     \<lparr>ht_parser = http_response_begin, ht_part = part, ht_begin = 0, ht_partial = [], ht_command = []\<rparr>"

section \<open>Helpers\<close>

text \<open>\<open>boost::algorithm::trim\<close> in the classic locale.\<close>

definition trim :: "bytes \<Rightarrow> bytes" where
  "trim bs = rev (dropWhile is_space (rev (dropWhile is_space bs)))"

definition digits_value :: "bytes \<Rightarrow> nat" where
  "digits_value ds = fold (\<lambda>d n. 10 * n + (unat d - 48)) ds 0"

text \<open>\<open>lexical_cast<uint16_t>\<close> on a text without a sign: an exception unless it is a decimal number of 16
  bits.\<close>

definition lexical_cast_u16 :: "bytes \<Rightarrow> 16 word option" where
  "lexical_cast_u16 bs =
     (if bs \<noteq> [] \<and> list_all is_digit bs \<and> digits_value bs \<le> 65535 then Some (of_nat (digits_value bs)) else None)"

text \<open>The range from \<open>part_begin\<close> to \<open>part.begin () + bytes\<close>.\<close>

definition input_range :: "nat \<Rightarrow> http \<Rightarrow> bytes" where
  "input_range n h = drop (ht_begin h) (take n (ht_part h))"

text \<open>The range becomes part of \<open>partial_parsed\<close> and the next data is read into the start of the
  buffer.\<close>

definition read_more :: "http_phase \<Rightarrow> bytes \<Rightarrow> http \<Rightarrow> http \<times> http_action list" where
  "read_more ph got h = (h\<lparr>ht_partial := ht_partial h @ got, ht_begin := 0\<rparr>, [ReadSome ph])"

section \<open>The protocol handler\<close>

definition parse_version :: "nat \<Rightarrow> http \<Rightarrow> tribool \<times> http \<times> http_action list" where
  "parse_version n h =
     (let h = h\<lparr>ht_begin := 0\<rparr>;
          (parsed_ok, st, got, rest) = parse_until http_version_done (ht_parser h) (input_range n h);
          h = h\<lparr>ht_parser := st\<rparr>
      in case parsed_ok of
           parsed_true \<Rightarrow>
             (parsed_ok, h\<lparr>ht_partial := [], ht_begin := n - length rest\<rparr>,
              [Settle version_promise (TextValue (trim (ht_partial h @ got)))])
         | parsed_false \<Rightarrow>
             (parsed_ok, h,
              map (\<lambda>p. Settle p (Exception InvalidVersion))
                [version_promise, status_promise, status_message_promise, headers_promise, source_promise,
                 destination_promise, body_promise])
         | indeterminate \<Rightarrow> (parsed_ok, read_more in_version got h))"

text \<open>An exception of \<open>lexical_cast\<close> leaves the handler; nothing of the response is settled then.\<close>

definition parse_status :: "nat \<Rightarrow> http \<Rightarrow> tribool \<times> http \<times> http_action list" where
  "parse_status n h =
     (let (parsed_ok, st, got, rest) = parse_until http_status_done (ht_parser h) (input_range n h);
          h = h\<lparr>ht_parser := st\<rparr>
      in case parsed_ok of
           parsed_true \<Rightarrow>
             (case lexical_cast_u16 (trim (ht_partial h @ got)) of
                Some code \<Rightarrow>
                  (parsed_ok, h\<lparr>ht_partial := [], ht_begin := n - length rest\<rparr>,
                   [Settle status_promise (StatusValue code)])
              | None \<Rightarrow> (parsed_false, h\<lparr>ht_partial := []\<rparr>, [BadLexicalCast]))
         | parsed_false \<Rightarrow>
             (parsed_ok, h,
              map (\<lambda>p. Settle p (Exception InvalidStatus))
                [status_promise, status_message_promise, headers_promise, source_promise, destination_promise,
                 body_promise])
         | indeterminate \<Rightarrow> (parsed_ok, read_more in_status got h))"

definition parse_status_message :: "nat \<Rightarrow> http \<Rightarrow> tribool \<times> http \<times> http_action list" where
  "parse_status_message n h =
     (let (parsed_ok, st, got, rest) = parse_until http_status_message_done (ht_parser h) (input_range n h);
          h = h\<lparr>ht_parser := st\<rparr>
      in case parsed_ok of
           parsed_true \<Rightarrow>
             (parsed_ok, h\<lparr>ht_partial := [], ht_begin := n - length rest\<rparr>,
              [Settle status_message_promise (TextValue (trim (ht_partial h @ got)))])
         | parsed_false \<Rightarrow>
             (parsed_ok, h,
              map (\<lambda>p. Settle p (Exception InvalidStatusMessage))
                [status_message_promise, headers_promise, source_promise, destination_promise, body_promise])
         | indeterminate \<Rightarrow> (parsed_ok, read_more in_status_message got h))"

text \<open>The loop of \<open>parse_headers_real\<close> over the text of the headers, with a parser of its own: \<open>None\<close> if it
  does not end, which the program has as the effect \<open>Diverges\<close>.  A name has the colon at its end, and
  is then cut by one character if it has more than one.\<close>

definition header_name :: "bytes \<Rightarrow> bytes" where
  "header_name got = (let name = trim got in if 1 < length name then butlast name else name)"

partial_function (option) header_pairs :: "parser_state \<Rightarrow> bytes \<Rightarrow> (bytes \<times> bytes) list option" where
  "header_pairs st input =
     (if input = [] then Some []
      else
        let (ok, st, got, rest) = parse_until http_header_colon st input
        in if st \<noteq> http_header_colon then Some []
           else
             let (ok, st, got', rest') = parse_until http_header_line_done st rest
             in Option.bind (header_pairs st rest') (\<lambda>pairs. Some ((header_name got, trim got') # pairs)))"

definition parse_headers_real :: "bytes \<Rightarrow> http_action list" where
  "parse_headers_real headers_part =
     (case header_pairs http_header_line_done headers_part of
        Some pairs \<Rightarrow> [Settle headers_promise (HeadersValue pairs)]
      | None \<Rightarrow> [Diverges])"

definition parse_headers :: "nat \<Rightarrow> http \<Rightarrow> tribool \<times> nat \<times> http \<times> http_action list" where
  "parse_headers n h =
     (let (parsed_ok, st, got, rest) = parse_until http_headers_done (ht_parser h) (input_range n h);
          h = h\<lparr>ht_parser := st\<rparr>
      in case parsed_ok of
           parsed_true \<Rightarrow>
             (parsed_ok, length rest, h\<lparr>ht_partial := [], ht_begin := n - length rest\<rparr>,
              parse_headers_real (ht_partial h @ got))
         | parsed_false \<Rightarrow>
             (parsed_ok, length rest, h,
              map (\<lambda>p. Settle p (Exception InvalidHeader))
                [headers_promise, body_promise, source_promise, destination_promise])
         | indeterminate \<Rightarrow> (parsed_ok, length rest, read_more in_headers got h))"

definition parse_body :: "nat \<Rightarrow> http \<Rightarrow> http \<times> http_action list" where
  "parse_body n h = read_more in_body (take n (drop (ht_begin h) (ht_part h))) h"


section \<open>The connection\<close>

definition settle_all :: "http_error \<Rightarrow> http_promise list \<Rightarrow> http_action list" where
  "settle_all e ps = map (\<lambda>p. Settle p (Exception e)) ps"

definition set_errors :: "int \<Rightarrow> http_action list" where
  "set_errors ec =
     settle_all (SystemError ec)
       [version_promise, status_promise, status_message_promise, headers_promise, source_promise,
        destination_promise, body_promise]"

text \<open>\<open>asio::error::host_not_found\<close> and \<open>asio::error::eof\<close>.  The end points are numbered; a handler is
  bound to those that are left.\<close>

definition host_not_found :: int where "host_not_found = 11001"
definition eof :: int where "eof = 2"

definition handle_resolved :: "int \<Rightarrow> nat list \<Rightarrow> http_action list \<times> nat list" where
  "handle_resolved ec endpoint_range =
     (case endpoint_range of
        iter # rest \<Rightarrow>
          if ec = 0 then ([HttpConnect iter], rest) else (set_errors ec, [])
      | [] \<Rightarrow> (set_errors (if ec \<noteq> 0 then ec else host_not_found), []))"

definition handle_connected :: "nat list \<Rightarrow> int \<Rightarrow> http \<Rightarrow> http_action list \<times> nat list" where
  "handle_connected endpoint_range ec h =
     (if ec = 0 then ([StartSend (ht_command h)], [])
      else
        case endpoint_range of
          iter # rest \<Rightarrow> ([HttpConnect iter], rest)
        | [] \<Rightarrow> (set_errors ec, []))"

definition handle_sent_request :: "int \<Rightarrow> http_action list" where
  "handle_sent_request ec = (if ec = 0 then [ReadSome in_version] else set_errors ec)"

text \<open>\<open>part.assign ('\0')\<close> and \<open>response_parser_.reset ()\<close>.\<close>

definition finish :: "http \<Rightarrow> http" where
  "finish h = h\<lparr>ht_part := replicate (length (ht_part h)) 0, ht_parser := http_response_begin\<rparr>"

text \<open>The cases of \<open>handle_received_data\<close> from the headers, the status message, the status and the
  version on; each falls through to the one before.  \<open>callback\<close>: whether the user gave one.\<close>

definition from_headers :: "bool \<Rightarrow> bool \<Rightarrow> int \<Rightarrow> nat \<Rightarrow> http \<Rightarrow> http \<times> http_action list" where
  "from_headers get_body callback ec n h =
     (let (parsed_ok, remainder, h, acts) = parse_headers n h
      in if parsed_ok \<noteq> parsed_true then (h, acts)
         else if \<not> get_body
         then (finish h, acts @ [Settle body_promise (TextValue []), Settle destination_promise (TextValue []),
                 Settle source_promise (TextValue [])])
         else if callback
         then (h, acts @ [Settle body_promise (TextValue []),
                 Callback (take remainder (drop (ht_begin h) (ht_part h))) ec, ReadSome in_body])
         else let (h, acts') = parse_body remainder h in (h, acts @ acts'))"

definition from_status_message :: "bool \<Rightarrow> bool \<Rightarrow> int \<Rightarrow> nat \<Rightarrow> http \<Rightarrow> http \<times> http_action list" where
  "from_status_message get_body callback ec n h =
     (let (parsed_ok, h, acts) = parse_status_message n h
      in if parsed_ok \<noteq> parsed_true then (h, acts)
         else let (h, acts') = from_headers get_body callback ec n h in (h, acts @ acts'))"

definition from_status :: "bool \<Rightarrow> bool \<Rightarrow> int \<Rightarrow> nat \<Rightarrow> http \<Rightarrow> http \<times> http_action list" where
  "from_status get_body callback ec n h =
     (let (parsed_ok, h, acts) = parse_status n h
      in if parsed_ok \<noteq> parsed_true then (h, acts)
         else let (h, acts') = from_status_message get_body callback ec n h in (h, acts @ acts'))"

definition from_version :: "bool \<Rightarrow> bool \<Rightarrow> int \<Rightarrow> nat \<Rightarrow> http \<Rightarrow> http \<times> http_action list" where
  "from_version get_body callback ec n h =
     (let (parsed_ok, h, acts) = parse_version n h
      in if parsed_ok \<noteq> parsed_true then (h, acts)
         else let (h, acts') = from_status get_body callback ec n h in (h, acts @ acts'))"

definition in_the_body :: "bool \<Rightarrow> int \<Rightarrow> nat \<Rightarrow> http \<Rightarrow> http \<times> http_action list" where
  "in_the_body callback ec n h =
     (if ec = eof
      then
        let (h, acts) =
              (if callback then (h, [Callback (take n (ht_part h)) ec])
               else (h\<lparr>ht_partial := []\<rparr>, [Settle body_promise (TextValue (ht_partial h @ take n (ht_part h)))]))
        in (finish h, acts @ [Settle destination_promise (TextValue []), Settle source_promise (TextValue [])])
      else if callback then (h, [Callback (take n (ht_part h)) ec, ReadSome in_body])
      else parse_body n h)"

text \<open>The completion handler of a read: \<open>data\<close> was put at the start of the buffer.\<close>

definition handle_received_data ::
    "http_phase \<Rightarrow> bool \<Rightarrow> bool \<Rightarrow> int \<Rightarrow> bytes \<Rightarrow> http \<Rightarrow> http \<times> http_action list" where
  "handle_received_data ph get_body callback ec data h =
     (let h = h\<lparr>ht_part := memcpy_at 0 data (length data) (ht_part h)\<rparr>; n = length data
      in if ec = 0 \<or> ec = eof
         then (case ph of
                 in_version \<Rightarrow> from_version get_body callback ec n h
               | in_status \<Rightarrow> from_status get_body callback ec n h
               | in_status_message \<Rightarrow> from_status_message get_body callback ec n h
               | in_headers \<Rightarrow> from_headers get_body callback ec n h
               | in_body \<Rightarrow> in_the_body callback ec n h)
         else
           (h, settle_all (SystemError ec)
                 ([source_promise, destination_promise] @
                  (case ph of
                     in_version \<Rightarrow> [version_promise, status_promise, status_message_promise, headers_promise, body_promise]
                   | in_status \<Rightarrow> [status_promise, status_message_promise, headers_promise, body_promise]
                   | in_status_message \<Rightarrow> [status_message_promise, headers_promise, body_promise]
                   | in_headers \<Rightarrow> [headers_promise, body_promise]
                   | in_body \<Rightarrow> [body_promise]))))"

section \<open>The request\<close>

fun decimal :: "nat \<Rightarrow> bytes" where
  "decimal n = (if n < 10 then [48 + of_nat n] else decimal (n div 10) @ [48 + of_nat (n mod 10)])"

declare decimal.simps [simp del]

definition chars :: "string \<Rightarrow> bytes" where
  "chars s = map (\<lambda>c. of_nat (of_char c)) s"

record http_request =
  rq_path :: bytes
  rq_query :: bytes
  rq_anchor :: bytes
  rq_host :: bytes
  rq_port :: "nat option"
  rq_headers :: "(bytes \<times> bytes) list"
  rq_body :: bytes

definition header_line :: "bytes \<Rightarrow> bytes \<Rightarrow> bytes" where
  "header_line name val = name @ [58, 32] @ val @ [13, 10]"

text \<open>\<open>linearize\<close> for a connection that is not kept alive.\<close>

definition linearize :: "http_request \<Rightarrow> bytes \<Rightarrow> nat \<Rightarrow> nat \<Rightarrow> bytes" where
  "linearize rq meth version_major version_minor =
     meth @ [32] @
     (if rq_path rq = [] \<or> hd (rq_path rq) \<noteq> 47 then [47] else []) @ rq_path rq @
     (if rq_query rq \<noteq> [] then [63] @ rq_query rq else []) @
     (if rq_anchor rq \<noteq> [] then [35] @ rq_anchor rq else []) @
     [32] @ chars ''HTTP/'' @ decimal version_major @ [46] @ decimal version_minor @ [13, 10] @
     header_line (chars ''Host'')
       (rq_host rq @ (case rq_port rq of None \<Rightarrow> [] | Some port \<Rightarrow> [58] @ decimal port)) @
     header_line (chars ''Accept'') (chars ''*/*'') @
     (if version_major = 1 \<and> version_minor = 1
      then header_line (chars ''Accept-Encoding'') (chars ''identity;q=1.0, *;q=0'') else []) @
     concat (map (\<lambda>(name, val). header_line name val) (rq_headers rq)) @
     header_line (chars ''Connection'') (chars ''Close'') @ [13, 10] @ rq_body rq"

text \<open>\<open>start\<close>.\<close>

definition http_start :: "http_request \<Rightarrow> bytes \<Rightarrow> http \<Rightarrow> http \<times> http_action list" where
  "http_start rq meth h = (h\<lparr>ht_command := ht_command h @ linearize rq meth 1 1\<rparr>, [StartResolve])"

end
