(* ===== verification/HttpStream.thy ===== *)
theory HttpStream
  imports HttpClient "HOL-Library.Sublist"
begin

text \<open>
  The web client over a stream: what a connection does with the bytes of a response does not depend
  on how the reads cut them.  The handler is related to a chain of stages over plain lists, one for
  each part of a response; a stage that has run out of input goes on with the next read.
\<close>

section \<open>Reads\<close>

fun pending_read :: "http_action list \<Rightarrow> http_phase option" where
  "pending_read [] = None"
| "pending_read (ReadSome ph # as) = (case pending_read as of None \<Rightarrow> Some ph | Some ph' \<Rightarrow> Some ph')"
| "pending_read (a # as) = pending_read as"

fun is_read :: "http_action \<Rightarrow> bool" where
  "is_read (ReadSome ph) = True"
| "is_read a = False"

text \<open>The completions of the reads of a download (with a body and no callback), one after the other:
  the effects other than reads, and the phase of the read that is pending.\<close>

fun http_feed :: "http_phase \<Rightarrow> bytes list \<Rightarrow> http \<Rightarrow> http \<times> http_action list \<times> http_phase option" where
  "http_feed ph [] h = (h, [], Some ph)"
| "http_feed ph (data # datas) h =
     (let (h1, acts) = handle_received_data ph True False 0 data h
      in case pending_read acts of
           None \<Rightarrow> (h1, filter (\<lambda>a. \<not> is_read a) acts, None)
         | Some ph' \<Rightarrow>
             let (h2, acts', r) = http_feed ph' datas h1
             in (h2, filter (\<lambda>a. \<not> is_read a) acts @ acts', r))"

section \<open>Stages\<close>

type_synonym stage_end = "http_action list \<times> (http_phase \<times> parser_state \<times> bytes) option"

definition and_then :: "http_action list \<Rightarrow> stage_end \<Rightarrow> stage_end" where
  "and_then as e = (as @ fst e, snd e)"

lemma and_then_simps [simp]:
  "and_then as (bs, k) = (as @ bs, k)" "and_then [] e = e" "and_then as (and_then bs e) = and_then (as @ bs) e"
  by (simp_all add: and_then_def)

text \<open>A stage scans to its stop state, with \<open>p\<close> scanned by earlier reads.  \<open>done_with\<close> gives the effects of
  the scanned text, and whether the next stage runs.\<close>

definition stage ::
    "http_phase \<Rightarrow> parser_state \<Rightarrow> (bytes \<Rightarrow> http_action list \<times> bool) \<Rightarrow> http_action list
      \<Rightarrow> (parser_state \<Rightarrow> bytes \<Rightarrow> stage_end) \<Rightarrow> parser_state \<Rightarrow> bytes \<Rightarrow> bytes \<Rightarrow> stage_end" where
  "stage ph stop done_with refused onward st p xs =
     (let (ok, st', r, rest) = parse_until stop st xs
      in case ok of
           parsed_true \<Rightarrow>
             let (as, go) = done_with (p @ r)
             in if go then and_then as (onward st' rest) else (as, None)
         | parsed_false \<Rightarrow> (refused, None)
         | indeterminate \<Rightarrow> ([], Some (ph, st', p @ r)))"

definition body_stage :: "parser_state \<Rightarrow> bytes \<Rightarrow> bytes \<Rightarrow> stage_end" where
  "body_stage st p xs = ([], Some (in_body, st, p @ xs))"

definition headers_stage :: "parser_state \<Rightarrow> bytes \<Rightarrow> bytes \<Rightarrow> stage_end" where
  "headers_stage = stage in_headers http_headers_done (\<lambda>t. (parse_headers_real t, True))
     (settle_all InvalidHeader [headers_promise, body_promise, source_promise, destination_promise])
     (\<lambda>st. body_stage st [])"

definition message_stage :: "parser_state \<Rightarrow> bytes \<Rightarrow> bytes \<Rightarrow> stage_end" where
  "message_stage = stage in_status_message http_status_message_done
     (\<lambda>t. ([Settle status_message_promise (TextValue (trim t))], True))
     (settle_all InvalidStatusMessage
       [status_message_promise, headers_promise, source_promise, destination_promise, body_promise])
     (\<lambda>st. headers_stage st [])"

definition status_stage :: "parser_state \<Rightarrow> bytes \<Rightarrow> bytes \<Rightarrow> stage_end" where
  "status_stage = stage in_status http_status_done
     (\<lambda>t. case lexical_cast_u16 (trim t) of
            Some code \<Rightarrow> ([Settle status_promise (StatusValue code)], True) | None \<Rightarrow> ([BadLexicalCast], False))
     (settle_all InvalidStatus
       [status_promise, status_message_promise, headers_promise, source_promise, destination_promise, body_promise])
     (\<lambda>st. message_stage st [])"

definition version_stage :: "parser_state \<Rightarrow> bytes \<Rightarrow> bytes \<Rightarrow> stage_end" where
  "version_stage = stage in_version http_version_done
     (\<lambda>t. ([Settle version_promise (TextValue (trim t))], True))
     (settle_all InvalidVersion
       [version_promise, status_promise, status_message_promise, headers_promise, source_promise,
        destination_promise, body_promise])
     (\<lambda>st. status_stage st [])"

fun run_stage :: "http_phase \<Rightarrow> parser_state \<Rightarrow> bytes \<Rightarrow> bytes \<Rightarrow> stage_end" where
  "run_stage in_version = version_stage"
| "run_stage in_status = status_stage"
| "run_stage in_status_message = message_stage"
| "run_stage in_headers = headers_stage"
| "run_stage in_body = body_stage"

text \<open>Going on with more input.\<close>

definition resume :: "bytes \<Rightarrow> stage_end \<Rightarrow> stage_end" where
  "resume ys e = (case snd e of None \<Rightarrow> e | Some (ph, st, p) \<Rightarrow> and_then (fst e) (run_stage ph st p ys))"

lemma resume_and_then [simp]: "resume ys (and_then as e) = and_then as (resume ys e)"
  by (auto simp: resume_def and_then_def split: option.split)

section \<open>Cutting the input\<close>

lemma parse_loop_begin:
  "parse_loop stop st r xs = (ok, st', r', rest) \<Longrightarrow> r = [] \<or> st \<noteq> http_response_begin \<Longrightarrow>
     r' = [] \<or> st' \<noteq> http_response_begin"
proof (induction stop st r xs rule: parse_loop.induct)
  case (2 stop st r c cs)
  show ?case
  proof (cases "st = stop \<or> parser_switch st c = None")
    case False
    then obtain st1 skip where s: "parser_switch st c = Some (st1, skip)" by (cases "parser_switch st c") auto
    have "(if skip then drop 1 (r @ [c]) else r @ [c]) = [] \<or> st1 \<noteq> http_response_begin"
      using s 2(3) switch_skips [of st c st1] switch_leaves_begin [of st c skip] by (cases skip) auto
    then show ?thesis using 2(1) [OF _ s] 2(2) False s by auto
  qed (use 2 in \<open>auto split: option.splits if_splits\<close>)
qed auto

lemma parse_loop_suffix: "parse_loop stop st r0 xs = (ok, st', r, rest) \<Longrightarrow> suffix rest xs"
proof (induction xs arbitrary: st r0)
  case (Cons c cs)
  show ?case
  proof (cases "st = stop \<or> parser_switch st c = None")
    case True
    then show ?thesis using Cons.prems by (auto split: if_splits)
  next
    case False
    then obtain st1 skip where "parser_switch st c = Some (st1, skip)" by (cases "parser_switch st c") auto
    then have "suffix rest cs" using Cons.IH Cons.prems False by auto
    then show ?thesis by (rule suffix_ConsI)
  qed
qed simp

lemma parse_until_suffix:
  assumes "parse_until stop st xs = (ok, st', r, rest)"
  shows "suffix rest xs"
  using assms parse_loop_suffix by (auto simp: parse_until_def Let_def split: prod.splits)

text \<open>The two ways a scan can leave its input.\<close>

lemma parse_until_indeterminate:
  assumes "parse_until stop st xs = (indeterminate, st', r, rest)"
  shows "parse_until stop st (xs @ ys) = (case parse_until stop st' ys of (ok, st'', r', rest') \<Rightarrow> (ok, st'', r @ r', rest'))"
    "st' \<noteq> stop"
proof -
  have l: "parse_loop stop st [] xs = (indeterminate, st', r, rest)" "st' \<noteq> stop"
    using assms by (auto simp: parse_until_def Let_def split: prod.splits if_splits)
  have b: "r = [] \<or> st' \<noteq> http_response_begin" by (rule parse_loop_begin [OF l(1)]) simp
  show "st' \<noteq> stop" by (rule l(2))
  show "parse_until stop st (xs @ ys) = (case parse_until stop st' ys of (ok, st'', r', rest') \<Rightarrow> (ok, st'', r @ r', rest'))"
    using parse_loop_prefix [OF b, of stop "[]" ys]
    by (simp add: parse_until_def parse_loop_append l(1) Let_def split: prod.split)
qed

lemma parse_until_settled:
  assumes "parse_until stop st xs = (ok, st', r, rest)" "ok \<noteq> indeterminate"
  shows "parse_until stop st (xs @ ys) = (ok, st', r, rest @ ys)"
proof (cases "parse_loop stop st [] xs")
  case (fields ok1 st1 r1 rest1)
  show ?thesis
  proof (cases ok1)
    case indeterminate
    then have e: "rest1 = []" using parse_loop_indeterminate fields by blast
    have "st1 = stop" "ok = parsed_true" "st' = st1" "r = r1" "rest = rest1"
      using assms fields indeterminate by (auto simp: parse_until_def Let_def split: if_splits)
    then show ?thesis
      using fields indeterminate e by (cases ys) (simp_all add: parse_until_def parse_loop_append Let_def)
  qed (use assms fields in \<open>auto simp: parse_until_def parse_loop_append Let_def split: if_splits\<close>)
qed

text \<open>A stage may be cut anywhere if what follows it may.\<close>

lemma stage_cut:
  assumes "\<And>st xs. onward st (xs @ ys) = resume ys (onward st xs)"
    "\<And>st p xs. run_stage ph st p xs = stage ph stop done_with refused onward st p xs"
  shows "stage ph stop done_with refused onward st p (xs @ ys) = resume ys (stage ph stop done_with refused onward st p xs)"
proof (cases "parse_until stop st xs")
  case (fields ok st' r rest)
  show ?thesis
  proof (cases ok)
    case indeterminate
    then show ?thesis
      using parse_until_indeterminate(1) [OF fields [unfolded indeterminate], of ys] fields
      by (simp add: stage_def resume_def assms(2) Let_def split: prod.split tribool.split)
  next
    case parsed_true
    then show ?thesis
      using parse_until_settled [OF fields, of ys] fields assms(1)
      by (simp add: stage_def Let_def split: prod.split) (simp add: resume_def)
  next
    case parsed_false
    then show ?thesis
      using parse_until_settled [OF fields, of ys] fields by (simp add: stage_def resume_def Let_def)
  qed
qed

lemma body_cut: "body_stage st p (xs @ ys) = resume ys (body_stage st p xs)"
  by (simp add: body_stage_def resume_def)

lemma headers_cut: "headers_stage st p (xs @ ys) = resume ys (headers_stage st p xs)"
  unfolding headers_stage_def by (rule stage_cut) (simp_all add: body_cut headers_stage_def)

lemma message_cut: "message_stage st p (xs @ ys) = resume ys (message_stage st p xs)"
  unfolding message_stage_def by (rule stage_cut) (simp_all add: headers_cut message_stage_def)

lemma status_cut: "status_stage st p (xs @ ys) = resume ys (status_stage st p xs)"
  unfolding status_stage_def by (rule stage_cut) (simp_all add: message_cut status_stage_def)

lemma version_cut: "version_stage st p (xs @ ys) = resume ys (version_stage st p xs)"
  unfolding version_stage_def by (rule stage_cut) (simp_all add: status_cut version_stage_def)

lemma run_stage_cut: "run_stage ph st p (xs @ ys) = resume ys (run_stage ph st p xs)"
  by (cases ph) (simp_all add: body_cut headers_cut message_cut status_cut version_cut)


section \<open>The handler runs the stages\<close>

text \<open>The input that is left is \<open>xs\<close>, the end of the \<open>n\<close> bytes that were read.\<close>

definition left :: "nat \<Rightarrow> http \<Rightarrow> bytes \<Rightarrow> bool" where
  "left n h xs \<longleftrightarrow> n \<le> length (ht_part h) \<and> suffix xs (take n (ht_part h)) \<and> ht_begin h = n - length xs"

lemma left_range:
  assumes "left n h xs"
  shows "input_range n h = xs"
proof -
  obtain ys where ys: "take n (ht_part h) = ys @ xs" using assms by (auto simp: left_def suffix_def)
  have "length (take n (ht_part h)) = n" using assms by (simp add: left_def)
  then have "ht_begin h = length ys" using assms unfolding ys by (simp add: left_def)
  then show ?thesis by (simp add: input_range_def ys)
qed

lemma left_rest:
  assumes "left n h xs" "suffix rest xs"
  shows "left n (h\<lparr>ht_parser := st, ht_partial := p, ht_begin := n - length rest\<rparr>) rest"
  using assms suffix_order.trans by (auto simp: left_def)

lemma left_body:
  assumes "left n h xs"
  shows "take (length xs) (drop (ht_begin h) (ht_part h)) = xs"
proof -
  have "length xs \<le> n" using assms by (auto simp: left_def dest: suffix_length_le)
  then have "take (length xs) (drop (ht_begin h) (ht_part h)) = input_range n h"
    using assms by (simp add: input_range_def left_def drop_take)
  then show ?thesis using left_range [OF assms] by simp
qed

definition agrees :: "stage_end \<Rightarrow> http \<times> http_action list \<Rightarrow> bool" where
  "agrees e r \<longleftrightarrow>
     snd r = fst e @ (case snd e of None \<Rightarrow> [] | Some (ph, st, p) \<Rightarrow> [ReadSome ph])
     \<and> (case snd e of None \<Rightarrow> True
          | Some (ph, st, p) \<Rightarrow> ht_parser (fst r) = st \<and> ht_partial (fst r) = p \<and> ht_begin (fst r) = 0)"

lemma agrees_and_then: "agrees e (h, acts) \<Longrightarrow> agrees (and_then as e) (h, as @ acts)"
  by (auto simp: agrees_def and_then_def split: option.split)

lemma body_agrees:
  assumes "left n h xs"
  shows "agrees (body_stage (ht_parser h) (ht_partial h) xs) (parse_body (length xs) h)"
  by (simp add: agrees_def body_stage_def parse_body_def read_more_def left_body [OF assms])

lemma headers_agrees:
  assumes "left n h xs"
  shows "agrees (headers_stage (ht_parser h) (ht_partial h) xs) (from_headers True False ec n h)"
proof (cases "parse_until http_headers_done (ht_parser h) xs")
  case (fields ok st r rest)
  let ?h = "h\<lparr>ht_parser := st, ht_partial := [], ht_begin := n - length rest\<rparr>"
  have l: "left n ?h rest" by (rule left_rest [OF assms parse_until_suffix [OF fields]])
  have "agrees (body_stage st [] rest) (parse_body (length rest) ?h)" using body_agrees [OF l] by simp
  then show ?thesis
    using fields left_range [OF assms]
    by (cases ok; cases "parse_body (length rest) ?h")
       (simp_all add: headers_stage_def stage_def from_headers_def parse_headers_def Let_def agrees_and_then,
        simp_all add: agrees_def settle_all_def read_more_def)
qed

lemma message_agrees:
  assumes "left n h xs"
  shows "agrees (message_stage (ht_parser h) (ht_partial h) xs) (from_status_message True False ec n h)"
proof (cases "parse_until http_status_message_done (ht_parser h) xs")
  case (fields ok st r rest)
  let ?h = "h\<lparr>ht_parser := st, ht_partial := [], ht_begin := n - length rest\<rparr>"
  have l: "left n ?h rest" by (rule left_rest [OF assms parse_until_suffix [OF fields]])
  have "agrees (headers_stage st [] rest) (from_headers True False ec n ?h)" using headers_agrees [OF l] by simp
  then show ?thesis
    using fields left_range [OF assms]
    by (cases ok; cases "from_headers True False ec n ?h")
       (simp_all add: message_stage_def stage_def from_status_message_def parse_status_message_def Let_def
         agrees_and_then agrees_and_then [where as = "[_]", simplified],
        simp_all add: agrees_def settle_all_def read_more_def)
qed

lemma status_agrees:
  assumes "left n h xs"
  shows "agrees (status_stage (ht_parser h) (ht_partial h) xs) (from_status True False ec n h)"
proof (cases "parse_until http_status_done (ht_parser h) xs")
  case (fields ok st r rest)
  let ?h = "h\<lparr>ht_parser := st, ht_partial := [], ht_begin := n - length rest\<rparr>"
  have l: "left n ?h rest" by (rule left_rest [OF assms parse_until_suffix [OF fields]])
  have "agrees (message_stage st [] rest) (from_status_message True False ec n ?h)" using message_agrees [OF l] by simp
  then show ?thesis
    using fields left_range [OF assms]
    by (cases ok; cases "from_status_message True False ec n ?h"; cases "lexical_cast_u16 (trim (ht_partial h @ r))")
       (simp_all add: status_stage_def stage_def from_status_def parse_status_def Let_def
         agrees_and_then agrees_and_then [where as = "[_]", simplified],
        simp_all add: agrees_def settle_all_def read_more_def)
qed

lemma version_agrees:
  assumes "left n h xs" "ht_begin h = 0"
  shows "agrees (version_stage (ht_parser h) (ht_partial h) xs) (from_version True False ec n h)"
proof (cases "parse_until http_version_done (ht_parser h) xs")
  case (fields ok st r rest)
  let ?h = "h\<lparr>ht_parser := st, ht_partial := [], ht_begin := n - length rest\<rparr>"
  have l: "left n ?h rest" by (rule left_rest [OF assms(1) parse_until_suffix [OF fields]])
  have "agrees (status_stage st [] rest) (from_status True False ec n ?h)" using status_agrees [OF l] by simp
  moreover have "h\<lparr>ht_begin := 0\<rparr> = h" using assms(2) by simp
  ultimately show ?thesis
    using fields left_range [OF assms(1)]
    by (cases ok; cases "from_status True False ec n ?h")
       (simp_all add: version_stage_def stage_def from_version_def parse_version_def Let_def
         agrees_and_then agrees_and_then [where as = "[_]", simplified],
        simp_all add: agrees_def settle_all_def read_more_def)
qed

text \<open>The handler, on the next data of a stage; the end of the stream makes a difference only in the
  body.\<close>

lemma handler_agrees:
  assumes "ht_begin h = 0" "ec = 0 \<or> ec = eof \<and> ph \<noteq> in_body"
  shows "agrees (run_stage ph (ht_parser h) (ht_partial h) data) (handle_received_data ph True False ec data h)"
proof -
  let ?h = "h\<lparr>ht_part := memcpy_at 0 data (length data) (ht_part h)\<rparr>"
  have l: "left (length data) ?h data" using assms(1) by (simp add: left_def memcpy_at_def)
  show ?thesis
  proof (cases ph)
    case in_body
    then show ?thesis
      using body_agrees [OF l] assms(2)
      by (simp add: handle_received_data_def in_the_body_def eof_def Let_def)
  qed (use version_agrees [OF l] status_agrees [OF l] message_agrees [OF l] headers_agrees [OF l] assms in
       \<open>auto simp: handle_received_data_def Let_def\<close>)
qed


text \<open>A stage has no reads of its own.\<close>

lemma stage_no_reads:
  assumes "\<And>st xs. list_all (\<lambda>a. \<not> is_read a) (fst (onward st xs))"
    "\<And>t. list_all (\<lambda>a. \<not> is_read a) (fst (done_with t))" "list_all (\<lambda>a. \<not> is_read a) refused"
  shows "list_all (\<lambda>a. \<not> is_read a) (fst (stage ph stop done_with refused onward st p xs))"
  using assms by (auto simp: stage_def and_then_def split_beta Let_def split: tribool.split)

lemma run_stage_no_reads: "list_all (\<lambda>a. \<not> is_read a) (fst (run_stage ph st p xs))"
proof -
  have h: "list_all (\<lambda>a. \<not> is_read a) (fst (headers_stage st p xs))" for st p xs
    unfolding headers_stage_def
    by (rule stage_no_reads) (simp_all add: body_stage_def parse_headers_real_def settle_all_def split: option.split)
  have m: "list_all (\<lambda>a. \<not> is_read a) (fst (message_stage st p xs))" for st p xs
    unfolding message_stage_def by (rule stage_no_reads) (simp_all add: h settle_all_def)
  have s: "list_all (\<lambda>a. \<not> is_read a) (fst (status_stage st p xs))" for st p xs
    unfolding status_stage_def by (rule stage_no_reads) (simp_all add: m settle_all_def split: option.split)
  have "list_all (\<lambda>a. \<not> is_read a) (fst (version_stage st p xs))" for st p xs
    unfolding version_stage_def by (rule stage_no_reads) (simp_all add: s settle_all_def)
  then show ?thesis using s m h by (cases ph) (simp_all add: body_stage_def)
qed

lemma filter_no_reads: "list_all (\<lambda>a. \<not> is_read a) as \<Longrightarrow> filter (\<lambda>a. \<not> is_read a) as = as"
  by (simp add: filter_id_conv list_all_iff)

lemma pending_no_reads: "list_all (\<lambda>a. \<not> is_read a) as \<Longrightarrow> pending_read (as @ bs) = pending_read bs"
proof (induction as)
  case (Cons a as)
  then show ?case by (cases a) simp_all
qed simp

section \<open>Reads do not matter\<close>

text \<open>Feeding pieces is running the stages on their concatenation.\<close>

definition stop_of :: "http_phase \<Rightarrow> parser_state option" where
  "stop_of ph = (case ph of in_version \<Rightarrow> Some http_version_done | in_status \<Rightarrow> Some http_status_done
     | in_status_message \<Rightarrow> Some http_status_message_done | in_headers \<Rightarrow> Some http_headers_done | in_body \<Rightarrow> None)"

lemma run_stage_Nil: "stop_of ph \<noteq> Some st \<Longrightarrow> run_stage ph st p [] = ([], Some (ph, st, p))"
  by (cases ph) (auto simp: stop_of_def version_stage_def status_stage_def message_stage_def headers_stage_def
      body_stage_def stage_def parse_until_def)

lemma stage_stop:
  assumes "\<And>st xs q. snd (onward st xs) = Some q \<Longrightarrow> stop_of (fst q) \<noteq> Some (fst (snd q))" "stop_of ph = Some stop"
    "snd (stage ph stop done_with refused onward st p xs) = Some q"
  shows "stop_of (fst q) \<noteq> Some (fst (snd q))"
  using assms
  by (auto simp: stage_def parse_until_def and_then_def split_beta Let_def split: tribool.splits if_splits)

lemma run_stage_stop:
  assumes "snd (run_stage ph st p xs) = Some q"
  shows "stop_of (fst q) \<noteq> Some (fst (snd q))"
proof -
  have b: "stop_of (fst q) \<noteq> Some (fst (snd q))" if "snd (body_stage st p xs) = Some q" for st p xs q
    using that by (auto simp: body_stage_def stop_of_def)
  have h: "stop_of (fst q) \<noteq> Some (fst (snd q))" if "snd (headers_stage st p xs) = Some q" for st p xs q
    by (rule stage_stop [OF _ _ that [unfolded headers_stage_def]], erule b, simp add: stop_of_def)
  have m: "stop_of (fst q) \<noteq> Some (fst (snd q))" if "snd (message_stage st p xs) = Some q" for st p xs q
    by (rule stage_stop [OF _ _ that [unfolded message_stage_def]], erule h, simp add: stop_of_def)
  have s: "stop_of (fst q) \<noteq> Some (fst (snd q))" if "snd (status_stage st p xs) = Some q" for st p xs q
    by (rule stage_stop [OF _ _ that [unfolded status_stage_def]], erule m, simp add: stop_of_def)
  have "stop_of (fst q) \<noteq> Some (fst (snd q))" if "snd (version_stage st p xs) = Some q" for st p xs q
    by (rule stage_stop [OF _ _ that [unfolded version_stage_def]], erule s, simp add: stop_of_def)
  then show ?thesis using assms b h m s by (cases ph) auto
qed

lemma http_feed_stages:
  assumes "ht_begin h = 0" "stop_of ph \<noteq> Some (ht_parser h)" "http_feed ph datas h = (h', acts, r)"
  shows "fst (run_stage ph (ht_parser h) (ht_partial h) (concat datas)) = acts
    \<and> map_option fst (snd (run_stage ph (ht_parser h) (ht_partial h) (concat datas))) = r
    \<and> (r \<noteq> None \<longrightarrow> ht_begin h' = 0 \<and>
         snd (run_stage ph (ht_parser h) (ht_partial h) (concat datas)) = Some (the r, ht_parser h', ht_partial h'))"
  using assms
proof (induction datas arbitrary: ph h acts h' r)
  case Nil
  then show ?case by (auto simp: run_stage_Nil)
next
  case (Cons data datas)
  obtain h1 as1 where h1: "handle_received_data ph True False 0 data h = (h1, as1)" by fastforce
  obtain as k where e: "run_stage ph (ht_parser h) (ht_partial h) data = (as, k)" by fastforce
  have a: "agrees (as, k) (h1, as1)" using handler_agrees [OF Cons.prems(1), of 0 ph data] h1 e by simp
  have nr: "list_all (\<lambda>a. \<not> is_read a) as" using run_stage_no_reads [of ph _ _ data] e by (metis fst_conv)
  show ?case
  proof (cases k)
    case None
    then have "as1 = as" using a by (simp add: agrees_def)
    then show ?thesis
      using Cons.prems(3) h1 nr pending_no_reads [OF nr, of "[]"] None e
      by (simp add: filter_no_reads run_stage_cut resume_def)
  next
    case (Some q)
    obtain ph1 st1 p1 where q: "q = (ph1, st1, p1)" by (cases q)
    have as1: "as1 = as @ [ReadSome ph1]" "ht_parser h1 = st1" "ht_partial h1 = p1" "ht_begin h1 = 0"
      using a Some q by (simp_all add: agrees_def)
    have s1: "stop_of ph1 \<noteq> Some (ht_parser h1)"
      using run_stage_stop [of ph "ht_parser h" "ht_partial h" data q] e Some q as1(2) by simp
    obtain h2 as2 r2 where h2: "http_feed ph1 datas h1 = (h2, as2, r2)" by (metis prod_cases3)
    have "h' = h2" "acts = as @ as2" "r = r2"
      using Cons.prems(3) h1 as1(1) h2 pending_no_reads [OF nr, of "[ReadSome ph1]"]
      by (simp_all add: filter_no_reads [OF nr])
    then show ?thesis
      using Cons.IH [OF as1(4) s1 h2] e Some q as1(2,3)
      by (simp add: run_stage_cut resume_def and_then_def)
  qed
qed

end
