(* ===== verification/HttpGrammar.thy ===== *)
theory HttpGrammar
  imports HttpStream
begin

text \<open>
  The grammar of the response heads that the scanner accepts, and what it makes of each part of a
  head: the status line, the header lines, the loop of \<open>parse_headers_real\<close> and the reasons for which
  that loop ends.
\<close>

section \<open>Heads\<close>

text \<open>The parts of a head that the scanner accepts.\<close>

definition reason_ok :: "bytes \<Rightarrow> bool" where
  "reason_ok t \<longleftrightarrow> t \<noteq> [] \<and> is_alnum (hd t) \<and> list_all (\<lambda>c. is_alnum c \<or> is_punct c \<or> c = 32) t \<and> \<not> is_space (last t)"

definition name_ok :: "bytes \<Rightarrow> bool" where
  "name_ok t \<longleftrightarrow> t \<noteq> [] \<and> is_alnum (hd t) \<and> list_all (\<lambda>c. (is_alnum c \<or> is_space c \<or> is_punct c) \<and> c \<noteq> 58) t"

definition value_ok :: "bytes \<Rightarrow> bool" where
  "value_ok t \<longleftrightarrow> t \<noteq> [] \<and> (is_alnum (hd t) \<or> is_punct (hd t)) \<and> list_all (\<lambda>c. \<not> is_cntrl c) t \<and> \<not> is_space (last t)"

definition status_line :: "byte \<Rightarrow> byte \<Rightarrow> bytes \<Rightarrow> bytes \<Rightarrow> bytes" where
  "status_line d1 d2 code reason = chars ''HTTP/'' @ [d1, 46, d2, 32] @ code @ [32] @ reason @ [13, 10]"

definition header_lines :: "(bytes \<times> bytes) list \<Rightarrow> bytes" where
  "header_lines hs = concat (map (\<lambda>(name, val). header_line name val) hs)"

section \<open>Scanning\<close>

lemma chars_HTTP: "chars ''HTTP/'' = [72, 84, 84, 80, 47]"
  by (simp add: chars_def)

text \<open>A run of characters that keep the state.\<close>

lemma scan_run:
  assumes "list_all (\<lambda>c. parser_switch st c = Some (st, False)) xs" "st \<noteq> stop"
  shows "parse_loop stop st r (xs @ ys) = parse_loop stop st (r @ xs) ys"
  using assms by (induction xs arbitrary: r) simp_all

lemma digit_not: "is_digit c \<Longrightarrow> c \<noteq> 32"
  by (auto simp: is_digit_def)

lemma alnum_not: "is_alnum c \<Longrightarrow> c \<noteq> 58 \<and> c \<noteq> 13 \<and> c \<noteq> 10 \<and> c \<noteq> 32"
  by (auto simp: is_alnum_def is_digit_def)

lemma alnum_not_space: "is_alnum c \<or> is_punct c \<Longrightarrow> \<not> is_space c"
  by (auto simp: is_alnum_def is_digit_def is_punct_def is_space_def word_le_nat_alt)

lemma version_scan:
  assumes "is_digit d1" "is_digit d2"
  shows "parse_until http_version_done http_response_begin (chars ''HTTP/'' @ [d1, 46, d2, 32] @ rest)
    = (parsed_true, http_version_done, chars ''HTTP/'' @ [d1, 46, d2, 32], rest)"
  using assms by (cases rest) (simp_all add: parse_until_def chars_HTTP)

lemma status_scan:
  assumes "list_all is_digit code" "code \<noteq> []"
  shows "parse_until http_status_done http_version_done (code @ [32] @ rest)
    = (parsed_true, http_status_done, code @ [32], rest)"
proof -
  obtain d ds where d: "code = d # ds" using assms(2) by (cases code) auto
  have "parse_loop http_status_done http_status_digit [d] (ds @ [32] @ rest)
      = parse_loop http_status_done http_status_digit (d # ds) ([32] @ rest)"
    using scan_run [of http_status_digit ds http_status_done "[d]" "[32] @ rest"] assms(1) d
    by (simp add: list_all_iff)
  then show ?thesis
    using assms(1) d digit_not by (cases rest) (auto simp: parse_until_def is_digit_def)
qed

lemma message_scan:
  assumes "reason_ok reason"
  shows "parse_until http_status_message_done http_status_done (reason @ [13, 10] @ rest)
    = (parsed_true, http_status_message_done, reason @ [13, 10], rest)"
proof -
  obtain d ds where d: "reason = d # ds" using assms by (cases reason) (auto simp: reason_ok_def)
  have "parse_loop http_status_message_done http_status_message_char [d] (ds @ [13, 10] @ rest)
      = parse_loop http_status_message_done http_status_message_char (d # ds) ([13, 10] @ rest)"
    using scan_run [of http_status_message_char ds http_status_message_done "[d]" "[13, 10] @ rest"] assms d
    by (simp add: list_all_iff reason_ok_def)
  moreover have "\<not> (is_alnum 13 \<or> is_punct 13)" by (simp add: is_alnum_def is_digit_def is_punct_def)
  ultimately show ?thesis
    using assms d by (cases rest) (auto simp: parse_until_def reason_ok_def)
qed

text \<open>One header line, from the start of a line to the start of the next.\<close>

definition line_start :: "parser_state \<Rightarrow> bool" where
  "line_start st \<longleftrightarrow> st = http_header_line_done \<or> st = http_status_message_done"

lemma name_scan:
  assumes "name_ok name" "line_start st" "stop \<notin> {st, http_header_name_char}"
  shows "parse_loop stop st r (name @ [58] @ rest) = parse_loop stop http_header_colon (r @ name @ [58]) rest"
proof -
  obtain d ds where d: "name = d # ds" using assms(1) by (cases name) (auto simp: name_ok_def)
  have "parse_loop stop http_header_name_char (r @ [d]) (ds @ [58] @ rest)
      = parse_loop stop http_header_name_char ((r @ [d]) @ ds) ([58] @ rest)"
    by (rule scan_run) (use assms d in \<open>auto simp: list_all_iff name_ok_def\<close>)
  then show ?thesis
    using assms d alnum_not [of d] by (auto simp: line_start_def name_ok_def)
qed

lemma spaces_value_scan:
  assumes "list_all is_space sp" "value_ok val"
    "stop \<notin> {http_header_colon, http_header_value_char, http_header_line_cr}"
  shows "parse_loop stop http_header_colon r (sp @ val @ [13, 10] @ rest)
    = parse_loop stop http_header_line_done (r @ sp @ val @ [13, 10]) rest"
proof -
  obtain d ds where d: "val = d # ds" using assms(2) by (cases val) (auto simp: value_ok_def)
  have "parse_loop stop http_header_colon r (sp @ val @ [13, 10] @ rest)
      = parse_loop stop http_header_colon (r @ sp) (val @ [13, 10] @ rest)"
    by (rule scan_run) (use assms in \<open>auto simp: list_all_iff\<close>)
  moreover have "parse_loop stop http_header_value_char (r @ sp @ [d]) (ds @ [13, 10] @ rest)
      = parse_loop stop http_header_value_char ((r @ sp @ [d]) @ ds) ([13, 10] @ rest)"
    by (rule scan_run) (use assms d in \<open>auto simp: list_all_iff value_ok_def is_cntrl_def\<close>)
  moreover have "\<not> is_space d"
    using assms(2) d alnum_not_space [of d] by (auto simp: value_ok_def)
  ultimately show ?thesis using assms d by (auto simp: value_ok_def)
qed

lemma value_scan:
  assumes "value_ok val" "stop \<notin> {http_header_colon, http_header_value_char, http_header_line_cr}"
  shows "parse_loop stop http_header_colon r ([32] @ val @ [13, 10] @ rest)
    = parse_loop stop http_header_line_done (r @ [32] @ val @ [13, 10]) rest"
  by (rule spaces_value_scan) (use assms in \<open>simp_all add: is_space_def\<close>)

lemma headers_scan:
  assumes "list_all (\<lambda>(name, val). name_ok name \<and> value_ok val) hs" "line_start st"
  shows "parse_loop http_headers_done st r (header_lines hs @ [13, 10] @ rest)
    = parse_loop http_headers_done http_headers_done (r @ header_lines hs @ [13, 10]) rest"
  using assms
proof (induction hs arbitrary: st r)
  case Nil
  have "\<not> is_alnum 13" by (simp add: is_alnum_def is_digit_def)
  then show ?case using Nil by (auto simp: header_lines_def line_start_def)
next
  case (Cons nv hs)
  obtain name val where nv: "nv = (name, val)" by (cases nv)
  have "parse_loop http_headers_done st r (name @ [58] @ [32] @ val @ [13, 10] @ header_lines hs @ [13, 10] @ rest)
      = parse_loop http_headers_done http_header_line_done ((r @ name @ [58]) @ [32] @ val @ [13, 10])
          (header_lines hs @ [13, 10] @ rest)"
    by (subst name_scan, (use Cons.prems nv in \<open>auto simp: line_start_def\<close>)[3],
        subst value_scan, (use Cons.prems nv in auto)[2]) (rule HOL.refl)
  then show ?case
    using Cons.IH [of http_header_line_done] Cons.prems
    by (simp add: nv header_lines_def header_line_def line_start_def)
qed

section \<open>The loop over the headers\<close>

lemma trim_surrounded:
  assumes "list_all is_space pre" "list_all is_space post" "t \<noteq> []" "\<not> is_space (hd t)" "\<not> is_space (last t)"
  shows "trim (pre @ t @ post) = t"
proof -
  have "dropWhile is_space (pre @ t @ post) = t @ post"
    using assms(1,3,4) by (subst dropWhile_append2) (auto simp: list_all_iff neq_Nil_conv)
  moreover have "dropWhile is_space (rev post @ rev t) = rev t"
    using assms(2,3,5)
    by (subst dropWhile_append2) (auto simp: list_all_iff neq_Nil_conv last_rev hd_rev [symmetric] dropWhile_eq_self_iff)
  ultimately show ?thesis by (simp add: trim_def)
qed

lemma header_name_colon:
  assumes "name_ok name"
  shows "header_name (name @ [58]) = name"
proof -
  have n: "name \<noteq> []" "\<not> is_space (hd name)" using assms alnum_not_space by (auto simp: name_ok_def)
  have "trim ([] @ (name @ [58]) @ []) = name @ [58]"
    by (rule trim_surrounded) (use n in \<open>auto simp: is_space_def hd_append\<close>)
  then show ?thesis using n by (simp add: header_name_def)
qed

lemma header_pairs_line:
  assumes "name_ok name" "value_ok val" "list_all is_space sp"
  shows "header_pairs http_header_line_done (name @ [58] @ sp @ val @ [13, 10] @ rest) =
    map_option ((#) (name, val)) (header_pairs http_header_line_done rest)"
proof -
  have 1: "parse_until http_header_colon http_header_line_done (name @ [58] @ sp @ val @ [13, 10] @ rest)
      = (parsed_true, http_header_colon, name @ [58], sp @ val @ [13, 10] @ rest)"
    unfolding parse_until_def
    by (subst name_scan [OF assms(1)]) (cases "sp @ val @ [13, 10] @ rest"; simp add: line_start_def)+
  have 2: "parse_until http_header_line_done http_header_colon (sp @ val @ [13, 10] @ rest)
      = (parsed_true, http_header_line_done, sp @ val @ [13, 10], rest)"
    unfolding parse_until_def by (subst spaces_value_scan [OF assms(3,2)]) (cases rest; simp)+
  have 3: "trim (sp @ val @ [13, 10]) = val"
    by (rule trim_surrounded) (use assms alnum_not_space in \<open>auto simp: value_ok_def is_space_def\<close>)
  show ?thesis
    by (subst header_pairs.simps)
       (simp add: 1 [simplified] 2 [simplified] 3 [simplified] header_name_colon [OF assms(1)] map_option_case
         split: option.split)
qed

lemma header_pairs_lines:
  assumes "list_all (\<lambda>(name, val). name_ok name \<and> value_ok val) hs"
  shows "header_pairs http_header_line_done (header_lines hs @ [13, 10]) = Some hs"
  using assms
proof (induction hs)
  case Nil
  have "\<not> is_alnum 13" by (simp add: is_alnum_def is_digit_def)
  then show ?case by (subst header_pairs.simps) (simp add: header_lines_def parse_until_def)
next
  case (Cons nv hs)
  obtain name val where nv: "nv = (name, val)" by (cases nv)
  have "header_lines (nv # hs) @ [13, 10] = name @ [58] @ [32] @ val @ [13, 10] @ header_lines hs @ [13, 10]"
    by (simp add: header_lines_def header_line_def nv)
  then show ?case
    using Cons header_pairs_line [of name val "[32]" "header_lines hs @ [13, 10]"] by (simp add: nv is_space_def)
qed

section \<open>The loop over the headers ends\<close>

text \<open>The state after a text, without a stop.\<close>

fun drive :: "parser_state \<Rightarrow> bytes \<Rightarrow> parser_state option" where
  "drive st [] = Some st"
| "drive st (c # cs) = (case parser_switch st c of None \<Rightarrow> None | Some (st', _) \<Rightarrow> drive st' cs)"

lemma parse_loop_drives:
  assumes "parse_loop stop st [] xs = (ok, st', r, rest)" "st \<noteq> http_response_begin"
  shows "drive st r = Some st'"
proof -
  have "\<exists>r'. r = r0 @ r' \<and> drive st r' = Some st'"
    if "parse_loop stop st r0 xs = (ok, st', r, rest)" "st \<noteq> http_response_begin" for r0 xs st
    using that
  proof (induction xs arbitrary: st r0)
    case (Cons c cs)
    show ?case
    proof (cases "st = stop \<or> parser_switch st c = None")
      case False
      then obtain st1 skip where s: "parser_switch st c = Some (st1, skip)" by (cases "parser_switch st c") auto
      have k: "\<not> skip" "st1 \<noteq> http_response_begin"
        using s Cons.prems(2) switch_skips switch_leaves_begin by (metis (full_types))+
      then obtain r' where "r = (r0 @ [c]) @ r'" "drive st1 r' = Some st'"
        using Cons.IH [of st1 "r0 @ [c]"] Cons.prems(1) False s by auto
      then show ?thesis using s by (intro exI [of _ "c # r'"]) simp
    qed (use Cons.prems in \<open>auto split: if_splits\<close>)
  qed auto
  then show ?thesis using assms by force
qed

lemma drive_parse_loop:
  assumes "drive st xs = Some t" "parse_loop stop st r xs = (ok, st', r', rest)"
  shows "drive st' rest = Some t \<and> length rest \<le> length xs \<and> (st \<noteq> stop \<and> xs \<noteq> [] \<longrightarrow> length rest < length xs)"
  using assms
proof (induction xs arbitrary: st r)
  case (Cons c cs)
  obtain st1 skip where s: "parser_switch st c = Some (st1, skip)" "drive st1 cs = Some t"
    using Cons.prems(1) by (auto split: option.splits)
  show ?case
  proof (cases "st = stop")
    case False
    then have "parse_loop stop st1 (if skip then drop 1 (r @ [c]) else r @ [c]) cs = (ok, st', r', rest)"
      using Cons.prems(2) s by simp
    then show ?thesis using Cons.IH [OF s(2)] by fastforce
  qed (use Cons.prems in auto)
qed auto

lemma header_pairs_end: "drive st xs = Some t \<Longrightarrow> header_pairs st xs \<noteq> None"
proof (induction xs arbitrary: st rule: length_induct)
  case (1 xs)
  show ?case
  proof (cases "xs = []")
    case True
    then show ?thesis by (simp add: header_pairs.simps)
  next
    case False
    obtain ok st1 r1 rest1 where p1: "parse_loop http_header_colon st [] xs = (ok, st1, r1, rest1)"
      by (metis prod_cases4)
    obtain ok' st2 r2 rest2 where p2: "parse_loop http_header_line_done st1 [] rest1 = (ok', st2, r2, rest2)"
      by (metis prod_cases4)
    have d1: "drive st1 rest1 = Some t" "length rest1 \<le> length xs"
      using drive_parse_loop [OF 1(2) p1] by auto
    have d2: "drive st2 rest2 = Some t" "length rest2 \<le> length rest1"
      "st1 = http_header_colon \<Longrightarrow> rest1 \<noteq> [] \<Longrightarrow> length rest2 < length rest1"
      using drive_parse_loop [OF d1(1) p2] by auto
    have "header_pairs st2 rest2 \<noteq> None" if "st1 = http_header_colon"
    proof (cases "rest1 = []")
      case True
      then show ?thesis using d2(2) by (simp add: header_pairs.simps)
    next
      case False
      then show ?thesis using 1(1) d1(2) d2 that by simp
    qed
    then show ?thesis
      using False p1 p2 by (subst header_pairs.simps) (auto simp: parse_until_def split: option.split)
  qed
qed

lemma drive_line_start: "xs \<noteq> [] \<Longrightarrow> drive http_header_line_done xs = drive http_status_message_done xs"
  by (cases xs) simp_all

lemma parse_loop_true: "parse_loop stop st r xs = (parsed_true, st', r', rest) \<Longrightarrow> st' = stop"
  by (induction stop st r xs rule: parse_loop.induct) (auto split: option.splits if_splits)

lemma headers_real_end:
  assumes "parse_until http_headers_done http_status_message_done xs = (parsed_true, st, r, rest)"
  shows "Diverges \<notin> set (parse_headers_real r)"
proof -
  obtain ok st' where "parse_loop http_headers_done http_status_message_done [] xs = (ok, st', r, rest)" "st' = http_headers_done"
    using assms parse_loop_true
    by (auto simp: parse_until_def split: prod.splits if_splits)
  then have "drive http_status_message_done r = Some http_headers_done"
    using parse_loop_drives by fastforce
  then have "drive http_header_line_done r = Some http_headers_done"
    by (cases "r = []") (simp_all add: drive_line_start)
  then show ?thesis using header_pairs_end by (auto simp: parse_headers_real_def split: option.split)
qed

end
