(* ===== verification/HttpProps.thy ===== *)
theory HttpProps
  imports HttpGrammar "HOL-Library.Multiset"
begin

text \<open>
  The properties of the web client: a download in any sequence of reads, the promises of a response,
  and what goes wrong.
\<close>

section \<open>Downloads\<close>

lemma opened_simps [simp]:
  "ht_begin (http_async_connection part) = 0" "ht_parser (http_async_connection part) = http_response_begin"
  "ht_partial (http_async_connection part) = []"
  by (simp_all add: http_async_connection_def)

text \<open>The reads of a download, with the effects of the stages as its result.\<close>

lemma feed_opened:
  assumes "http_feed in_version datas (http_async_connection part) = (h, acts, r)"
  shows "fst (run_stage in_version http_response_begin [] (concat datas)) = acts
    \<and> map_option fst (snd (run_stage in_version http_response_begin [] (concat datas))) = r
    \<and> (r \<noteq> None \<longrightarrow> ht_begin h = 0 \<and>
         snd (run_stage in_version http_response_begin [] (concat datas)) = Some (the r, ht_parser h, ht_partial h))"
  using http_feed_stages [OF _ _ assms] by (simp add: stop_of_def)

lemma feed_settles:
  "snd (http_feed in_version datas (http_async_connection part)) =
     map_prod id (map_option fst) (run_stage in_version http_response_begin [] (concat datas))"
proof -
  obtain h acts r where "http_feed in_version datas (http_async_connection part) = (h, acts, r)"
    by (metis prod_cases3)
  then show ?thesis
    using feed_opened by (cases "run_stage in_version http_response_begin [] (concat datas)") fastforce
qed

text \<open>C14: what a response settles, and the part of it that is awaited next, depend on the bytes that
  were received and not on how the reads cut them, nor on what the buffer held before.\<close>
theorem reads_do_not_matter:
  "snd (http_feed in_version datas (http_async_connection part)) =
     snd (http_feed in_version [concat datas] (http_async_connection part'))"
  by (simp only: feed_settles) simp

lemma stage_effects:
  assumes "a \<in> set (fst (stage ph stop done_with refused onward st p xs))"
  shows "a \<in> set refused \<or> (\<exists>r rest. parse_until stop st xs = (parsed_true, stop, r, rest)
    \<and> (a \<in> set (fst (done_with (p @ r))) \<or> a \<in> set (fst (onward stop rest))))"
proof (cases "parse_until stop st xs")
  case (fields ok st' r rest)
  have "ok = parsed_true \<Longrightarrow> st' = stop"
    using fields parse_loop_true by (auto simp: parse_until_def split: prod.splits if_splits)
  then show ?thesis
    using assms fields
    by (cases ok; cases "done_with (p @ r)") (auto simp: stage_def and_then_def split: if_splits)
qed

text \<open>the loop over the headers ends for every response a server may send: the parser that accepted
  the text of the headers has already checked that the second pass over it makes progress.\<close>
theorem headers_loop_ends:
  "Diverges \<notin> set (fst (snd (http_feed in_version datas (http_async_connection part))))"
proof -
  have h: "Diverges \<notin> set (fst (headers_stage http_status_message_done [] xs))" for xs
    unfolding headers_stage_def
    by (rule notI, drule stage_effects) (auto simp: settle_all_def body_stage_def dest: headers_real_end)
  have m: "Diverges \<notin> set (fst (message_stage st p xs))" for st p xs
    unfolding message_stage_def by (rule notI, drule stage_effects) (auto simp: settle_all_def h)
  have s: "Diverges \<notin> set (fst (status_stage st p xs))" for st p xs
    unfolding status_stage_def
    by (rule notI, drule stage_effects) (auto simp: settle_all_def m split: option.splits)
  have "Diverges \<notin> set (fst (version_stage st p xs))" for st p xs
    unfolding version_stage_def by (rule notI, drule stage_effects) (auto simp: settle_all_def s)
  then show ?thesis by (simp add: feed_settles)
qed

section \<open>A whole download\<close>

text \<open>The reads of a download up to the end of the stream, which comes with the data \<open>tail\<close>.\<close>

definition http_download :: "bytes list \<Rightarrow> bytes \<Rightarrow> http \<Rightarrow> http_action list \<times> http_phase option" where
  "http_download datas tail h =
     (let (h1, acts, r) = http_feed in_version datas h
      in case r of
           None \<Rightarrow> (acts, None)
         | Some ph \<Rightarrow>
             let (h2, acts') = handle_received_data ph True False eof tail h1
             in (acts @ filter (\<lambda>a. \<not> is_read a) acts', pending_read acts'))"

definition response_head :: "byte \<Rightarrow> byte \<Rightarrow> bytes \<Rightarrow> bytes \<Rightarrow> (bytes \<times> bytes) list \<Rightarrow> bytes" where
  "response_head d1 d2 code reason hs = status_line d1 d2 code reason @ header_lines hs @ [13, 10]"

definition head_ok :: "byte \<Rightarrow> byte \<Rightarrow> bytes \<Rightarrow> bytes \<Rightarrow> (bytes \<times> bytes) list \<Rightarrow> bool" where
  "head_ok d1 d2 code reason hs \<longleftrightarrow> is_digit d1 \<and> is_digit d2 \<and> list_all is_digit code \<and> code \<noteq> []
     \<and> reason_ok reason \<and> list_all (\<lambda>(name, val). name_ok name \<and> value_ok val) hs"

lemma is_digit_not_space: "is_digit c \<Longrightarrow> \<not> is_space c"
  using alnum_not_space by (simp add: is_alnum_def)

lemma trim_version:
  assumes "is_digit d1" "is_digit d2"
  shows "trim (chars ''HTTP/'' @ [d1, 46, d2, 32]) = chars ''HTTP/'' @ [d1, 46, d2]"
proof -
  have "trim ([] @ (chars ''HTTP/'' @ [d1, 46, d2]) @ [32]) = chars ''HTTP/'' @ [d1, 46, d2]"
    by (rule trim_surrounded) (use assms in \<open>auto simp: is_digit_not_space chars_HTTP, simp_all add: is_space_def\<close>)
  then show ?thesis by simp
qed

lemma trim_code:
  assumes "list_all is_digit code" "code \<noteq> []"
  shows "trim (code @ [32]) = code"
proof -
  have "trim ([] @ code @ [32]) = code"
    by (rule trim_surrounded)
       (use assms in \<open>auto simp: is_digit_not_space list_all_iff, simp add: is_space_def\<close>)
  then show ?thesis by simp
qed

lemma trim_reason:
  assumes "reason_ok reason"
  shows "trim (reason @ [13, 10]) = reason"
proof -
  have "trim ([] @ reason @ [13, 10]) = reason"
    by (rule trim_surrounded) (use assms alnum_not_space in \<open>auto simp: reason_ok_def is_space_def\<close>)
  then show ?thesis by simp
qed

text \<open>What the stages make of a head and what follows it.\<close>

lemma headers_of_head:
  assumes "list_all (\<lambda>(name, val). name_ok name \<and> value_ok val) hs"
  shows "headers_stage http_status_message_done [] (header_lines hs @ [13, 10] @ body) =
    ([Settle headers_promise (HeadersValue hs)], Some (in_body, http_headers_done, body))"
proof -
  have "parse_until http_headers_done http_status_message_done (header_lines hs @ [13, 10] @ body) =
      (parsed_true, http_headers_done, header_lines hs @ [13, 10], body)"
    unfolding parse_until_def
    by (subst headers_scan [OF assms]) (cases body; simp add: line_start_def)+
  then show ?thesis
    using header_pairs_lines [OF assms]
    by (simp add: headers_stage_def stage_def body_stage_def parse_headers_real_def)
qed

lemma stages_of_head:
  assumes "head_ok d1 d2 code reason hs"
  shows "run_stage in_version http_response_begin [] (response_head d1 d2 code reason hs @ body) =
    (case lexical_cast_u16 code of
       Some status \<Rightarrow>
         ([Settle version_promise (TextValue (chars ''HTTP/'' @ [d1, 46, d2])), Settle status_promise (StatusValue status),
           Settle status_message_promise (TextValue reason), Settle headers_promise (HeadersValue hs)],
          Some (in_body, http_headers_done, body))
     | None \<Rightarrow>
         ([Settle version_promise (TextValue (chars ''HTTP/'' @ [d1, 46, d2])), BadLexicalCast], None))"
proof -
  let ?headers = "header_lines hs @ [13, 10] @ body"
  have ok: "is_digit d1" "is_digit d2" "list_all is_digit code" "code \<noteq> []" "reason_ok reason"
    "list_all (\<lambda>(name, val). name_ok name \<and> value_ok val) hs"
    using assms by (simp_all add: head_ok_def)
  have e: "response_head d1 d2 code reason hs @ body =
      chars ''HTTP/'' @ [d1, 46, d2, 32] @ code @ [32] @ reason @ [13, 10] @ ?headers"
    by (simp add: response_head_def status_line_def)
  have m: "message_stage http_status_done [] (reason @ [13, 10] @ ?headers) =
      ([Settle status_message_promise (TextValue reason), Settle headers_promise (HeadersValue hs)],
       Some (in_body, http_headers_done, body))"
    unfolding message_stage_def stage_def message_scan [OF ok(5)]
    by (simp only: Let_def prod.case tribool.case if_True append_Nil trim_reason [OF ok(5)] headers_of_head [OF ok(6)]) simp
  have s: "status_stage http_version_done [] (code @ [32] @ reason @ [13, 10] @ ?headers) =
      (case lexical_cast_u16 code of
         Some status \<Rightarrow>
           ([Settle status_promise (StatusValue status), Settle status_message_promise (TextValue reason),
             Settle headers_promise (HeadersValue hs)], Some (in_body, http_headers_done, body))
       | None \<Rightarrow> ([BadLexicalCast], None))"
    unfolding status_stage_def stage_def status_scan [OF ok(3,4)]
    by (simp only: Let_def prod.case tribool.case append_Nil trim_code [OF ok(3,4)] m) (simp split: option.split)
  show ?thesis
    unfolding e run_stage.simps version_stage_def stage_def version_scan [OF ok(1,2)]
    by (simp only: Let_def prod.case tribool.case if_True append_Nil trim_version [OF ok(1,2)] s)
       (simp split: option.split)
qed

lemma lexical_cast_code:
  assumes "head_ok d1 d2 code reason hs"
  shows "lexical_cast_u16 code = (if digits_value code \<le> 65535 then Some (of_nat (digits_value code)) else None)"
  using assms by (simp add: head_ok_def lexical_cast_u16_def)

text \<open>The end of the stream in the body.\<close>

lemma eof_in_the_body:
  "snd (handle_received_data in_body True False eof tail h) =
     [Settle body_promise (TextValue (ht_partial h @ tail)), Settle destination_promise (TextValue []),
      Settle source_promise (TextValue [])]"
  by (simp add: handle_received_data_def in_the_body_def memcpy_at_def eof_def Let_def)

lemma download_of_head:
  assumes "head_ok d1 d2 code reason hs" "digits_value code \<le> 65535"
    "concat datas = response_head d1 d2 code reason hs @ body"
  shows "http_download datas tail (http_async_connection part) =
    ([Settle version_promise (TextValue (chars ''HTTP/'' @ [d1, 46, d2])),
      Settle status_promise (StatusValue (of_nat (digits_value code))),
      Settle status_message_promise (TextValue reason), Settle headers_promise (HeadersValue hs),
      Settle body_promise (TextValue (body @ tail)), Settle destination_promise (TextValue []),
      Settle source_promise (TextValue [])], None)"
proof -
  obtain h acts r where f: "http_feed in_version datas (http_async_connection part) = (h, acts, r)"
    by (metis prod_cases3)
  have r: "r = Some in_body" "ht_partial h = body"
    and acts: "acts = [Settle version_promise (TextValue (chars ''HTTP/'' @ [d1, 46, d2])),
      Settle status_promise (StatusValue (of_nat (digits_value code))),
      Settle status_message_promise (TextValue reason), Settle headers_promise (HeadersValue hs)]"
    using feed_opened [OF f] stages_of_head [OF assms(1), of body] assms(2)
    unfolding assms(3) lexical_cast_code [OF assms(1)] by auto
  obtain h2 acts' where "handle_received_data in_body True False eof tail h = (h2, acts')" by fastforce
  then show ?thesis using f r acts eof_in_the_body [of tail h] by (simp add: http_download_def)
qed

text \<open>A small response.\<close>

definition sample_head :: "bytes \<Rightarrow> bytes" where
  "sample_head code = response_head 49 49 code [79, 75] [([65], [98])]"

lemma sample_head_ok: "list_all is_digit code \<Longrightarrow> code \<noteq> [] \<Longrightarrow> head_ok 49 49 code [79, 75] [([65], [98])]"
  by (simp add: head_ok_def reason_ok_def name_ok_def value_ok_def is_digit_def is_alnum_def is_punct_def is_space_def
      is_cntrl_def)

text \<open>C11: a download whose head is well formed settles the seven promises, the headers as they were sent
  and the body with exactly the bytes behind the head up to the end of the stream, however the
  reads cut it.  The body is what the server sent: neither \<open>Content-Length\<close> nor
  \<open>Transfer-Encoding\<close> is looked at, for any headers \<open>hs\<close>.\<close>
theorem download_delivers_body:
  assumes "head_ok d1 d2 code reason hs" "digits_value code \<le> 65535"
    "concat datas = response_head d1 d2 code reason hs @ body"
  shows "http_download datas tail (http_async_connection part) =
    ([Settle version_promise (TextValue (chars ''HTTP/'' @ [d1, 46, d2])),
      Settle status_promise (StatusValue (of_nat (digits_value code))),
      Settle status_message_promise (TextValue reason), Settle headers_promise (HeadersValue hs),
      Settle body_promise (TextValue (body @ tail)), Settle destination_promise (TextValue []),
      Settle source_promise (TextValue [])], None)"
  by (rule download_of_head [OF assms])

theorem download_delivers_body_witness:
  "fst (http_download [take 9 (sample_head [50, 48, 48]), drop 9 (sample_head [50, 48, 48]) @ [1]] [2, 3]
     (http_async_connection [])) =
    [Settle version_promise (TextValue (chars ''HTTP/'' @ [49, 46, 49])), Settle status_promise (StatusValue 200),
     Settle status_message_promise (TextValue [79, 75]), Settle headers_promise (HeadersValue [([65], [98])]),
     Settle body_promise (TextValue [1, 2, 3]), Settle destination_promise (TextValue []),
     Settle source_promise (TextValue [])]"
proof -
  have "head_ok 49 49 [50, 48, 48] [79, 75] [([65], [98])]" by (rule sample_head_ok) (simp_all add: is_digit_def)
  moreover have "digits_value [50, 48, 48] = 200" by (simp add: digits_value_def)
  moreover have "concat [take 9 (sample_head [50, 48, 48]), drop 9 (sample_head [50, 48, 48]) @ [1]] =
      response_head 49 49 [50, 48, 48] [79, 75] [([65], [98])] @ [1]"
    by (simp add: sample_head_def flip: append_assoc)
  ultimately show ?thesis
    using download_delivers_body
      [of 49 49 "[50, 48, 48]" "[79, 75]" "[([65], [98])]"
        "[take 9 (sample_head [50, 48, 48]), drop 9 (sample_head [50, 48, 48]) @ [1]]" "[1]" "[2, 3]" "[]"]
    by simp
qed

text \<open>a status code that does not fit 16 bits: the exception of \<open>lexical_cast\<close> leaves the handler, and
  with it the thread of the client that runs the event loop.  No read is pending then, and of the
  seven promises only the version has a value.\<close>
theorem status_overflow_loses_response:
  assumes "head_ok d1 d2 code reason hs" "65535 < digits_value code"
    "concat datas = response_head d1 d2 code reason hs @ body"
  shows "http_download datas tail (http_async_connection part) =
    ([Settle version_promise (TextValue (chars ''HTTP/'' @ [d1, 46, d2])), BadLexicalCast], None)"
proof -
  obtain h acts r where f: "http_feed in_version datas (http_async_connection part) = (h, acts, r)"
    by (metis prod_cases3)
  have "r = None \<and> acts = [Settle version_promise (TextValue (chars ''HTTP/'' @ [d1, 46, d2])), BadLexicalCast]"
    using feed_opened [OF f] stages_of_head [OF assms(1), of body] assms(2)
    unfolding assms(3) lexical_cast_code [OF assms(1)] by auto
  then show ?thesis using f by (simp add: http_download_def)
qed

theorem status_overflow_loses_response_witness:
  "http_download [sample_head [57, 57, 57, 57, 57]] [] (http_async_connection []) =
    ([Settle version_promise (TextValue (chars ''HTTP/'' @ [49, 46, 49])), BadLexicalCast], None)"
proof (rule status_overflow_loses_response)
  show "head_ok 49 49 [57, 57, 57, 57, 57] [79, 75] [([65], [98])]"
    by (rule sample_head_ok) (simp_all add: is_digit_def)
  show "65535 < digits_value [57, 57, 57, 57, 57]" by (simp add: digits_value_def)
  show "concat [sample_head [57, 57, 57, 57, 57]] =
      response_head 49 49 [57, 57, 57, 57, 57] [79, 75] [([65], [98])] @ []"
    by (simp add: sample_head_def)
qed

section \<open>The end of the stream in the head\<close>

text \<open>The completions of a stream that has ended: every further read gives the end of the stream and no
  data.\<close>

fun http_eofs :: "nat \<Rightarrow> http_phase \<Rightarrow> http \<Rightarrow> http \<times> http_action list \<times> http_phase option" where
  "http_eofs 0 ph h = (h, [], Some ph)"
| "http_eofs (Suc n) ph h =
     (let (h1, acts) = handle_received_data ph True False eof [] h
      in case pending_read acts of
           None \<Rightarrow> (h1, filter (\<lambda>a. \<not> is_read a) acts, None)
         | Some ph' \<Rightarrow>
             let (h2, acts', r) = http_eofs n ph' h1 in (h2, filter (\<lambda>a. \<not> is_read a) acts @ acts', r))"

lemma eof_in_the_head:
  assumes "ht_begin h = 0" "ph \<noteq> in_body" "stop_of ph \<noteq> Some (ht_parser h)"
  shows "handle_received_data ph True False eof [] h = (h, [ReadSome ph])"
proof -
  have "h\<lparr>ht_part := memcpy_at 0 [] 0 (ht_part h)\<rparr> = h" by (simp add: memcpy_at_def)
  moreover have "h\<lparr>ht_begin := 0\<rparr> = h" "input_range 0 h = []" "h\<lparr>ht_parser := ht_parser h\<rparr> = h"
    using assms(1) by (simp_all add: input_range_def)
  ultimately show ?thesis
    using assms(2,3)
    by (cases ph)
       (simp_all add: handle_received_data_def from_version_def parse_version_def from_status_def parse_status_def
         from_status_message_def parse_status_message_def from_headers_def parse_headers_def parse_until_def
         read_more_def stop_of_def Let_def)
qed

lemma eofs_in_the_head:
  assumes "http_feed in_version datas (http_async_connection part) = (h, acts, Some ph)" "ph \<noteq> in_body"
  shows "http_eofs n ph h = (h, [], Some ph)"
proof (induction n)
  case (Suc n)
  have "ht_begin h = 0" "stop_of ph \<noteq> Some (ht_parser h)"
    using feed_opened [OF assms(1)] run_stage_stop [of in_version http_response_begin "[]" "concat datas"] by auto
  then show ?case using eof_in_the_head [OF _ assms(2)] Suc by simp
qed simp

text \<open>a server that closes before the head is complete, for instance after the status line: the
  handler takes the end of the stream for a read of no bytes and reads again, for as many rounds as
  one likes, and none of the promises that are left is ever settled.\<close>
theorem eof_in_head_hangs:
  assumes "http_feed in_version datas (http_async_connection part) = (h, acts, Some ph)" "ph \<noteq> in_body"
  shows "http_eofs n ph h = (h, [], Some ph)"
  using assms by (rule eofs_in_the_head)

theorem eof_in_head_hangs_witness:
  "\<exists>h. http_feed in_version [[72, 84]] (http_async_connection []) = (h, [], Some in_version)
     \<and> http_eofs 1000 in_version h = (h, [], Some in_version)"
proof -
  obtain h acts r where f: "http_feed in_version [[72, 84]] (http_async_connection []) = (h, acts, r)"
    by (metis prod_cases3)
  have "run_stage in_version http_response_begin [] [72, 84] = ([], Some (in_version, http_version_t1, [72, 84]))"
    by (simp add: version_stage_def stage_def parse_until_def)
  then have r: "acts = []" "r = Some in_version" using feed_opened [OF f] by auto
  show ?thesis using eof_in_head_hangs [OF f [unfolded r], of 1000] f r by auto
qed

section \<open>Every promise once\<close>

fun settled :: "http_action list \<Rightarrow> http_promise list" where
  "settled [] = []"
| "settled (Settle p v # as) = p # settled as"
| "settled (a # as) = settled as"

text \<open>The promises that are left when data for a part of the response is awaited; with a callback the
  body promise has its empty value already behind the headers.\<close>

fun todo :: "bool \<Rightarrow> http_phase \<Rightarrow> http_promise multiset" where
  "todo callback in_version =
     {#version_promise, status_promise, status_message_promise, headers_promise, body_promise, destination_promise,
       source_promise#}"
| "todo callback in_status =
     {#status_promise, status_message_promise, headers_promise, body_promise, destination_promise, source_promise#}"
| "todo callback in_status_message =
     {#status_message_promise, headers_promise, body_promise, destination_promise, source_promise#}"
| "todo callback in_headers = {#headers_promise, body_promise, destination_promise, source_promise#}"
| "todo callback in_body =
     (if callback then {#destination_promise, source_promise#} else {#body_promise, destination_promise, source_promise#})"

definition left_over :: "bool \<Rightarrow> http_phase option \<Rightarrow> http_promise multiset" where
  "left_over callback r = (case r of None \<Rightarrow> {#} | Some ph \<Rightarrow> todo callback ph)"

lemma left_over_simps [simp]: "left_over callback None = {#}" "left_over callback (Some ph) = todo callback ph"
  by (simp_all add: left_over_def)

text \<open>The promises that are due are settled or left, all of them unless an exception of \<open>lexical_cast\<close> left
  the handler or the loop over the headers did not end; with a callback the body promise may be
  settled once more, and then nothing is left.\<close>

definition clean :: "http_action list \<Rightarrow> bool" where
  "clean acts \<longleftrightarrow> BadLexicalCast \<notin> set acts \<and> Diverges \<notin> set acts"

definition balanced :: "bool \<Rightarrow> http_promise multiset \<Rightarrow> http_action list \<Rightarrow> http_phase option \<Rightarrow> bool" where
  "balanced callback due acts r \<longleftrightarrow> (\<exists>again. (again = {#} \<or> callback \<and> r = None \<and> again = {#body_promise#})
     \<and> mset (settled acts) + left_over callback r \<subseteq># due + again
     \<and> (clean acts \<longrightarrow> mset (settled acts) + left_over callback r = due + again))"

lemma balanced_intro:
  "mset (settled acts) + left_over callback r \<subseteq># due \<Longrightarrow>
     (clean acts \<Longrightarrow> mset (settled acts) + left_over callback r = due) \<Longrightarrow> balanced callback due acts r"
  by (auto simp: balanced_def intro: exI [of _ "{#}"])

lemma balanced_eq: "mset (settled acts) + left_over callback r = due \<Longrightarrow> balanced callback due acts r"
  by (rule balanced_intro) simp_all

lemma balanced_again:
  "mset (settled acts) = add_mset body_promise due \<Longrightarrow> balanced True due acts None"
  unfolding balanced_def by (rule exI [of _ "{#body_promise#}"]) simp

lemma settled_append [simp]: "settled (as @ bs) = settled as @ settled bs"
  by (induction as rule: settled.induct) auto

lemma settled_all [simp]: "settled (settle_all e ps) = ps" "settled (map (\<lambda>p. Settle p (Exception e)) ps) = ps"
  by (induction ps) (simp_all add: settle_all_def)

lemma settled_no_reads [simp]: "settled (filter (\<lambda>a. \<not> is_read a) as) = settled as"
  by (induction as rule: settled.induct) auto

lemma pending_settle_all [simp]:
  "pending_read (settle_all e ps) = None" "pending_read (map (\<lambda>p. Settle p (Exception e)) ps) = None"
  by (induction ps) (simp_all add: settle_all_def)

lemma pending_append: "pending_read (as @ bs) = (case pending_read bs of None \<Rightarrow> pending_read as | r \<Rightarrow> r)"
  by (induction as rule: pending_read.induct) (auto split: option.split)

lemma clean_append [simp]: "clean (as @ bs) \<longleftrightarrow> clean as \<and> clean bs"
  by (auto simp: clean_def)

lemma balanced_Settle:
  assumes "balanced callback due acts r"
  shows "balanced callback (add_mset p due) (Settle p v # acts) r"
proof -
  have "clean (Settle p v # acts) = clean acts" by (simp add: clean_def)
  then show ?thesis using assms unfolding balanced_def by (elim ex_forward) simp
qed

lemma parse_body_balanced:
  "parse_body n h = (h', acts) \<Longrightarrow> balanced False (todo False in_body) acts (pending_read acts)"
  by (auto simp: parse_body_def read_more_def intro!: balanced_eq)

lemma from_headers_balanced:
  assumes "from_headers get_body callback ec n h = (h', acts)"
  shows "balanced callback (todo callback in_headers) acts (pending_read acts)"
proof (cases "parse_until http_headers_done (ht_parser h) (input_range n h)")
  case (fields ok st r rest)
  then show ?thesis
    using assms
    by (cases ok; cases "header_pairs http_header_line_done (ht_partial h @ r)"; cases callback)
       (auto simp: from_headers_def parse_headers_def parse_headers_real_def parse_body_def read_more_def
         clean_def Let_def split: if_splits intro!: balanced_intro)
qed

lemma from_status_message_balanced:
  assumes "from_status_message get_body callback ec n h = (h', acts)"
  shows "balanced callback (todo callback in_status_message) acts (pending_read acts)"
proof (cases "parse_until http_status_message_done (ht_parser h) (input_range n h)")
  case (fields ok st r rest)
  then show ?thesis
    using assms from_headers_balanced
    by (cases ok)
       (auto simp: from_status_message_def parse_status_message_def read_more_def Let_def
         split: prod.splits intro!: balanced_Settle, simp_all add: balanced_eq)
qed

lemma from_status_balanced:
  assumes "from_status get_body callback ec n h = (h', acts)"
  shows "balanced callback (todo callback in_status) acts (pending_read acts)"
proof (cases "parse_until http_status_done (ht_parser h) (input_range n h)")
  case (fields ok st r rest)
  then show ?thesis
    using assms from_status_message_balanced
    by (cases ok; cases "lexical_cast_u16 (trim (ht_partial h @ r))")
       (auto simp: from_status_def parse_status_def read_more_def Let_def
         split: prod.splits intro!: balanced_Settle, simp_all add: balanced_eq, rule balanced_intro, simp_all add: clean_def)
qed

lemma from_version_balanced:
  assumes "from_version get_body callback ec n h = (h', acts)"
  shows "balanced callback (todo callback in_version) acts (pending_read acts)"
proof (cases "parse_until http_version_done (ht_parser h) (input_range n (h\<lparr>ht_begin := 0\<rparr>))")
  case (fields ok st r rest)
  then show ?thesis
    using assms from_status_balanced
    by (cases ok)
       (auto simp: from_version_def parse_version_def read_more_def Let_def
         split: prod.splits intro!: balanced_Settle, simp_all add: balanced_eq)
qed

text \<open>Any completion of a read: data, the end of the stream or an error.\<close>

lemma handler_balanced:
  assumes "handle_received_data ph get_body callback ec data h = (h', acts)"
  shows "balanced callback (todo callback ph) acts (pending_read acts)"
proof (cases "ec = 0 \<or> ec = eof")
  case False
  show ?thesis
  proof (cases "ph = in_body \<and> callback")
    case True
    then have "acts = settle_all (SystemError ec) [source_promise, destination_promise, body_promise]" "callback"
      "ph = in_body"
      using assms False by (simp_all add: handle_received_data_def Let_def)
    then show ?thesis by (auto intro!: balanced_again)
  next
    case no: False
    show ?thesis
      using assms False no by (cases ph) (auto simp: handle_received_data_def Let_def intro!: balanced_eq)
  qed
next
  case True
  let ?h = "h\<lparr>ht_part := memcpy_at 0 data (length data) (ht_part h)\<rparr>"
  have b: "in_the_body callback ec (length data) ?h = (h', acts) \<Longrightarrow>
      balanced callback (todo callback in_body) acts (pending_read acts)"
    using parse_body_balanced
    by (cases callback) (auto simp: in_the_body_def Let_def split: if_splits intro!: balanced_eq)
  show ?thesis
    using assms True b from_version_balanced from_status_balanced from_status_message_balanced from_headers_balanced
    by (cases ph) (simp_all add: handle_received_data_def Let_def)
qed

text \<open>The completions of the reads of a connection, for a request with or without a body and a callback.\<close>

fun http_run :: "bool \<Rightarrow> bool \<Rightarrow> http_phase \<Rightarrow> (int \<times> bytes) list \<Rightarrow> http \<Rightarrow> http_action list \<times> http_phase option" where
  "http_run get_body callback ph [] h = ([], Some ph)"
| "http_run get_body callback ph ((ec, data) # reads) h =
     (let (h1, acts) = handle_received_data ph get_body callback ec data h
      in case pending_read acts of
           None \<Rightarrow> (acts, None)
         | Some ph' \<Rightarrow> let (acts', r) = http_run get_body callback ph' reads h1 in (acts @ acts', r))"

lemma balanced_chain:
  assumes "balanced callback due acts (Some ph)" "balanced callback (todo callback ph) acts' r"
  shows "balanced callback due (acts @ acts') r"
proof -
  obtain again where a: "again = {#} \<or> callback \<and> r = None \<and> again = {#body_promise#}"
    "mset (settled acts') + left_over callback r \<subseteq># todo callback ph + again"
    "clean acts' \<longrightarrow> mset (settled acts') + left_over callback r = todo callback ph + again"
    using assms(2) unfolding balanced_def by blast
  have b: "mset (settled acts) + todo callback ph \<subseteq># due"
    "clean acts \<longrightarrow> mset (settled acts) + todo callback ph = due"
    using assms(1) by (auto simp: balanced_def)
  have "mset (settled acts) + (mset (settled acts') + left_over callback r) \<subseteq># mset (settled acts) + (todo callback ph + again)"
    using a(2) by simp
  also have "\<dots> \<subseteq># due + again" using b(1) by (simp flip: add.assoc)
  finally show ?thesis
    using a(1,3) b(2) unfolding balanced_def by (intro exI [of _ again]) (auto simp: add.assoc)
qed

lemma run_balanced:
  "http_run get_body callback ph reads h = (acts, r) \<Longrightarrow> balanced callback (todo callback ph) acts r"
proof (induction reads arbitrary: ph h acts r)
  case Nil
  then show ?case by (auto intro: balanced_eq)
next
  case (Cons ecdata reads)
  obtain ec data where e: "ecdata = (ec, data)" by (cases ecdata)
  obtain h1 as where a: "handle_received_data ph get_body callback ec data h = (h1, as)" by fastforce
  note b = handler_balanced [OF a]
  show ?case
  proof (cases "pending_read as")
    case None
    then show ?thesis using Cons.prems a b e by simp
  next
    case (Some ph')
    obtain as' where a': "http_run get_body callback ph' reads h1 = (as', r)" "acts = as @ as'"
      using Cons.prems a e Some by (auto split: prod.splits)
    show ?thesis
      unfolding a'(2) by (rule balanced_chain [OF b [unfolded Some] Cons.IH [OF a'(1)]])
  qed
qed

lemma drive_append: "drive st (xs @ ys) = Option.bind (drive st xs) (\<lambda>st. drive st ys)"
  by (induction xs arbitrary: st) (auto split: option.split)

lemma drive_leaves_begin: "drive st xs = Some st' \<Longrightarrow> st \<noteq> http_response_begin \<Longrightarrow> st' \<noteq> http_response_begin"
  by (induction xs arbitrary: st) (auto split: option.splits dest: switch_leaves_begin)

lemma parse_until_drives:
  "parse_until stop st xs = (ok, st', r, rest) \<Longrightarrow> st \<noteq> http_response_begin \<Longrightarrow> drive st r = Some st'"
  using parse_loop_drives by (auto simp: parse_until_def Let_def split: prod.splits)

lemma parse_until_true: "parse_until stop st xs = (parsed_true, st', r, rest) \<Longrightarrow> st' = stop"
  using parse_loop_true by (auto simp: parse_until_def Let_def split: prod.splits if_splits)

lemma parsed_headers_end:
  assumes "drive http_status_message_done t = Some http_headers_done"
  shows "Diverges \<notin> set (parse_headers_real t)"
proof -
  have "drive http_header_line_done t = Some http_headers_done"
    using assms by (cases "t = []") (simp_all add: drive_line_start)
  then show ?thesis using header_pairs_end by (auto simp: parse_headers_real_def split: option.split)
qed

text \<open>The text of the headers that was read before, of which the parser is in the state of the
  connection.\<close>

definition scanned :: "http_phase \<Rightarrow> http \<Rightarrow> bool" where
  "scanned ph h \<longleftrightarrow> (ph = in_headers \<longrightarrow> drive http_status_message_done (ht_partial h) = Some (ht_parser h))"

definition goes_on :: "http \<times> http_action list \<Rightarrow> bool" where
  "goes_on w \<longleftrightarrow> Diverges \<notin> set (snd w) \<and> (\<forall>ph. pending_read (snd w) = Some ph \<longrightarrow> scanned ph (fst w))"

lemma goes_on_Settle [simp]: "goes_on (h, Settle p v # acts) = goes_on (h, acts)"
  by (simp add: goes_on_def)

lemma pending_headers [simp]: "pending_read (parse_headers_real t @ acts) = pending_read acts"
  by (simp add: parse_headers_real_def split: option.split)

lemma headers_go_on:
  assumes "drive http_status_message_done (ht_partial h) = Some (ht_parser h)"
  shows "goes_on (from_headers get_body callback ec n h)"
proof (cases "parse_until http_headers_done (ht_parser h) (input_range n h)")
  case (fields ok st r rest)
  have d: "drive http_status_message_done (ht_partial h @ r) = Some st"
    using parse_until_drives [OF fields drive_leaves_begin [OF assms]] assms by (simp add: drive_append)
  show ?thesis
  proof (cases ok)
    case parsed_true
    then have "st = http_headers_done" using fields parse_until_true by blast
    then have p: "Diverges \<notin> set (parse_headers_real (ht_partial h @ r))"
      using d by (intro parsed_headers_end) simp
    then show ?thesis
      using fields parsed_true
      by (simp add: from_headers_def parse_headers_def parse_body_def read_more_def goes_on_def scanned_def Let_def)
  next
    case parsed_false
    then show ?thesis using fields by (simp add: from_headers_def parse_headers_def goes_on_def)
  next
    case indeterminate
    then show ?thesis
      using fields d by (simp add: from_headers_def parse_headers_def read_more_def goes_on_def scanned_def)
  qed
qed

lemma message_goes_on: "goes_on (from_status_message get_body callback ec n h)"
proof (cases "parse_until http_status_message_done (ht_parser h) (input_range n h)")
  case (fields ok st r rest)
  let ?h = "h\<lparr>ht_parser := st, ht_partial := [], ht_begin := n - length rest\<rparr>"
  have "goes_on (from_headers get_body callback ec n ?h)" if "ok = parsed_true"
    using parse_until_true [OF fields [unfolded that]] by (intro headers_go_on) simp
  then show ?thesis
    using fields
    by (cases ok; cases "from_headers get_body callback ec n ?h")
       (auto simp: from_status_message_def parse_status_message_def read_more_def Let_def,
        simp_all add: goes_on_def scanned_def)
qed

lemma status_goes_on: "goes_on (from_status get_body callback ec n h)"
proof (cases "parse_until http_status_done (ht_parser h) (input_range n h)")
  case (fields ok st r rest)
  let ?h = "h\<lparr>ht_parser := st, ht_partial := [], ht_begin := n - length rest\<rparr>"
  show ?thesis
    using fields message_goes_on [of get_body callback ec n ?h]
    by (cases ok; cases "from_status_message get_body callback ec n ?h"; cases "lexical_cast_u16 (trim (ht_partial h @ r))")
       (auto simp: from_status_def parse_status_def read_more_def Let_def,
        simp_all add: goes_on_def scanned_def)
qed

lemma version_goes_on: "goes_on (from_version get_body callback ec n h)"
proof (cases "parse_until http_version_done (ht_parser h) (input_range n (h\<lparr>ht_begin := 0\<rparr>))")
  case (fields ok st r rest)
  let ?h = "h\<lparr>ht_parser := st, ht_partial := [], ht_begin := n - length rest\<rparr>"
  show ?thesis
    using fields status_goes_on [of get_body callback ec n ?h]
    by (cases ok; cases "from_status get_body callback ec n ?h")
       (auto simp: from_version_def parse_version_def read_more_def Let_def,
        simp_all add: goes_on_def scanned_def)
qed

lemma handler_goes_on:
  assumes "scanned ph h"
  shows "goes_on (handle_received_data ph get_body callback ec data h)"
proof -
  let ?h = "h\<lparr>ht_part := memcpy_at 0 data (length data) (ht_part h)\<rparr>"
  have "goes_on (in_the_body callback ec n h)" for n h
    by (simp add: in_the_body_def parse_body_def read_more_def goes_on_def scanned_def Let_def)
  moreover have "goes_on (h, settle_all e ps)" for h e ps
    by (simp add: goes_on_def) (auto simp: settle_all_def)
  ultimately show ?thesis
    using assms version_goes_on status_goes_on message_goes_on headers_go_on [of ?h]
    by (cases ph) (simp_all add: handle_received_data_def scanned_def Let_def)
qed

lemma run_goes_on:
  "http_run get_body callback ph reads h = (acts, r) \<Longrightarrow> scanned ph h \<Longrightarrow> Diverges \<notin> set acts"
proof (induction reads arbitrary: ph h acts r)
  case (Cons ecdata reads)
  obtain ec data where e: "ecdata = (ec, data)" by (cases ecdata)
  obtain h1 as where a: "handle_received_data ph get_body callback ec data h = (h1, as)" by fastforce
  have g: "goes_on (h1, as)" using handler_goes_on [OF Cons.prems(2)] a by metis
  show ?case
  proof (cases "pending_read as")
    case None
    then show ?thesis using Cons.prems(1) a e g by (auto simp: goes_on_def)
  next
    case (Some ph')
    then obtain as' where a': "http_run get_body callback ph' reads h1 = (as', r)" "acts = as @ as'"
      using Cons.prems a e by (auto split: prod.splits)
    have "scanned ph' h1" using g Some by (simp add: goes_on_def)
    then show ?thesis using Cons.IH [OF a'(1)] g a'(2) by (auto simp: goes_on_def)
  qed
qed auto

lemma distinct_at_most_once: "(\<And>x. count (mset xs) x \<le> 1) \<Longrightarrow> distinct xs"
proof -
  assume "\<And>x. count (mset xs) x \<le> 1"
  then have "count (mset xs) a = (if a \<in> set xs then 1 else 0)" for a
    using count_mset_0_iff [of xs a] by (metis One_nat_def le_SucE le_zero_eq)
  then show ?thesis by (simp add: distinct_count_atmost_1)
qed

lemma todo_once: "count (todo callback ph) p \<le> 1"
  by (cases ph; cases p) simp_all

text \<open>C13: a response in any sequence of reads, the end of the stream and errors among them, settles no
  promise twice (only the body promise of a request that has a callback can be), its loop over the
  headers ends, and once no read is pending it has settled all seven promises; the exception is a
  status that is not a number of 16 bits.\<close>
theorem promises_settled_once:
  assumes "http_run get_body callback in_version reads h = (acts, r)"
  shows "distinct (filter (\<lambda>p. \<not> (callback \<and> p = body_promise)) (settled acts)) \<and> Diverges \<notin> set acts
    \<and> (r = None \<and> BadLexicalCast \<notin> set acts \<longrightarrow> set (settled acts) = UNIV)"
proof -
  have d: "Diverges \<notin> set acts" by (rule run_goes_on [OF assms]) (simp add: scanned_def)
  obtain again where b: "again = {#} \<or> callback \<and> r = None \<and> again = {#body_promise#}"
    "mset (settled acts) + left_over callback r \<subseteq># todo callback in_version + again"
    "clean acts \<longrightarrow> mset (settled acts) + left_over callback r = todo callback in_version + again"
    using run_balanced [OF assms] unfolding balanced_def by blast
  have "count (mset (settled acts)) p \<le> 1" if "\<not> (callback \<and> p = body_promise)" for p
  proof -
    have "count again p = 0" using b(1) that by auto
    then have "count (mset (settled acts)) p \<le> count (todo callback in_version) p"
      using mset_subset_eq_count [OF b(2), of p] by (simp only: count_union)
    then show ?thesis using todo_once le_trans by blast
  qed
  then have "distinct (filter (\<lambda>p. \<not> (callback \<and> p = body_promise)) (settled acts))"
    by (intro distinct_at_most_once) (simp add: mset_filter)
  moreover have "set (settled acts) = UNIV" if "r = None" "BadLexicalCast \<notin> set acts"
  proof -
    have "mset (settled acts) = todo callback in_version + again" using that b(3) d by (simp add: clean_def)
    then have "set (settled acts) = set_mset (todo callback in_version + again)" using set_mset_mset by metis
    also have "\<dots> = UNIV" using http_promise.exhaust by auto
    finally show ?thesis .
  qed
  ultimately show ?thesis using d by blast
qed

theorem promises_settled_once_witness:
  "\<exists>acts. http_run True False in_version [(0, [72]), (10054, [])] (http_async_connection []) = (acts, None)
     \<and> distinct (settled acts) \<and> set (settled acts) = UNIV"
proof -
  obtain acts r where a: "http_run True False in_version [(0, [72]), (10054, [])] (http_async_connection []) = (acts, r)"
    by (metis prod.exhaust)
  have "r = None \<and> BadLexicalCast \<notin> set acts"
    using a
    by (auto simp: handle_received_data_def http_async_connection_def from_version_def parse_version_def input_range_def
        parse_until_def read_more_def memcpy_at_def settle_all_def eof_def Let_def)
  then show ?thesis using a promises_settled_once [OF a] by auto
qed

section \<open>Empty header values\<close>

text \<open>a header with an empty value takes the whole line that follows as its value, and that line is
  no header: \<open>Server:\<close> before \<open>Content-Length: 7\<close> gives the header \<open>Server\<close> with the value
  \<open>Content-Length: 7\<close>.\<close>
theorem empty_header_swallows_the_line:
  assumes "name_ok name" "value_ok (name' @ [58, 32] @ val)"
  shows "parse_headers_real (name @ [58, 13, 10] @ header_line name' val @ [13, 10]) =
    [Settle headers_promise (HeadersValue [(name, name' @ [58, 32] @ val)])]"
proof -
  have "header_pairs http_header_line_done [13, 10] = Some []"
    using header_pairs_lines [of "[]"] by (simp add: header_lines_def)
  then show ?thesis
    using header_pairs_line [OF assms, of "[13, 10]" "[13, 10]"]
    by (simp add: parse_headers_real_def header_line_def is_space_def)
qed

theorem empty_header_swallows_the_line_witness:
  "parse_headers_real ([65, 58, 13, 10] @ header_line [66] [99] @ [13, 10]) =
    [Settle headers_promise (HeadersValue [([65], [66, 58, 32, 99])])]"
  using empty_header_swallows_the_line [of "[65]" "[66]" "[99]"]
  by (simp add: name_ok_def value_ok_def is_digit_def is_alnum_def is_space_def is_cntrl_def)

section \<open>Connecting\<close>

text \<open>The completions of the attempts: \<open>try\<close> is the error code an end point gives; \<open>others\<close> are the end
  points the handler is bound to.\<close>

function http_connecting :: "(nat \<Rightarrow> int) \<Rightarrow> nat \<Rightarrow> nat list \<Rightarrow> http \<Rightarrow> http_action list" where
  "http_connecting try iter others h =
     (case handle_connected others (try iter) h of
        ([HttpConnect iter'], others') \<Rightarrow>
          if length others' < length others then HttpConnect iter' # http_connecting try iter' others' h
          else [HttpConnect iter']
      | (acts, _) \<Rightarrow> acts)"
  by pat_completeness auto
termination by (relation "measure (\<lambda>(try, iter, others, h). length others)") auto

declare http_connecting.simps [simp del]

lemma http_connecting_simps:
  "try iter = 0 \<Longrightarrow> http_connecting try iter others h = [StartSend (ht_command h)]"
  "try iter \<noteq> 0 \<Longrightarrow> http_connecting try iter (iter' # others) h = HttpConnect iter' # http_connecting try iter' others h"
  "try iter \<noteq> 0 \<Longrightarrow> http_connecting try iter [] h = set_errors (try iter)"
  by (subst http_connecting.simps, simp add: handle_connected_def set_errors_def settle_all_def)+

text \<open>From the completion of the resolution on.\<close>

definition http_open :: "(nat \<Rightarrow> int) \<Rightarrow> int \<Rightarrow> nat list \<Rightarrow> http \<Rightarrow> http_action list" where
  "http_open try ec endpoints h =
     (case handle_resolved ec endpoints of
        ([HttpConnect iter], others) \<Rightarrow> HttpConnect iter # http_connecting try iter others h
      | (acts, _) \<Rightarrow> acts)"

lemma connecting_outcome:
  "HttpConnect iter # http_connecting try iter others h =
     (if \<exists>e \<in> set (iter # others). try e = 0
      then map HttpConnect (takeWhile (\<lambda>e. try e \<noteq> 0) (iter # others))
        @ [HttpConnect (hd (dropWhile (\<lambda>e. try e \<noteq> 0) (iter # others))), StartSend (ht_command h)]
      else map HttpConnect (iter # others) @ set_errors (try (last (iter # others))))"
proof (induction others arbitrary: iter)
  case (Cons iter' others)
  show ?case
  proof (cases "try iter = 0")
    case False
    then have "HttpConnect iter # http_connecting try iter (iter' # others) h
        = HttpConnect iter # HttpConnect iter' # http_connecting try iter' others h"
      by (simp add: http_connecting_simps)
    then show ?thesis using False by (simp only: Cons.IH) simp
  qed (simp add: http_connecting_simps)
qed (simp add: http_connecting_simps)

text \<open>the connection tries the end points of the host in their order, stops at the first that
  accepts and sends the request there; when all refuse, or the name has none, all seven promises
  get an exception, the one of the last refusal or \<open>host_not_found\<close>, so that the caller never waits
  for ever.\<close>
theorem connects_to_first_endpoint:
  "http_open try ec endpoints h =
     (if ec \<noteq> 0 then set_errors ec
      else if endpoints = [] then set_errors host_not_found
      else if \<exists>e \<in> set endpoints. try e = 0
      then map HttpConnect (takeWhile (\<lambda>e. try e \<noteq> 0) endpoints)
        @ [HttpConnect (hd (dropWhile (\<lambda>e. try e \<noteq> 0) endpoints)), StartSend (ht_command h)]
      else map HttpConnect endpoints @ set_errors (try (last endpoints)))"
proof (cases endpoints)
  case Nil
  then show ?thesis by (simp add: http_open_def handle_resolved_def set_errors_def settle_all_def)
next
  case (Cons iter others)
  show ?thesis
  proof (cases "ec = 0")
    case True
    then have "http_open try ec endpoints h = HttpConnect iter # http_connecting try iter others h"
      by (simp add: http_open_def handle_resolved_def Cons)
    then show ?thesis using True by (simp only: connecting_outcome Cons) simp
  next
    case False
    then show ?thesis by (simp add: http_open_def handle_resolved_def Cons set_errors_def settle_all_def)
  qed
qed

section \<open>Callbacks\<close>

text \<open>With a callback the body promise is settled behind the headers; an error in the body settles it
  again, which a promise answers with an exception that leaves the handler.\<close>

lemma callback_error_settles_body_twice:
  assumes "ec \<noteq> 0" "ec \<noteq> eof" "ht_parser h = http_status_message_done"
    "input_range (length data) (h\<lparr>ht_part := memcpy_at 0 data (length data) (ht_part h)\<rparr>) = [13, 10]"
  shows "Settle body_promise (TextValue []) \<in> set (snd (handle_received_data in_headers True True 0 data h))"
    "Settle body_promise (Exception (SystemError ec)) \<in> set (snd (handle_received_data in_body True True ec data' h'))"
proof -
  have "\<not> is_alnum 13" by (simp add: is_alnum_def is_digit_def)
  then show "Settle body_promise (TextValue []) \<in> set (snd (handle_received_data in_headers True True 0 data h))"
    using assms by (simp add: handle_received_data_def from_headers_def parse_headers_def parse_until_def Let_def)
  show "Settle body_promise (Exception (SystemError ec)) \<in> set (snd (handle_received_data in_body True True ec data' h'))"
    using assms by (simp add: handle_received_data_def settle_all_def Let_def)
qed

section \<open>The buffer\<close>

lemma parse_until_rest: "parse_until stop st xs = (ok, st', r, rest) \<Longrightarrow> length rest \<le> length xs"
  by (drule parse_until_suffix) (rule suffix_length_le)

text \<open>What a part of the handler leaves: the buffer has its size, the iterator is inside what was read, and
  at the start of the buffer if a read was started for the collected text.\<close>

definition in_buffer :: "bool \<Rightarrow> nat \<Rightarrow> http \<Rightarrow> http \<Rightarrow> http_action list \<Rightarrow> bool" where
  "in_buffer callback n h h' acts \<longleftrightarrow> length (ht_part h') = length (ht_part h) \<and> ht_begin h' \<le> n
     \<and> (case pending_read acts of None \<Rightarrow> True | Some ph \<Rightarrow> ht_begin h' = 0 \<or> callback \<and> ph = in_body)"

lemma in_buffer_Settle [simp]:
  "in_buffer callback n h h' (Settle p v # acts) = in_buffer callback n h h' acts"
  by (simp add: in_buffer_def)

lemma in_buffer_cong:
  "in_buffer callback n (h\<lparr>ht_parser := st, ht_partial := p, ht_begin := k\<rparr>) h' acts = in_buffer callback n h h' acts"
  by (simp add: in_buffer_def)

lemma headers_in_buffer:
  assumes "from_headers get_body callback ec n h = (h', acts)" "ht_begin h \<le> n"
  shows "in_buffer callback n h h' acts"
proof (cases "parse_until http_headers_done (ht_parser h) (input_range n h)")
  case (fields ok st r rest)
  show ?thesis
    using assms fields pending_headers [of _ "[]"]
    by (cases ok)
       (auto simp: from_headers_def parse_headers_def parse_body_def read_more_def finish_def in_buffer_def Let_def
         simp del: pending_headers split: if_splits, simp_all)
qed

lemma message_in_buffer:
  assumes "from_status_message get_body callback ec n h = (h', acts)" "ht_begin h \<le> n"
  shows "in_buffer callback n h h' acts"
proof (cases "parse_until http_status_message_done (ht_parser h) (input_range n h)")
  case (fields ok st r rest)
  let ?h = "h\<lparr>ht_parser := st, ht_partial := [], ht_begin := n - length rest\<rparr>"
  have "in_buffer callback n h (fst w) (snd w)" if "w = from_headers get_body callback ec n ?h" for w
    using headers_in_buffer [of get_body callback ec n ?h "fst w" "snd w"] that by (simp add: in_buffer_cong)
  then show ?thesis
    using assms fields
    by (cases ok)
       (auto simp: from_status_message_def parse_status_message_def read_more_def Let_def split: prod.splits,
        simp_all add: in_buffer_def)
qed

lemma status_in_buffer:
  assumes "from_status get_body callback ec n h = (h', acts)" "ht_begin h \<le> n"
  shows "in_buffer callback n h h' acts"
proof (cases "parse_until http_status_done (ht_parser h) (input_range n h)")
  case (fields ok st r rest)
  let ?h = "h\<lparr>ht_parser := st, ht_partial := [], ht_begin := n - length rest\<rparr>"
  have "in_buffer callback n h (fst w) (snd w)" if "w = from_status_message get_body callback ec n ?h" for w
    using message_in_buffer [of get_body callback ec n ?h "fst w" "snd w"] that by (simp add: in_buffer_cong)
  then show ?thesis
    using assms fields
    by (cases ok; cases "lexical_cast_u16 (trim (ht_partial h @ r))")
       (auto simp: from_status_def parse_status_def read_more_def Let_def split: prod.splits,
        simp_all add: in_buffer_def)
qed

lemma version_in_buffer:
  assumes "from_version get_body callback ec n h = (h', acts)" "ht_begin h \<le> n"
  shows "in_buffer callback n h h' acts"
proof (cases "parse_until http_version_done (ht_parser h) (input_range n (h\<lparr>ht_begin := 0\<rparr>))")
  case (fields ok st r rest)
  let ?h = "h\<lparr>ht_parser := st, ht_partial := [], ht_begin := n - length rest\<rparr>"
  have "in_buffer callback n h (fst w) (snd w)" if "w = from_status get_body callback ec n ?h" for w
    using status_in_buffer [of get_body callback ec n ?h "fst w" "snd w"] that by (simp add: in_buffer_cong)
  then show ?thesis
    using assms fields
    by (cases ok)
       (auto simp: from_version_def parse_version_def read_more_def Let_def split: prod.splits,
        simp_all add: in_buffer_def)
qed

text \<open>A connection that waits for a read of a part.\<close>

definition http_wf :: "bool \<Rightarrow> http_phase \<Rightarrow> http \<Rightarrow> bool" where
  "http_wf callback ph h \<longleftrightarrow>
     length (ht_part h) = 1024 \<and> (ht_begin h = 0 \<or> callback \<and> ph = in_body \<and> ht_begin h \<le> 1024)"

text \<open>One read of a connection that waits for the next one.\<close>

lemma buffer_kept:
  assumes "http_wf callback ph h" "length data \<le> 1024"
    "handle_received_data ph get_body callback ec data h = (h', acts)"
  shows "length (ht_part h') = 1024 \<and> ht_begin h' \<le> 1024
    \<and> (\<forall>ph'. pending_read acts = Some ph' \<longrightarrow> http_wf callback ph' h')"
proof -
  let ?h = "h\<lparr>ht_part := memcpy_at 0 data (length data) (ht_part h)\<rparr>"
  have part: "length (ht_part ?h) = 1024" using assms(1,2) by (simp add: memcpy_at_def http_wf_def)
  have goal: ?thesis if "in_buffer callback (length data) ?h h' acts"
    using that part assms(2) by (auto simp: in_buffer_def http_wf_def split: option.splits)
  show ?thesis
  proof (cases "(ec = 0 \<or> ec = eof) \<and> ph \<noteq> in_body")
    case True
    then have "ht_begin ?h \<le> length data" using assms(1) by (simp add: http_wf_def)
    then show ?thesis
      using assms(3) True goal version_in_buffer status_in_buffer message_in_buffer headers_in_buffer
      by (cases ph) (simp_all add: handle_received_data_def Let_def)
  next
    case False
    then show ?thesis
      using assms part
      by (cases ph)
         (auto simp: handle_received_data_def in_the_body_def parse_body_def read_more_def finish_def http_wf_def Let_def
           split: if_splits)
  qed
qed

lemma last_read_kept:
  assumes "http_wf callback ph h" "handle_received_data ph get_body callback ec data h = (h', acts)"
  shows "if callback \<and> ph = in_body then ht_begin h' = ht_begin h else ht_begin h' \<le> length data"
proof -
  let ?h = "h\<lparr>ht_part := memcpy_at 0 data (length data) (ht_part h)\<rparr>"
  have goal: "ht_begin h' \<le> length data" if "in_buffer callback (length data) ?h h' acts"
    using that by (simp add: in_buffer_def)
  show ?thesis
  proof (cases "(ec = 0 \<or> ec = eof) \<and> ph \<noteq> in_body")
    case True
    then have "ht_begin ?h \<le> length data" using assms(1) by (simp add: http_wf_def)
    then show ?thesis
      using assms(2) True goal version_in_buffer status_in_buffer message_in_buffer headers_in_buffer
      by (cases ph) (simp_all add: handle_received_data_def Let_def)
  next
    case False
    then show ?thesis
      using assms
      by (cases ph)
         (auto simp: handle_received_data_def in_the_body_def parse_body_def read_more_def finish_def http_wf_def Let_def
           split: if_splits)
  qed
qed

text \<open>The completions of reads of up to 1024 bytes with any error code, while there is a next read.\<close>

inductive receives :: "bool \<Rightarrow> bool \<Rightarrow> http_phase \<times> http \<Rightarrow> http_phase \<times> http \<Rightarrow> bool" for get_body callback where
  completed: "handle_received_data ph get_body callback ec data h = (h', acts) \<Longrightarrow> length data \<le> 1024 \<Longrightarrow>
    pending_read acts = Some ph' \<Longrightarrow> receives get_body callback (ph, h) (ph', h')"

interpretation receiving: stable "receives get_body callback" "\<lambda>(ph, h). http_wf callback ph h" for get_body callback
  by unfold_locales (auto elim!: receives.cases dest!: buffer_kept)

text \<open>C15: \<open>part_begin\<close> stays inside the last read.  Whatever reads came before, of any size up to the 1024
  bytes of the buffer and with any error code, the next one finds the iterator at the start of the
  buffer and leaves it at most at the end of the bytes that this read delivered, so that no range of
  the handler takes bytes of an earlier read; while a callback takes the body the iterator is not
  used, nor moved.  The buffer keeps its 1024 bytes.\<close>
theorem buffer_is_never_left:
  assumes "rtranclp (receives get_body callback) (in_version, http_async_connection part) (ph, h)"
    "length part = 1024" "length data \<le> 1024" "handle_received_data ph get_body callback ec data h = (h', acts)"
  shows "length (ht_part h') = 1024
    \<and> (if callback \<and> ph = in_body then ht_begin h' = ht_begin h
       else ht_begin h = 0 \<and> ht_begin h' \<le> length data)"
proof -
  have "http_wf callback in_version (http_async_connection part)"
    using assms(2) by (simp add: http_wf_def http_async_connection_def)
  then have w: "http_wf callback ph h" using receiving.reached [OF assms(1)] by simp
  then show ?thesis
    using buffer_kept [OF w assms(3,4)] last_read_kept [OF w assms(4)] by (auto simp: http_wf_def)
qed

theorem buffer_is_never_left_witness:
  "\<exists>h h'. rtranclp (receives True False) (in_version, http_async_connection (replicate 1024 0)) (in_version, h)
     \<and> handle_received_data in_version True False 0 [80, 47, 49, 46, 49, 32, 50] h = (h', [
         Settle version_promise (TextValue (chars ''HTTP/1.1'')), ReadSome in_status])
     \<and> length (ht_part h') = 1024 \<and> ht_begin h' \<le> 7"
proof -
  let ?c = "http_async_connection (replicate 1024 0)"
  obtain h acts where h: "handle_received_data in_version True False 0 [72, 84, 84] ?c = (h, acts)" by fastforce
  have s: "run_stage in_version http_response_begin [] [72, 84, 84] = ([], Some (in_version, http_version_t2, [72, 84, 84]))"
    by (simp add: version_stage_def stage_def parse_until_def)
  then have a: "acts = [ReadSome in_version]" "ht_parser h = http_version_t2" "ht_partial h = [72, 84, 84]" "ht_begin h = 0"
    using handler_agrees [of ?c 0 in_version "[72, 84, 84]"] h by (simp_all add: agrees_def)
  then have r: "rtranclp (receives True False) (in_version, ?c) (in_version, h)"
    using receives.completed [OF h] by (intro r_into_rtranclp) simp
  obtain h' acts' where h': "handle_received_data in_version True False 0 [80, 47, 49, 46, 49, 32, 50] h = (h', acts')"
    by fastforce
  have "run_stage in_version http_version_t2 [72, 84, 84] [80, 47, 49, 46, 49, 32, 50] =
      ([Settle version_promise (TextValue (chars ''HTTP/1.1''))], Some (in_status, http_status_digit, [50]))"
    by (simp add: version_stage_def stage_def status_stage_def parse_until_def trim_def chars_def is_space_def is_digit_def)
  then have "acts' = [Settle version_promise (TextValue (chars ''HTTP/1.1'')), ReadSome in_status]"
    using handler_agrees [of h 0 in_version "[80, 47, 49, 46, 49, 32, 50]"] h' a by (simp add: agrees_def)
  then show ?thesis using buffer_is_never_left [OF r _ _ h'] h' r by auto
qed

end
