(* ===== verification/WebDownload.thy ===== *)
theory WebDownload
  imports ManagerProps HttpProps
begin

text \<open>
  The manager of a server over the web client: what becomes of the files that the web delivers.
\<close>

section \<open>The answer of a get\<close>

text \<open>What \<open>status\<close> and \<open>body\<close> of a response return, which wait for their promises: the value, an
  exception, or \<open>None\<close> while the promise is not settled.\<close>

fun promised :: "http_promise \<Rightarrow> http_action list \<Rightarrow> http_value option" where
  "promised p [] = None"
| "promised p (Settle q v # acts) = (if p = q then Some v else promised p acts)"
| "promised p (a # acts) = promised p acts"

definition response_get :: "http_action list \<Rightarrow> (unit + (nat \<times> bytes)) option" where
  "response_get acts =
     (case promised status_promise acts of
        Some (StatusValue s) \<Rightarrow>
          (case promised body_promise acts of
             Some (TextValue body) \<Rightarrow> Some (Inr (unat s, body))
           | Some _ \<Rightarrow> Some (Inl ()) | None \<Rightarrow> None)
      | Some _ \<Rightarrow> Some (Inl ()) | None \<Rightarrow> None)"

text \<open>The web of the manager, given by the reads of each address: the pieces and what came with the end
  of the stream.  A promise that is never settled is an answer that never comes.\<close>

definition web_client :: "(bytes \<Rightarrow> bytes list \<times> bytes) \<Rightarrow> env \<Rightarrow> bool" where
  "web_client net E \<longleftrightarrow>
     (\<forall>urls url. env_http E (urls @ [url]) =
        response_get (fst (http_download (fst (net url)) (snd (net url)) (http_async_connection (replicate 1024 0)))))"

lemma web_client_answer:
  assumes "web_client net E" "head_ok d1 d2 code reason hs" "digits_value code \<le> 65535"
    "concat (fst (net url)) = response_head d1 d2 code reason hs @ body"
  shows "env_http E (urls @ [url]) = Some (Inr (digits_value code, body @ snd (net url)))"
proof -
  have "response_get (fst (http_download (fst (net url)) (snd (net url)) (http_async_connection (replicate 1024 0)))) =
      Some (Inr (digits_value code, body @ snd (net url)))"
    using assms(3)
    by (simp add: download_of_head [OF assms(2-4)] response_get_def unsigned_of_nat take_bit_nat_eq_self)
  then show ?thesis using assms(1) unfolding web_client_def by metis
qed

section \<open>Answers that never come\<close>

text \<open>A download whose stream ends in the head settles no body.\<close>

lemma feed_run:
  "http_feed ph datas h = (h', acts, r) \<Longrightarrow>
     \<exists>acts'. http_run True False ph (map (Pair 0) datas) h = (acts', r) \<and> settled acts' = settled acts"
proof (induction datas arbitrary: ph h h' acts r)
  case (Cons data datas)
  obtain h1 as where a: "handle_received_data ph True False 0 data h = (h1, as)" by fastforce
  show ?case
  proof (cases "pending_read as")
    case None
    then show ?thesis using Cons.prems a by auto
  next
    case (Some ph')
    then obtain as' where "http_feed ph' datas h1 = (h', as', r)" "acts = filter (\<lambda>a. \<not> is_read a) as @ as'"
      using Cons.prems a by (auto split: prod.splits)
    then show ?thesis using Cons.IH [of ph' h1 h' as' r] Some a by auto
  qed
qed auto

lemma promised_unsettled: "p \<notin> set (settled acts) \<Longrightarrow> promised p acts = None"
  by (induction p acts rule: promised.induct) auto

lemma promised_settled: "promised p acts = Some v \<Longrightarrow> Settle p v \<in> set acts"
  by (induction p acts rule: promised.induct) (auto split: if_splits)

text \<open>While a read is pending the status promise, if it is settled, has a number.\<close>

definition numbered :: "stage_end \<Rightarrow> bool" where
  "numbered e \<longleftrightarrow> (\<forall>v. snd e \<noteq> None \<longrightarrow> Settle status_promise v \<in> set (fst e) \<longrightarrow> (\<exists>s. v = StatusValue s))"

lemma stage_numbered:
  assumes "\<And>st xs. numbered (onward st xs)"
    "\<And>t v. Settle status_promise v \<in> set (fst (done_with t)) \<Longrightarrow> \<exists>s. v = StatusValue s"
  shows "numbered (stage ph stop done_with refused onward st p xs)"
proof (cases "parse_until stop st xs")
  case (fields ok st' r rest)
  show ?thesis
    using assms(1) [of st' rest] assms(2) [of _ "p @ r"] fields
    by (cases ok; cases "done_with (p @ r)") (auto simp: stage_def numbered_def and_then_def)
qed

lemma run_stage_numbered: "numbered (run_stage ph st p xs)"
proof -
  have b: "numbered (body_stage st p xs)" for st p xs by (simp add: numbered_def body_stage_def)
  have h: "numbered (headers_stage st p xs)" for st p xs
    unfolding headers_stage_def
    by (rule stage_numbered [OF b]) (simp add: parse_headers_real_def split: option.splits)
  have m: "numbered (message_stage st p xs)" for st p xs
    unfolding message_stage_def by (rule stage_numbered [OF h]) simp
  have s: "numbered (status_stage st p xs)" for st p xs
    unfolding status_stage_def by (rule stage_numbered [OF m]) (simp split: option.splits)
  have "numbered (version_stage st p xs)" for st p xs
    unfolding version_stage_def by (rule stage_numbered [OF s]) simp
  then show ?thesis using b h m s by (cases ph) simp_all
qed

lemma unfinished_head_unanswered:
  assumes "http_feed in_version datas (http_async_connection part) = (h, acts, Some ph)" "ph \<noteq> in_body"
  shows "response_get (fst (http_download datas [] (http_async_connection part))) = None"
proof -
  obtain acts' where a: "http_run True False in_version (map (Pair 0) datas) (http_async_connection part) = (acts', Some ph)"
    "settled acts' = settled acts"
    using feed_run [OF assms(1)] by blast
  have "mset (settled acts) + todo False ph \<subseteq># todo False in_version"
    using run_balanced [OF a(1)] a(2) by (auto simp: balanced_def)
  from mset_subset_eq_count [OF this, of body_promise] have "count (mset (settled acts)) body_promise = 0"
    using assms(2) by (cases ph) simp_all
  then have b: "body_promise \<notin> set (settled acts)" by (simp add: count_mset_0_iff)
  have "ht_begin h = 0" "stop_of ph \<noteq> Some (ht_parser h)"
    using feed_opened [OF assms(1)] run_stage_stop [of in_version http_response_begin "[]" "concat datas"] by auto
  then have "http_download datas [] (http_async_connection part) = (acts, Some ph)"
    using eof_in_the_head [of h ph] assms by (simp add: http_download_def)
  moreover have "\<exists>s. v = StatusValue s" if "promised status_promise acts = Some v" for v
    using run_stage_numbered [of in_version http_response_begin "[]" "concat datas"] feed_opened [OF assms(1)]
      promised_settled [OF that] by (simp add: numbered_def)
  ultimately show ?thesis
    using promised_unsettled [OF b] by (cases "promised status_promise acts") (auto simp: response_get_def)
qed

lemma download_missing_stops:
  assumes "mg_bufImages m i = None" "downloadAd E i m = None" "\<forall>j \<in> set ids. mg_bufImages m j \<noteq> None"
  shows "download_missing E (ids @ i # rest) m = None"
  using assms(3)
proof (induction ids)
  case (Cons j ids)
  then show ?case by auto
qed (simp add: assms(1,2))

lemma downloadAds_stops:
  assumes "\<not> mg_isEndBusiness m" "i \<in> wanted m" "mg_bufImages m i = None"
    "\<forall>j \<in> wanted m. sint j < sint i \<longrightarrow> mg_bufImages m j \<noteq> None"
    "\<And>m'. mg_mapAd m' i = mg_mapAd m i \<Longrightarrow> mg_isBarServer m' = mg_isBarServer m \<Longrightarrow> downloadAd E i m' = None"
  shows "downloadAds E m = None"
proof -
  let ?ids = "fst (needed_plays (pol_adplays (mg_policy m)) [] m)"
  let ?m1 = "snd (needed_plays (pol_adplays (mg_policy m)) [] m)"
  obtain ads where m1: "?m1 = m\<lparr>mg_mapAd := ads\<rparr>" using needed_plays_only by blast
  obtain a where a: "mg_mapAd m i = Some a" using assms(2) by (auto simp: wanted_def downloadable_def split: option.splits)
  have "extends m ?m1" using quiet_needed_plays by (simp only: quiet_def)
  then have known: "mg_mapAd ?m1 i = Some a" by (rule extends_known [OF _ a])
  have ids: "set ?ids = wanted m" by (rule needed_wanted)
  obtain before rest where b: "?ids = before @ i # rest" using assms(2) unfolding ids [symmetric] by (meson split_list)
  have "sorted_wrt (\<lambda>i j. sint i < sint j) ?ids" by (rule needed_plays_sorted) simp
  then have lt: "\<forall>j \<in> set before. sint j < sint i" unfolding b by (auto simp: sorted_wrt_append)
  have "\<forall>j \<in> set before. j \<in> wanted m" unfolding ids [symmetric] b by simp
  then have here: "\<forall>j \<in> set before. mg_bufImages (evict ?ids ?m1) j \<noteq> None"
    using assms(4) lt by (simp add: evict_def m1 ids restrict_map_def)
  have "downloadAd E i (evict ?ids ?m1) = None"
    by (rule assms(5)) (use known a in \<open>simp_all add: evict_def m1\<close>)
  then have "download_missing E ?ids (evict ?ids ?m1) = None"
    unfolding b using download_missing_stops [OF _ _ here [unfolded b], of i E rest] assms(3)
    by (simp add: evict_def m1 restrict_map_def)
  then show ?thesis using assms(1) by (simp add: downloadAds_def split_beta Let_def)
qed

text \<open>C12: what a server keeps of the web.  When the address of an advertisement delivers a well formed
  response, the body that is checked and kept is exactly what followed the head on the wire, in
  whatever pieces it came; with status 200 and the digest of the advertisement its answer to the
  clients is in memory and the body with a line feed is on the disk, and otherwise (another status,
  or a body whose transfer coding is not the identity and whose digest is therefore another) the
  next address is asked.\<close>
theorem web_file_is_kept_as_sent:
  assumes "web_client net E" "head_ok d1 d2 code reason hs" "digits_value code \<le> 65535"
    "concat (fst (net url)) = response_head d1 d2 code reason hs @ body"
    "file_md5 E (body @ snd (net url)) = Some md5a" "mg_bufImages m i = None"
  shows "if digits_value code = 200 \<and> to_upper_copy (ad_md5 a) = to_upper_copy md5a
    then \<exists>m'. download_urls E i a (url # urls) m = Some m'
      \<and> mg_bufImages m' = (mg_bufImages m)
          (i \<mapsto> Message_SerializeAsString (env_lib E) (file_response (body @ snd (net url))))
      \<and> mg_files m' = mg_files m @ [(ad_filename a, (body @ snd (net url)) @ [10])]
    else download_urls E i a (url # urls) m = download_urls E i a urls (m\<lparr>mg_fetched := mg_fetched m @ [url]\<rparr>)"
  using assms(5,6) web_client_answer [OF assms(1-4), of "mg_fetched m"]
  by (simp add: img_insert_def Let_def)

theorem web_file_is_kept_as_sent_witness:
  "\<exists>m' :: manager. download_urls sample_env 7 sample_ad [[104]] (sample_start True) = Some m'
     \<and> mg_bufImages m' = [7 \<mapsto> Message_SerializeAsString ref_lib (file_response [1, 2, 3])]
     \<and> mg_files m' = mg_files (sample_start True) @ [(ad_filename sample_ad, [1, 2, 3, 10])]"
proof -
  let ?net = "\<lambda>url :: bytes. ([sample_head [50, 48, 48], [1]], [2, 3 :: byte])"
  have ok: "head_ok 49 49 [50, 48, 48] [79, 75] [([65], [98])]" by (rule sample_head_ok) (simp_all add: is_digit_def)
  have v: "digits_value [50, 48, 48] = 200" by (simp add: digits_value_def)
  have c: "concat (fst (?net [104])) = response_head 49 49 [50, 48, 48] [79, 75] [([65], [98])] @ [1]"
    by (simp add: sample_head_def)
  have w: "web_client ?net sample_env"
    using v c by (simp add: web_client_def download_of_head [OF ok] response_get_def)
  show ?thesis
    using web_file_is_kept_as_sent [where net = ?net and url = "[104]" and E = sample_env and a = sample_ad
        and i = 7 and m = "sample_start True" and urls = "[]" and md5a = "ad_md5 sample_ad", OF w ok _ c] v sample_md5
    by simp
qed

text \<open>C9: one address can stop the business of a server for good.  If the server of an address closes the
  connection before the head of its response is complete, for instance after the status line, the
  response is never finished: the client reads on at the end of the stream for as many rounds as one
  likes without settling anything, \<open>status\<close> or \<open>body\<close> waits for ever, and when the file of this
  address is the next that is missing, the handler of the download timer does not return.  No other
  address is asked, and the thread of the business runs no other handler.\<close>
theorem unfinished_head_stops_business:
  assumes "web_client net E" "snd (net url) = []" "ph \<noteq> in_body"
    "http_feed in_version (fst (net url)) (http_async_connection (replicate 1024 0)) = (h, acts, Some ph)"
    "mg_isBarServer m" "\<not> mg_isEndBusiness m" "i \<in> wanted m" "mg_bufImages m i = None"
    "\<forall>j \<in> wanted m. sint j < sint i \<longrightarrow> mg_bufImages m j \<noteq> None"
    "mg_mapAd m i = Some a" "ad_download a = url # urls"
  shows "http_eofs n ph h = (h, [], Some ph) \<and> run_timer E TimerDownload m = None"
proof
  show "http_eofs n ph h = (h, [], Some ph)" by (rule eofs_in_the_head [OF assms(4,3)])
  have "env_http E (hist @ [url]) = None" for hist
    using assms(1,2) unfinished_head_unanswered [OF assms(4,3)] by (simp add: web_client_def)
  then have "downloadAd E i m' = None" if "mg_mapAd m' i = mg_mapAd m i" "mg_isBarServer m' = mg_isBarServer m" for m'
    using that assms(5,10,11) by (simp add: downloadAd_def)
  then show "run_timer E TimerDownload m = None" using downloadAds_stops [OF assms(6-9)] by simp
qed

theorem unfinished_head_stops_business_witness:
  "run_timer (sample_env\<lparr>env_http := (\<lambda>_. None)\<rparr>) TimerDownload (sample_known True) = None"
proof -
  let ?c = "http_async_connection (replicate 1024 0)"
  let ?net = "\<lambda>url :: bytes. ([[72, 84 :: byte]], [] :: bytes)"
  obtain h acts r where f: "http_feed in_version [[72, 84]] ?c = (h, acts, r)" by (metis prod_cases3)
  have "run_stage in_version http_response_begin [] [72, 84] = ([], Some (in_version, http_version_t1, [72, 84]))"
    by (simp add: version_stage_def stage_def parse_until_def)
  then have r: "r = Some in_version" using feed_opened [OF f] by auto
  have fr: "http_feed in_version (fst (?net [104])) ?c = (h, acts, Some in_version)" using f r by simp
  have u: "response_get (fst (http_download [[72, 84]] [] ?c)) = None"
    by (rule unfinished_head_unanswered [OF f [unfolded r]]) simp
  have w: "web_client ?net (sample_env\<lparr>env_http := (\<lambda>_. None)\<rparr>)" using u by (simp add: web_client_def)
  have k: "7 \<in> wanted (sample_known True)" "\<forall>j \<in> wanted (sample_known True). sint j < sint (7 :: i32) \<longrightarrow>
      mg_bufImages (sample_known True) j \<noteq> None"
    by (simp_all add: sample_wanted)
  have "http_eofs 1000 in_version h = (h, [], Some in_version)
      \<and> run_timer (sample_env\<lparr>env_http := (\<lambda>_. None)\<rparr>) TimerDownload (sample_known True) = None"
    by (rule unfinished_head_stops_business [where net = ?net and url = "[104]" and i = 7 and a = sample_ad and urls = "[]",
          OF w _ _ fr _ _ k(1) _ k(2)])
       (simp_all add: sample_known_def)
  then show ?thesis by blast
qed

end
