(* ===== verification/Bitmap.thy ===== *)
theory Bitmap
  imports AdPrelude
begin

text \<open>
  The bitmaps of \<^verbatim>\<open>src/CGdiPlusBitmap.h\<close>: classes \<open>CGdiPlusBitmap\<close> and
  \<open>CGdiPlusBitmapResource\<close>, over the global memory, streams and bitmaps of Windows.  What they do
  with memory is what can go wrong; the pixels are not modelled.
\<close>

section \<open>Windows\<close>

text \<open>Blocks of global memory with their lock counts and contents; streams with the block they read,
  whether they free it with their last reference (\<open>fDeleteOnRelease\<close>), and their references;
  bitmaps with the stream they were made from, if any.  \<open>gw_bad\<close> counts uses of a block that is
  not allocated, or of a null pointer.\<close>

record gdi_world =
  gw_next :: nat
  gw_blocks :: "nat \<Rightarrow> (nat \<times> bytes) option"
  gw_streams :: "nat \<Rightarrow> (nat \<times> bool \<times> nat) option"
  gw_bitmaps :: "nat \<Rightarrow> nat option option"
  gw_bad :: nat

text \<open>The answers of Windows to the calls of one \<open>Load\<close>.  \<open>ga_holds\<close>: whether a bitmap keeps a reference
  to its stream.\<close>

record gdi_api =
  ga_alloc :: bool
  ga_lock :: bool
  ga_stream :: bool
  ga_bitmap :: bool
  ga_status :: bool
  ga_holds :: bool

definition bad_use :: "gdi_world \<Rightarrow> gdi_world" where
  "bad_use w = w\<lparr>gw_bad := Suc (gw_bad w)\<rparr>"

definition GlobalAlloc :: "gdi_api \<Rightarrow> gdi_world \<Rightarrow> nat option \<times> gdi_world" where
  "GlobalAlloc A w =
     (if ga_alloc A
      then (Some (gw_next w), w\<lparr>gw_blocks := (gw_blocks w)(gw_next w \<mapsto> (0, [])), gw_next := Suc (gw_next w)\<rparr>)
      else (None, w))"

definition GlobalLock :: "gdi_api \<Rightarrow> nat \<Rightarrow> gdi_world \<Rightarrow> bool \<times> gdi_world" where
  "GlobalLock A n w =
     (case gw_blocks w n of
        None \<Rightarrow> (False, bad_use w)
      | Some (locks, c) \<Rightarrow>
          if ga_lock A then (True, w\<lparr>gw_blocks := (gw_blocks w)(n \<mapsto> (Suc locks, c))\<rparr>) else (False, w))"

definition CopyMemory :: "nat \<Rightarrow> bytes \<Rightarrow> gdi_world \<Rightarrow> gdi_world" where
  "CopyMemory n bs w =
     (case gw_blocks w n of
        None \<Rightarrow> bad_use w
      | Some (locks, c) \<Rightarrow> w\<lparr>gw_blocks := (gw_blocks w)(n \<mapsto> (locks, bs))\<rparr>)"

definition GlobalUnlock :: "nat \<Rightarrow> gdi_world \<Rightarrow> gdi_world" where
  "GlobalUnlock n w =
     (case gw_blocks w n of
        None \<Rightarrow> bad_use w
      | Some (locks, c) \<Rightarrow> w\<lparr>gw_blocks := (gw_blocks w)(n \<mapsto> (locks - 1, c))\<rparr>)"

definition GlobalFree :: "nat \<Rightarrow> gdi_world \<Rightarrow> gdi_world" where
  "GlobalFree n w =
     (case gw_blocks w n of None \<Rightarrow> bad_use w | Some _ \<Rightarrow> w\<lparr>gw_blocks := (gw_blocks w)(n := None)\<rparr>)"

definition CreateStreamOnHGlobal :: "gdi_api \<Rightarrow> nat \<Rightarrow> bool \<Rightarrow> gdi_world \<Rightarrow> nat option \<times> gdi_world" where
  "CreateStreamOnHGlobal A n delete w =
     (if ga_stream A
      then (Some (gw_next w),
            w\<lparr>gw_streams := (gw_streams w)(gw_next w \<mapsto> (n, delete, 1)), gw_next := Suc (gw_next w)\<rparr>)
      else (None, w))"

definition stream_Release :: "nat \<Rightarrow> gdi_world \<Rightarrow> gdi_world" where
  "stream_Release s w =
     (case gw_streams w s of
        None \<Rightarrow> bad_use w
      | Some (n, delete, refs) \<Rightarrow>
          if 1 < refs then w\<lparr>gw_streams := (gw_streams w)(s \<mapsto> (n, delete, refs - 1))\<rparr>
          else
            let w = w\<lparr>gw_streams := (gw_streams w)(s := None)\<rparr>
            in if delete then GlobalFree n w else w)"

definition FromStream :: "gdi_api \<Rightarrow> nat \<Rightarrow> gdi_world \<Rightarrow> nat option \<times> gdi_world" where
  "FromStream A s w =
     (if ga_bitmap A
      then
        (Some (gw_next w),
         w\<lparr>gw_bitmaps := (gw_bitmaps w)(gw_next w \<mapsto> (if ga_holds A then Some s else None)),
           gw_streams := (if ga_holds A
             then (gw_streams w)(s := map_option (\<lambda>(n, delete, refs). (n, delete, Suc refs)) (gw_streams w s))
             else gw_streams w),
           gw_next := Suc (gw_next w)\<rparr>)
      else (None, w))"

definition FromFile :: "gdi_api \<Rightarrow> gdi_world \<Rightarrow> nat option \<times> gdi_world" where
  "FromFile A w =
     (if ga_bitmap A
      then (Some (gw_next w), w\<lparr>gw_bitmaps := (gw_bitmaps w)(gw_next w \<mapsto> None), gw_next := Suc (gw_next w)\<rparr>)
      else (None, w))"

definition delete_bitmap :: "nat \<Rightarrow> gdi_world \<Rightarrow> gdi_world" where
  "delete_bitmap b w =
     (let held = gw_bitmaps w b; w = w\<lparr>gw_bitmaps := (gw_bitmaps w)(b := None)\<rparr>
      in case held of Some (Some s) \<Rightarrow> stream_Release s w | _ \<Rightarrow> w)"

section \<open>The classes\<close>

record bitmap =
  bm_pBitmap :: "nat option"
  bm_hBuffer :: "nat option"

definition CGdiPlusBitmapResource :: bitmap where
  "CGdiPlusBitmapResource = \<lparr>bm_pBitmap = None, bm_hBuffer = None\<rparr>"

text \<open>\<open>CGdiPlusBitmap::Empty\<close>, whose body is commented out, and \<open>Load\<close> of a file.\<close>

definition bitmap_Empty :: "bitmap \<Rightarrow> gdi_world \<Rightarrow> bitmap \<times> gdi_world" where
  "bitmap_Empty b w = (b, w)"

definition Load_file :: "gdi_api \<Rightarrow> bitmap \<Rightarrow> gdi_world \<Rightarrow> bool \<times> bitmap \<times> gdi_world" where
  "Load_file A b w =
     (let (b, w) = bitmap_Empty b w; (p, w) = FromFile A w; b = b\<lparr>bm_pBitmap := p\<rparr>
      in case p of None \<Rightarrow> (False, b, bad_use w) | Some _ \<Rightarrow> (ga_status A, b, w))"

text \<open>\<open>CGdiPlusBitmapResource::Empty\<close>, which the destructor calls too.\<close>

definition resource_Empty :: "bitmap \<Rightarrow> gdi_world \<Rightarrow> bitmap \<times> gdi_world" where
  "resource_Empty b w =
     (let (b, w) = bitmap_Empty b w
      in case bm_hBuffer b of
           None \<Rightarrow> (b, w)
         | Some n \<Rightarrow> (b\<lparr>bm_hBuffer := None\<rparr>, GlobalFree n (GlobalUnlock n w)))"

text \<open>The part of \<open>Load\<close> behind \<open>CreateStreamOnHGlobal\<close>: \<open>None\<close> of a bitmap that cannot be used.\<close>

definition load_stream :: "gdi_api \<Rightarrow> nat \<Rightarrow> bitmap \<Rightarrow> gdi_world \<Rightarrow> bool \<times> bitmap \<times> gdi_world" where
  "load_stream A pStream b w =
     (let (p, w) = FromStream A pStream w;
          b = b\<lparr>bm_pBitmap := p\<rparr>;
          w = stream_Release pStream w
      in case p of
           None \<Rightarrow> (False, b, w)
         | Some q \<Rightarrow> if ga_status A then (True, b, w) else (False, b\<lparr>bm_pBitmap := None\<rparr>, delete_bitmap q w))"

text \<open>The part of \<open>Load\<close> from \<open>GlobalAlloc\<close> on; the loader of a resource passes \<open>FALSE\<close> for \<open>delete\<close>, the
  loader of a text \<open>TRUE\<close>.\<close>

definition load_copy :: "gdi_api \<Rightarrow> bool \<Rightarrow> bytes \<Rightarrow> bitmap \<Rightarrow> gdi_world \<Rightarrow> bool \<times> bitmap \<times> gdi_world" where
  "load_copy A delete data b w =
     (let (h, w) = GlobalAlloc A w; b = b\<lparr>bm_hBuffer := h\<rparr>
      in case h of
           None \<Rightarrow> (False, b, w)
         | Some n \<Rightarrow>
             let (locked, w) = GlobalLock A n w
             in if \<not> locked then (False, b\<lparr>bm_hBuffer := None\<rparr>, GlobalFree n w)
                else
                  let w = CopyMemory n data w;
                      (s, w) = CreateStreamOnHGlobal A n delete w;
                      (ok, b, w) = (case s of None \<Rightarrow> (False, b, w) | Some pStream \<Rightarrow> load_stream A pStream b w)
                  in if ok then (True, b, w)
                     else (False, b\<lparr>bm_hBuffer := None\<rparr>, GlobalFree n (GlobalUnlock n w)))"

text \<open>The loader of a resource; \<open>resource\<close> is what \<open>FindResource\<close>, \<open>SizeofResource\<close> and \<open>LockResource\<close>
  give: \<open>None\<close> or an empty list if one of them fails.\<close>

definition Load_resource :: "gdi_api \<Rightarrow> bytes option \<Rightarrow> bitmap \<Rightarrow> gdi_world \<Rightarrow> bool \<times> bitmap \<times> gdi_world" where
  "Load_resource A resource b w =
     (let (b, w) = resource_Empty b w
      in case resource of
           None \<Rightarrow> (False, b, w)
         | Some data \<Rightarrow> if data = [] then (False, b, w) else load_copy A False data b w)"

definition Load_string :: "gdi_api \<Rightarrow> bytes \<Rightarrow> bitmap \<Rightarrow> gdi_world \<Rightarrow> bool \<times> bitmap \<times> gdi_world" where
  "Load_string A data b w =
     (let (b, w) = resource_Empty b w in load_copy A True data b w)"


section \<open>What the loads leave\<close>

named_theorems gdi_simps

lemmas [gdi_simps] = bad_use_def GlobalAlloc_def GlobalLock_def CopyMemory_def GlobalUnlock_def GlobalFree_def
  CreateStreamOnHGlobal_def stream_Release_def FromStream_def delete_bitmap_def load_stream_def load_copy_def
  resource_Empty_def bitmap_Empty_def Let_def

text \<open>Numbers from \<open>gw_next\<close> on are free, and the buffer of the object is a block that is locked once.\<close>

definition unused :: "gdi_world \<Rightarrow> bool" where
  "unused w \<longleftrightarrow> (\<forall>n \<ge> gw_next w. gw_blocks w n = None \<and> gw_streams w n = None \<and> gw_bitmaps w n = None)"

definition bitmap_wf :: "bitmap \<Rightarrow> gdi_world \<Rightarrow> bool" where
  "bitmap_wf b w \<longleftrightarrow> unused w
     \<and> (case bm_hBuffer b of None \<Rightarrow> True | Some n \<Rightarrow> n < gw_next w \<and> (\<exists>c. gw_blocks w n = Some (1, c)))"

text \<open>The blocks without the buffer of the object.\<close>

definition other_blocks :: "bitmap \<Rightarrow> gdi_world \<Rightarrow> nat \<Rightarrow> (nat \<times> bytes) option" where
  "other_blocks b w = (case bm_hBuffer b of None \<Rightarrow> gw_blocks w | Some n \<Rightarrow> (gw_blocks w)(n := None))"

lemma Empty_frees:
  assumes "bitmap_wf b w"
  shows "\<exists>b' w'. resource_Empty b w = (b', w') \<and> bm_hBuffer b' = None \<and> bm_pBitmap b' = bm_pBitmap b
    \<and> gw_blocks w' = other_blocks b w \<and> gw_streams w' = gw_streams w \<and> gw_bitmaps w' = gw_bitmaps w
    \<and> gw_bad w' = gw_bad w \<and> gw_next w' = gw_next w \<and> unused w'"
  using assms by (auto simp: bitmap_wf_def unused_def other_blocks_def gdi_simps split: option.splits)

text \<open>A fresh stream on the block \<open>n\<close>: it frees its block with the last reference, which it loses here
  unless a usable bitmap keeps one.\<close>

lemma stream_consumed:
  assumes "gw_streams w s = Some (n, delete, Suc 0)" "gw_blocks w n = Some c"
  shows "gw_blocks (stream_Release s w) = (if delete then (gw_blocks w)(n := None) else gw_blocks w)"
    "gw_bad (stream_Release s w) = gw_bad w" "gw_next (stream_Release s w) = gw_next w"
    "gw_streams (stream_Release s w) = (gw_streams w)(s := None)"
    "gw_bitmaps (stream_Release s w) = gw_bitmaps w"
  using assms by (simp_all add: stream_Release_def GlobalFree_def Let_def)

lemma stream_shared:
  assumes "gw_streams w s = Some (n, delete, Suc (Suc k))"
  shows "stream_Release s w = w\<lparr>gw_streams := (gw_streams w)(s \<mapsto> (n, delete, Suc k))\<rparr>"
  using assms by (simp add: stream_Release_def)

lemma load_stream_outcome:
  assumes "gw_streams w s = Some (n, delete, 1)" "gw_blocks w n = Some c" "unused w"
    "load_stream A s b w = (ok, b', w')"
  shows "ok = (ga_bitmap A \<and> ga_status A) \<and> bm_hBuffer b' = bm_hBuffer b \<and> gw_bad w' = gw_bad w \<and> unused w'
    \<and> gw_blocks w' = (if delete \<and> (\<not> ok \<or> \<not> ga_holds A) then (gw_blocks w)(n := None) else gw_blocks w)
    \<and> bm_pBitmap b' = (if ok then Some (gw_next w) else None)
    \<and> gw_bitmaps w' = (if ok then (gw_bitmaps w)(gw_next w \<mapsto> (if ga_holds A then Some s else None)) else gw_bitmaps w)
    \<and> gw_next w \<le> gw_next w'"
proof -
  have "(gw_bitmaps w)(gw_next w := None) = gw_bitmaps w" using assms(3) by (auto simp: unused_def)
  then show ?thesis
    using assms
    by (cases "ga_bitmap A"; cases "ga_status A"; cases "ga_holds A")
       (auto simp: load_stream_def FromStream_def stream_consumed stream_shared delete_bitmap_def unused_def Let_def)
qed

definition streamed :: "gdi_api \<Rightarrow> bool" where
  "streamed A \<longleftrightarrow> ga_alloc A \<and> ga_lock A \<and> ga_stream A"

definition all_well :: "gdi_api \<Rightarrow> bool" where
  "all_well A \<longleftrightarrow> streamed A \<and> ga_bitmap A \<and> ga_status A"

lemma load_copy_outcome:
  assumes "unused w" "bm_hBuffer b = None" "load_copy A delete data b w = (ok, b', w')"
  shows "ok = all_well A \<and> unused w'
    \<and> gw_bad w' = (if delete \<and> streamed A \<and> \<not> ok then gw_bad w + 2 else gw_bad w)
    \<and> bm_hBuffer b' = (if ok then Some (gw_next w) else None)
    \<and> gw_blocks w' = (if ok \<and> (delete \<longrightarrow> ga_holds A) then (gw_blocks w)(gw_next w \<mapsto> (1, data)) else gw_blocks w)
    \<and> gw_bitmaps w \<subseteq>\<^sub>m gw_bitmaps w' \<and> (ok \<longrightarrow> bm_pBitmap b' \<noteq> None \<and> gw_bitmaps w (the (bm_pBitmap b')) = None
        \<and> gw_bitmaps w' (the (bm_pBitmap b')) \<noteq> None)
    \<and> gw_next w \<le> gw_next w' \<and> (ok \<longrightarrow> gw_next w < gw_next w')"
proof -
  let ?n = "gw_next w"
  have fresh: "gw_blocks w ?n = None" "(gw_blocks w)(?n := None) = gw_blocks w"
    using assms(1) by (auto simp: unused_def)
  show ?thesis
  proof (cases "streamed A")
    case False
    then show ?thesis
      using assms fresh
      by (cases "ga_alloc A"; cases "ga_lock A")
         (auto simp: load_copy_def GlobalAlloc_def GlobalLock_def GlobalFree_def GlobalUnlock_def CopyMemory_def
           CreateStreamOnHGlobal_def streamed_def all_well_def unused_def Let_def)
  next
    case True
    let ?b = "b\<lparr>bm_hBuffer := Some ?n\<rparr>"
    let ?w = "w\<lparr>gw_blocks := (gw_blocks w)(?n \<mapsto> (1, data)),
      gw_streams := (gw_streams w)(Suc ?n \<mapsto> (?n, delete, 1)), gw_next := Suc (Suc ?n)\<rparr>"
    obtain ok1 b1 w1 where l: "load_stream A (Suc ?n) ?b ?w = (ok1, b1, w1)" by (metis prod_cases3)
    have w1: "(ok, b', w') = (if ok1 then (True, b1, w1)
        else (False, b1\<lparr>bm_hBuffer := None\<rparr>, GlobalFree ?n (GlobalUnlock ?n w1)))"
      using assms(3) True l
      by (simp add: load_copy_def GlobalAlloc_def GlobalLock_def CopyMemory_def CreateStreamOnHGlobal_def streamed_def
          Let_def split: if_splits)
    have "unused ?w" using assms(1) by (simp add: unused_def)
    note o = load_stream_outcome [OF _ _ this l, of ?n delete "(1, data)", simplified]
    have b: "gw_bitmaps w (Suc (Suc ?n)) = None" using assms(1) by (simp add: unused_def)
    show ?thesis
    proof (cases ok1)
      case True1: True
      then show ?thesis using w1 o True b fresh
        by (auto simp: all_well_def map_le_def dom_def)
    next
      case False
      then show ?thesis using w1 o True fresh
        by (cases delete) (auto simp: all_well_def GlobalFree_def GlobalUnlock_def bad_use_def unused_def)
    qed
  qed
qed

section \<open>Properties\<close>

definition sample_gdi :: "bool \<Rightarrow> gdi_api" where
  "sample_gdi picture = \<lparr>ga_alloc = True, ga_lock = True, ga_stream = True, ga_bitmap = True, ga_status = picture,
     ga_holds = True\<rparr>"

definition empty_gdi :: gdi_world where
  "empty_gdi = \<lparr>gw_next = 0, gw_blocks = Map.empty, gw_streams = Map.empty, gw_bitmaps = Map.empty, gw_bad = 0\<rparr>"

lemma empty_gdi_wf: "bitmap_wf CGdiPlusBitmapResource empty_gdi"
  by (simp add: bitmap_wf_def unused_def CGdiPlusBitmapResource_def empty_gdi_def)

text \<open>C40: loading a resource owns exactly what it needs.  Whatever Windows answers, nothing that is not
  allocated is used, the old buffer is given back, and after the call the object owns one block, locked
  once and with the bytes of the resource, if everything went well, and none otherwise: no path leaks a
  block or frees it twice.\<close>
theorem resource_load_owns_one_block:
  assumes "bitmap_wf b w" "Load_resource A resource b w = (ok, b', w')"
  shows "ok = (\<exists>data. resource = Some data \<and> data \<noteq> [] \<and> all_well A)
    \<and> gw_bad w' = gw_bad w \<and> bitmap_wf b' w'
    \<and> (if ok then bm_hBuffer b' = Some (gw_next w) \<and> gw_blocks w' = (other_blocks b w)(gw_next w \<mapsto> (1, the resource))
       else bm_hBuffer b' = None \<and> gw_blocks w' = other_blocks b w)"
proof -
  obtain b1 w1 where e: "resource_Empty b w = (b1, w1)" "bm_hBuffer b1 = None" "gw_blocks w1 = other_blocks b w"
    "gw_bad w1 = gw_bad w" "gw_next w1 = gw_next w" "unused w1"
    using Empty_frees [OF assms(1)] by blast
  show ?thesis
  proof (cases "resource = None \<or> resource = Some []")
    case True
    then show ?thesis using assms(2) e by (auto simp: Load_resource_def bitmap_wf_def)
  next
    case False
    then obtain data where "resource = Some data" "data \<noteq> []" by auto
    moreover from this have "load_copy A False data b1 w1 = (ok, b', w')"
      using assms(2) e(1) by (simp add: Load_resource_def)
    ultimately show ?thesis
      using load_copy_outcome [OF e(6) e(2)] e by (auto simp: bitmap_wf_def)
  qed
qed

theorem resource_load_owns_one_block_witness:
  "\<exists>b' w'. Load_resource (sample_gdi True) (Some [1, 2]) CGdiPlusBitmapResource empty_gdi = (True, b', w')
     \<and> bm_hBuffer b' = Some 0 \<and> gw_blocks w' = [0 \<mapsto> (1, [1, 2])] \<and> gw_bad w' = 0"
proof -
  obtain ok b' w' where l: "Load_resource (sample_gdi True) (Some [1, 2]) CGdiPlusBitmapResource empty_gdi = (ok, b', w')"
    by (metis prod_cases3)
  have "other_blocks CGdiPlusBitmapResource empty_gdi = Map.empty"
    by (simp add: other_blocks_def CGdiPlusBitmapResource_def empty_gdi_def)
  then show ?thesis
    using resource_load_owns_one_block [OF empty_gdi_wf l] l
    by (simp add: all_well_def streamed_def sample_gdi_def empty_gdi_def)
qed

text \<open>loading a text frees its block twice.  The stream is told to free the block with its last
  reference, so when the bytes are no picture the release of the stream frees it, and the unlock and
  the free behind it use it again: exactly then two bad uses happen.\<close>
theorem text_load_frees_twice:
  assumes "bitmap_wf b w" "Load_string A data b w = (ok, b', w')"
  shows "ok = all_well A \<and> gw_bad w' = (if streamed A \<and> \<not> all_well A then gw_bad w + 2 else gw_bad w)"
proof -
  obtain b1 w1 where e: "resource_Empty b w = (b1, w1)" "bm_hBuffer b1 = None" "gw_bad w1 = gw_bad w" "unused w1"
    using Empty_frees [OF assms(1)] by blast
  then have "load_copy A True data b1 w1 = (ok, b', w')" using assms(2) by (simp add: Load_string_def)
  from load_copy_outcome [OF e(4,2) this] show ?thesis using e by auto
qed

theorem text_load_frees_twice_witness:
  "\<exists>b' w'. Load_string (sample_gdi False) [1, 2] CGdiPlusBitmapResource empty_gdi = (False, b', w') \<and> gw_bad w' = 2"
proof -
  obtain ok b' w' where l: "Load_string (sample_gdi False) [1, 2] CGdiPlusBitmapResource empty_gdi = (ok, b', w')"
    by (metis prod_cases3)
  then show ?thesis
    using text_load_frees_twice [OF empty_gdi_wf l]
    by (simp add: all_well_def streamed_def sample_gdi_def empty_gdi_def)
qed

text \<open>The bitmap of an object is never deleted: each successful load adds one and none goes away.\<close>

lemma reload_leaks_bitmap:
  assumes "bitmap_wf b w" "Load_resource A resource b w = (ok, b', w')"
  shows "gw_bitmaps w \<subseteq>\<^sub>m gw_bitmaps w' \<and> (ok \<longrightarrow> dom (gw_bitmaps w) \<subset> dom (gw_bitmaps w'))"
proof -
  obtain b1 w1 where e: "resource_Empty b w = (b1, w1)" "bm_hBuffer b1 = None" "gw_bitmaps w1 = gw_bitmaps w" "unused w1"
    using Empty_frees [OF assms(1)] by blast
  have ok: "gw_bitmaps w \<subseteq>\<^sub>m gw_bitmaps w' \<and> (ok \<longrightarrow> gw_bitmaps w (the (bm_pBitmap b')) = None
      \<and> gw_bitmaps w' (the (bm_pBitmap b')) \<noteq> None)"
    if "load_copy A False data b1 w1 = (ok, b', w')" for data
    using load_copy_outcome [OF e(4,2) that] e(3) by auto
  have "gw_bitmaps w \<subseteq>\<^sub>m gw_bitmaps w' \<and> (ok \<longrightarrow> gw_bitmaps w (the (bm_pBitmap b')) = None
      \<and> gw_bitmaps w' (the (bm_pBitmap b')) \<noteq> None)"
    using assms(2) e ok by (auto simp: Load_resource_def split: option.splits if_splits)
  then show ?thesis by (auto dest: map_le_implies_dom_le)
qed

end
