(* ===== verification/UriCode.thy ===== *)
theory UriCode
  imports HttpClient
begin

text \<open>
  The percent coding of addresses, \<^verbatim>\<open>boost/network/uri/encode.hpp\<close> and
  \<^verbatim>\<open>decode.hpp\<close> of the vendored cpp-netlib, on a platform whose characters are signed
  bytes, as those of the compiler of the program are.
\<close>

section \<open>Encoding\<close>

definition hex_to_letter :: "byte \<Rightarrow> byte" where
  "hex_to_letter c = (if c \<le> 9 then c + 48 else c - 10 + 65)"

definition uri_plain :: "byte \<Rightarrow> bool" where
  "uri_plain c \<longleftrightarrow> is_alnum c \<or> c = 45 \<or> c = 46 \<or> c = 95 \<or> c = 126 \<or> c = 47"

text \<open>\<open>in >> 4\<close> on a signed character keeps its sign.\<close>

definition encode_char :: "byte \<Rightarrow> bytes" where
  "encode_char c =
     (if uri_plain c then [c] else [37, hex_to_letter (signed_drop_bit 4 c), hex_to_letter (and c 15)])"

fun uri_encode :: "bytes \<Rightarrow> bytes" where
  "uri_encode [] = []"
| "uri_encode (c # cs) = encode_char c @ uri_encode cs"

section \<open>Decoding\<close>

definition letter_to_hex :: "byte \<Rightarrow> byte" where
  "letter_to_hex c =
     (if 48 \<le> c \<and> c \<le> 57 then c - 48
      else if 97 \<le> c \<and> c \<le> 102 then c + 10 - 97
      else if 65 \<le> c \<and> c \<le> 70 then c + 10 - 65
      else 0)"

text \<open>The loop of \<open>decode\<close>; \<open>None\<close>: the two digits behind a percent sign are read past the end of the
  range.\<close>

fun uri_decode :: "bytes \<Rightarrow> bytes option" where
  "uri_decode [] = Some []"
| "uri_decode (c # cs) =
     (if c = 37
      then
        (case cs of
           v0 # v1 # rest \<Rightarrow> map_option ((#) (16 * letter_to_hex v0 + letter_to_hex v1)) (uri_decode rest)
         | _ \<Rightarrow> None)
      else map_option ((#) c) (uri_decode cs))"

section \<open>The round trip\<close>

text \<open>What is left of a character.\<close>

definition uri_round :: "byte \<Rightarrow> byte" where
  "uri_round c =
     (if uri_plain c then c
      else 16 * letter_to_hex (hex_to_letter (signed_drop_bit 4 c)) + letter_to_hex (hex_to_letter (and c 15)))"

lemma plain_not_percent: "uri_plain c \<Longrightarrow> c \<noteq> 37"
  by (auto simp: uri_plain_def is_alnum_def is_digit_def)

lemma decode_encode_char: "uri_decode (encode_char c @ cs) = map_option ((#) (uri_round c)) (uri_decode cs)"
  by (simp add: encode_char_def uri_round_def plain_not_percent)

lemma uri_decode_encode: "uri_decode (uri_encode bs) = Some (map uri_round bs)"
  by (induction bs) (simp_all add: decode_encode_char)

lemma every_byte:
  assumes "list_all (\<lambda>n. P (word_of_int n)) [0..255]"
  shows "P (c :: byte)"
proof -
  have "uint c < 2 ^ LENGTH(8)" by (rule unsigned_less)
  then have "uint c \<in> set [0..255]" by simp
  then have "P (word_of_int (uint c))" using assms unfolding list_all_iff by (rule bspec [rotated])
  then show ?thesis by simp
qed

lemma round_char: "(uri_round c = c) = (c < 128)"
  by (rule every_byte) code_simp

text \<open>percent coding is undone by decoding exactly for texts of seven bits.  From 128 on the shift
  keeps the sign of the character and the letter of the upper digit is wrong: 0xE4 becomes
  \<open>%54\<close>, the letter T.\<close>
theorem uri_coding_roundtrip:
  "uri_decode (uri_encode bs) = Some bs \<longleftrightarrow> list_all (\<lambda>c. c < 128) bs"
proof -
  have "map uri_round bs = bs \<longleftrightarrow> list_all (\<lambda>c. c < 128) bs"
    by (induction bs) (simp_all add: round_char)
  then show ?thesis by (simp add: uri_decode_encode)
qed

text \<open>Where the wrong digit goes, and a percent sign at the end of a text.\<close>

lemma uri_collision: "uri_encode [0xE4] = chars ''%54'' \<and> uri_decode (chars ''%54'') = Some [84]"
  by code_simp

lemma uri_decode_cut: "uri_decode [37] = None \<and> uri_decode [37, 52] = None"
  by simp

end
