(* ===== verification/RepeatedCodec.thy ===== *)
theory RepeatedCodec
  imports Progress
begin

text \<open>
  Repeated fields on the wire: packed integers, and embedded messages.  The definitions are the blocks
  that the generated serialisers and size functions of \<^verbatim>\<open>src/ad/AdPlayPolicy.pb.cc\<close> have
  for every such field; the lemmas say which bytes they write and that the cases of the parse loop
  consume them.
\<close>

section \<open>Blocks of the generated code\<close>

text \<open>A packed field: its tag and the cached number of bytes, unless it is empty, then the elements.  The
  stream writer looks at the space left in its buffer; \<open>room i\<close> is the space at its \<open>i\<close>-th call for the
  field.\<close>

definition write_packed_array :: "nat \<Rightarrow> i32 \<Rightarrow> i32 list \<Rightarrow> bytes" where
  "write_packed_array field_number cached_size vs =
     (if length vs > 0
      then WriteTagToArray field_number WIRETYPE_LENGTH_DELIMITED @ WriteVarint32ToArray cached_size else []) @
     concat (map WriteInt32NoTagToArray vs)"

definition write_packed :: "pb_lib \<Rightarrow> (nat \<Rightarrow> nat) \<Rightarrow> nat \<Rightarrow> i32 \<Rightarrow> i32 list \<Rightarrow> bytes" where
  "write_packed L room field_number cached_size vs =
     (if length vs > 0
      then WriteTag L (room 0) field_number WIRETYPE_LENGTH_DELIMITED @ WriteVarint32 L (room 1) cached_size else []) @
     concat (map (\<lambda>i. WriteInt32NoTag L (room (i + 2)) (vs ! i)) [0..<length vs])"

text \<open>What the field adds to the size of the message, and the size it caches.\<close>

definition packed_size :: "pb_lib \<Rightarrow> nat \<Rightarrow> i32 list \<Rightarrow> nat \<times> i32" where
  "packed_size L tag_size vs =
     (let data_size = Int32SizeRepeated L vs
      in ((if data_size > 0 then tag_size + Int32Size L (of_nat data_size) else 0) + data_size, ToCachedSize data_size))"

text \<open>\<open>MessageSizeNoVirtual\<close>, given what \<open>ByteSizeLong\<close> of the message returns.\<close>

definition MessageSizeNoVirtual :: "pb_lib \<Rightarrow> nat \<Rightarrow> nat" where
  "MessageSizeNoVirtual L byte_size = LengthDelimitedSize L byte_size"

text \<open>An assignment under a condition, for the long \<open>MergeFrom\<close> of \<open>Ad\<close>.\<close>

definition update_if :: "bool \<Rightarrow> ('m \<Rightarrow> 'm) \<Rightarrow> 'm \<Rightarrow> 'm" where
  "update_if c u m = (if c then u m else m)"

section \<open>Bytes\<close>

definition packed_data :: "i32 list \<Rightarrow> bytes" where
  "packed_data vs = concat (map (\<lambda>v. venc (unat (scast v :: u64))) vs)"

lemma packed_data_simps [simp]:
  "packed_data [] = []"
  "packed_data (v # vs) = venc (unat (scast v :: u64)) @ packed_data vs"
  by (simp_all add: packed_data_def)

lemma packed_data_Nil [simp]: "packed_data vs = [] \<longleftrightarrow> vs = []"
  by (cases vs) simp_all

lemma unat_of_nat_size: "n \<le> INT_MAX \<Longrightarrow> unat (of_nat n :: u32) = n"
  by (simp add: unat_of_nat_u32 INT_MAX_def)

lemma packed_data_writes: "concat (map WriteInt32NoTagToArray vs) = packed_data vs"
  by (induction vs) (simp_all add: WriteInt32NoTagToArray_eq)

lemma write_packed_array_eq:
  assumes "length (packed_data vs) \<le> INT_MAX"
  shows "write_packed_array k (of_nat (length (packed_data vs))) vs =
    (if length vs > 0
     then venc (unat (MakeTag k WIRETYPE_LENGTH_DELIMITED)) @ venc (length (packed_data vs)) @ packed_data vs else [])"
  using assms
  by (simp add: write_packed_array_def WriteTagToArray_eq WriteVarint32ToArray_eq unat_of_nat_size
      packed_data_writes)

lemma message_array_eq:
  assumes "length body \<le> INT_MAX"
  shows "InternalWriteMessageNoVirtualToArray k (of_nat (length body)) body =
    venc (unat (MakeTag k WIRETYPE_LENGTH_DELIMITED)) @ venc (length body) @ body"
  using assms
  by (simp add: InternalWriteMessageNoVirtualToArray_def WriteTagToArray_eq WriteVarint32ToArray_eq unat_of_nat_size)

context pb_runtime
begin

lemma unat_scast_size: "n \<le> INT_MAX \<Longrightarrow> unat (scast (of_nat n :: i32) :: u64) = n"
  using unat_scast_nonneg [of "of_nat n :: i32"] sint_of_nat_i32 [of n] by (simp add: unat_of_nat_size)

lemma Int32SizeRepeated_eq: "Int32SizeRepeated L vs = length (packed_data vs)"
  by (simp add: size_repeated packed_data_def length_concat comp_def)

lemma write_packed_eq: "write_packed L room k n vs = write_packed_array k n vs"
proof -
  have "map (\<lambda>i. WriteInt32NoTag L (room (i + 2)) (vs ! i)) [0..<length vs] = map WriteInt32NoTagToArray vs"
    by (rule nth_equalityI) (simp_all add: stream_eq_array)
  then show ?thesis by (simp only: write_packed_def write_packed_array_def stream_eq_array)
qed

lemma packed_size_eq:
  assumes "length (packed_data vs) \<le> INT_MAX" "length (venc (unat (MakeTag k WIRETYPE_LENGTH_DELIMITED))) = t"
  shows "packed_size L t vs =
    (length (write_packed_array k (of_nat (length (packed_data vs))) vs), of_nat (length (packed_data vs)))"
  using assms
  by (simp add: packed_size_def Int32SizeRepeated_eq write_packed_array_eq Let_def Int32Size_eq unat_scast_size
      ToCachedSize_def)

lemma MessageSizeNoVirtual_eq:
  "n \<le> INT_MAX \<Longrightarrow> MessageSizeNoVirtual L n = length (venc n) + n"
  by (simp add: MessageSizeNoVirtual_def LengthDelimitedSize_def VarintSize32_eq unat_of_nat_size)

lemma embedded_size:
  assumes "\<And>e. e \<in> set xs \<Longrightarrow> fst (size_of e) = length (ser e) \<and> length (ser e) \<le> INT_MAX"
  shows "length tag * length xs + sum_list (map (\<lambda>(n, e). MessageSizeNoVirtual L n) (map size_of xs)) =
    length (concat (map (\<lambda>e. tag @ venc (length (ser e)) @ ser e) xs))"
  using assms
proof (induction xs)
  case (Cons x xs)
  then show ?case by (simp add: split_def MessageSizeNoVirtual_eq)
qed simp

section \<open>Cases of the switch\<close>

lemma packed_loop_reads:
  assumes "within_limit s" "cis_buf s = packed_data vs"
  shows "packed_loop L old s = Some ((True, old @ vs), s\<lparr>cis_buf := []\<rparr>)"
  using assms
proof (induction vs arbitrary: old s)
  case Nil
  then have "s\<lparr>cis_buf := []\<rparr> = s" by simp
  then show ?case using until_limit [OF Nil(1)] Nil(2) by (subst packed_loop.simps) simp
next
  case (Cons v vs)
  let ?s = "s\<lparr>cis_buf := packed_data vs\<rparr>"
  have "0 < BytesUntilLimit L s" using until_limit [OF Cons.prems(1)] Cons.prems(2) by (simp add: add_pos_nonneg)
  moreover have "ReadPrimitive_int32 L 0 s = ((True, v), ?s)"
    using read_varint32 [OF Cons.prems(1) _ unat_u64_bound] Cons.prems(2)
    by (simp add: ReadPrimitive_int32_def of_nat_scast_i32 ucast_scast_i32)
  moreover have "within_limit ?s" by (rule within_limit_rest(2) [OF Cons.prems(1)]) (simp add: Cons.prems(2))
  ultimately show ?case using Cons.IH [of ?s "old @ [v]"] by (subst packed_loop.simps) (simp add: Let_def)
qed

lemma consumes_packed:
  assumes "0 < n" "n < 2 ^ 14" "n \<le> unat cutoff" "length (packed_data vs) \<le> INT_MAX"
    and "\<And>m s. field (of_nat n) m s = packed_case L (get m) (\<lambda>v. upd v m) s"
  shows "consumes L cutoff field depth (venc n @ venc (length (packed_data vs)) @ packed_data vs)
    (\<lambda>m. upd (get m @ vs) m)"
  using assms(1-3)
proof (rule consumes_field)
  fix m and s :: cis and rest
  assume s: "within_limit s" "cis_buf s = (venc (length (packed_data vs)) @ packed_data vs) @ rest"
  let ?d = "packed_data vs"
  let ?n = "of_nat (length ?d) :: i32"
  let ?s1 = "s\<lparr>cis_buf := ?d @ rest\<rparr>"
  let ?s2 = "s\<lparr>cis_buf := ?d, cis_hidden := rest @ cis_hidden s\<rparr>"
  have n: "unat ?n = length ?d" "0 \<le> sint ?n" using assms(4) by (simp_all add: unat_of_nat_size sint_of_nat_i32)
  have b: "cis_buf s = venc (length ?d) @ (?d @ rest)" using s(2) by simp
  have w1: "within_limit ?s1" by (rule within_limit_rest(2) [OF s(1) b])
  have rd: "ReadVarintSizeAsInt L s = ((True, ?n), ?s1)" by (rule read_size [OF s(1) b assms(4)])
  have "snd (PushLimit L ?n ?s1) = ?s2" using push [OF w1 n(2)] n(1) by simp
  then obtain lim where p: "PushLimit L ?n ?s1 = (lim, ?s2)" by (cases "PushLimit L ?n ?s1") simp
  have w2: "within_limit ?s2" using w1 by (simp add: within_limit_def cis_total_def)
  have l: "packed_loop L (get m) ?s2 = Some ((True, get m @ vs), ?s2\<lparr>cis_buf := []\<rparr>)"
    by (rule packed_loop_reads [OF w2]) simp
  obtain b where "b \<longrightarrow> cis_legit s" "PopLimit L lim (?s2\<lparr>cis_buf := []\<rparr>) = s\<lparr>cis_buf := rest, cis_legit := b\<rparr>"
    using pop [OF w1 n(2), of "?s2\<lparr>cis_buf := []\<rparr>"] n(1) p by auto
  then show "\<exists>b. (b \<longrightarrow> cis_legit s) \<and>
      field (of_nat n) m s = Some (Parsed (upd (get m @ vs) m) (s\<lparr>cis_buf := rest, cis_legit := b\<rparr>))"
    by (auto simp: assms(5) packed_case_def ReadPackedPrimitive_def rd p l)
qed

end

context message_codec
begin

lemma consumes_message:
  assumes "0 < n" "n < 2 ^ 14" "n \<le> unat cutoff" "valid x" "length (ser x) \<le> INT_MAX" "0 \<le> depth"
    and "\<And>m s. field (of_nat n) m s = message_case L merge element (\<lambda>e. upd e m) m s"
  shows "consumes L cutoff field (depth + 1) (venc n @ venc (length (ser x)) @ ser x)
    (\<lambda>m. upd (merge_from element x) m)"
  using assms(1-3)
proof (rule consumes_field)
  fix m and s :: cis and rest
  assume s: "within_limit s" "depth + 1 \<le> cis_budget s" "cis_buf s = (venc (length (ser x)) @ ser x) @ rest"
  let ?s1 = "s\<lparr>cis_budget := cis_budget s - 1\<rparr>"
  have "within_limit ?s1" using s(1) by (simp add: within_limit_def cis_total_def)
  moreover have "depth \<le> cis_budget ?s1" "cis_buf ?s1 = venc (length (ser x)) @ ser x @ rest" using s by simp_all
  ultimately obtain b where "b \<longrightarrow> cis_legit ?s1" "ReadMessageNoVirtualNoRecursionDepth L merge element ?s1 =
      Some (True, merge_from element x, ?s1\<lparr>cis_buf := rest, cis_legit := b\<rparr>)"
    using read_embedded [OF assms(4,5)] by blast
  then show "\<exists>b. (b \<longrightarrow> cis_legit s) \<and>
      field (of_nat n) m s = Some (Parsed (upd (merge_from element x) m) (s\<lparr>cis_buf := rest, cis_legit := b\<rparr>))"
    using s(2) assms(6)
    by (auto simp: assms(7) message_case_def IncrementRecursionDepth_def UnsafeDecrementRecursionDepth_def)
qed

end

lemma consumes_update_if:
  assumes "c \<Longrightarrow> consumes L cutoff field depth e u"
  shows "consumes L cutoff field depth (if c then e else []) (update_if c u)"
  using consumes_if [of c L cutoff field depth e u] assms by (simp add: update_if_def [abs_def])

text \<open>Appending one element after the other is appending them all.\<close>

lemma fold_appends:
  assumes "\<And>m. app [] m = m" "\<And>e es m. app (e # es) m = app es (app [e] m)"
  shows "fold (\<lambda>x. app [h x]) xs m = app (map h xs) m"
proof (induction xs arbitrary: m)
  case (Cons x xs)
  have "app (h x # map h xs) m = app (map h xs) (app [h x] m)" by (rule assms(2))
  then show ?case using Cons.IH by simp
qed (simp add: assms(1))

lemma consumes_appends:
  assumes "\<And>x. x \<in> set xs \<Longrightarrow> consumes L cutoff field depth (e x) (\<lambda>m. app [h x] m)"
    "\<And>m. app [] m = m" "\<And>e es m. app (e # es) m = app es (app [e] m)"
  shows "consumes L cutoff field depth (concat (map e xs)) (\<lambda>m. app (map h xs) m)"
  by (rule consumes_cong [OF consumes_concat [of xs L cutoff field depth e "\<lambda>x. app [h x]"]], erule assms(1))
    (rule fold_appends [OF assms(2,3)])

end
