(* ===== verification/PolicyPb.thy ===== *)
theory PolicyPb
  imports RepeatedCodec MessagePb
begin

text \<open>
  The play policy, messages \<open>AdPlayPolicy\<close>, \<open>AdPlay\<close> and \<open>PlayTime\<close> of
  \<^verbatim>\<open>src/ad/AdPlayPolicy.pb.cc\<close>: parser, both serialisers, sizes and the object operations.
  Sizes are cached in the objects by \<open>ByteSizeLong\<close> and read back by the serialisers.  A repeated field is
  the list of its elements; one that was cleared hands its old elements out again, which differ from new ones
  in their cached sizes only.  The constructors do not set the cached sizes of packed fields, here 0; no lemma
  depends on their value, as \<open>ByteSizeLong\<close> sets them before a serialiser reads them.
\<close>

section \<open>PlayTime\<close>

record play_time =
  pt_bgntime :: bytes
  pt_endtime :: bytes
  pt_cached_size :: i32

definition PlayTime_new :: play_time where
  "PlayTime_new = \<lparr>pt_bgntime = [], pt_endtime = [], pt_cached_size = 0\<rparr>"

definition PlayTime_copy :: "play_time \<Rightarrow> play_time" where
  "PlayTime_copy from =
     \<lparr>pt_bgntime = (if length (pt_bgntime from) > 0 then pt_bgntime from else []),
      pt_endtime = (if length (pt_endtime from) > 0 then pt_endtime from else []),
      pt_cached_size = 0\<rparr>"

definition PlayTime_Clear :: "play_time \<Rightarrow> play_time" where
  "PlayTime_Clear m = m\<lparr>pt_bgntime := [], pt_endtime := []\<rparr>"

definition PlayTime_field :: "pb_lib \<Rightarrow> u32 \<Rightarrow> play_time \<Rightarrow> cis \<Rightarrow> play_time outcome option" where
  "PlayTime_field L tag m s =
     (if GetTagFieldNumber tag = 1 then
        if tag = 10 then string_case L (pt_bgntime m) (\<lambda>v. m\<lparr>pt_bgntime := v\<rparr>) s
        else Some Unusual
      else if GetTagFieldNumber tag = 2 then
        if tag = 18 then string_case L (pt_endtime m) (\<lambda>v. m\<lparr>pt_endtime := v\<rparr>) s
        else Some Unusual
      else Some Unusual)"

definition PlayTime_MergePartialFromCodedStream ::
    "pb_lib \<Rightarrow> play_time \<Rightarrow> cis \<Rightarrow> (bool \<times> play_time \<times> cis) option" where
  "PlayTime_MergePartialFromCodedStream L = merge_loop L 127 (PlayTime_field L)"

definition PlayTime_SerializeWithCachedSizes :: "pb_lib \<Rightarrow> play_time \<Rightarrow> bytes" where
  "PlayTime_SerializeWithCachedSizes L m =
     (if length (pt_bgntime m) > 0 then WriteStringMaybeAliased L 1 (pt_bgntime m) else []) @
     (if length (pt_endtime m) > 0 then WriteStringMaybeAliased L 2 (pt_endtime m) else [])"

definition PlayTime_InternalSerializeWithCachedSizesToArray :: "pb_lib \<Rightarrow> play_time \<Rightarrow> bytes" where
  "PlayTime_InternalSerializeWithCachedSizesToArray L m =
     (if length (pt_bgntime m) > 0 then WriteStringToArray L 1 (pt_bgntime m) else []) @
     (if length (pt_endtime m) > 0 then WriteStringToArray L 2 (pt_endtime m) else [])"

definition PlayTime_ByteSizeLong :: "pb_lib \<Rightarrow> play_time \<Rightarrow> nat \<times> play_time" where
  "PlayTime_ByteSizeLong L m =
     (let total_size =
        (if length (pt_bgntime m) > 0 then 1 + StringSize L (pt_bgntime m) else 0) +
        (if length (pt_endtime m) > 0 then 1 + StringSize L (pt_endtime m) else 0)
      in (total_size, m\<lparr>pt_cached_size := ToCachedSize total_size\<rparr>))"

definition PlayTime_MergeFrom :: "play_time \<Rightarrow> play_time \<Rightarrow> play_time" where
  "PlayTime_MergeFrom this from =
     (let m1 = (if length (pt_bgntime from) > 0 then this\<lparr>pt_bgntime := pt_bgntime from\<rparr> else this)
      in if length (pt_endtime from) > 0 then m1\<lparr>pt_endtime := pt_endtime from\<rparr> else m1)"

definition PlayTime_CopyFrom :: "bool \<Rightarrow> play_time \<Rightarrow> play_time \<Rightarrow> play_time" where
  "PlayTime_CopyFrom same_object this from =
     (if same_object then this else PlayTime_MergeFrom (PlayTime_Clear this) from)"

definition PlayTime_InternalSwap :: "play_time \<Rightarrow> play_time \<Rightarrow> play_time \<times> play_time" where
  "PlayTime_InternalSwap this other =
     (this\<lparr>pt_bgntime := pt_bgntime other, pt_endtime := pt_endtime other, pt_cached_size := pt_cached_size other\<rparr>,
      other\<lparr>pt_bgntime := pt_bgntime this, pt_endtime := pt_endtime this, pt_cached_size := pt_cached_size this\<rparr>)"

section \<open>AdPlay\<close>

record ad_play =
  ap_location :: i32
  ap_mode :: i32
  ap_needsync :: bool
  ap_playtimes :: "play_time list"
  ap_adids :: "i32 list"
  ap_adids_cached_byte_size :: i32
  ap_cached_size :: i32

definition AdPlay_new :: ad_play where
  "AdPlay_new = \<lparr>ap_location = 0, ap_mode = 0, ap_needsync = False, ap_playtimes = [], ap_adids = [],
     ap_adids_cached_byte_size = 0, ap_cached_size = 0\<rparr>"

text \<open>A repeated message field is copied and merged element by element: a new element each time, into which
  the other one is merged.\<close>

definition AdPlay_copy :: "ad_play \<Rightarrow> ad_play" where
  "AdPlay_copy from =
     \<lparr>ap_location = ap_location from, ap_mode = ap_mode from, ap_needsync = ap_needsync from,
      ap_playtimes = map (PlayTime_MergeFrom PlayTime_new) (ap_playtimes from), ap_adids = ap_adids from,
      ap_adids_cached_byte_size = 0, ap_cached_size = 0\<rparr>"

definition AdPlay_Clear :: "ad_play \<Rightarrow> ad_play" where
  "AdPlay_Clear m = m\<lparr>ap_playtimes := [], ap_adids := [], ap_location := 0, ap_mode := 0, ap_needsync := False\<rparr>"

definition AdPlay_field :: "pb_lib \<Rightarrow> u32 \<Rightarrow> ad_play \<Rightarrow> cis \<Rightarrow> ad_play outcome option" where
  "AdPlay_field L tag m s =
     (if GetTagFieldNumber tag = 1 then
        if tag = 8 then int32_case L (ap_location m) (\<lambda>v. m\<lparr>ap_location := v\<rparr>) s
        else Some Unusual
      else if GetTagFieldNumber tag = 2 then
        if tag = 16 then int32_case L (ap_mode m) (\<lambda>v. m\<lparr>ap_mode := v\<rparr>) s
        else Some Unusual
      else if GetTagFieldNumber tag = 3 then
        if tag = 24 then bool_case L (ap_needsync m) (\<lambda>v. m\<lparr>ap_needsync := v\<rparr>) s
        else Some Unusual
      else if GetTagFieldNumber tag = 4 then
        if tag = 34 then
          message_case L (PlayTime_MergePartialFromCodedStream L) PlayTime_new
            (\<lambda>e. m\<lparr>ap_playtimes := ap_playtimes m @ [e]\<rparr>) m s
        else Some Unusual
      else if GetTagFieldNumber tag = 5 then
        if tag = 42 then packed_case L (ap_adids m) (\<lambda>vs. m\<lparr>ap_adids := vs\<rparr>) s
        else if tag = 40 then unpacked_case L 42 (ap_adids m) (\<lambda>vs. m\<lparr>ap_adids := vs\<rparr>) s
        else Some Unusual
      else Some Unusual)"

definition AdPlay_MergePartialFromCodedStream ::
    "pb_lib \<Rightarrow> ad_play \<Rightarrow> cis \<Rightarrow> (bool \<times> ad_play \<times> cis) option" where
  "AdPlay_MergePartialFromCodedStream L = merge_loop L 127 (AdPlay_field L)"

definition AdPlay_SerializeWithCachedSizes :: "pb_lib \<Rightarrow> (nat \<Rightarrow> nat) \<Rightarrow> ad_play \<Rightarrow> bytes" where
  "AdPlay_SerializeWithCachedSizes L room m =
     (if ap_location m \<noteq> 0 then WriteInt32 L 1 (ap_location m) else []) @
     (if ap_mode m \<noteq> 0 then WriteInt32 L 2 (ap_mode m) else []) @
     (if ap_needsync m then WriteBool L 3 (ap_needsync m) else []) @
     concat (map (\<lambda>e. WriteMessageMaybeToArray L 4 (pt_cached_size e)
       (PlayTime_InternalSerializeWithCachedSizesToArray L e) (PlayTime_SerializeWithCachedSizes L e)) (ap_playtimes m)) @
     write_packed L room 5 (ap_adids_cached_byte_size m) (ap_adids m)"

definition AdPlay_InternalSerializeWithCachedSizesToArray :: "pb_lib \<Rightarrow> ad_play \<Rightarrow> bytes" where
  "AdPlay_InternalSerializeWithCachedSizesToArray L m =
     (if ap_location m \<noteq> 0 then WriteInt32ToArray 1 (ap_location m) else []) @
     (if ap_mode m \<noteq> 0 then WriteInt32ToArray 2 (ap_mode m) else []) @
     (if ap_needsync m then WriteBoolToArray 3 (ap_needsync m) else []) @
     concat (map (\<lambda>e. InternalWriteMessageNoVirtualToArray 4 (pt_cached_size e)
       (PlayTime_InternalSerializeWithCachedSizesToArray L e)) (ap_playtimes m)) @
     write_packed_array 5 (ap_adids_cached_byte_size m) (ap_adids m)"

definition AdPlay_ByteSizeLong :: "pb_lib \<Rightarrow> ad_play \<Rightarrow> nat \<times> ad_play" where
  "AdPlay_ByteSizeLong L m =
     (let sized = map (PlayTime_ByteSizeLong L) (ap_playtimes m);
          (adids_size, adids_cached) = packed_size L 1 (ap_adids m);
          total_size =
            1 * length (ap_playtimes m) + sum_list (map (\<lambda>(n, e). MessageSizeNoVirtual L n) sized) + adids_size +
            (if ap_location m \<noteq> 0 then 1 + Int32Size L (ap_location m) else 0) +
            (if ap_mode m \<noteq> 0 then 1 + Int32Size L (ap_mode m) else 0) +
            (if ap_needsync m then 1 + 1 else 0)
      in (total_size, m\<lparr>ap_playtimes := map snd sized, ap_adids_cached_byte_size := adids_cached,
                        ap_cached_size := ToCachedSize total_size\<rparr>))"

definition AdPlay_MergeFrom :: "ad_play \<Rightarrow> ad_play \<Rightarrow> ad_play" where
  "AdPlay_MergeFrom this from =
     (let m1 = this\<lparr>ap_playtimes := ap_playtimes this @ map (PlayTime_MergeFrom PlayTime_new) (ap_playtimes from)\<rparr>;
          m2 = m1\<lparr>ap_adids := ap_adids m1 @ ap_adids from\<rparr>;
          m3 = (if ap_location from \<noteq> 0 then m2\<lparr>ap_location := ap_location from\<rparr> else m2);
          m4 = (if ap_mode from \<noteq> 0 then m3\<lparr>ap_mode := ap_mode from\<rparr> else m3)
      in if ap_needsync from then m4\<lparr>ap_needsync := ap_needsync from\<rparr> else m4)"

definition AdPlay_CopyFrom :: "bool \<Rightarrow> ad_play \<Rightarrow> ad_play \<Rightarrow> ad_play" where
  "AdPlay_CopyFrom same_object this from =
     (if same_object then this else AdPlay_MergeFrom (AdPlay_Clear this) from)"

definition AdPlay_InternalSwap :: "ad_play \<Rightarrow> ad_play \<Rightarrow> ad_play \<times> ad_play" where
  "AdPlay_InternalSwap this other =
     (this\<lparr>ap_playtimes := ap_playtimes other, ap_adids := ap_adids other, ap_location := ap_location other,
           ap_mode := ap_mode other, ap_needsync := ap_needsync other, ap_cached_size := ap_cached_size other\<rparr>,
      other\<lparr>ap_playtimes := ap_playtimes this, ap_adids := ap_adids this, ap_location := ap_location this,
            ap_mode := ap_mode this, ap_needsync := ap_needsync this, ap_cached_size := ap_cached_size this\<rparr>)"

section \<open>AdPlayPolicy\<close>

record ad_policy =
  pp_id :: i32
  pp_version :: bytes
  pp_datetime :: bytes
  pp_adplays :: "ad_play list"
  pp_cached_size :: i32

definition AdPlayPolicy_new :: ad_policy where
  "AdPlayPolicy_new = \<lparr>pp_id = 0, pp_version = [], pp_datetime = [], pp_adplays = [], pp_cached_size = 0\<rparr>"

definition AdPlayPolicy_copy :: "ad_policy \<Rightarrow> ad_policy" where
  "AdPlayPolicy_copy from =
     \<lparr>pp_id = pp_id from,
      pp_version = (if length (pp_version from) > 0 then pp_version from else []),
      pp_datetime = (if length (pp_datetime from) > 0 then pp_datetime from else []),
      pp_adplays = map (AdPlay_MergeFrom AdPlay_new) (pp_adplays from), pp_cached_size = 0\<rparr>"

definition AdPlayPolicy_Clear :: "ad_policy \<Rightarrow> ad_policy" where
  "AdPlayPolicy_Clear m = m\<lparr>pp_adplays := [], pp_version := [], pp_datetime := [], pp_id := 0\<rparr>"

definition AdPlayPolicy_field :: "pb_lib \<Rightarrow> u32 \<Rightarrow> ad_policy \<Rightarrow> cis \<Rightarrow> ad_policy outcome option" where
  "AdPlayPolicy_field L tag m s =
     (if GetTagFieldNumber tag = 1 then
        if tag = 8 then int32_case L (pp_id m) (\<lambda>v. m\<lparr>pp_id := v\<rparr>) s
        else Some Unusual
      else if GetTagFieldNumber tag = 2 then
        if tag = 18 then string_case L (pp_version m) (\<lambda>v. m\<lparr>pp_version := v\<rparr>) s
        else Some Unusual
      else if GetTagFieldNumber tag = 3 then
        if tag = 26 then string_case L (pp_datetime m) (\<lambda>v. m\<lparr>pp_datetime := v\<rparr>) s
        else Some Unusual
      else if GetTagFieldNumber tag = 4 then
        if tag = 34 then
          message_case L (AdPlay_MergePartialFromCodedStream L) AdPlay_new
            (\<lambda>e. m\<lparr>pp_adplays := pp_adplays m @ [e]\<rparr>) m s
        else Some Unusual
      else Some Unusual)"

definition AdPlayPolicy_MergePartialFromCodedStream ::
    "pb_lib \<Rightarrow> ad_policy \<Rightarrow> cis \<Rightarrow> (bool \<times> ad_policy \<times> cis) option" where
  "AdPlayPolicy_MergePartialFromCodedStream L = merge_loop L 127 (AdPlayPolicy_field L)"

definition AdPlayPolicy_SerializeWithCachedSizes :: "pb_lib \<Rightarrow> (nat \<Rightarrow> nat \<Rightarrow> nat) \<Rightarrow> ad_policy \<Rightarrow> bytes" where
  "AdPlayPolicy_SerializeWithCachedSizes L room m =
     (if pp_id m \<noteq> 0 then WriteInt32 L 1 (pp_id m) else []) @
     (if length (pp_version m) > 0 then WriteStringMaybeAliased L 2 (pp_version m) else []) @
     (if length (pp_datetime m) > 0 then WriteStringMaybeAliased L 3 (pp_datetime m) else []) @
     concat (map (\<lambda>i. let e = pp_adplays m ! i in WriteMessageMaybeToArray L 4 (ap_cached_size e)
       (AdPlay_InternalSerializeWithCachedSizesToArray L e) (AdPlay_SerializeWithCachedSizes L (room i) e))
       [0..<length (pp_adplays m)])"

definition AdPlayPolicy_InternalSerializeWithCachedSizesToArray :: "pb_lib \<Rightarrow> ad_policy \<Rightarrow> bytes" where
  "AdPlayPolicy_InternalSerializeWithCachedSizesToArray L m =
     (if pp_id m \<noteq> 0 then WriteInt32ToArray 1 (pp_id m) else []) @
     (if length (pp_version m) > 0 then WriteStringToArray L 2 (pp_version m) else []) @
     (if length (pp_datetime m) > 0 then WriteStringToArray L 3 (pp_datetime m) else []) @
     concat (map (\<lambda>e. InternalWriteMessageNoVirtualToArray 4 (ap_cached_size e)
       (AdPlay_InternalSerializeWithCachedSizesToArray L e)) (pp_adplays m))"

definition AdPlayPolicy_ByteSizeLong :: "pb_lib \<Rightarrow> ad_policy \<Rightarrow> nat \<times> ad_policy" where
  "AdPlayPolicy_ByteSizeLong L m =
     (let sized = map (AdPlay_ByteSizeLong L) (pp_adplays m);
          total_size =
            1 * length (pp_adplays m) + sum_list (map (\<lambda>(n, e). MessageSizeNoVirtual L n) sized) +
            (if length (pp_version m) > 0 then 1 + StringSize L (pp_version m) else 0) +
            (if length (pp_datetime m) > 0 then 1 + StringSize L (pp_datetime m) else 0) +
            (if pp_id m \<noteq> 0 then 1 + Int32Size L (pp_id m) else 0)
      in (total_size, m\<lparr>pp_adplays := map snd sized, pp_cached_size := ToCachedSize total_size\<rparr>))"

definition AdPlayPolicy_MergeFrom :: "ad_policy \<Rightarrow> ad_policy \<Rightarrow> ad_policy" where
  "AdPlayPolicy_MergeFrom this from =
     (let m1 = this\<lparr>pp_adplays := pp_adplays this @ map (AdPlay_MergeFrom AdPlay_new) (pp_adplays from)\<rparr>;
          m2 = (if length (pp_version from) > 0 then m1\<lparr>pp_version := pp_version from\<rparr> else m1);
          m3 = (if length (pp_datetime from) > 0 then m2\<lparr>pp_datetime := pp_datetime from\<rparr> else m2)
      in if pp_id from \<noteq> 0 then m3\<lparr>pp_id := pp_id from\<rparr> else m3)"

definition AdPlayPolicy_CopyFrom :: "bool \<Rightarrow> ad_policy \<Rightarrow> ad_policy \<Rightarrow> ad_policy" where
  "AdPlayPolicy_CopyFrom same_object this from =
     (if same_object then this else AdPlayPolicy_MergeFrom (AdPlayPolicy_Clear this) from)"

definition AdPlayPolicy_InternalSwap :: "ad_policy \<Rightarrow> ad_policy \<Rightarrow> ad_policy \<times> ad_policy" where
  "AdPlayPolicy_InternalSwap this other =
     (this\<lparr>pp_adplays := pp_adplays other, pp_version := pp_version other, pp_datetime := pp_datetime other,
           pp_id := pp_id other, pp_cached_size := pp_cached_size other\<rparr>,
      other\<lparr>pp_adplays := pp_adplays this, pp_version := pp_version this, pp_datetime := pp_datetime this,
            pp_id := pp_id this, pp_cached_size := pp_cached_size this\<rparr>)"

text \<open>\<open>SerializeAsString\<close> and \<open>ParseFromArray\<close>, as for the envelope.\<close>

definition PlayTime_SerializeAsString :: "pb_lib \<Rightarrow> play_time \<Rightarrow> bytes" where
  "PlayTime_SerializeAsString L m = PlayTime_InternalSerializeWithCachedSizesToArray L (snd (PlayTime_ByteSizeLong L m))"

definition AdPlay_SerializeAsString :: "pb_lib \<Rightarrow> ad_play \<Rightarrow> bytes" where
  "AdPlay_SerializeAsString L m = AdPlay_InternalSerializeWithCachedSizesToArray L (snd (AdPlay_ByteSizeLong L m))"

definition AdPlayPolicy_SerializeAsString :: "pb_lib \<Rightarrow> ad_policy \<Rightarrow> bytes" where
  "AdPlayPolicy_SerializeAsString L m =
     AdPlayPolicy_InternalSerializeWithCachedSizesToArray L (snd (AdPlayPolicy_ByteSizeLong L m))"

definition AdPlay_ParseFromArray :: "pb_lib \<Rightarrow> bytes \<Rightarrow> ad_play \<Rightarrow> (bool \<times> ad_play) option" where
  "AdPlay_ParseFromArray L = ParseFromArray AdPlay_Clear (AdPlay_MergePartialFromCodedStream L)"

definition AdPlayPolicy_ParseFromArray :: "pb_lib \<Rightarrow> bytes \<Rightarrow> ad_policy \<Rightarrow> (bool \<times> ad_policy) option" where
  "AdPlayPolicy_ParseFromArray L = ParseFromArray AdPlayPolicy_Clear (AdPlayPolicy_MergePartialFromCodedStream L)"

end
