(* ===== verification/PolicyCodec.thy ===== *)
theory PolicyCodec
  imports PolicyPb
begin

text \<open>
  The messages of the play policy keep the contract of a message class (locale \<open>message_codec\<close>): each class
  gives it to the class that embeds it.
\<close>

section \<open>PlayTime\<close>

definition PlayTime_valid :: "pb_lib \<Rightarrow> play_time \<Rightarrow> bool" where
  "PlayTime_valid L m \<longleftrightarrow>
     length (pt_bgntime m) \<le> INT_MAX \<and> length (pt_endtime m) \<le> INT_MAX \<and>
     (pt_bgntime m = [] \<or> VerifyUtf8String L (pt_bgntime m)) \<and> (pt_endtime m = [] \<or> VerifyUtf8String L (pt_endtime m))"

lemma PlayTime_MergeFrom_fields [simp]:
  "pt_bgntime (PlayTime_MergeFrom a b) = (if pt_bgntime b \<noteq> [] then pt_bgntime b else pt_bgntime a)"
  "pt_endtime (PlayTime_MergeFrom a b) = (if pt_endtime b \<noteq> [] then pt_endtime b else pt_endtime a)"
  "pt_cached_size (PlayTime_MergeFrom a b) = pt_cached_size a"
  by (simp_all add: PlayTime_MergeFrom_def)

lemma PlayTime_into_new: "PlayTime_MergeFrom PlayTime_new x = x\<lparr>pt_cached_size := 0\<rparr>"
  by (rule play_time.equality) (simp_all add: PlayTime_new_def)

lemma policy_tags [simp]: "GetTagFieldNumber 40 = 5"
  by (simp add: GetTagFieldNumber_def)

context pb_runtime
begin

lemma PlayTime_wire:
  assumes "PlayTime_valid L x"
  shows "PlayTime_SerializeAsString L x =
    (if length (pt_bgntime x) > 0 then venc 10 @ venc (length (pt_bgntime x)) @ pt_bgntime x else []) @
    (if length (pt_endtime x) > 0 then venc 18 @ venc (length (pt_endtime x)) @ pt_endtime x else [])"
  using assms
  by (simp add: PlayTime_SerializeAsString_def PlayTime_ByteSizeLong_def Let_def PlayTime_valid_def
      PlayTime_InternalSerializeWithCachedSizesToArray_def wire_simps)

lemma PlayTime_sized:
  assumes "PlayTime_valid L x"
  shows "PlayTime_ByteSizeLong L x = (length (PlayTime_SerializeAsString L x),
    x\<lparr>pt_cached_size := of_nat (length (PlayTime_SerializeAsString L x))\<rparr>)"
  unfolding PlayTime_wire [OF assms]
  using assms by (simp add: PlayTime_ByteSizeLong_def Let_def PlayTime_valid_def StringSize_eq venc_small ToCachedSize_def)

lemma PlayTime_embedded:
  assumes "PlayTime_valid L e" "length (PlayTime_SerializeAsString L e) \<le> INT_MAX"
  shows "InternalWriteMessageNoVirtualToArray k (pt_cached_size (snd (PlayTime_ByteSizeLong L e)))
      (PlayTime_InternalSerializeWithCachedSizesToArray L (snd (PlayTime_ByteSizeLong L e))) =
    venc (unat (MakeTag k WIRETYPE_LENGTH_DELIMITED)) @ venc (length (PlayTime_SerializeAsString L e)) @
      PlayTime_SerializeAsString L e"
proof -
  have "pt_cached_size (snd (PlayTime_ByteSizeLong L e)) = of_nat (length (PlayTime_SerializeAsString L e))"
    by (simp add: PlayTime_sized [OF assms(1)])
  then show ?thesis by (simp only: PlayTime_SerializeAsString_def [symmetric] message_array_eq [OF assms(2)])
qed

lemma PlayTime_consumes:
  assumes "PlayTime_valid L x"
  shows "consumes L 127 (PlayTime_field L) depth (PlayTime_SerializeAsString L x) (\<lambda>m. PlayTime_MergeFrom m x)"
proof -
  have b: "consumes L 127 (PlayTime_field L) depth (venc 10 @ venc (length (pt_bgntime x)) @ pt_bgntime x)
       (\<lambda>m. m\<lparr>pt_bgntime := pt_bgntime x\<rparr>)" if "length (pt_bgntime x) > 0"
    by (rule consumes_string [where get = pt_bgntime and upd = "\<lambda>v m. m\<lparr>pt_bgntime := v\<rparr>"])
       (use assms that in \<open>simp_all add: PlayTime_field_def PlayTime_valid_def\<close>)
  have e: "consumes L 127 (PlayTime_field L) depth (venc 18 @ venc (length (pt_endtime x)) @ pt_endtime x)
       (\<lambda>m. m\<lparr>pt_endtime := pt_endtime x\<rparr>)" if "length (pt_endtime x) > 0"
    by (rule consumes_string [where get = pt_endtime and upd = "\<lambda>v m. m\<lparr>pt_endtime := v\<rparr>"])
       (use assms that in \<open>simp_all add: PlayTime_field_def PlayTime_valid_def\<close>)
  note all = consumes_append [OF consumes_if [OF b, of "length (pt_bgntime x) > 0"]
      consumes_if [OF e, of "length (pt_endtime x) > 0"]]
  show ?thesis
    unfolding PlayTime_wire [OF assms]
    by (rule consumes_cong [OF all], assumption, assumption, simp add: PlayTime_MergeFrom_def Let_def)
qed

lemma PlayTime_merge_ok: "merge_ok (PlayTime_MergePartialFromCodedStream L)"
  unfolding PlayTime_MergePartialFromCodedStream_def
  by (rule merge_loop_ok) (simp add: field_ok_def PlayTime_field_def)

lemma PlayTime_stream:
  assumes "PlayTime_valid L x"
  shows "PlayTime_SerializeWithCachedSizes L x = PlayTime_InternalSerializeWithCachedSizesToArray L x"
  using assms
  by (simp add: PlayTime_SerializeWithCachedSizes_def PlayTime_InternalSerializeWithCachedSizesToArray_def
      PlayTime_valid_def stream_eq_array)

end

sublocale pb_runtime < playtime: message_codec L "PlayTime_MergePartialFromCodedStream L"
  "PlayTime_SerializeAsString L" PlayTime_MergeFrom "PlayTime_valid L" 0
proof
  fix x m and s :: cis and rest
  assume x: "PlayTime_valid L x" and s: "within_limit s" "0 \<le> cis_budget s"
    "cis_buf s = PlayTime_SerializeAsString L x @ rest"
  show "\<exists>b. (b \<longrightarrow> cis_legit s) \<and> PlayTime_MergePartialFromCodedStream L m s =
      PlayTime_MergePartialFromCodedStream L (PlayTime_MergeFrom m x) (s\<lparr>cis_buf := rest, cis_legit := b\<rparr>)"
    unfolding PlayTime_MergePartialFromCodedStream_def
    by (rule consumesD [OF PlayTime_consumes [OF x] s]) blast
next
  fix m and s :: cis
  assume "within_limit s" "cis_buf s = []"
  then show "PlayTime_MergePartialFromCodedStream L m s = Some (True, m, s\<lparr>cis_legit := True\<rparr>)"
    unfolding PlayTime_MergePartialFromCodedStream_def by (rule merge_loop_end)
qed

section \<open>AdPlay\<close>

definition AdPlay_valid :: "pb_lib \<Rightarrow> ad_play \<Rightarrow> bool" where
  "AdPlay_valid L m \<longleftrightarrow>
     (\<forall>e \<in> set (ap_playtimes m). PlayTime_valid L e \<and> length (PlayTime_SerializeAsString L e) \<le> INT_MAX) \<and>
     length (packed_data (ap_adids m)) \<le> INT_MAX"

lemma AdPlay_MergeFrom_fields [simp]:
  "ap_location (AdPlay_MergeFrom a b) = (if ap_location b \<noteq> 0 then ap_location b else ap_location a)"
  "ap_mode (AdPlay_MergeFrom a b) = (if ap_mode b \<noteq> 0 then ap_mode b else ap_mode a)"
  "ap_needsync (AdPlay_MergeFrom a b) = (ap_needsync b \<or> ap_needsync a)"
  "ap_playtimes (AdPlay_MergeFrom a b) = ap_playtimes a @ map (\<lambda>e. e\<lparr>pt_cached_size := 0\<rparr>) (ap_playtimes b)"
  "ap_adids (AdPlay_MergeFrom a b) = ap_adids a @ ap_adids b"
  "ap_adids_cached_byte_size (AdPlay_MergeFrom a b) = ap_adids_cached_byte_size a"
  "ap_cached_size (AdPlay_MergeFrom a b) = ap_cached_size a"
  by (simp_all add: AdPlay_MergeFrom_def Let_def PlayTime_into_new)

definition AdPlay_uncached :: "ad_play \<Rightarrow> ad_play" where
  "AdPlay_uncached m = m\<lparr>ap_playtimes := map (\<lambda>e. e\<lparr>pt_cached_size := 0\<rparr>) (ap_playtimes m),
     ap_adids_cached_byte_size := 0, ap_cached_size := 0\<rparr>"

lemma AdPlay_into_new: "AdPlay_MergeFrom AdPlay_new x = AdPlay_uncached x"
  by (rule ad_play.equality) (simp_all add: AdPlay_new_def AdPlay_uncached_def)

context pb_runtime
begin

lemma AdPlay_wire:
  assumes "AdPlay_valid L x"
  shows "AdPlay_SerializeAsString L x =
    (if ap_location x \<noteq> 0 then venc 8 @ venc (unat (scast (ap_location x) :: u64)) else []) @
    (if ap_mode x \<noteq> 0 then venc 16 @ venc (unat (scast (ap_mode x) :: u64)) else []) @
    (if ap_needsync x then venc 24 @ venc (if ap_needsync x then 1 else 0) else []) @
    concat (map (\<lambda>e. venc 34 @ venc (length (PlayTime_SerializeAsString L e)) @ PlayTime_SerializeAsString L e)
      (ap_playtimes x)) @
    (if length (ap_adids x) > 0
     then venc 42 @ venc (length (packed_data (ap_adids x))) @ packed_data (ap_adids x) else [])"
proof -
  have p: "map (\<lambda>e. InternalWriteMessageNoVirtualToArray 4 (pt_cached_size e)
        (PlayTime_InternalSerializeWithCachedSizesToArray L e)) (map snd (map (PlayTime_ByteSizeLong L) (ap_playtimes x))) =
      map (\<lambda>e. venc 34 @ venc (length (PlayTime_SerializeAsString L e)) @ PlayTime_SerializeAsString L e) (ap_playtimes x)"
    unfolding map_map comp_def
    by (rule map_cong [OF refl], subst PlayTime_embedded) (use assms in \<open>auto simp: AdPlay_valid_def make_tag_simps\<close>)
  have c: "packed_size L 1 (ap_adids x) = (length (write_packed_array 5 (of_nat (length (packed_data (ap_adids x)))) (ap_adids x)),
      of_nat (length (packed_data (ap_adids x))))"
    by (rule packed_size_eq) (use assms in \<open>simp_all add: AdPlay_valid_def make_tag_simps venc_small\<close>)
  have w: "write_packed_array 5 (of_nat (length (packed_data (ap_adids x)))) (ap_adids x) =
      (if length (ap_adids x) > 0
       then venc 42 @ venc (length (packed_data (ap_adids x))) @ packed_data (ap_adids x) else [])"
    using assms by (simp add: AdPlay_valid_def write_packed_array_eq make_tag_simps)
  obtain n where n: "snd (AdPlay_ByteSizeLong L x) = x\<lparr>ap_playtimes := map snd (map (PlayTime_ByteSizeLong L) (ap_playtimes x)),
      ap_adids_cached_byte_size := of_nat (length (packed_data (ap_adids x))), ap_cached_size := n\<rparr>"
    unfolding AdPlay_ByteSizeLong_def c Let_def prod.case snd_conv by blast
  show ?thesis
    unfolding AdPlay_SerializeAsString_def AdPlay_InternalSerializeWithCachedSizesToArray_def n ad_play.select_convs
      ad_play.update_convs
    by (simp add: p w write_array_simps make_tag_simps del: map_map)
qed

lemma AdPlay_size_eq:
  assumes "AdPlay_valid L x"
  shows "fst (AdPlay_ByteSizeLong L x) = length (AdPlay_SerializeAsString L x)"
proof -
  have p: "1 * length (ap_playtimes x) + sum_list (map (\<lambda>(n, e). MessageSizeNoVirtual L n)
        (map (PlayTime_ByteSizeLong L) (ap_playtimes x))) =
      length (concat (map (\<lambda>e. venc 34 @ venc (length (PlayTime_SerializeAsString L e)) @ PlayTime_SerializeAsString L e)
        (ap_playtimes x)))"
    using embedded_size [of "ap_playtimes x" "PlayTime_ByteSizeLong L" "PlayTime_SerializeAsString L" "venc 34"]
      assms by (simp add: AdPlay_valid_def PlayTime_sized venc_small)
  have a: "fst (packed_size L 1 (ap_adids x)) = length (if length (ap_adids x) > 0
       then venc 42 @ venc (length (packed_data (ap_adids x))) @ packed_data (ap_adids x) else [])"
    using assms by (simp add: packed_size_eq [of _ 5] AdPlay_valid_def make_tag_simps venc_small write_packed_array_eq)
  show ?thesis
    unfolding AdPlay_wire [OF assms] AdPlay_ByteSizeLong_def Let_def split_def fst_conv p [unfolded split_def] a length_append
    by (simp add: Int32Size_eq venc_small)
qed

lemma AdPlay_cached: "ap_cached_size (snd (AdPlay_ByteSizeLong L x)) = ToCachedSize (fst (AdPlay_ByteSizeLong L x))"
  by (simp add: AdPlay_ByteSizeLong_def Let_def split_def)

lemma AdPlay_embedded:
  assumes "AdPlay_valid L e" "length (AdPlay_SerializeAsString L e) \<le> INT_MAX"
  shows "InternalWriteMessageNoVirtualToArray k (ap_cached_size (snd (AdPlay_ByteSizeLong L e)))
      (AdPlay_InternalSerializeWithCachedSizesToArray L (snd (AdPlay_ByteSizeLong L e))) =
    venc (unat (MakeTag k WIRETYPE_LENGTH_DELIMITED)) @ venc (length (AdPlay_SerializeAsString L e)) @
      AdPlay_SerializeAsString L e"
  by (simp only: AdPlay_SerializeAsString_def [symmetric] AdPlay_cached AdPlay_size_eq [OF assms(1)] ToCachedSize_def
      message_array_eq [OF assms(2)])

lemma AdPlay_consumes:
  assumes "AdPlay_valid L x"
  shows "consumes L 127 (AdPlay_field L) 1 (AdPlay_SerializeAsString L x) (\<lambda>m. AdPlay_MergeFrom m x)"
proof -
  have lo: "consumes L 127 (AdPlay_field L) 1 (venc 8 @ venc (unat (scast (ap_location x) :: u64)))
       (\<lambda>m. m\<lparr>ap_location := ap_location x\<rparr>)"
    by (rule consumes_int32 [where get = ap_location and upd = "\<lambda>v m. m\<lparr>ap_location := v\<rparr>"])
       (simp_all add: AdPlay_field_def)
  have mo: "consumes L 127 (AdPlay_field L) 1 (venc 16 @ venc (unat (scast (ap_mode x) :: u64)))
       (\<lambda>m. m\<lparr>ap_mode := ap_mode x\<rparr>)"
    by (rule consumes_int32 [where get = ap_mode and upd = "\<lambda>v m. m\<lparr>ap_mode := v\<rparr>"]) (simp_all add: AdPlay_field_def)
  have ne: "consumes L 127 (AdPlay_field L) 1 (venc 24 @ venc (if ap_needsync x then 1 else 0))
       (\<lambda>m. m\<lparr>ap_needsync := ap_needsync x\<rparr>)"
    by (rule consumes_bool [where get = ap_needsync and upd = "\<lambda>v m. m\<lparr>ap_needsync := v\<rparr>"]) (simp_all add: AdPlay_field_def)
  have pt: "consumes L 127 (AdPlay_field L) 1
       (venc 34 @ venc (length (PlayTime_SerializeAsString L e)) @ PlayTime_SerializeAsString L e)
       (\<lambda>m. m\<lparr>ap_playtimes := ap_playtimes m @ [e\<lparr>pt_cached_size := 0\<rparr>]\<rparr>)" if "e \<in> set (ap_playtimes x)" for e
    using playtime.consumes_message [where n = 34 and cutoff = 127 and field = "AdPlay_field L" and element = PlayTime_new
        and x = e and upd = "\<lambda>e m. m\<lparr>ap_playtimes := ap_playtimes m @ [e]\<rparr>"] that assms
    by (simp add: AdPlay_field_def AdPlay_valid_def PlayTime_into_new)
  have ad: "consumes L 127 (AdPlay_field L) 1 (venc 42 @ venc (length (packed_data (ap_adids x))) @ packed_data (ap_adids x))
       (\<lambda>m. m\<lparr>ap_adids := ap_adids m @ ap_adids x\<rparr>)"
    by (rule consumes_packed [where get = ap_adids and upd = "\<lambda>v m. m\<lparr>ap_adids := v\<rparr>"])
       (use assms in \<open>simp_all add: AdPlay_field_def AdPlay_valid_def\<close>)
  have pts: "consumes L 127 (AdPlay_field L) 1 (concat (map (\<lambda>e. venc 34 @
       venc (length (PlayTime_SerializeAsString L e)) @ PlayTime_SerializeAsString L e) (ap_playtimes x)))
       (\<lambda>m. m\<lparr>ap_playtimes := ap_playtimes m @ map (\<lambda>e. e\<lparr>pt_cached_size := 0\<rparr>) (ap_playtimes x)\<rparr>)"
    by (rule consumes_appends [where app = "\<lambda>es m. m\<lparr>ap_playtimes := ap_playtimes m @ es\<rparr>"], erule pt) simp_all
  note all = consumes_append [OF consumes_if [OF lo, of "ap_location x \<noteq> 0"]
      consumes_append [OF consumes_if [OF mo, of "ap_mode x \<noteq> 0"]
      consumes_append [OF consumes_if [OF ne, of "ap_needsync x"]
      consumes_append [OF pts consumes_if [OF ad, of "length (ap_adids x) > 0"]]]]]
  show ?thesis
    unfolding AdPlay_wire [OF assms]
    by (rule consumes_cong [OF all]) (rule ad_play.equality, auto)
qed

lemma AdPlay_merge_ok: "merge_ok (AdPlay_MergePartialFromCodedStream L)"
  unfolding AdPlay_MergePartialFromCodedStream_def
  by (rule merge_loop_ok) (simp add: field_ok_def AdPlay_field_def PlayTime_merge_ok)

end

sublocale pb_runtime < adplay: message_codec L "AdPlay_MergePartialFromCodedStream L"
  "AdPlay_SerializeAsString L" AdPlay_MergeFrom "AdPlay_valid L" 1
proof
  fix x m and s :: cis and rest
  assume x: "AdPlay_valid L x" and s: "within_limit s" "1 \<le> cis_budget s"
    "cis_buf s = AdPlay_SerializeAsString L x @ rest"
  show "\<exists>b. (b \<longrightarrow> cis_legit s) \<and> AdPlay_MergePartialFromCodedStream L m s =
      AdPlay_MergePartialFromCodedStream L (AdPlay_MergeFrom m x) (s\<lparr>cis_buf := rest, cis_legit := b\<rparr>)"
    unfolding AdPlay_MergePartialFromCodedStream_def
    by (rule consumesD [OF AdPlay_consumes [OF x] s]) blast
next
  fix m and s :: cis
  assume "within_limit s" "cis_buf s = []"
  then show "AdPlay_MergePartialFromCodedStream L m s = Some (True, m, s\<lparr>cis_legit := True\<rparr>)"
    unfolding AdPlay_MergePartialFromCodedStream_def by (rule merge_loop_end)
qed

section \<open>AdPlayPolicy\<close>

definition AdPlayPolicy_valid :: "pb_lib \<Rightarrow> ad_policy \<Rightarrow> bool" where
  "AdPlayPolicy_valid L m \<longleftrightarrow>
     length (pp_version m) \<le> INT_MAX \<and> length (pp_datetime m) \<le> INT_MAX \<and>
     (pp_version m = [] \<or> VerifyUtf8String L (pp_version m)) \<and> (pp_datetime m = [] \<or> VerifyUtf8String L (pp_datetime m)) \<and>
     (\<forall>e \<in> set (pp_adplays m). AdPlay_valid L e \<and> length (AdPlay_SerializeAsString L e) \<le> INT_MAX)"

lemma AdPlayPolicy_MergeFrom_fields [simp]:
  "pp_id (AdPlayPolicy_MergeFrom a b) = (if pp_id b \<noteq> 0 then pp_id b else pp_id a)"
  "pp_version (AdPlayPolicy_MergeFrom a b) = (if pp_version b \<noteq> [] then pp_version b else pp_version a)"
  "pp_datetime (AdPlayPolicy_MergeFrom a b) = (if pp_datetime b \<noteq> [] then pp_datetime b else pp_datetime a)"
  "pp_adplays (AdPlayPolicy_MergeFrom a b) = pp_adplays a @ map AdPlay_uncached (pp_adplays b)"
  "pp_cached_size (AdPlayPolicy_MergeFrom a b) = pp_cached_size a"
  by (simp_all add: AdPlayPolicy_MergeFrom_def Let_def AdPlay_into_new)

text \<open>What a policy says, without the sizes it caches.\<close>

definition AdPlayPolicy_uncached :: "ad_policy \<Rightarrow> ad_policy" where
  "AdPlayPolicy_uncached m = m\<lparr>pp_adplays := map AdPlay_uncached (pp_adplays m), pp_cached_size := 0\<rparr>"

lemma AdPlay_uncached_idem [simp]: "AdPlay_uncached (AdPlay_uncached e) = AdPlay_uncached e"
  by (simp add: AdPlay_uncached_def)

lemma AdPlayPolicy_into_cleared:
  "AdPlayPolicy_MergeFrom (AdPlayPolicy_Clear m) x = (AdPlayPolicy_uncached x)\<lparr>pp_cached_size := pp_cached_size m\<rparr>"
  by (rule ad_policy.equality) (simp_all add: AdPlayPolicy_Clear_def AdPlayPolicy_uncached_def)

context pb_runtime
begin

lemma AdPlayPolicy_wire:
  assumes "AdPlayPolicy_valid L x"
  shows "AdPlayPolicy_SerializeAsString L x =
    (if pp_id x \<noteq> 0 then venc 8 @ venc (unat (scast (pp_id x) :: u64)) else []) @
    (if length (pp_version x) > 0 then venc 18 @ venc (length (pp_version x)) @ pp_version x else []) @
    (if length (pp_datetime x) > 0 then venc 26 @ venc (length (pp_datetime x)) @ pp_datetime x else []) @
    concat (map (\<lambda>e. venc 34 @ venc (length (AdPlay_SerializeAsString L e)) @ AdPlay_SerializeAsString L e)
      (pp_adplays x))"
proof -
  have p: "map (\<lambda>e. InternalWriteMessageNoVirtualToArray 4 (ap_cached_size e)
        (AdPlay_InternalSerializeWithCachedSizesToArray L e)) (map snd (map (AdPlay_ByteSizeLong L) (pp_adplays x))) =
      map (\<lambda>e. venc 34 @ venc (length (AdPlay_SerializeAsString L e)) @ AdPlay_SerializeAsString L e) (pp_adplays x)"
    unfolding map_map comp_def
    by (rule map_cong [OF refl], subst AdPlay_embedded) (use assms in \<open>auto simp: AdPlayPolicy_valid_def make_tag_simps\<close>)
  obtain n where n: "snd (AdPlayPolicy_ByteSizeLong L x) =
      x\<lparr>pp_adplays := map snd (map (AdPlay_ByteSizeLong L) (pp_adplays x)), pp_cached_size := n\<rparr>"
    unfolding AdPlayPolicy_ByteSizeLong_def Let_def snd_conv by blast
  show ?thesis
    unfolding AdPlayPolicy_SerializeAsString_def AdPlayPolicy_InternalSerializeWithCachedSizesToArray_def n
      ad_policy.select_convs ad_policy.update_convs
    using assms
    by (simp add: p write_array_simps write_string_simps make_tag_simps AdPlayPolicy_valid_def del: map_map)
qed

lemma AdPlayPolicy_size_eq:
  assumes "AdPlayPolicy_valid L x"
  shows "fst (AdPlayPolicy_ByteSizeLong L x) = length (AdPlayPolicy_SerializeAsString L x)"
proof -
  have p: "1 * length (pp_adplays x) + sum_list (map (\<lambda>(n, e). MessageSizeNoVirtual L n)
        (map (AdPlay_ByteSizeLong L) (pp_adplays x))) =
      length (concat (map (\<lambda>e. venc 34 @ venc (length (AdPlay_SerializeAsString L e)) @ AdPlay_SerializeAsString L e)
        (pp_adplays x)))"
    using embedded_size [of "pp_adplays x" "AdPlay_ByteSizeLong L" "AdPlay_SerializeAsString L" "venc 34"]
      assms by (simp add: AdPlayPolicy_valid_def AdPlay_size_eq venc_small)
  show ?thesis
    unfolding AdPlayPolicy_wire [OF assms] AdPlayPolicy_ByteSizeLong_def Let_def split_def fst_conv p [unfolded split_def]
      length_append
    using assms by (simp add: Int32Size_eq StringSize_eq venc_small AdPlayPolicy_valid_def)
qed

lemma AdPlayPolicy_consumes:
  assumes "AdPlayPolicy_valid L x"
  shows "consumes L 127 (AdPlayPolicy_field L) 2 (AdPlayPolicy_SerializeAsString L x) (\<lambda>m. AdPlayPolicy_MergeFrom m x)"
proof -
  have i: "consumes L 127 (AdPlayPolicy_field L) 2 (venc 8 @ venc (unat (scast (pp_id x) :: u64)))
       (\<lambda>m. m\<lparr>pp_id := pp_id x\<rparr>)"
    by (rule consumes_int32 [where get = pp_id and upd = "\<lambda>v m. m\<lparr>pp_id := v\<rparr>"]) (simp_all add: AdPlayPolicy_field_def)
  have v: "consumes L 127 (AdPlayPolicy_field L) 2 (venc 18 @ venc (length (pp_version x)) @ pp_version x)
       (\<lambda>m. m\<lparr>pp_version := pp_version x\<rparr>)" if "length (pp_version x) > 0"
    by (rule consumes_string [where get = pp_version and upd = "\<lambda>v m. m\<lparr>pp_version := v\<rparr>"])
       (use assms that in \<open>simp_all add: AdPlayPolicy_field_def AdPlayPolicy_valid_def\<close>)
  have d: "consumes L 127 (AdPlayPolicy_field L) 2 (venc 26 @ venc (length (pp_datetime x)) @ pp_datetime x)
       (\<lambda>m. m\<lparr>pp_datetime := pp_datetime x\<rparr>)" if "length (pp_datetime x) > 0"
    by (rule consumes_string [where get = pp_datetime and upd = "\<lambda>v m. m\<lparr>pp_datetime := v\<rparr>"])
       (use assms that in \<open>simp_all add: AdPlayPolicy_field_def AdPlayPolicy_valid_def\<close>)
  have pl: "consumes L 127 (AdPlayPolicy_field L) 2
       (venc 34 @ venc (length (AdPlay_SerializeAsString L e)) @ AdPlay_SerializeAsString L e)
       (\<lambda>m. m\<lparr>pp_adplays := pp_adplays m @ [AdPlay_uncached e]\<rparr>)" if "e \<in> set (pp_adplays x)" for e
    using adplay.consumes_message [where n = 34 and cutoff = 127 and field = "AdPlayPolicy_field L" and element = AdPlay_new
        and x = e and upd = "\<lambda>e m. m\<lparr>pp_adplays := pp_adplays m @ [e]\<rparr>"] that assms
    by (simp add: AdPlayPolicy_field_def AdPlayPolicy_valid_def AdPlay_into_new)
  have pls: "consumes L 127 (AdPlayPolicy_field L) 2 (concat (map (\<lambda>e. venc 34 @
       venc (length (AdPlay_SerializeAsString L e)) @ AdPlay_SerializeAsString L e) (pp_adplays x)))
       (\<lambda>m. m\<lparr>pp_adplays := pp_adplays m @ map AdPlay_uncached (pp_adplays x)\<rparr>)"
    by (rule consumes_appends [where app = "\<lambda>es m. m\<lparr>pp_adplays := pp_adplays m @ es\<rparr>"], erule pl) simp_all
  note all = consumes_append [OF consumes_if [OF i, of "pp_id x \<noteq> 0"]
      consumes_append [OF consumes_if [OF v, of "length (pp_version x) > 0"]
      consumes_append [OF consumes_if [OF d, of "length (pp_datetime x) > 0"] pls]]]
  show ?thesis
    unfolding AdPlayPolicy_wire [OF assms]
    by (rule consumes_cong [OF all], assumption, assumption) (rule ad_policy.equality, auto)
qed

lemma AdPlayPolicy_merge_ok: "merge_ok (AdPlayPolicy_MergePartialFromCodedStream L)"
  unfolding AdPlayPolicy_MergePartialFromCodedStream_def
  by (rule merge_loop_ok) (simp add: field_ok_def AdPlayPolicy_field_def AdPlay_merge_ok)

end

sublocale pb_runtime < policy: message_codec L "AdPlayPolicy_MergePartialFromCodedStream L"
  "AdPlayPolicy_SerializeAsString L" AdPlayPolicy_MergeFrom "AdPlayPolicy_valid L" 2
proof
  fix x m and s :: cis and rest
  assume x: "AdPlayPolicy_valid L x" and s: "within_limit s" "2 \<le> cis_budget s"
    "cis_buf s = AdPlayPolicy_SerializeAsString L x @ rest"
  show "\<exists>b. (b \<longrightarrow> cis_legit s) \<and> AdPlayPolicy_MergePartialFromCodedStream L m s =
      AdPlayPolicy_MergePartialFromCodedStream L (AdPlayPolicy_MergeFrom m x) (s\<lparr>cis_buf := rest, cis_legit := b\<rparr>)"
    unfolding AdPlayPolicy_MergePartialFromCodedStream_def
    by (rule consumesD [OF AdPlayPolicy_consumes [OF x] s]) blast
next
  fix m and s :: cis
  assume "within_limit s" "cis_buf s = []"
  then show "AdPlayPolicy_MergePartialFromCodedStream L m s = Some (True, m, s\<lparr>cis_legit := True\<rparr>)"
    unfolding AdPlayPolicy_MergePartialFromCodedStream_def by (rule merge_loop_end)
qed

context pb_runtime
begin

lemma AdPlayPolicy_parse:
  assumes "AdPlayPolicy_valid L x" "length (AdPlayPolicy_SerializeAsString L x) \<le> 67108864"
  shows "AdPlayPolicy_ParseFromArray L (AdPlayPolicy_SerializeAsString L x) m =
    Some (True, (AdPlayPolicy_uncached x)\<lparr>pp_cached_size := pp_cached_size m\<rparr>)"
  using policy.parse_ser [OF assms, of AdPlayPolicy_Clear m]
  by (simp add: AdPlayPolicy_ParseFromArray_def AdPlayPolicy_into_cleared)

text \<open>The stream serialisers write the same bytes, whatever space the buffer of the stream has left.\<close>

lemma AdPlay_stream:
  assumes "AdPlay_valid L x"
  shows "AdPlay_SerializeWithCachedSizes L room (snd (AdPlay_ByteSizeLong L x)) = AdPlay_SerializeAsString L x"
proof -
  have "PlayTime_SerializeWithCachedSizes L (snd (PlayTime_ByteSizeLong L e)) =
      PlayTime_InternalSerializeWithCachedSizesToArray L (snd (PlayTime_ByteSizeLong L e))" if "e \<in> set (ap_playtimes x)" for e
    by (rule PlayTime_stream) (use that assms in \<open>auto simp: AdPlay_valid_def PlayTime_valid_def PlayTime_ByteSizeLong_def Let_def\<close>)
  then show ?thesis
    by (simp add: AdPlay_SerializeWithCachedSizes_def AdPlay_SerializeAsString_def
        AdPlay_InternalSerializeWithCachedSizesToArray_def stream_eq_array write_packed_eq stream_message
        InternalWriteMessageNoVirtualToArray_def AdPlay_ByteSizeLong_def Let_def split_def cong: map_cong)
qed

lemma AdPlayPolicy_stream:
  assumes "AdPlayPolicy_valid L x"
  shows "AdPlayPolicy_SerializeWithCachedSizes L room (snd (AdPlayPolicy_ByteSizeLong L x)) = AdPlayPolicy_SerializeAsString L x"
proof -
  let ?w = "\<lambda>e. InternalWriteMessageNoVirtualToArray 4 (ap_cached_size e) (AdPlay_InternalSerializeWithCachedSizesToArray L e)"
  let ?es = "map snd (map (AdPlay_ByteSizeLong L) (pp_adplays x))"
  have e: "AdPlay_SerializeWithCachedSizes L (room i) (snd (AdPlay_ByteSizeLong L (pp_adplays x ! i))) =
      AdPlay_InternalSerializeWithCachedSizesToArray L (snd (AdPlay_ByteSizeLong L (pp_adplays x ! i)))"
    if "i < length (pp_adplays x)" for i
    using AdPlay_stream [of "pp_adplays x ! i" "room i"] that assms
    by (simp add: AdPlayPolicy_valid_def AdPlay_SerializeAsString_def)
  have "map (\<lambda>i. let e = ?es ! i in WriteMessageMaybeToArray L 4 (ap_cached_size e)
       (AdPlay_InternalSerializeWithCachedSizesToArray L e) (AdPlay_SerializeWithCachedSizes L (room i) e))
       [0..<length ?es] = map ?w ?es"
    by (rule nth_equalityI)
      (simp_all add: e Let_def stream_message InternalWriteMessageNoVirtualToArray_def del: map_map)
  then show ?thesis
    using assms
    by (simp add: AdPlayPolicy_SerializeWithCachedSizes_def AdPlayPolicy_SerializeAsString_def
        AdPlayPolicy_InternalSerializeWithCachedSizesToArray_def AdPlayPolicy_ByteSizeLong_def Let_def
        stream_eq_array AdPlayPolicy_valid_def del: map_map)
qed

end

end
