(* ===== verification/AdPb.thy ===== *)
theory AdPb
  imports PolicyCodec Manager
begin

text \<open>
  The list of advertisements, messages \<open>Ad\<close> and \<open>Result\<close> of \<^verbatim>\<open>src/ad/AdPlayPolicy.pb.cc\<close>.  The
  class is the advertisement of the manager with the sizes that \<open>ByteSizeLong\<close> caches.
\<close>

section \<open>Ad\<close>

record ad_message = ad +
  ad_pausepopadids_cached_byte_size :: i32
  ad_unlockpopadids_cached_byte_size :: i32
  ad_cached_size :: i32

definition AdMessage_new :: ad_message where
  "AdMessage_new = \<lparr>ad_id = 0, ad_name = [], ad_filename = [], ad_advertiser = [], ad_type = 0, ad_url = [],
     ad_image = [], ad_width = 0, ad_height = 0, ad_format = [], ad_size = 0, ad_md5 = [], ad_duration = 0,
     ad_download = [], ad_minage = 0, ad_maxage = 0, ad_sex = 0, ad_visitstatcode = [],
     ad_pausepopadids = [], ad_unlockpopadids = [], ad_pausepopadids_cached_byte_size = 0,
     ad_unlockpopadids_cached_byte_size = 0, ad_cached_size = 0\<rparr>"

definition Ad_copy :: "ad_message \<Rightarrow> ad_message" where
  "Ad_copy from =
     \<lparr>ad_id = ad_id from,
      ad_name = (if length (ad_name from) > 0 then ad_name from else []),
      ad_filename = (if length (ad_filename from) > 0 then ad_filename from else []),
      ad_advertiser = (if length (ad_advertiser from) > 0 then ad_advertiser from else []),
      ad_type = ad_type from,
      ad_url = (if length (ad_url from) > 0 then ad_url from else []),
      ad_image = (if length (ad_image from) > 0 then ad_image from else []),
      ad_width = ad_width from,
      ad_height = ad_height from,
      ad_format = (if length (ad_format from) > 0 then ad_format from else []),
      ad_size = ad_size from,
      ad_md5 = (if length (ad_md5 from) > 0 then ad_md5 from else []),
      ad_duration = ad_duration from,
      ad_download = ad_download from,
      ad_minage = ad_minage from,
      ad_maxage = ad_maxage from,
      ad_sex = ad_sex from,
      ad_visitstatcode = ad_visitstatcode from,
      ad_pausepopadids = ad_pausepopadids from,
      ad_unlockpopadids = ad_unlockpopadids from,
      ad_pausepopadids_cached_byte_size = 0, ad_unlockpopadids_cached_byte_size = 0, ad_cached_size = 0\<rparr>"

definition Ad_Clear :: "ad_message \<Rightarrow> ad_message" where
  "Ad_Clear m = m\<lparr>ad_download := [], ad_visitstatcode := [], ad_pausepopadids := [], ad_unlockpopadids := [],
     ad_name := [], ad_filename := [], ad_advertiser := [], ad_url := [], ad_image := [], ad_format := [], ad_md5 := [],
     ad_id := 0, ad_type := 0, ad_width := 0, ad_height := 0, ad_size := 0, ad_duration := 0, ad_minage := 0,
     ad_maxage := 0, ad_sex := 0\<rparr>"

text \<open>A repeated string is read into the new element that \<open>add_...()\<close> appends.\<close>

definition Ad_field :: "pb_lib \<Rightarrow> u32 \<Rightarrow> ad_message \<Rightarrow> cis \<Rightarrow> ad_message outcome option" where
  "Ad_field L tag m s =
     (let field = GetTagFieldNumber tag in
      if field = 1 then
        if tag = 8 then int32_case L (ad_id m) (\<lambda>v. m\<lparr>ad_id := v\<rparr>) s else Some Unusual
      else if field = 2 then
        if tag = 18 then string_case L (ad_name m) (\<lambda>v. m\<lparr>ad_name := v\<rparr>) s else Some Unusual
      else if field = 3 then
        if tag = 26 then string_case L (ad_filename m) (\<lambda>v. m\<lparr>ad_filename := v\<rparr>) s else Some Unusual
      else if field = 4 then
        if tag = 34 then string_case L (ad_advertiser m) (\<lambda>v. m\<lparr>ad_advertiser := v\<rparr>) s else Some Unusual
      else if field = 5 then
        if tag = 40 then int32_case L (ad_type m) (\<lambda>v. m\<lparr>ad_type := v\<rparr>) s else Some Unusual
      else if field = 6 then
        if tag = 50 then string_case L (ad_url m) (\<lambda>v. m\<lparr>ad_url := v\<rparr>) s else Some Unusual
      else if field = 7 then
        if tag = 58 then bytes_case L (ad_image m) (\<lambda>v. m\<lparr>ad_image := v\<rparr>) s else Some Unusual
      else if field = 8 then
        if tag = 64 then int32_case L (ad_width m) (\<lambda>v. m\<lparr>ad_width := v\<rparr>) s else Some Unusual
      else if field = 9 then
        if tag = 72 then int32_case L (ad_height m) (\<lambda>v. m\<lparr>ad_height := v\<rparr>) s else Some Unusual
      else if field = 10 then
        if tag = 82 then string_case L (ad_format m) (\<lambda>v. m\<lparr>ad_format := v\<rparr>) s else Some Unusual
      else if field = 11 then
        if tag = 88 then int32_case L (ad_size m) (\<lambda>v. m\<lparr>ad_size := v\<rparr>) s else Some Unusual
      else if field = 12 then
        if tag = 98 then string_case L (ad_md5 m) (\<lambda>v. m\<lparr>ad_md5 := v\<rparr>) s else Some Unusual
      else if field = 13 then
        if tag = 104 then int32_case L (ad_duration m) (\<lambda>v. m\<lparr>ad_duration := v\<rparr>) s else Some Unusual
      else if field = 14 then
        if tag = 114 then string_case L [] (\<lambda>v. m\<lparr>ad_download := ad_download m @ [v]\<rparr>) s else Some Unusual
      else if field = 15 then
        if tag = 120 then int32_case L (ad_minage m) (\<lambda>v. m\<lparr>ad_minage := v\<rparr>) s else Some Unusual
      else if field = 16 then
        if tag = 128 then int32_case L (ad_maxage m) (\<lambda>v. m\<lparr>ad_maxage := v\<rparr>) s else Some Unusual
      else if field = 17 then
        if tag = 136 then int32_case L (ad_sex m) (\<lambda>v. m\<lparr>ad_sex := v\<rparr>) s else Some Unusual
      else if field = 18 then
        if tag = 146 then string_case L [] (\<lambda>v. m\<lparr>ad_visitstatcode := ad_visitstatcode m @ [v]\<rparr>) s else Some Unusual
      else if field = 19 then
        if tag = 154 then packed_case L (ad_pausepopadids m) (\<lambda>vs. m\<lparr>ad_pausepopadids := vs\<rparr>) s
        else if tag = 152 then unpacked_case L 154 (ad_pausepopadids m) (\<lambda>vs. m\<lparr>ad_pausepopadids := vs\<rparr>) s
        else Some Unusual
      else if field = 20 then
        if tag = 162 then packed_case L (ad_unlockpopadids m) (\<lambda>vs. m\<lparr>ad_unlockpopadids := vs\<rparr>) s
        else if tag = 160 then unpacked_case L 162 (ad_unlockpopadids m) (\<lambda>vs. m\<lparr>ad_unlockpopadids := vs\<rparr>) s
        else Some Unusual
      else Some Unusual)"

definition Ad_MergePartialFromCodedStream :: "pb_lib \<Rightarrow> ad_message \<Rightarrow> cis \<Rightarrow> (bool \<times> ad_message \<times> cis) option" where
  "Ad_MergePartialFromCodedStream L = merge_loop L 16383 (Ad_field L)"

definition Ad_SerializeWithCachedSizes :: "pb_lib \<Rightarrow> (nat \<Rightarrow> nat \<Rightarrow> nat) \<Rightarrow> ad_message \<Rightarrow> bytes" where
  "Ad_SerializeWithCachedSizes L room m =
     (if ad_id m \<noteq> 0 then WriteInt32 L 1 (ad_id m) else []) @
     (if length (ad_name m) > 0 then WriteStringMaybeAliased L 2 (ad_name m) else []) @
     (if length (ad_filename m) > 0 then WriteStringMaybeAliased L 3 (ad_filename m) else []) @
     (if length (ad_advertiser m) > 0 then WriteStringMaybeAliased L 4 (ad_advertiser m) else []) @
     (if ad_type m \<noteq> 0 then WriteInt32 L 5 (ad_type m) else []) @
     (if length (ad_url m) > 0 then WriteStringMaybeAliased L 6 (ad_url m) else []) @
     (if length (ad_image m) > 0 then WriteBytesMaybeAliased L 7 (ad_image m) else []) @
     (if ad_width m \<noteq> 0 then WriteInt32 L 8 (ad_width m) else []) @
     (if ad_height m \<noteq> 0 then WriteInt32 L 9 (ad_height m) else []) @
     (if length (ad_format m) > 0 then WriteStringMaybeAliased L 10 (ad_format m) else []) @
     (if ad_size m \<noteq> 0 then WriteInt32 L 11 (ad_size m) else []) @
     (if length (ad_md5 m) > 0 then WriteStringMaybeAliased L 12 (ad_md5 m) else []) @
     (if ad_duration m \<noteq> 0 then WriteInt32 L 13 (ad_duration m) else []) @
     concat (map (WriteString L 14) (ad_download m)) @
     (if ad_minage m \<noteq> 0 then WriteInt32 L 15 (ad_minage m) else []) @
     (if ad_maxage m \<noteq> 0 then WriteInt32 L 16 (ad_maxage m) else []) @
     (if ad_sex m \<noteq> 0 then WriteInt32 L 17 (ad_sex m) else []) @
     concat (map (WriteString L 18) (ad_visitstatcode m)) @
     write_packed L (room 19) 19 (ad_pausepopadids_cached_byte_size m) (ad_pausepopadids m) @
     write_packed L (room 20) 20 (ad_unlockpopadids_cached_byte_size m) (ad_unlockpopadids m)"

definition Ad_InternalSerializeWithCachedSizesToArray :: "pb_lib \<Rightarrow> ad_message \<Rightarrow> bytes" where
  "Ad_InternalSerializeWithCachedSizesToArray L m =
     (if ad_id m \<noteq> 0 then WriteInt32ToArray 1 (ad_id m) else []) @
     (if length (ad_name m) > 0 then WriteStringToArray L 2 (ad_name m) else []) @
     (if length (ad_filename m) > 0 then WriteStringToArray L 3 (ad_filename m) else []) @
     (if length (ad_advertiser m) > 0 then WriteStringToArray L 4 (ad_advertiser m) else []) @
     (if ad_type m \<noteq> 0 then WriteInt32ToArray 5 (ad_type m) else []) @
     (if length (ad_url m) > 0 then WriteStringToArray L 6 (ad_url m) else []) @
     (if length (ad_image m) > 0 then WriteBytesToArray L 7 (ad_image m) else []) @
     (if ad_width m \<noteq> 0 then WriteInt32ToArray 8 (ad_width m) else []) @
     (if ad_height m \<noteq> 0 then WriteInt32ToArray 9 (ad_height m) else []) @
     (if length (ad_format m) > 0 then WriteStringToArray L 10 (ad_format m) else []) @
     (if ad_size m \<noteq> 0 then WriteInt32ToArray 11 (ad_size m) else []) @
     (if length (ad_md5 m) > 0 then WriteStringToArray L 12 (ad_md5 m) else []) @
     (if ad_duration m \<noteq> 0 then WriteInt32ToArray 13 (ad_duration m) else []) @
     concat (map (WriteStringToArray L 14) (ad_download m)) @
     (if ad_minage m \<noteq> 0 then WriteInt32ToArray 15 (ad_minage m) else []) @
     (if ad_maxage m \<noteq> 0 then WriteInt32ToArray 16 (ad_maxage m) else []) @
     (if ad_sex m \<noteq> 0 then WriteInt32ToArray 17 (ad_sex m) else []) @
     concat (map (WriteStringToArray L 18) (ad_visitstatcode m)) @
     write_packed_array 19 (ad_pausepopadids_cached_byte_size m) (ad_pausepopadids m) @
     write_packed_array 20 (ad_unlockpopadids_cached_byte_size m) (ad_unlockpopadids m)"

definition Ad_ByteSizeLong :: "pb_lib \<Rightarrow> ad_message \<Rightarrow> nat \<times> ad_message" where
  "Ad_ByteSizeLong L m =
     (let (pause_size, pause_cached) = packed_size L 2 (ad_pausepopadids m);
          (unlock_size, unlock_cached) = packed_size L 2 (ad_unlockpopadids m);
          total_size =
            1 * length (ad_download m) + sum_list (map (StringSize L) (ad_download m)) +
            2 * length (ad_visitstatcode m) + sum_list (map (StringSize L) (ad_visitstatcode m)) +
            pause_size + unlock_size +
            (if length (ad_name m) > 0 then 1 + StringSize L (ad_name m) else 0) +
            (if length (ad_filename m) > 0 then 1 + StringSize L (ad_filename m) else 0) +
            (if length (ad_advertiser m) > 0 then 1 + StringSize L (ad_advertiser m) else 0) +
            (if length (ad_url m) > 0 then 1 + StringSize L (ad_url m) else 0) +
            (if length (ad_image m) > 0 then 1 + StringSize L (ad_image m) else 0) +
            (if length (ad_format m) > 0 then 1 + StringSize L (ad_format m) else 0) +
            (if length (ad_md5 m) > 0 then 1 + StringSize L (ad_md5 m) else 0) +
            (if ad_id m \<noteq> 0 then 1 + Int32Size L (ad_id m) else 0) +
            (if ad_type m \<noteq> 0 then 1 + Int32Size L (ad_type m) else 0) +
            (if ad_width m \<noteq> 0 then 1 + Int32Size L (ad_width m) else 0) +
            (if ad_height m \<noteq> 0 then 1 + Int32Size L (ad_height m) else 0) +
            (if ad_size m \<noteq> 0 then 1 + Int32Size L (ad_size m) else 0) +
            (if ad_duration m \<noteq> 0 then 1 + Int32Size L (ad_duration m) else 0) +
            (if ad_minage m \<noteq> 0 then 1 + Int32Size L (ad_minage m) else 0) +
            (if ad_maxage m \<noteq> 0 then 2 + Int32Size L (ad_maxage m) else 0) +
            (if ad_sex m \<noteq> 0 then 2 + Int32Size L (ad_sex m) else 0)
      in (total_size, m\<lparr>ad_pausepopadids_cached_byte_size := pause_cached,
                        ad_unlockpopadids_cached_byte_size := unlock_cached, ad_cached_size := ToCachedSize total_size\<rparr>))"

definition Ad_MergeFrom :: "ad_message \<Rightarrow> ad_message \<Rightarrow> ad_message" where
  "Ad_MergeFrom this from =
     (let m = this\<lparr>ad_download := ad_download this @ ad_download from\<rparr>;
          m = m\<lparr>ad_visitstatcode := ad_visitstatcode m @ ad_visitstatcode from\<rparr>;
          m = m\<lparr>ad_pausepopadids := ad_pausepopadids m @ ad_pausepopadids from\<rparr>;
          m = m\<lparr>ad_unlockpopadids := ad_unlockpopadids m @ ad_unlockpopadids from\<rparr>;
          m = update_if (length (ad_name from) > 0) (\<lambda>m. m\<lparr>ad_name := ad_name from\<rparr>) m;
          m = update_if (length (ad_filename from) > 0) (\<lambda>m. m\<lparr>ad_filename := ad_filename from\<rparr>) m;
          m = update_if (length (ad_advertiser from) > 0) (\<lambda>m. m\<lparr>ad_advertiser := ad_advertiser from\<rparr>) m;
          m = update_if (length (ad_url from) > 0) (\<lambda>m. m\<lparr>ad_url := ad_url from\<rparr>) m;
          m = update_if (length (ad_image from) > 0) (\<lambda>m. m\<lparr>ad_image := ad_image from\<rparr>) m;
          m = update_if (length (ad_format from) > 0) (\<lambda>m. m\<lparr>ad_format := ad_format from\<rparr>) m;
          m = update_if (length (ad_md5 from) > 0) (\<lambda>m. m\<lparr>ad_md5 := ad_md5 from\<rparr>) m;
          m = update_if (ad_id from \<noteq> 0) (\<lambda>m. m\<lparr>ad_id := ad_id from\<rparr>) m;
          m = update_if (ad_type from \<noteq> 0) (\<lambda>m. m\<lparr>ad_type := ad_type from\<rparr>) m;
          m = update_if (ad_width from \<noteq> 0) (\<lambda>m. m\<lparr>ad_width := ad_width from\<rparr>) m;
          m = update_if (ad_height from \<noteq> 0) (\<lambda>m. m\<lparr>ad_height := ad_height from\<rparr>) m;
          m = update_if (ad_size from \<noteq> 0) (\<lambda>m. m\<lparr>ad_size := ad_size from\<rparr>) m;
          m = update_if (ad_duration from \<noteq> 0) (\<lambda>m. m\<lparr>ad_duration := ad_duration from\<rparr>) m;
          m = update_if (ad_minage from \<noteq> 0) (\<lambda>m. m\<lparr>ad_minage := ad_minage from\<rparr>) m;
          m = update_if (ad_maxage from \<noteq> 0) (\<lambda>m. m\<lparr>ad_maxage := ad_maxage from\<rparr>) m;
          m = update_if (ad_sex from \<noteq> 0) (\<lambda>m. m\<lparr>ad_sex := ad_sex from\<rparr>) m
      in m)"

definition Ad_CopyFrom :: "bool \<Rightarrow> ad_message \<Rightarrow> ad_message \<Rightarrow> ad_message" where
  "Ad_CopyFrom same_object this from = (if same_object then this else Ad_MergeFrom (Ad_Clear this) from)"

text \<open>\<open>InternalSwap\<close> leaves the cached sizes of the packed fields where they are.\<close>

definition Ad_InternalSwap :: "ad_message \<Rightarrow> ad_message \<Rightarrow> ad_message \<times> ad_message" where
  "Ad_InternalSwap this other =
     (this\<lparr>ad_download := ad_download other, ad_visitstatcode := ad_visitstatcode other, ad_pausepopadids :=
           ad_pausepopadids other, ad_unlockpopadids := ad_unlockpopadids other, ad_name := ad_name other,
           ad_filename := ad_filename other, ad_advertiser := ad_advertiser other, ad_url := ad_url other,
           ad_image := ad_image other, ad_format := ad_format other, ad_md5 := ad_md5 other, ad_id := ad_id
           other, ad_type := ad_type other, ad_width := ad_width other, ad_height := ad_height other, ad_size
           := ad_size other, ad_duration := ad_duration other, ad_minage := ad_minage other, ad_maxage :=
           ad_maxage other, ad_sex := ad_sex other, ad_cached_size := ad_cached_size other\<rparr>,
      other\<lparr>ad_download := ad_download this, ad_visitstatcode := ad_visitstatcode this, ad_pausepopadids :=
            ad_pausepopadids this, ad_unlockpopadids := ad_unlockpopadids this, ad_name := ad_name this,
            ad_filename := ad_filename this, ad_advertiser := ad_advertiser this, ad_url := ad_url this,
            ad_image := ad_image this, ad_format := ad_format this, ad_md5 := ad_md5 this, ad_id := ad_id this,
            ad_type := ad_type this, ad_width := ad_width this, ad_height := ad_height this, ad_size := ad_size
            this, ad_duration := ad_duration this, ad_minage := ad_minage this, ad_maxage := ad_maxage this,
            ad_sex := ad_sex this, ad_cached_size := ad_cached_size this\<rparr>)"

section \<open>Result\<close>

record ad_result =
  rs_ads :: "ad_message list"
  rs_cached_size :: i32

definition Result_new :: ad_result where
  "Result_new = \<lparr>rs_ads = [], rs_cached_size = 0\<rparr>"

definition Result_copy :: "ad_result \<Rightarrow> ad_result" where
  "Result_copy from = \<lparr>rs_ads = map (Ad_MergeFrom AdMessage_new) (rs_ads from), rs_cached_size = 0\<rparr>"

definition Result_Clear :: "ad_result \<Rightarrow> ad_result" where
  "Result_Clear m = m\<lparr>rs_ads := []\<rparr>"

definition Result_field :: "pb_lib \<Rightarrow> u32 \<Rightarrow> ad_result \<Rightarrow> cis \<Rightarrow> ad_result outcome option" where
  "Result_field L tag m s =
     (if GetTagFieldNumber tag = 1 then
        if tag = 10 then
          message_case L (Ad_MergePartialFromCodedStream L) AdMessage_new (\<lambda>e. m\<lparr>rs_ads := rs_ads m @ [e]\<rparr>) m s
        else Some Unusual
      else Some Unusual)"

definition Result_MergePartialFromCodedStream :: "pb_lib \<Rightarrow> ad_result \<Rightarrow> cis \<Rightarrow> (bool \<times> ad_result \<times> cis) option" where
  "Result_MergePartialFromCodedStream L = merge_loop L 127 (Result_field L)"

definition Result_SerializeWithCachedSizes :: "pb_lib \<Rightarrow> (nat \<Rightarrow> nat \<Rightarrow> nat \<Rightarrow> nat) \<Rightarrow> ad_result \<Rightarrow> bytes" where
  "Result_SerializeWithCachedSizes L room m =
     concat (map (\<lambda>i. let e = rs_ads m ! i in WriteMessageMaybeToArray L 1 (ad_cached_size e)
       (Ad_InternalSerializeWithCachedSizesToArray L e) (Ad_SerializeWithCachedSizes L (room i) e)) [0..<length (rs_ads m)])"

definition Result_InternalSerializeWithCachedSizesToArray :: "pb_lib \<Rightarrow> ad_result \<Rightarrow> bytes" where
  "Result_InternalSerializeWithCachedSizesToArray L m =
     concat (map (\<lambda>e. InternalWriteMessageNoVirtualToArray 1 (ad_cached_size e)
       (Ad_InternalSerializeWithCachedSizesToArray L e)) (rs_ads m))"

definition Result_ByteSizeLong :: "pb_lib \<Rightarrow> ad_result \<Rightarrow> nat \<times> ad_result" where
  "Result_ByteSizeLong L m =
     (let sized = map (Ad_ByteSizeLong L) (rs_ads m);
          total_size = 1 * length (rs_ads m) + sum_list (map (\<lambda>(n, e). MessageSizeNoVirtual L n) sized)
      in (total_size, m\<lparr>rs_ads := map snd sized, rs_cached_size := ToCachedSize total_size\<rparr>))"

definition Result_MergeFrom :: "ad_result \<Rightarrow> ad_result \<Rightarrow> ad_result" where
  "Result_MergeFrom this from = this\<lparr>rs_ads := rs_ads this @ map (Ad_MergeFrom AdMessage_new) (rs_ads from)\<rparr>"

definition Result_CopyFrom :: "bool \<Rightarrow> ad_result \<Rightarrow> ad_result \<Rightarrow> ad_result" where
  "Result_CopyFrom same_object this from = (if same_object then this else Result_MergeFrom (Result_Clear this) from)"

definition Result_InternalSwap :: "ad_result \<Rightarrow> ad_result \<Rightarrow> ad_result \<times> ad_result" where
  "Result_InternalSwap this other =
     (this\<lparr>rs_ads := rs_ads other, rs_cached_size := rs_cached_size other\<rparr>,
      other\<lparr>rs_ads := rs_ads this, rs_cached_size := rs_cached_size this\<rparr>)"

section \<open>Strings\<close>

definition Ad_SerializeAsString :: "pb_lib \<Rightarrow> ad_message \<Rightarrow> bytes" where
  "Ad_SerializeAsString L m = Ad_InternalSerializeWithCachedSizesToArray L (snd (Ad_ByteSizeLong L m))"

definition Ad_ParseFromArray :: "pb_lib \<Rightarrow> bytes \<Rightarrow> ad_message \<Rightarrow> (bool \<times> ad_message) option" where
  "Ad_ParseFromArray L = ParseFromArray Ad_Clear (Ad_MergePartialFromCodedStream L)"

definition Result_SerializeAsString :: "pb_lib \<Rightarrow> ad_result \<Rightarrow> bytes" where
  "Result_SerializeAsString L m = Result_InternalSerializeWithCachedSizesToArray L (snd (Result_ByteSizeLong L m))"

definition Result_ParseFromArray :: "pb_lib \<Rightarrow> bytes \<Rightarrow> ad_result \<Rightarrow> (bool \<times> ad_result) option" where
  "Result_ParseFromArray L = ParseFromArray Result_Clear (Result_MergePartialFromCodedStream L)"

end
