(* ===== verification/AdCodec.thy ===== *)
theory AdCodec
  imports AdPb
begin

text \<open>
  \<open>Ad\<close> and \<open>Result\<close> keep the contract of a message class.
\<close>

section \<open>Pieces\<close>

lemma ad_tags [simp]:
  "GetTagFieldNumber 50 = 6"
  "GetTagFieldNumber 58 = 7"
  "GetTagFieldNumber 64 = 8"
  "GetTagFieldNumber 72 = 9"
  "GetTagFieldNumber 82 = 10"
  "GetTagFieldNumber 88 = 11"
  "GetTagFieldNumber 98 = 12"
  "GetTagFieldNumber 104 = 13"
  "GetTagFieldNumber 114 = 14"
  "GetTagFieldNumber 120 = 15"
  "GetTagFieldNumber 128 = 16"
  "GetTagFieldNumber 136 = 17"
  "GetTagFieldNumber 146 = 18"
  "GetTagFieldNumber 152 = 19"
  "GetTagFieldNumber 154 = 19"
  "GetTagFieldNumber 160 = 20"
  "GetTagFieldNumber 162 = 20"
  by (simp_all add: GetTagFieldNumber_def)

lemma two_byte_tag: "128 \<le> n \<Longrightarrow> n < 16384 \<Longrightarrow> length (venc n) = 2"
  using length_venc [of n 1] by simp

context pb_runtime
begin

lemma string_field_size:
  "length v \<le> INT_MAX \<Longrightarrow> length t = k \<Longrightarrow>
     (if length v > 0 then k + StringSize L v else 0) = length (if length v > 0 then t @ venc (length v) @ v else [])"
  by (simp add: StringSize_eq)

lemma int32_field_size:
  "length t = k \<Longrightarrow> (if v \<noteq> 0 then k + Int32Size L v else 0) = length (if v \<noteq> 0 then t @ venc (unat (scast v :: u64)) else [])"
  by (simp add: Int32Size_eq)

lemma strings_field_size:
  assumes "\<forall>v \<in> set vs. length v \<le> INT_MAX" "length t = k"
  shows "k * length vs + sum_list (map (StringSize L) vs) = length (concat (map (\<lambda>v. t @ venc (length v) @ v) vs))"
  using assms by (induction vs) (simp_all add: StringSize_eq)

lemma packed_field_size:
  assumes "length (packed_data vs) \<le> INT_MAX" "length (venc (unat (MakeTag n WIRETYPE_LENGTH_DELIMITED))) = k"
  shows "fst (packed_size L k vs) = length (if length vs > 0
    then venc (unat (MakeTag n WIRETYPE_LENGTH_DELIMITED)) @ venc (length (packed_data vs)) @ packed_data vs else [])"
  using packed_size_eq [OF assms] write_packed_array_eq [OF assms(1)] by simp

lemma strings_wire:
  assumes "\<forall>v \<in> set vs. length v \<le> INT_MAX"
  shows "map (WriteStringToArray L k) vs =
    map (\<lambda>v. venc (unat (MakeTag k WIRETYPE_LENGTH_DELIMITED)) @ venc (length v) @ v) vs"
  using assms by (auto simp: write_string_simps)

lemma consumes_strings:
  assumes "0 < n" "n < 2 ^ 14" "n \<le> unat cutoff" "\<forall>v \<in> set vs. length v \<le> INT_MAX \<and> VerifyUtf8String L v"
    and "\<And>m s. field (of_nat n) m s = string_case L [] (\<lambda>v. app [v] m) s"
    and "\<And>m. app [] m = m" "\<And>e es m. app (e # es) m = app es (app [e] m)"
  shows "consumes L cutoff field depth (concat (map (\<lambda>v. venc n @ venc (length v) @ v) vs)) (\<lambda>m. app vs m)"
proof -
  have "consumes L cutoff field depth (venc n @ venc (length v) @ v) (\<lambda>m. app [v] m)" if "v \<in> set vs" for v
    by (rule consumes_string [where get = "\<lambda>_. []" and upd = "\<lambda>v. app [v]"]) (use assms(1-5) that in simp_all)
  from consumes_appends [where h = "\<lambda>v. v" and app = app, OF this assms(6,7)] show ?thesis by (simp only: list.map_ident)
qed

end

section \<open>Ad\<close>

definition Ad_valid :: "pb_lib \<Rightarrow> ad_message \<Rightarrow> bool" where
  "Ad_valid L m \<longleftrightarrow>
     (\<forall>v \<in> {ad_name m, ad_filename m, ad_advertiser m, ad_url m, ad_format m, ad_md5 m}.
        length v \<le> INT_MAX \<and> (v = [] \<or> VerifyUtf8String L v)) \<and>
     length (ad_image m) \<le> INT_MAX \<and>
     (\<forall>v \<in> set (ad_download m) \<union> set (ad_visitstatcode m). length v \<le> INT_MAX \<and> VerifyUtf8String L v) \<and>
     length (packed_data (ad_pausepopadids m)) \<le> INT_MAX \<and> length (packed_data (ad_unlockpopadids m)) \<le> INT_MAX"

lemma case_ok_if: "(c \<Longrightarrow> case_ok a s) \<Longrightarrow> (\<not> c \<Longrightarrow> case_ok b s) \<Longrightarrow> case_ok (if c then a else b) s"
  by simp

text \<open>A conditional assignment as an assignment, so that no proof splits the sixteen conditions.\<close>

lemma Ad_assign_if:
  "update_if c (\<lambda>m. m\<lparr>ad_id := v1\<rparr>) m = ad_id_update (\<lambda>old. if c then v1 else old) m"
  "update_if c (\<lambda>m. m\<lparr>ad_name := v2\<rparr>) m = ad_name_update (\<lambda>old. if c then v2 else old) m"
  "update_if c (\<lambda>m. m\<lparr>ad_filename := v3\<rparr>) m = ad_filename_update (\<lambda>old. if c then v3 else old) m"
  "update_if c (\<lambda>m. m\<lparr>ad_advertiser := v4\<rparr>) m = ad_advertiser_update (\<lambda>old. if c then v4 else old) m"
  "update_if c (\<lambda>m. m\<lparr>ad_type := v5\<rparr>) m = ad_type_update (\<lambda>old. if c then v5 else old) m"
  "update_if c (\<lambda>m. m\<lparr>ad_url := v6\<rparr>) m = ad_url_update (\<lambda>old. if c then v6 else old) m"
  "update_if c (\<lambda>m. m\<lparr>ad_image := v7\<rparr>) m = ad_image_update (\<lambda>old. if c then v7 else old) m"
  "update_if c (\<lambda>m. m\<lparr>ad_width := v8\<rparr>) m = ad_width_update (\<lambda>old. if c then v8 else old) m"
  "update_if c (\<lambda>m. m\<lparr>ad_height := v9\<rparr>) m = ad_height_update (\<lambda>old. if c then v9 else old) m"
  "update_if c (\<lambda>m. m\<lparr>ad_format := v10\<rparr>) m = ad_format_update (\<lambda>old. if c then v10 else old) m"
  "update_if c (\<lambda>m. m\<lparr>ad_size := v11\<rparr>) m = ad_size_update (\<lambda>old. if c then v11 else old) m"
  "update_if c (\<lambda>m. m\<lparr>ad_md5 := v12\<rparr>) m = ad_md5_update (\<lambda>old. if c then v12 else old) m"
  "update_if c (\<lambda>m. m\<lparr>ad_duration := v13\<rparr>) m = ad_duration_update (\<lambda>old. if c then v13 else old) m"
  "update_if c (\<lambda>m. m\<lparr>ad_minage := v15\<rparr>) m = ad_minage_update (\<lambda>old. if c then v15 else old) m"
  "update_if c (\<lambda>m. m\<lparr>ad_maxage := v16\<rparr>) m = ad_maxage_update (\<lambda>old. if c then v16 else old) m"
  "update_if c (\<lambda>m. m\<lparr>ad_sex := v17\<rparr>) m = ad_sex_update (\<lambda>old. if c then v17 else old) m"
  "update_if c (\<lambda>m. ad_pausepopadids_update g19 m) m = ad_pausepopadids_update (\<lambda>old. if c then g19 old else old) m"
  "update_if c (\<lambda>m. ad_unlockpopadids_update g20 m) m = ad_unlockpopadids_update (\<lambda>old. if c then g20 old else old) m"
  by (simp_all add: update_if_def)

lemma Ad_assign_append:
  "m\<lparr>ad_download := ad_download m @ v14\<rparr> = ad_download_update (\<lambda>old. old @ v14) m"
  "m\<lparr>ad_visitstatcode := ad_visitstatcode m @ v18\<rparr> = ad_visitstatcode_update (\<lambda>old. old @ v18) m"
  "m\<lparr>ad_pausepopadids := ad_pausepopadids m @ v19\<rparr> = ad_pausepopadids_update (\<lambda>old. old @ v19) m"
  "m\<lparr>ad_unlockpopadids := ad_unlockpopadids m @ v20\<rparr> = ad_unlockpopadids_update (\<lambda>old. old @ v20) m"
  for m :: ad_message
  by (rule ad_message.equality; simp)+

lemmas Ad_MergeFrom_eq = Ad_MergeFrom_def Let_def Ad_assign_append Ad_assign_if

definition Ad_uncached :: "ad_message \<Rightarrow> ad_message" where
  "Ad_uncached m = m\<lparr>ad_pausepopadids_cached_byte_size := 0, ad_unlockpopadids_cached_byte_size := 0, ad_cached_size := 0\<rparr>"

lemma Ad_into_new: "Ad_MergeFrom AdMessage_new x = Ad_uncached x"
  unfolding Ad_MergeFrom_eq by (rule ad_message.equality) (simp_all add: AdMessage_new_def Ad_uncached_def)

lemma Ad_into_cleared:
  "Ad_MergeFrom (Ad_Clear m) x = x\<lparr>ad_pausepopadids_cached_byte_size := ad_pausepopadids_cached_byte_size m,
     ad_unlockpopadids_cached_byte_size := ad_unlockpopadids_cached_byte_size m, ad_cached_size := ad_cached_size m\<rparr>"
  unfolding Ad_MergeFrom_eq by (rule ad_message.equality) (simp_all add: Ad_Clear_def)

context pb_runtime
begin

lemma Ad_wire:
  assumes "Ad_valid L x"
  shows "Ad_SerializeAsString L x =
    (if ad_id x \<noteq> 0 then venc 8 @ venc (unat (scast (ad_id x) :: u64)) else []) @
    (if length (ad_name x) > 0 then venc 18 @ venc (length (ad_name x)) @ ad_name x else []) @
    (if length (ad_filename x) > 0 then venc 26 @ venc (length (ad_filename x)) @ ad_filename x else []) @
    (if length (ad_advertiser x) > 0 then venc 34 @ venc (length (ad_advertiser x)) @ ad_advertiser x else []) @
    (if ad_type x \<noteq> 0 then venc 40 @ venc (unat (scast (ad_type x) :: u64)) else []) @
    (if length (ad_url x) > 0 then venc 50 @ venc (length (ad_url x)) @ ad_url x else []) @
    (if length (ad_image x) > 0 then venc 58 @ venc (length (ad_image x)) @ ad_image x else []) @
    (if ad_width x \<noteq> 0 then venc 64 @ venc (unat (scast (ad_width x) :: u64)) else []) @
    (if ad_height x \<noteq> 0 then venc 72 @ venc (unat (scast (ad_height x) :: u64)) else []) @
    (if length (ad_format x) > 0 then venc 82 @ venc (length (ad_format x)) @ ad_format x else []) @
    (if ad_size x \<noteq> 0 then venc 88 @ venc (unat (scast (ad_size x) :: u64)) else []) @
    (if length (ad_md5 x) > 0 then venc 98 @ venc (length (ad_md5 x)) @ ad_md5 x else []) @
    (if ad_duration x \<noteq> 0 then venc 104 @ venc (unat (scast (ad_duration x) :: u64)) else []) @
    concat (map (\<lambda>v. venc 114 @ venc (length v) @ v) (ad_download x)) @
    (if ad_minage x \<noteq> 0 then venc 120 @ venc (unat (scast (ad_minage x) :: u64)) else []) @
    (if ad_maxage x \<noteq> 0 then venc 128 @ venc (unat (scast (ad_maxage x) :: u64)) else []) @
    (if ad_sex x \<noteq> 0 then venc 136 @ venc (unat (scast (ad_sex x) :: u64)) else []) @
    concat (map (\<lambda>v. venc 146 @ venc (length v) @ v) (ad_visitstatcode x)) @
    (if length (ad_pausepopadids x) > 0 then venc 154 @ venc (length (packed_data (ad_pausepopadids x))) @ packed_data (ad_pausepopadids x) else []) @
    (if length (ad_unlockpopadids x) > 0 then venc 162 @ venc (length (packed_data (ad_unlockpopadids x))) @ packed_data (ad_unlockpopadids x) else [])"
proof -
  have c: "snd (packed_size L 2 vs) = of_nat (length (packed_data vs))" for vs
    by (simp add: packed_size_def Int32SizeRepeated_eq Let_def ToCachedSize_def)
  obtain n where n: "snd (Ad_ByteSizeLong L x) = x\<lparr>
      ad_pausepopadids_cached_byte_size := of_nat (length (packed_data (ad_pausepopadids x))),
      ad_unlockpopadids_cached_byte_size := of_nat (length (packed_data (ad_unlockpopadids x))), ad_cached_size := n\<rparr>"
    unfolding Ad_ByteSizeLong_def Let_def split_def snd_conv c by blast
  show ?thesis
    unfolding Ad_SerializeAsString_def Ad_InternalSerializeWithCachedSizesToArray_def n
    using assms
    by (simp add: Ad_valid_def write_array_simps write_string_simps make_tag_simps strings_wire write_packed_array_eq
        split del: if_split cong: if_cong)
qed

lemma Ad_size_eq:
  assumes "Ad_valid L x"
  shows "fst (Ad_ByteSizeLong L x) = length (Ad_SerializeAsString L x)"
proof -
  have short: "length (v :: bytes) \<le> INT_MAX" if "v \<in> {ad_name x, ad_filename x, ad_advertiser x, ad_url x, ad_format x, ad_md5 x, ad_image x}" for v
    using assms that unfolding Ad_valid_def by blast
  have s1: "(if ad_id x \<noteq> 0 then 1 + Int32Size L (ad_id x) else 0) = length (if ad_id x \<noteq> 0 then venc 8 @ venc (unat (scast (ad_id x) :: u64)) else [])"
    by (rule int32_field_size) (simp add: venc_small)
  have s2: "(if length (ad_name x) > 0 then 1 + StringSize L (ad_name x) else 0) = length (if length (ad_name x) > 0 then venc 18 @ venc (length (ad_name x)) @ ad_name x else [])"
    by (rule string_field_size [OF short]) (simp, simp add: venc_small)
  have s3: "(if length (ad_filename x) > 0 then 1 + StringSize L (ad_filename x) else 0) = length (if length (ad_filename x) > 0 then venc 26 @ venc (length (ad_filename x)) @ ad_filename x else [])"
    by (rule string_field_size [OF short]) (simp, simp add: venc_small)
  have s4: "(if length (ad_advertiser x) > 0 then 1 + StringSize L (ad_advertiser x) else 0) = length (if length (ad_advertiser x) > 0 then venc 34 @ venc (length (ad_advertiser x)) @ ad_advertiser x else [])"
    by (rule string_field_size [OF short]) (simp, simp add: venc_small)
  have s5: "(if ad_type x \<noteq> 0 then 1 + Int32Size L (ad_type x) else 0) = length (if ad_type x \<noteq> 0 then venc 40 @ venc (unat (scast (ad_type x) :: u64)) else [])"
    by (rule int32_field_size) (simp add: venc_small)
  have s6: "(if length (ad_url x) > 0 then 1 + StringSize L (ad_url x) else 0) = length (if length (ad_url x) > 0 then venc 50 @ venc (length (ad_url x)) @ ad_url x else [])"
    by (rule string_field_size [OF short]) (simp, simp add: venc_small)
  have s7: "(if length (ad_image x) > 0 then 1 + StringSize L (ad_image x) else 0) = length (if length (ad_image x) > 0 then venc 58 @ venc (length (ad_image x)) @ ad_image x else [])"
    by (rule string_field_size [OF short]) (simp, simp add: venc_small)
  have s8: "(if ad_width x \<noteq> 0 then 1 + Int32Size L (ad_width x) else 0) = length (if ad_width x \<noteq> 0 then venc 64 @ venc (unat (scast (ad_width x) :: u64)) else [])"
    by (rule int32_field_size) (simp add: venc_small)
  have s9: "(if ad_height x \<noteq> 0 then 1 + Int32Size L (ad_height x) else 0) = length (if ad_height x \<noteq> 0 then venc 72 @ venc (unat (scast (ad_height x) :: u64)) else [])"
    by (rule int32_field_size) (simp add: venc_small)
  have s10: "(if length (ad_format x) > 0 then 1 + StringSize L (ad_format x) else 0) = length (if length (ad_format x) > 0 then venc 82 @ venc (length (ad_format x)) @ ad_format x else [])"
    by (rule string_field_size [OF short]) (simp, simp add: venc_small)
  have s11: "(if ad_size x \<noteq> 0 then 1 + Int32Size L (ad_size x) else 0) = length (if ad_size x \<noteq> 0 then venc 88 @ venc (unat (scast (ad_size x) :: u64)) else [])"
    by (rule int32_field_size) (simp add: venc_small)
  have s12: "(if length (ad_md5 x) > 0 then 1 + StringSize L (ad_md5 x) else 0) = length (if length (ad_md5 x) > 0 then venc 98 @ venc (length (ad_md5 x)) @ ad_md5 x else [])"
    by (rule string_field_size [OF short]) (simp, simp add: venc_small)
  have s13: "(if ad_duration x \<noteq> 0 then 1 + Int32Size L (ad_duration x) else 0) = length (if ad_duration x \<noteq> 0 then venc 104 @ venc (unat (scast (ad_duration x) :: u64)) else [])"
    by (rule int32_field_size) (simp add: venc_small)
  have s14: "1 * length (ad_download x) + sum_list (map (StringSize L) (ad_download x)) = length (concat (map (\<lambda>v. venc 114 @ venc (length v) @ v) (ad_download x)))"
    by (rule strings_field_size) (use assms in \<open>auto simp: Ad_valid_def venc_small two_byte_tag\<close>)
  have s15: "(if ad_minage x \<noteq> 0 then 1 + Int32Size L (ad_minage x) else 0) = length (if ad_minage x \<noteq> 0 then venc 120 @ venc (unat (scast (ad_minage x) :: u64)) else [])"
    by (rule int32_field_size) (simp add: venc_small)
  have s16: "(if ad_maxage x \<noteq> 0 then 2 + Int32Size L (ad_maxage x) else 0) = length (if ad_maxage x \<noteq> 0 then venc 128 @ venc (unat (scast (ad_maxage x) :: u64)) else [])"
    by (rule int32_field_size) (simp add: two_byte_tag)
  have s17: "(if ad_sex x \<noteq> 0 then 2 + Int32Size L (ad_sex x) else 0) = length (if ad_sex x \<noteq> 0 then venc 136 @ venc (unat (scast (ad_sex x) :: u64)) else [])"
    by (rule int32_field_size) (simp add: two_byte_tag)
  have s18: "2 * length (ad_visitstatcode x) + sum_list (map (StringSize L) (ad_visitstatcode x)) = length (concat (map (\<lambda>v. venc 146 @ venc (length v) @ v) (ad_visitstatcode x)))"
    by (rule strings_field_size) (use assms in \<open>auto simp: Ad_valid_def venc_small two_byte_tag\<close>)
  have s19: "fst (packed_size L 2 (ad_pausepopadids x)) = length (if length (ad_pausepopadids x) > 0 then venc 154 @ venc (length (packed_data (ad_pausepopadids x))) @ packed_data (ad_pausepopadids x) else [])"
    using packed_field_size [of "ad_pausepopadids x" 19 2] assms by (simp add: Ad_valid_def make_tag_simps two_byte_tag)
  have s20: "fst (packed_size L 2 (ad_unlockpopadids x)) = length (if length (ad_unlockpopadids x) > 0 then venc 162 @ venc (length (packed_data (ad_unlockpopadids x))) @ packed_data (ad_unlockpopadids x) else [])"
    using packed_field_size [of "ad_unlockpopadids x" 20 2] assms by (simp add: Ad_valid_def make_tag_simps two_byte_tag)
  show ?thesis
    unfolding Ad_wire [OF assms] Ad_ByteSizeLong_def Let_def split_def fst_conv length_append
      s1 s2 s3 s4 s5 s6 s7 s8 s9 s10 s11 s12 s13 s15 s16 s17 s19 s20
    using s14 s18 by linarith
qed

lemma Ad_cached: "ad_cached_size (snd (Ad_ByteSizeLong L x)) = ToCachedSize (fst (Ad_ByteSizeLong L x))"
  by (simp add: Ad_ByteSizeLong_def Let_def split_def)

lemma Ad_embedded:
  assumes "Ad_valid L e" "length (Ad_SerializeAsString L e) \<le> INT_MAX"
  shows "InternalWriteMessageNoVirtualToArray k (ad_cached_size (snd (Ad_ByteSizeLong L e)))
      (Ad_InternalSerializeWithCachedSizesToArray L (snd (Ad_ByteSizeLong L e))) =
    venc (unat (MakeTag k WIRETYPE_LENGTH_DELIMITED)) @ venc (length (Ad_SerializeAsString L e)) @ Ad_SerializeAsString L e"
  by (simp only: Ad_SerializeAsString_def [symmetric] Ad_cached Ad_size_eq [OF assms(1)] ToCachedSize_def
      message_array_eq [OF assms(2)])

lemma Ad_consumes:
  assumes "Ad_valid L x"
  shows "consumes L 16383 (Ad_field L) depth (Ad_SerializeAsString L x) (\<lambda>m. Ad_MergeFrom m x)"
proof -
  have text_ok: "length v \<le> INT_MAX \<and> (v = [] \<or> VerifyUtf8String L v)"
    if "v \<in> {ad_name x, ad_filename x, ad_advertiser x, ad_url x, ad_format x, ad_md5 x}" for v
    using assms that unfolding Ad_valid_def by blast
  have f1: "consumes L 16383 (Ad_field L) depth (venc 8 @ venc (unat (scast (ad_id x) :: u64))) (\<lambda>m. m\<lparr>ad_id := ad_id x\<rparr>)"
    by (rule consumes_int32 [where get = ad_id and upd = "\<lambda>v m. m\<lparr>ad_id := v\<rparr>"]) (simp_all add: Ad_field_def)
  have f2: "consumes L 16383 (Ad_field L) depth (venc 18 @ venc (length (ad_name x)) @ ad_name x) (\<lambda>m. m\<lparr>ad_name := ad_name x\<rparr>)"
    if "length (ad_name x) > 0"
    by (rule consumes_string [where get = ad_name and upd = "\<lambda>v m. m\<lparr>ad_name := v\<rparr>"])
      (use text_ok [of "ad_name x"] that in \<open>simp_all add: Ad_field_def\<close>)
  have f3: "consumes L 16383 (Ad_field L) depth (venc 26 @ venc (length (ad_filename x)) @ ad_filename x) (\<lambda>m. m\<lparr>ad_filename := ad_filename x\<rparr>)"
    if "length (ad_filename x) > 0"
    by (rule consumes_string [where get = ad_filename and upd = "\<lambda>v m. m\<lparr>ad_filename := v\<rparr>"])
      (use text_ok [of "ad_filename x"] that in \<open>simp_all add: Ad_field_def\<close>)
  have f4: "consumes L 16383 (Ad_field L) depth (venc 34 @ venc (length (ad_advertiser x)) @ ad_advertiser x) (\<lambda>m. m\<lparr>ad_advertiser := ad_advertiser x\<rparr>)"
    if "length (ad_advertiser x) > 0"
    by (rule consumes_string [where get = ad_advertiser and upd = "\<lambda>v m. m\<lparr>ad_advertiser := v\<rparr>"])
      (use text_ok [of "ad_advertiser x"] that in \<open>simp_all add: Ad_field_def\<close>)
  have f5: "consumes L 16383 (Ad_field L) depth (venc 40 @ venc (unat (scast (ad_type x) :: u64))) (\<lambda>m. m\<lparr>ad_type := ad_type x\<rparr>)"
    by (rule consumes_int32 [where get = ad_type and upd = "\<lambda>v m. m\<lparr>ad_type := v\<rparr>"]) (simp_all add: Ad_field_def)
  have f6: "consumes L 16383 (Ad_field L) depth (venc 50 @ venc (length (ad_url x)) @ ad_url x) (\<lambda>m. m\<lparr>ad_url := ad_url x\<rparr>)"
    if "length (ad_url x) > 0"
    by (rule consumes_string [where get = ad_url and upd = "\<lambda>v m. m\<lparr>ad_url := v\<rparr>"])
      (use text_ok [of "ad_url x"] that in \<open>simp_all add: Ad_field_def\<close>)
  have f7: "consumes L 16383 (Ad_field L) depth (venc 58 @ venc (length (ad_image x)) @ ad_image x) (\<lambda>m. m\<lparr>ad_image := ad_image x\<rparr>)"
    by (rule consumes_bytes [where get = ad_image and upd = "\<lambda>v m. m\<lparr>ad_image := v\<rparr>"])
      (use assms in \<open>simp_all add: Ad_field_def Ad_valid_def\<close>)
  have f8: "consumes L 16383 (Ad_field L) depth (venc 64 @ venc (unat (scast (ad_width x) :: u64))) (\<lambda>m. m\<lparr>ad_width := ad_width x\<rparr>)"
    by (rule consumes_int32 [where get = ad_width and upd = "\<lambda>v m. m\<lparr>ad_width := v\<rparr>"]) (simp_all add: Ad_field_def)
  have f9: "consumes L 16383 (Ad_field L) depth (venc 72 @ venc (unat (scast (ad_height x) :: u64))) (\<lambda>m. m\<lparr>ad_height := ad_height x\<rparr>)"
    by (rule consumes_int32 [where get = ad_height and upd = "\<lambda>v m. m\<lparr>ad_height := v\<rparr>"]) (simp_all add: Ad_field_def)
  have f10: "consumes L 16383 (Ad_field L) depth (venc 82 @ venc (length (ad_format x)) @ ad_format x) (\<lambda>m. m\<lparr>ad_format := ad_format x\<rparr>)"
    if "length (ad_format x) > 0"
    by (rule consumes_string [where get = ad_format and upd = "\<lambda>v m. m\<lparr>ad_format := v\<rparr>"])
      (use text_ok [of "ad_format x"] that in \<open>simp_all add: Ad_field_def\<close>)
  have f11: "consumes L 16383 (Ad_field L) depth (venc 88 @ venc (unat (scast (ad_size x) :: u64))) (\<lambda>m. m\<lparr>ad_size := ad_size x\<rparr>)"
    by (rule consumes_int32 [where get = ad_size and upd = "\<lambda>v m. m\<lparr>ad_size := v\<rparr>"]) (simp_all add: Ad_field_def)
  have f12: "consumes L 16383 (Ad_field L) depth (venc 98 @ venc (length (ad_md5 x)) @ ad_md5 x) (\<lambda>m. m\<lparr>ad_md5 := ad_md5 x\<rparr>)"
    if "length (ad_md5 x) > 0"
    by (rule consumes_string [where get = ad_md5 and upd = "\<lambda>v m. m\<lparr>ad_md5 := v\<rparr>"])
      (use text_ok [of "ad_md5 x"] that in \<open>simp_all add: Ad_field_def\<close>)
  have f13: "consumes L 16383 (Ad_field L) depth (venc 104 @ venc (unat (scast (ad_duration x) :: u64))) (\<lambda>m. m\<lparr>ad_duration := ad_duration x\<rparr>)"
    by (rule consumes_int32 [where get = ad_duration and upd = "\<lambda>v m. m\<lparr>ad_duration := v\<rparr>"]) (simp_all add: Ad_field_def)
  have f14: "consumes L 16383 (Ad_field L) depth (concat (map (\<lambda>v. venc 114 @ venc (length v) @ v) (ad_download x)))
      (\<lambda>m. ad_download_update (\<lambda>old. old @ ad_download x) m)"
    by (rule consumes_strings [where app = "\<lambda>vs. ad_download_update (\<lambda>old. old @ vs)"])
      (use assms in \<open>simp_all add: Ad_field_def Ad_valid_def Ad_assign_append comp_def\<close>)
  have f15: "consumes L 16383 (Ad_field L) depth (venc 120 @ venc (unat (scast (ad_minage x) :: u64))) (\<lambda>m. m\<lparr>ad_minage := ad_minage x\<rparr>)"
    by (rule consumes_int32 [where get = ad_minage and upd = "\<lambda>v m. m\<lparr>ad_minage := v\<rparr>"]) (simp_all add: Ad_field_def)
  have f16: "consumes L 16383 (Ad_field L) depth (venc 128 @ venc (unat (scast (ad_maxage x) :: u64))) (\<lambda>m. m\<lparr>ad_maxage := ad_maxage x\<rparr>)"
    by (rule consumes_int32 [where get = ad_maxage and upd = "\<lambda>v m. m\<lparr>ad_maxage := v\<rparr>"]) (simp_all add: Ad_field_def)
  have f17: "consumes L 16383 (Ad_field L) depth (venc 136 @ venc (unat (scast (ad_sex x) :: u64))) (\<lambda>m. m\<lparr>ad_sex := ad_sex x\<rparr>)"
    by (rule consumes_int32 [where get = ad_sex and upd = "\<lambda>v m. m\<lparr>ad_sex := v\<rparr>"]) (simp_all add: Ad_field_def)
  have f18: "consumes L 16383 (Ad_field L) depth (concat (map (\<lambda>v. venc 146 @ venc (length v) @ v) (ad_visitstatcode x)))
      (\<lambda>m. ad_visitstatcode_update (\<lambda>old. old @ ad_visitstatcode x) m)"
    by (rule consumes_strings [where app = "\<lambda>vs. ad_visitstatcode_update (\<lambda>old. old @ vs)"])
      (use assms in \<open>simp_all add: Ad_field_def Ad_valid_def Ad_assign_append comp_def\<close>)
  have f19: "consumes L 16383 (Ad_field L) depth (venc 154 @ venc (length (packed_data (ad_pausepopadids x))) @ packed_data (ad_pausepopadids x))
      (\<lambda>m. ad_pausepopadids_update (\<lambda>old. old @ ad_pausepopadids x) m)"
    by (rule consumes_cong [OF consumes_packed [where get = ad_pausepopadids and upd = "\<lambda>v m. m\<lparr>ad_pausepopadids := v\<rparr>"]])
      (use assms in \<open>simp_all add: Ad_field_def Ad_valid_def\<close>)
  have f20: "consumes L 16383 (Ad_field L) depth (venc 162 @ venc (length (packed_data (ad_unlockpopadids x))) @ packed_data (ad_unlockpopadids x))
      (\<lambda>m. ad_unlockpopadids_update (\<lambda>old. old @ ad_unlockpopadids x) m)"
    by (rule consumes_cong [OF consumes_packed [where get = ad_unlockpopadids and upd = "\<lambda>v m. m\<lparr>ad_unlockpopadids := v\<rparr>"]])
      (use assms in \<open>simp_all add: Ad_field_def Ad_valid_def\<close>)
  note all = consumes_append [OF consumes_update_if [OF f1, of "ad_id x \<noteq> 0"]
      consumes_append [OF consumes_update_if [OF f2, of "length (ad_name x) > 0"]
      consumes_append [OF consumes_update_if [OF f3, of "length (ad_filename x) > 0"]
      consumes_append [OF consumes_update_if [OF f4, of "length (ad_advertiser x) > 0"]
      consumes_append [OF consumes_update_if [OF f5, of "ad_type x \<noteq> 0"]
      consumes_append [OF consumes_update_if [OF f6, of "length (ad_url x) > 0"]
      consumes_append [OF consumes_update_if [OF f7, of "length (ad_image x) > 0"]
      consumes_append [OF consumes_update_if [OF f8, of "ad_width x \<noteq> 0"]
      consumes_append [OF consumes_update_if [OF f9, of "ad_height x \<noteq> 0"]
      consumes_append [OF consumes_update_if [OF f10, of "length (ad_format x) > 0"]
      consumes_append [OF consumes_update_if [OF f11, of "ad_size x \<noteq> 0"]
      consumes_append [OF consumes_update_if [OF f12, of "length (ad_md5 x) > 0"]
      consumes_append [OF consumes_update_if [OF f13, of "ad_duration x \<noteq> 0"]
      consumes_append [OF f14
      consumes_append [OF consumes_update_if [OF f15, of "ad_minage x \<noteq> 0"]
      consumes_append [OF consumes_update_if [OF f16, of "ad_maxage x \<noteq> 0"]
      consumes_append [OF consumes_update_if [OF f17, of "ad_sex x \<noteq> 0"]
      consumes_append [OF f18
      consumes_append [OF consumes_update_if [OF f19, of "length (ad_pausepopadids x) > 0"]
      consumes_update_if [OF f20, of "length (ad_unlockpopadids x) > 0"]]]]]]]]]]]]]]]]]]]]
  show ?thesis
    unfolding Ad_wire [OF assms]
    by (rule consumes_cong [OF all], assumption+) (unfold Ad_MergeFrom_eq, rule ad_message.equality, simp_all)
qed

lemma Ad_merge_ok: "merge_ok (Ad_MergePartialFromCodedStream L)"
  unfolding Ad_MergePartialFromCodedStream_def
  by (rule merge_loop_ok) (unfold field_ok_def Ad_field_def Let_def, intro allI impI case_ok_if, simp_all)

lemma Ad_stream:
  assumes "Ad_valid L x"
  shows "Ad_SerializeWithCachedSizes L room (snd (Ad_ByteSizeLong L x)) = Ad_SerializeAsString L x"
proof -
  have r: "map (WriteString L k) vs = map (WriteStringToArray L k) vs" if "\<forall>v \<in> set vs. length v \<le> INT_MAX" for k vs
    using that by (simp add: stream_eq_array)
  obtain a b c where n: "snd (Ad_ByteSizeLong L x) = x\<lparr>ad_pausepopadids_cached_byte_size := a,
      ad_unlockpopadids_cached_byte_size := b, ad_cached_size := c\<rparr>"
    unfolding Ad_ByteSizeLong_def Let_def split_def snd_conv by blast
  show ?thesis
    unfolding Ad_SerializeAsString_def Ad_InternalSerializeWithCachedSizesToArray_def Ad_SerializeWithCachedSizes_def n
    using assms
    by (simp add: Ad_valid_def stream_eq_array write_packed_eq r split del: if_split cong: if_cong)
qed

end

sublocale pb_runtime < advert: message_codec L "Ad_MergePartialFromCodedStream L"
  "Ad_SerializeAsString L" Ad_MergeFrom "Ad_valid L" 0
proof
  fix x m and s :: cis and rest
  assume x: "Ad_valid L x" and s: "within_limit s" "0 \<le> cis_budget s"
    "cis_buf s = Ad_SerializeAsString L x @ rest"
  show "\<exists>b. (b \<longrightarrow> cis_legit s) \<and> Ad_MergePartialFromCodedStream L m s =
      Ad_MergePartialFromCodedStream L (Ad_MergeFrom m x) (s\<lparr>cis_buf := rest, cis_legit := b\<rparr>)"
    unfolding Ad_MergePartialFromCodedStream_def
    by (rule consumesD [OF Ad_consumes [OF x] s]) blast
next
  fix m and s :: cis
  assume "within_limit s" "cis_buf s = []"
  then show "Ad_MergePartialFromCodedStream L m s = Some (True, m, s\<lparr>cis_legit := True\<rparr>)"
    unfolding Ad_MergePartialFromCodedStream_def by (rule merge_loop_end)
qed

section \<open>Result\<close>

definition Result_valid :: "pb_lib \<Rightarrow> ad_result \<Rightarrow> bool" where
  "Result_valid L m \<longleftrightarrow> (\<forall>e \<in> set (rs_ads m). Ad_valid L e \<and> length (Ad_SerializeAsString L e) \<le> INT_MAX)"

lemma Result_into_cleared:
  "Result_MergeFrom (Result_Clear m) x = \<lparr>rs_ads = map Ad_uncached (rs_ads x), rs_cached_size = rs_cached_size m\<rparr>"
  by (rule ad_result.equality) (simp_all add: Result_MergeFrom_def Result_Clear_def Ad_into_new)

context pb_runtime
begin

lemma Result_wire:
  assumes "Result_valid L x"
  shows "Result_SerializeAsString L x =
    concat (map (\<lambda>e. venc 10 @ venc (length (Ad_SerializeAsString L e)) @ Ad_SerializeAsString L e) (rs_ads x))"
proof -
  have p: "map (\<lambda>e. InternalWriteMessageNoVirtualToArray 1 (ad_cached_size e)
        (Ad_InternalSerializeWithCachedSizesToArray L e)) (map snd (map (Ad_ByteSizeLong L) (rs_ads x))) =
      map (\<lambda>e. venc 10 @ venc (length (Ad_SerializeAsString L e)) @ Ad_SerializeAsString L e) (rs_ads x)"
    unfolding map_map comp_def
    by (rule map_cong [OF refl], subst Ad_embedded) (use assms in \<open>auto simp: Result_valid_def make_tag_simps\<close>)
  show ?thesis
    unfolding Result_SerializeAsString_def Result_InternalSerializeWithCachedSizesToArray_def Result_ByteSizeLong_def Let_def
      snd_conv ad_result.select_convs ad_result.update_convs
    by (simp add: p del: map_map One_nat_def)
qed

lemma Result_size_eq:
  assumes "Result_valid L x"
  shows "fst (Result_ByteSizeLong L x) = length (Result_SerializeAsString L x)"
  using embedded_size [of "rs_ads x" "Ad_ByteSizeLong L" "Ad_SerializeAsString L" "venc 10"] assms
  unfolding Result_wire [OF assms] Result_ByteSizeLong_def Let_def fst_conv
  by (simp add: Result_valid_def Ad_size_eq venc_small)

lemma Result_consumes:
  assumes "Result_valid L x"
  shows "consumes L 127 (Result_field L) 1 (Result_SerializeAsString L x) (\<lambda>m. Result_MergeFrom m x)"
proof -
  have ad: "consumes L 127 (Result_field L) 1 (venc 10 @ venc (length (Ad_SerializeAsString L e)) @ Ad_SerializeAsString L e)
       (\<lambda>m. m\<lparr>rs_ads := rs_ads m @ [Ad_uncached e]\<rparr>)" if "e \<in> set (rs_ads x)" for e
    using advert.consumes_message [where n = 10 and cutoff = 127 and field = "Result_field L" and element = AdMessage_new
        and x = e and upd = "\<lambda>e m. m\<lparr>rs_ads := rs_ads m @ [e]\<rparr>"] that assms
    by (simp add: Result_field_def Result_valid_def Ad_into_new)
  show ?thesis
    unfolding Result_wire [OF assms]
    by (rule consumes_cong [OF consumes_appends [where app = "\<lambda>es m. m\<lparr>rs_ads := rs_ads m @ es\<rparr>", OF ad]])
      (simp_all add: Result_MergeFrom_def Ad_into_new)
qed

lemma Result_merge_ok: "merge_ok (Result_MergePartialFromCodedStream L)"
  unfolding Result_MergePartialFromCodedStream_def
  by (rule merge_loop_ok) (simp add: field_ok_def Result_field_def Ad_merge_ok)

end

sublocale pb_runtime < result: message_codec L "Result_MergePartialFromCodedStream L"
  "Result_SerializeAsString L" Result_MergeFrom "Result_valid L" 1
proof
  fix x m and s :: cis and rest
  assume x: "Result_valid L x" and s: "within_limit s" "1 \<le> cis_budget s"
    "cis_buf s = Result_SerializeAsString L x @ rest"
  show "\<exists>b. (b \<longrightarrow> cis_legit s) \<and> Result_MergePartialFromCodedStream L m s =
      Result_MergePartialFromCodedStream L (Result_MergeFrom m x) (s\<lparr>cis_buf := rest, cis_legit := b\<rparr>)"
    unfolding Result_MergePartialFromCodedStream_def
    by (rule consumesD [OF Result_consumes [OF x] s]) blast
next
  fix m and s :: cis
  assume "within_limit s" "cis_buf s = []"
  then show "Result_MergePartialFromCodedStream L m s = Some (True, m, s\<lparr>cis_legit := True\<rparr>)"
    unfolding Result_MergePartialFromCodedStream_def by (rule merge_loop_end)
qed

context pb_runtime
begin

lemma Ad_parse:
  assumes "Ad_valid L x" "length (Ad_SerializeAsString L x) \<le> 67108864"
  shows "Ad_ParseFromArray L (Ad_SerializeAsString L x) m = Some (True, Ad_MergeFrom (Ad_Clear m) x)"
  using advert.parse_ser [OF assms, of Ad_Clear m] by (simp add: Ad_ParseFromArray_def)

lemma Result_parse:
  assumes "Result_valid L x" "length (Result_SerializeAsString L x) \<le> 67108864"
  shows "Result_ParseFromArray L (Result_SerializeAsString L x) m =
    Some (True, \<lparr>rs_ads = map Ad_uncached (rs_ads x), rs_cached_size = rs_cached_size m\<rparr>)"
  using result.parse_ser [OF assms, of Result_Clear m] by (simp add: Result_ParseFromArray_def Result_into_cleared)

lemma Result_stream:
  assumes "Result_valid L x"
  shows "Result_SerializeWithCachedSizes L room (snd (Result_ByteSizeLong L x)) = Result_SerializeAsString L x"
proof -
  let ?w = "\<lambda>e. InternalWriteMessageNoVirtualToArray 1 (ad_cached_size e) (Ad_InternalSerializeWithCachedSizesToArray L e)"
  let ?es = "map snd (map (Ad_ByteSizeLong L) (rs_ads x))"
  have e: "Ad_SerializeWithCachedSizes L (room i) (snd (Ad_ByteSizeLong L (rs_ads x ! i))) =
      Ad_InternalSerializeWithCachedSizesToArray L (snd (Ad_ByteSizeLong L (rs_ads x ! i)))" if "i < length (rs_ads x)" for i
    using Ad_stream [of "rs_ads x ! i" "room i"] that assms by (simp add: Result_valid_def Ad_SerializeAsString_def)
  have "map (\<lambda>i. let e = ?es ! i in WriteMessageMaybeToArray L 1 (ad_cached_size e)
       (Ad_InternalSerializeWithCachedSizesToArray L e) (Ad_SerializeWithCachedSizes L (room i) e))
       [0..<length ?es] = map ?w ?es"
    by (rule nth_equalityI) (simp_all add: e Let_def stream_message InternalWriteMessageNoVirtualToArray_def)
  then show ?thesis
    by (simp add: Result_SerializeWithCachedSizes_def Result_SerializeAsString_def
        Result_InternalSerializeWithCachedSizesToArray_def Result_ByteSizeLong_def Let_def del: map_map One_nat_def)
qed

end

end
