(* ===== verification/PolicyProps.thy ===== *)
theory PolicyProps
  imports AdCodec
begin

text \<open>
  Properties of the policy messages: round trips, sizes, termination, and the case in which an unpacked list
  of numbers is read wrongly.
\<close>

lemma ucast_byte_42: "ucast (b :: byte) = (42 :: u32) \<Longrightarrow> b = 42"
proof -
  assume "ucast b = (42 :: u32)"
  then have "unat (ucast b :: u32) = 42" by simp
  then have "unat b = 42" by (simp add: unat_ucast_up)
  then show ?thesis by (metis of_nat_unat ucast_id of_nat_numeral)
qed

context pb_runtime
begin

lemma parse_returns:
  assumes "merge_ok merge" "length data \<le> 67108864"
  shows "\<exists>ok m'. ParseFromArray clear merge data m = Some (ok, m')"
proof -
  have "within_limit (CodedInputStream data)"
    using assms(2) by (simp add: within_limit_def cis_total_def CodedInputStream_def)
  then obtain ok m' s' where "merge (clear m) (CodedInputStream data) = Some (ok, m', s')"
    using assms(1) unfolding merge_ok_def by blast
  then show ?thesis by (simp add: ParseFromArray_def)
qed

text \<open>An unpacked element in front of a packed field: the reader of unpacked elements is given the tag of
  the packed field as the tag to go on with, and takes the length for an element.\<close>

lemma unpacked_takes_length:
  assumes "within_limit s" "cis_buf s = venc (unat (scast a :: u64)) @ 42 # venc (unat (scast k :: u64)) @ b # rest"
    "b \<noteq> 42" "0 < RepeatedSpare L (length (old @ [a]))"
  shows "ReadRepeatedPrimitive L 42 old s = ((True, old @ [a, k]), s\<lparr>cis_buf := b # rest\<rparr>)"
proof -
  let ?s1 = "s\<lparr>cis_buf := 42 # venc (unat (scast k :: u64)) @ b # rest\<rparr>"
  let ?s2 = "s\<lparr>cis_buf := venc (unat (scast k :: u64)) @ b # rest\<rparr>"
  let ?s3 = "s\<lparr>cis_buf := b # rest\<rparr>"
  have p1: "ReadPrimitive_int32 L 0 s = ((True, a), ?s1)"
    using read_varint32 [OF assms(1,2) unat_u64_bound] by (simp add: ReadPrimitive_int32_def of_nat_scast_i32 ucast_scast_i32)
  have w1: "within_limit ?s1" by (rule within_limit_rest(2) [OF assms(1,2)])
  have w2: "within_limit ?s2" by (rule within_limit_le [OF w1]) (simp add: cis_total_def)
  have p2: "ReadPrimitive_int32 L 0 ?s2 = ((True, k), ?s3)"
    using read_varint32 [OF w2 _ unat_u64_bound] by (simp add: ReadPrimitive_int32_def of_nat_scast_i32 ucast_scast_i32)
  have e1: "ExpectTag 42 ?s1 = (True, ?s2)" by (simp add: ExpectTag_def Advance_def)
  have "ucast b \<noteq> (42 :: u32)" using assms(3) by (metis ucast_byte_42)
  then have e2: "ExpectTag 42 ?s3 = (False, ?s3)" by (simp add: ExpectTag_def)
  obtain n where n: "RepeatedSpare L (length (old @ [a])) = Suc n" using assms(4) by (cases "RepeatedSpare L (length (old @ [a]))") auto
  show ?thesis
    using p1 p2 e1 e2 n by (cases n) (simp_all add: ReadRepeatedPrimitive_def Let_def)
qed

end

context pb_runtime
begin

lemma mixed_ids:
  assumes "0 < RepeatedSpare L 1"
  shows "AdPlay_ParseFromArray L (venc 40 @ venc (unat (scast a :: u64)) @ venc 42 @ venc 2 @ [24, 1]) m
    = Some (True, (AdPlay_Clear m)\<lparr>ap_adids := [a, 2], ap_needsync := True\<rparr>)"
proof -
  let ?c = "AdPlay_Clear m"
  let ?d = "venc 40 @ venc (unat (scast a :: u64)) @ venc 42 @ venc 2 @ [24, 1]"
  define s where "s = CodedInputStream ?d"
  have "length ?d \<le> 18" using length_venc_le [of "unat (scast a :: u64)" 9] unat_u64_bound [of "scast a :: u64"]
    by (simp add: venc_small)
  then have w: "within_limit s" by (simp add: s_def within_limit_def cis_total_def CodedInputStream_def)
  have b: "cis_buf s = venc 40 @ (venc (unat (scast a :: u64)) @ 42 # 2 # 24 # [1])"
    by (simp add: s_def CodedInputStream_def venc_small)
  let ?s1 = "s\<lparr>cis_buf := venc (unat (scast a :: u64)) @ 42 # 2 # 24 # [1]\<rparr>"
  let ?s2 = "s\<lparr>cis_buf := 24 # [1]\<rparr>"
  have w1: "within_limit ?s1" by (rule within_limit_rest(2) [OF w b])
  have w2: "within_limit ?s2" by (rule within_limit_le [OF w1]) (simp add: cis_total_def)
  have t: "ReadTagWithCutoffNoLastTag L 127 s = ((40, True), ?s1)" using read_tag [OF w b, of 127] by simp
  have r: "ReadRepeatedPrimitive L 42 [] ?s1 = ((True, [a, 2]), ?s2)"
    using unpacked_takes_length [OF w1, of a 2 24 "[1]" "[]"] assms by (simp add: venc_small)
  have "merge_loop L 127 (AdPlay_field L) ?c s = merge_loop L 127 (AdPlay_field L) (?c\<lparr>ap_adids := [a, 2]\<rparr>) ?s2"
    by (subst merge_loop.simps) (simp add: t r AdPlay_field_def unpacked_case_def AdPlay_Clear_def Let_def)
  moreover have "consumes L 127 (AdPlay_field L) 0 (venc 24 @ venc (if True then 1 else 0))
       (\<lambda>m. m\<lparr>ap_needsync := True\<rparr>)"
    by (rule consumes_bool [where get = ap_needsync and upd = "\<lambda>v m. m\<lparr>ap_needsync := v\<rparr>"])
       (simp_all add: AdPlay_field_def)
  then obtain l where "merge_loop L 127 (AdPlay_field L) (?c\<lparr>ap_adids := [a, 2]\<rparr>) ?s2 =
      merge_loop L 127 (AdPlay_field L) (?c\<lparr>ap_adids := [a, 2], ap_needsync := True\<rparr>) (?s2\<lparr>cis_buf := [], cis_legit := l\<rparr>)"
    by (rule consumesD [OF _ w2, where rest = "[]" and m = "?c\<lparr>ap_adids := [a, 2]\<rparr>"])
       (simp_all add: venc_small s_def CodedInputStream_def)
  moreover have "within_limit (?s2\<lparr>cis_buf := [], cis_legit := l\<rparr>)"
    by (rule within_limit_le [OF w2]) (simp add: cis_total_def)
  ultimately show ?thesis
    by (simp add: AdPlay_ParseFromArray_def ParseFromArray_def AdPlay_MergePartialFromCodedStream_def
        s_def [symmetric] merge_loop_end ConsumedEntireMessage_def)
qed

end

section \<open>Operations of the objects\<close>

lemma AdPlay_object_laws:
  "AdPlay_MergeFrom (AdPlay_MergeFrom a b) c = AdPlay_MergeFrom a (AdPlay_MergeFrom b c)"
  "AdPlay_CopyFrom False a b = (AdPlay_uncached b)\<lparr>ap_adids_cached_byte_size := ap_adids_cached_byte_size a,
     ap_cached_size := ap_cached_size a\<rparr>"
  "AdPlay_copy b = AdPlay_uncached b"
  by (rule ad_play.equality, simp_all add: AdPlay_CopyFrom_def AdPlay_Clear_def AdPlay_uncached_def AdPlay_copy_def
      PlayTime_into_new)+

lemma AdPlayPolicy_object_laws:
  "AdPlayPolicy_MergeFrom (AdPlayPolicy_MergeFrom p q) r = AdPlayPolicy_MergeFrom p (AdPlayPolicy_MergeFrom q r)"
  "AdPlayPolicy_copy q = AdPlayPolicy_uncached q"
  "AdPlayPolicy_InternalSwap p q = (q, p)"
  by (rule ad_policy.equality, simp_all add: AdPlayPolicy_copy_def AdPlayPolicy_uncached_def AdPlay_into_new)
    (simp add: AdPlayPolicy_InternalSwap_def)

lemma Ad_MergeFrom_fields:
  "ad_download (Ad_MergeFrom a b) = ad_download a @ ad_download b"
  "ad_visitstatcode (Ad_MergeFrom a b) = ad_visitstatcode a @ ad_visitstatcode b"
  "ad_pausepopadids (Ad_MergeFrom a b) = ad_pausepopadids a @ ad_pausepopadids b"
  "ad_unlockpopadids (Ad_MergeFrom a b) = ad_unlockpopadids a @ ad_unlockpopadids b"
  "ad_name (Ad_MergeFrom a b) = (if ad_name b \<noteq> [] then ad_name b else ad_name a)"
  "ad_filename (Ad_MergeFrom a b) = (if ad_filename b \<noteq> [] then ad_filename b else ad_filename a)"
  "ad_advertiser (Ad_MergeFrom a b) = (if ad_advertiser b \<noteq> [] then ad_advertiser b else ad_advertiser a)"
  "ad_url (Ad_MergeFrom a b) = (if ad_url b \<noteq> [] then ad_url b else ad_url a)"
  "ad_image (Ad_MergeFrom a b) = (if ad_image b \<noteq> [] then ad_image b else ad_image a)"
  "ad_format (Ad_MergeFrom a b) = (if ad_format b \<noteq> [] then ad_format b else ad_format a)"
  "ad_md5 (Ad_MergeFrom a b) = (if ad_md5 b \<noteq> [] then ad_md5 b else ad_md5 a)"
  "ad_id (Ad_MergeFrom a b) = (if ad_id b \<noteq> 0 then ad_id b else ad_id a)"
  "ad_type (Ad_MergeFrom a b) = (if ad_type b \<noteq> 0 then ad_type b else ad_type a)"
  "ad_width (Ad_MergeFrom a b) = (if ad_width b \<noteq> 0 then ad_width b else ad_width a)"
  "ad_height (Ad_MergeFrom a b) = (if ad_height b \<noteq> 0 then ad_height b else ad_height a)"
  "ad_size (Ad_MergeFrom a b) = (if ad_size b \<noteq> 0 then ad_size b else ad_size a)"
  "ad_duration (Ad_MergeFrom a b) = (if ad_duration b \<noteq> 0 then ad_duration b else ad_duration a)"
  "ad_minage (Ad_MergeFrom a b) = (if ad_minage b \<noteq> 0 then ad_minage b else ad_minage a)"
  "ad_maxage (Ad_MergeFrom a b) = (if ad_maxage b \<noteq> 0 then ad_maxage b else ad_maxage a)"
  "ad_sex (Ad_MergeFrom a b) = (if ad_sex b \<noteq> 0 then ad_sex b else ad_sex a)"
  "ad_pausepopadids_cached_byte_size (Ad_MergeFrom a b) = ad_pausepopadids_cached_byte_size a"
  "ad_unlockpopadids_cached_byte_size (Ad_MergeFrom a b) = ad_unlockpopadids_cached_byte_size a"
  "ad_cached_size (Ad_MergeFrom a b) = ad_cached_size a"
  unfolding Ad_MergeFrom_eq by simp_all

lemma Ad_object_laws:
  "Ad_MergeFrom (Ad_MergeFrom a b) c = Ad_MergeFrom a (Ad_MergeFrom b c)"
  "Ad_copy b = Ad_uncached b"
  "Ad_CopyFrom False a b = b\<lparr>ad_pausepopadids_cached_byte_size := ad_pausepopadids_cached_byte_size a,
     ad_unlockpopadids_cached_byte_size := ad_unlockpopadids_cached_byte_size a, ad_cached_size := ad_cached_size a\<rparr>"
proof -
  show "Ad_MergeFrom (Ad_MergeFrom a b) c = Ad_MergeFrom a (Ad_MergeFrom b c)"
    by (rule ad_message.equality) (simp_all add: Ad_MergeFrom_fields)
  show "Ad_copy b = Ad_uncached b"
    by (rule ad_message.equality) (simp_all add: Ad_copy_def Ad_uncached_def)
  show "Ad_CopyFrom False a b = b\<lparr>ad_pausepopadids_cached_byte_size := ad_pausepopadids_cached_byte_size a,
     ad_unlockpopadids_cached_byte_size := ad_unlockpopadids_cached_byte_size a, ad_cached_size := ad_cached_size a\<rparr>"
    by (simp only: Ad_CopyFrom_def if_False Ad_into_cleared)
qed

lemma Result_object_laws:
  "Result_MergeFrom (Result_MergeFrom p q) r = Result_MergeFrom p (Result_MergeFrom q r)"
  "Result_copy q = \<lparr>rs_ads = map Ad_uncached (rs_ads q), rs_cached_size = 0\<rparr>"
  "Result_InternalSwap p q = (q, p)"
  by (rule ad_result.equality, simp_all add: Result_MergeFrom_def Ad_into_new Result_copy_def)
    (simp_all add: Ad_uncached_def Result_InternalSwap_def)

text \<open>The object operations of the policy messages: merging is associative, copying takes every field of the
  other object and keeps the cached sizes of its own, copying an object to itself changes nothing, a copy of an
  object has every field and no cached size, and swapping exchanges the objects.\<close>

theorem policy_object_laws:
  "AdPlayPolicy_MergeFrom (AdPlayPolicy_MergeFrom p q) p' = AdPlayPolicy_MergeFrom p (AdPlayPolicy_MergeFrom q p')
    \<and> AdPlayPolicy_CopyFrom False p q = (AdPlayPolicy_uncached q)\<lparr>pp_cached_size := pp_cached_size p\<rparr>
    \<and> AdPlayPolicy_CopyFrom True p p = p \<and> AdPlayPolicy_copy q = AdPlayPolicy_uncached q
    \<and> AdPlayPolicy_InternalSwap p q = (q, p)
    \<and> AdPlay_MergeFrom (AdPlay_MergeFrom e f) g = AdPlay_MergeFrom e (AdPlay_MergeFrom f g)
    \<and> AdPlay_copy f = AdPlay_uncached f
    \<and> Ad_MergeFrom (Ad_MergeFrom a b) c = Ad_MergeFrom a (Ad_MergeFrom b c) \<and> Ad_copy b = Ad_uncached b
    \<and> Ad_uncached (Ad_CopyFrom False a b) = Ad_uncached b
    \<and> Result_MergeFrom (Result_MergeFrom r s) t = Result_MergeFrom r (Result_MergeFrom s t)
    \<and> Result_CopyFrom False r s = \<lparr>rs_ads = map Ad_uncached (rs_ads s), rs_cached_size = rs_cached_size r\<rparr>
    \<and> Result_InternalSwap r s = (s, r)"
  by (simp only: AdPlayPolicy_object_laws AdPlay_object_laws Ad_object_laws Result_object_laws AdPlayPolicy_CopyFrom_def
      AdPlayPolicy_into_cleared Result_CopyFrom_def Result_into_cleared if_True if_False simp_thms)
    (simp add: Ad_uncached_def)

section \<open>Sample messages\<close>

definition wire_time :: play_time where
  "wire_time = \<lparr>pt_bgntime = [56, 58, 48], pt_endtime = [57, 58, 48], pt_cached_size = 0\<rparr>"

definition wire_play :: ad_play where
  "wire_play = \<lparr>ap_location = 1, ap_mode = 0, ap_needsync = True, ap_playtimes = [wire_time], ap_adids = [7, - 1],
     ap_adids_cached_byte_size = 0, ap_cached_size = 0\<rparr>"

definition wire_policy :: ad_policy where
  "wire_policy = \<lparr>pp_id = 5, pp_version = [49, 46, 48], pp_datetime = [], pp_adplays = [wire_play, AdPlay_new],
     pp_cached_size = 3\<rparr>"

definition wire_advert :: ad_message where
  "wire_advert = AdMessage_new\<lparr>ad_id := 7, ad_name := [97, 98], ad_download := [[104, 47], []], ad_sex := 2,
     ad_pausepopadids := [3, 5]\<rparr>"

definition wire_list :: ad_result where
  "wire_list = \<lparr>rs_ads = [wire_advert, AdMessage_new], rs_cached_size = 0\<rparr>"

lemma ref_VerifyUtf8String: "VerifyUtf8String ref_lib str = list_all (\<lambda>b. b < 0x80) str"
  by (simp add: ref_lib_def)

lemma venc_i32_le: "length (venc (unat (scast (v :: i32) :: u64))) \<le> 10"
  using length_venc_le [of "unat (scast v :: u64)" 9] unat_u64_bound [of "scast v :: u64"] by simp

lemma packed_data_le: "length (packed_data vs) \<le> 10 * length vs"
proof (induction vs)
  case (Cons v vs)
  then show ?case using venc_i32_le [of v] by simp
qed simp

lemma wire_time_valid: "PlayTime_valid ref_lib wire_time"
  by (simp add: PlayTime_valid_def wire_time_def ref_VerifyUtf8String INT_MAX_def)

lemma wire_time_length: "length (PlayTime_SerializeAsString ref_lib wire_time) = 10"
  by (simp add: ref.PlayTime_wire [OF wire_time_valid]) (simp add: wire_time_def venc_small)

lemma wire_play_valid: "AdPlay_valid ref_lib wire_play" "AdPlay_valid ref_lib AdPlay_new"
  using packed_data_le [of "[7, - 1]"]
  by (simp_all add: AdPlay_valid_def wire_play_def AdPlay_new_def wire_time_valid wire_time_length INT_MAX_def)

lemma wire_play_length:
  "length (AdPlay_SerializeAsString ref_lib wire_play) \<le> 100" "AdPlay_SerializeAsString ref_lib AdPlay_new = []"
proof -
  show "length (AdPlay_SerializeAsString ref_lib wire_play) \<le> 100"
    using packed_data_le [of "[7, - 1]"] venc_i32_le [of 1] length_venc_le [of "length (packed_data [7, - 1])" 4]
    by (simp add: ref.AdPlay_wire [OF wire_play_valid(1)]) (simp add: wire_play_def wire_time_length venc_small)
  show "AdPlay_SerializeAsString ref_lib AdPlay_new = []"
    by (simp add: ref.AdPlay_wire [OF wire_play_valid(2)]) (simp add: AdPlay_new_def)
qed

lemma wire_policy_valid: "AdPlayPolicy_valid ref_lib wire_policy"
  using wire_play_length
  by (simp add: AdPlayPolicy_valid_def wire_policy_def wire_play_valid ref_VerifyUtf8String INT_MAX_def)

lemma wire_policy_length: "length (AdPlayPolicy_SerializeAsString ref_lib wire_policy) \<le> 67108864"
  using wire_play_length venc_i32_le [of 5] length_venc_le [of "length (AdPlay_SerializeAsString ref_lib wire_play)" 4]
  by (simp add: ref.AdPlayPolicy_wire [OF wire_policy_valid]) (simp add: wire_policy_def venc_small)

lemma wire_advert_valid: "Ad_valid ref_lib wire_advert" "Ad_valid ref_lib AdMessage_new"
  by (simp_all add: venc_small Ad_valid_def wire_advert_def AdMessage_new_def ref_VerifyUtf8String INT_MAX_def)

lemma wire_advert_length:
  "length (Ad_SerializeAsString ref_lib wire_advert) \<le> 100" "Ad_SerializeAsString ref_lib AdMessage_new = []"
proof -
  show "length (Ad_SerializeAsString ref_lib wire_advert) \<le> 100"
    using two_byte_tag [of 136] two_byte_tag [of 154]
    unfolding ref.Ad_wire [OF wire_advert_valid(1)]
    by (simp add: wire_advert_def AdMessage_new_def venc_small split del: if_split)
  show "Ad_SerializeAsString ref_lib AdMessage_new = []"
    unfolding ref.Ad_wire [OF wire_advert_valid(2)] by (simp add: AdMessage_new_def split del: if_split)
qed

lemma wire_list_valid: "Result_valid ref_lib wire_list"
  using wire_advert_length by (simp add: Result_valid_def wire_list_def wire_advert_valid INT_MAX_def)

lemma wire_list_length: "length (Result_SerializeAsString ref_lib wire_list) \<le> 67108864"
  using wire_advert_length length_venc_le [of "length (Ad_SerializeAsString ref_lib wire_advert)" 4]
  by (simp add: ref.Result_wire [OF wire_list_valid]) (simp add: wire_list_def venc_small)

section \<open>Properties\<close>

text \<open>C32: Round trips of the policy and of the list of advertisements: parsing what \<open>SerializeAsString\<close> gives for
  a policy, into any object, succeeds and gives every field back, with all plays, their times and numbers in
  order, and parsing what it gives for a \<open>Result\<close> the same advertisements in order, with all twenty fields of
  each; only cached sizes are lost.\<close>

theorem policy_and_list_roundtrip:
  assumes "pb_runtime L"
    and "AdPlayPolicy_valid L x" "length (AdPlayPolicy_SerializeAsString L x) \<le> 67108864"
    and "Result_valid L y" "length (Result_SerializeAsString L y) \<le> 67108864"
  shows "AdPlayPolicy_ParseFromArray L (AdPlayPolicy_SerializeAsString L x) m
      = Some (True, (AdPlayPolicy_uncached x)\<lparr>pp_cached_size := pp_cached_size m\<rparr>)
    \<and> Result_ParseFromArray L (Result_SerializeAsString L y) n
      = Some (True, \<lparr>rs_ads = map Ad_uncached (rs_ads y), rs_cached_size = rs_cached_size n\<rparr>)"
  using pb_runtime.AdPlayPolicy_parse [OF assms(1-3)] pb_runtime.Result_parse [OF assms(1,4,5)] by (rule conjI)

theorem policy_and_list_roundtrip_witness:
  "AdPlayPolicy_ParseFromArray ref_lib (AdPlayPolicy_SerializeAsString ref_lib wire_policy) AdPlayPolicy_new
      = Some (True, (AdPlayPolicy_uncached wire_policy)\<lparr>pp_cached_size := pp_cached_size AdPlayPolicy_new\<rparr>)
    \<and> Result_ParseFromArray ref_lib (Result_SerializeAsString ref_lib wire_list) wire_list
      = Some (True, \<lparr>rs_ads = map Ad_uncached (rs_ads wire_list), rs_cached_size = rs_cached_size wire_list\<rparr>)"
  by (rule policy_and_list_roundtrip [OF ref_lib_runtime wire_policy_valid wire_policy_length
        wire_list_valid wire_list_length])

text \<open>C34: The parsers of all four messages that are received, the envelope, \<open>Ad\<close>, \<open>Result\<close> and \<open>AdPlayPolicy\<close>,
  return on every input of up to 64 MB, valid or not, through all nested messages and packed fields.\<close>

theorem parsers_return:
  assumes "pb_runtime L" "length data \<le> 67108864"
  shows "(\<exists>ok m'. Message_ParseFromArray L data e = Some (ok, m'))
    \<and> (\<exists>ok m'. Ad_ParseFromArray L data a = Some (ok, m'))
    \<and> (\<exists>ok m'. Result_ParseFromArray L data r = Some (ok, m'))
    \<and> (\<exists>ok m'. AdPlayPolicy_ParseFromArray L data p = Some (ok, m'))"
  unfolding Message_ParseFromArray_def Ad_ParseFromArray_def Result_ParseFromArray_def AdPlayPolicy_ParseFromArray_def
  by (intro conjI pb_runtime.parse_returns [OF assms(1) _ assms(2)] pb_runtime.Message_merge_ok [OF assms(1)]
      pb_runtime.Ad_merge_ok [OF assms(1)] pb_runtime.Result_merge_ok [OF assms(1)]
      pb_runtime.AdPlayPolicy_merge_ok [OF assms(1)])

theorem parsers_return_witness:
  "(\<exists>ok m'. Message_ParseFromArray ref_lib [9, 42, 255, 0] Message_new = Some (ok, m'))
    \<and> (\<exists>ok m'. Ad_ParseFromArray ref_lib [9, 42, 255, 0] AdMessage_new = Some (ok, m'))
    \<and> (\<exists>ok m'. Result_ParseFromArray ref_lib [9, 42, 255, 0] wire_list = Some (ok, m'))
    \<and> (\<exists>ok m'. AdPlayPolicy_ParseFromArray ref_lib [9, 42, 255, 0] AdPlayPolicy_new = Some (ok, m'))"
  by (rule parsers_return [OF ref_lib_runtime]) simp

text \<open>C33: The sizes of nested messages and packed fields that \<open>ByteSizeLong\<close> caches are exact: with them the
  array serialiser and the stream serialiser write the same bytes, as many as \<open>ByteSizeLong\<close> has returned,
  whatever space the buffer of the stream has left at each write.\<close>

theorem policy_sizes_exact:
  assumes "pb_runtime L" "AdPlayPolicy_valid L p" "Result_valid L r"
  shows "AdPlayPolicy_SerializeWithCachedSizes L room (snd (AdPlayPolicy_ByteSizeLong L p))
      = AdPlayPolicy_InternalSerializeWithCachedSizesToArray L (snd (AdPlayPolicy_ByteSizeLong L p))
    \<and> fst (AdPlayPolicy_ByteSizeLong L p)
      = length (AdPlayPolicy_InternalSerializeWithCachedSizesToArray L (snd (AdPlayPolicy_ByteSizeLong L p)))
    \<and> Result_SerializeWithCachedSizes L rooms (snd (Result_ByteSizeLong L r))
      = Result_InternalSerializeWithCachedSizesToArray L (snd (Result_ByteSizeLong L r))
    \<and> fst (Result_ByteSizeLong L r)
      = length (Result_InternalSerializeWithCachedSizesToArray L (snd (Result_ByteSizeLong L r)))"
  using pb_runtime.AdPlayPolicy_stream [OF assms(1,2)] pb_runtime.AdPlayPolicy_size_eq [OF assms(1,2)]
    pb_runtime.Result_stream [OF assms(1,3)] pb_runtime.Result_size_eq [OF assms(1,3)]
  by (simp add: AdPlayPolicy_SerializeAsString_def Result_SerializeAsString_def)

theorem policy_sizes_exact_witness:
  "AdPlayPolicy_SerializeWithCachedSizes ref_lib (\<lambda>i j. i) (snd (AdPlayPolicy_ByteSizeLong ref_lib wire_policy))
      = AdPlayPolicy_InternalSerializeWithCachedSizesToArray ref_lib (snd (AdPlayPolicy_ByteSizeLong ref_lib wire_policy))
    \<and> fst (AdPlayPolicy_ByteSizeLong ref_lib wire_policy)
      = length (AdPlayPolicy_InternalSerializeWithCachedSizesToArray ref_lib
          (snd (AdPlayPolicy_ByteSizeLong ref_lib wire_policy)))
    \<and> Result_SerializeWithCachedSizes ref_lib (\<lambda>i j k. j) (snd (Result_ByteSizeLong ref_lib wire_list))
      = Result_InternalSerializeWithCachedSizesToArray ref_lib (snd (Result_ByteSizeLong ref_lib wire_list))
    \<and> fst (Result_ByteSizeLong ref_lib wire_list)
      = length (Result_InternalSerializeWithCachedSizesToArray ref_lib (snd (Result_ByteSizeLong ref_lib wire_list)))"
  by (rule policy_sizes_exact [OF ref_lib_runtime wire_policy_valid wire_list_valid])

text \<open>C35: Numbers that follow an unpacked number in packed form are misread: the reader of unpacked
  numbers is given the tag of the packed form to go on with, takes the length of the packed block for a
  number and leaves the block to the parse loop.  Here the block \<open>[24, 1]\<close> ends as the length \<open>2\<close> in the list
  and as \<open>needsync = true\<close>, and the parser reports success.\<close>

theorem mixed_ids_misread:
  assumes "pb_runtime L" "0 < RepeatedSpare L 1"
  shows "AdPlay_ParseFromArray L (venc 40 @ venc (unat (scast a :: u64)) @ venc 42 @ venc 2 @ [24, 1]) m
    = Some (True, (AdPlay_Clear m)\<lparr>ap_adids := [a, 2], ap_needsync := True\<rparr>)"
  using assms by (rule pb_runtime.mixed_ids)

theorem mixed_ids_misread_witness:
  "AdPlay_ParseFromArray ref_lib (venc 40 @ venc (unat (scast (9 :: i32) :: u64)) @ venc 42 @ venc 2 @ [24, 1]) AdPlay_new
    = Some (True, (AdPlay_Clear AdPlay_new)\<lparr>ap_adids := [9, 2], ap_needsync := True\<rparr>)"
  by (rule mixed_ids_misread [OF ref_lib_runtime]) (simp add: ref_lib_def)

end
