(* ===== verification/PolicyWire.thy ===== *)
theory PolicyWire
  imports PolicyProps ManagerProps
begin

text \<open>
  The generated parsers in the place of the parameters of the advertisement business: what the peer
  serialises is what the manager acts on.
\<close>

section \<open>The parsers of the manager\<close>

text \<open>The fields the manager reads of a parsed policy.\<close>

definition play_of :: "ad_play \<Rightarrow> adplay" where
  "play_of p = \<lparr>play_location = ap_location p, play_mode = ap_mode p, play_needsync = ap_needsync p,
     play_playtimes = map (\<lambda>t. (pt_bgntime t, pt_endtime t)) (ap_playtimes p), play_adids = ap_adids p\<rparr>"

definition policy_of :: "ad_policy \<Rightarrow> policy" where
  "policy_of p = \<lparr>pol_id = pp_id p, pol_version = pp_version p, pol_datetime = pp_datetime p,
     pol_adplays = map play_of (pp_adplays p)\<rparr>"

text \<open>\<open>ParseFromString\<close> of the three classes.  \<open>_policy\<close> is cleared before it is parsed into, the others are new.
  A parser that does not return, which \<open>parsers_return\<close> excludes up to 64 MB, would count as failed.\<close>

definition wire_env :: "env \<Rightarrow> env" where
  "wire_env E = E\<lparr>
     env_parse_ad := (\<lambda>data. case Ad_ParseFromArray (env_lib E) data AdMessage_new of
         Some (ok, a) \<Rightarrow> (ok, ad.truncate a) | None \<Rightarrow> (False, Ad_new)),
     env_parse_result := (\<lambda>data. case Result_ParseFromArray (env_lib E) data Result_new of
         Some (ok, r) \<Rightarrow> (ok, map ad.truncate (rs_ads r)) | None \<Rightarrow> (False, [])),
     env_parse_policy := (\<lambda>data. case AdPlayPolicy_ParseFromArray (env_lib E) data AdPlayPolicy_new of
         Some (ok, p) \<Rightarrow> (ok, policy_of p) | None \<Rightarrow> (False, policy_of AdPlayPolicy_new))\<rparr>"

lemma wire_env_sel [simp]:
  "env_lib (wire_env E) = env_lib E" "env_peer (wire_env E) = env_peer E" "env_http (wire_env E) = env_http E"
  "env_md5 (wire_env E) = env_md5 E" "env_lexical_cast (wire_env E) = env_lexical_cast E"
  "env_from_utf (wire_env E) = env_from_utf E"
  by (simp_all add: wire_env_def)

lemma play_of_uncached [simp]: "play_of (AdPlay_uncached p) = play_of p"
  by (simp add: play_of_def AdPlay_uncached_def comp_def)

lemma policy_of_uncached [simp]: "policy_of ((AdPlayPolicy_uncached p)\<lparr>pp_cached_size := n\<rparr>) = policy_of p"
  by (simp add: policy_of_def AdPlayPolicy_uncached_def)

lemma truncate_uncached [simp]: "ad.truncate (Ad_uncached a) = ad.truncate a"
  by (simp add: ad.truncate_def Ad_uncached_def)

lemma wire_parses_policy:
  assumes "pb_runtime (env_lib E)" "AdPlayPolicy_valid (env_lib E) p"
    "length (AdPlayPolicy_SerializeAsString (env_lib E) p) \<le> 67108864"
  shows "env_parse_policy (wire_env E) (AdPlayPolicy_SerializeAsString (env_lib E) p) = (True, policy_of p)"
  by (simp add: wire_env_def pb_runtime.AdPlayPolicy_parse [OF assms])

lemma wire_parses_list:
  assumes "pb_runtime (env_lib E)" "Result_valid (env_lib E) r"
    "length (Result_SerializeAsString (env_lib E) r) \<le> 67108864"
  shows "env_parse_result (wire_env E) (Result_SerializeAsString (env_lib E) r) = (True, map ad.truncate (rs_ads r))"
  by (simp add: wire_env_def pb_runtime.Result_parse [OF assms])

lemma wire_small: "small_bodies (wire_env E) \<longleftrightarrow> small_bodies E"
  by (simp add: small_bodies_def delivered_def)

lemma wire_answering: "answering (wire_env E) \<longleftrightarrow> answering E"
  by (simp add: answering_def)

section \<open>What the operations leave of the policy\<close>

lemma map_ops_policy [simp]:
  "mg_policy (map_insert i a m) = mg_policy m" "mg_policy (snd (map_at i m)) = mg_policy m"
  "mg_policy (img_insert i buf m) = mg_policy m" "mg_policy (evict S m) = mg_policy m"
  "mg_policy (expires_from_now t n m) = mg_policy m" "mg_policy (async_wait t m) = mg_policy m"
  by (simp_all add: map_insert_def map_at_def img_insert_def evict_def expires_from_now_def async_wait_def
      split: option.split)

lemma insert_ads_policy [simp]: "mg_policy (insert_ads E ads m) = mg_policy m"
  by (induction E ads m rule: insert_ads.induct) (simp_all add: Let_def)

lemma needed_ids_policy: "mg_policy (snd (needed_ids ids S m)) = mg_policy m"
proof (induction ids S m rule: needed_ids.induct)
  case (2 i ids S m)
  then show ?case using map_ops_policy(2) [of i m] by (simp add: split_beta Let_def)
qed simp

lemma needed_plays_policy: "mg_policy (snd (needed_plays ps S m)) = mg_policy m"
proof (induction ps S m rule: needed_plays.induct)
  case (2 p ps S m)
  then show ?case using needed_ids_policy [of "play_adids p" S m] by (simp add: split_beta Let_def)
qed simp

lemma lock_ids_policy [simp]: "mg_policy (lock_ids ids m) = mg_policy m"
proof (induction ids arbitrary: m)
  case (Cons i ids)
  show ?case
    using map_ops_policy(2) [of i "m\<lparr>mg_lockAds := set_insert uint i (mg_lockAds m)\<rparr>"]
    by (auto simp: Cons.IH split_beta Let_def split: option.split)
qed simp

lemma lock_plays_policy [simp]: "mg_policy (lock_plays ps m) = mg_policy m"
  by (induction ps m rule: lock_plays.induct) simp_all

lemma download_urls_policy: "download_urls E i a urls m = Some m' \<Longrightarrow> mg_policy m' = mg_policy m"
proof (induction urls arbitrary: m)
  case (Cons url urls)
  show ?case
    using Cons.prems Cons.IH [of "m\<lparr>mg_fetched := mg_fetched m @ [url]\<rparr>"]
    by (auto simp: Let_def split: sum.splits option.splits if_splits)
qed simp

lemma download_peer_policy: "download_peer E i a m = Some m' \<Longrightarrow> mg_policy m' = mg_policy m"
  by (auto simp: download_peer_def Let_def elim!: askE split: option.splits if_splits)

lemma downloadAd_policy: "downloadAd E i m = Some m' \<Longrightarrow> mg_policy m' = mg_policy m"
  by (auto simp: downloadAd_def download_urls_policy download_peer_policy split: option.splits if_splits)

lemma download_missing_policy: "download_missing E ids m = Some m' \<Longrightarrow> mg_policy m' = mg_policy m"
proof (induction ids arbitrary: m)
  case (Cons i ids)
  then show ?case by (auto simp: downloadAd_policy split: option.splits if_splits)
qed simp

lemma downloadAds_policy: "downloadAds E m = Some m' \<Longrightarrow> mg_policy m' = mg_policy m"
  using needed_plays_policy [of "pol_adplays (mg_policy m)" "[]" m]
  by (auto simp: downloadAds_def split_beta Let_def dest!: download_missing_policy split: option.splits if_splits)

lemma insert_ads_map:
  "mg_mapAd m i = None \<Longrightarrow> find (\<lambda>a. ad_id a = i) ads = Some a \<Longrightarrow>
     mg_mapAd (insert_ads E ads m) i = Some (utf8ToGB2312_ad E a)"
proof (induction ads arbitrary: m)
  case (Cons b ads)
  let ?m = "map_insert (ad_id b) (utf8ToGB2312_ad E b) m"
  have r: "insert_ads E (b # ads) m = insert_ads E ads ?m" by (simp add: Let_def utf8ToGB2312_ad_def)
  show ?case
  proof (cases "ad_id b = i")
    case True
    then have "mg_mapAd ?m i = Some (utf8ToGB2312_ad E a)" using Cons.prems by (simp add: map_insert_def)
    moreover have "extends ?m (insert_ads E ads ?m)" using quiet_insert_ads by (simp add: quiet_def)
    ultimately show ?thesis unfolding r using extends_known by blast
  next
    case False
    then have "mg_mapAd ?m i = None" using Cons.prems by (simp add: map_insert_def)
    then show ?thesis unfolding r using Cons False by simp
  qed
qed simp

section \<open>What the manager learns\<close>

definition list_request :: message where
  "list_request = Message_new\<lparr>msg_method := ascii ''getAdList''\<rparr>"

lemma requestAdList_learns:
  assumes "\<not> mg_isEndBusiness m" "env_peer E (mg_sent m @ [list_request]) = Some rsp" "msg_returncode rsp = 0"
    "env_parse_result E (msg_content rsp) = (True, ads)"
    "requestAdList E m = Some m'"
  shows "mg_policy m' = mg_policy m"
    "dom (mg_bufImages m') \<subseteq> (\<Union>p \<in> set (pol_adplays (mg_policy m)). set (play_adids p))"
    "mg_mapAd m i = None \<Longrightarrow> find (\<lambda>a. ad_id a = i) ads = Some a \<Longrightarrow> mg_mapAd m' i = Some (utf8ToGB2312_ad E a)"
proof -
  let ?m0 = "m\<lparr>mg_sent := mg_sent m @ [list_request], mg_bufAdList := Message_SerializeAsString (env_lib E)
      (list_response (msg_content rsp))\<rparr>"
  let ?m1 = "insert_ads E ads ?m0"
  define m2 where "m2 = (if \<not> mg_isBarServer ?m1 then lock_plays (pol_adplays (mg_policy ?m1)) ?m1 else ?m1)"
  have d: "downloadAds E m2 = Some m'"
    using assms unfolding list_request_def m2_def by (simp add: requestAdList_def ask_def Let_def)
  have p: "mg_policy m2 = mg_policy m" by (simp add: m2_def)
  then show "mg_policy m' = mg_policy m" using downloadAds_policy [OF d] by simp
  have q: "quiet ?m1 m2" by (simp add: m2_def quiet_lock_plays)
  moreover have "quiet ?m0 ?m1" by (rule quiet_insert_ads)
  ultimately have e: "\<not> mg_isEndBusiness m2" using assms(1) by (simp add: quiet_def extends_def)
  note meets = downloadAds_meets(1,2) [OF d e]
  show "dom (mg_bufImages m') \<subseteq> (\<Union>p \<in> set (pol_adplays (mg_policy m)). set (play_adids p))"
    using meets(2) unfolding wanted_def p by blast
  show "mg_mapAd m' i = Some (utf8ToGB2312_ad E a)" if "mg_mapAd m i = None" "find (\<lambda>a. ad_id a = i) ads = Some a"
  proof -
    have "mg_mapAd ?m1 i = Some (utf8ToGB2312_ad E a)" by (rule insert_ads_map [OF _ that(2)]) (simp add: that(1))
    then have "mg_mapAd m2 i = Some (utf8ToGB2312_ad E a)" using q extends_known by (auto simp: quiet_def)
    then show ?thesis using meets(1) extends_known by blast
  qed
qed

lemma requestAdPlayPolicy_learns:
  assumes "\<not> mg_isEndBusiness m"
    "env_peer E (mg_sent m @ [policy_request E m]) = Some rsp" "msg_returncode rsp = 0"
    "env_parse_policy E (msg_content rsp) = (True, pol)"
    "env_peer E (mg_sent m @ [policy_request E m, list_request]) = Some rsp'" "msg_returncode rsp' = 0"
    "env_parse_result E (msg_content rsp') = (True, ads)"
    "requestAdPlayPolicy E m = Some m'"
  shows "mg_policy m' = pol"
    "dom (mg_bufImages m') \<subseteq> (\<Union>p \<in> set (pol_adplays pol). set (play_adids p))"
    "mg_mapAd m i = None \<Longrightarrow> find (\<lambda>a. ad_id a = i) ads = Some a \<Longrightarrow> mg_mapAd m' i = Some (utf8ToGB2312_ad E a)"
proof -
  let ?rsp = "policy_response (msg_content rsp)"
  define m1 where "m1 = (expires_from_now TimerPolicy (6 * 60 * 60)
      (m\<lparr>mg_sent := mg_sent m @ [policy_request E m], mg_policy := pol\<rparr>))
        \<lparr>mg_bufPolicy := Message_SerializeAsString (env_lib E) ?rsp\<rparr>"
  obtain m2 where m2: "requestAdList E m1 = Some m2" "m' = async_wait TimerPolicy m2"
    using assms unfolding policy_request_def m1_def by (auto simp: requestAdPlayPolicy_def ask_def Let_def)
  have s: "\<not> mg_isEndBusiness m1" "mg_sent m1 = mg_sent m @ [policy_request E m]" "mg_policy m1 = pol"
    "mg_mapAd m1 = mg_mapAd m"
    using assms(1) by (simp_all add: m1_def expires_from_now_def)
  have "requestAdList E m1 = Some m2 \<Longrightarrow> mg_policy m2 = mg_policy m1 \<and>
      dom (mg_bufImages m2) \<subseteq> (\<Union>p \<in> set (pol_adplays (mg_policy m1)). set (play_adids p)) \<and>
      (mg_mapAd m1 i = None \<longrightarrow> find (\<lambda>a. ad_id a = i) ads = Some a \<longrightarrow> mg_mapAd m2 i = Some (utf8ToGB2312_ad E a))"
    using requestAdList_learns(1,2) [of m1 E rsp' ads m2] requestAdList_learns(3) [of m1 E rsp' ads m2 i a] s(1,2)
      assms(5-7) by simp
  note l = this [OF m2(1)]
  show "mg_policy m' = pol" using l s(3) m2(2) by simp
  show "dom (mg_bufImages m') \<subseteq> (\<Union>p \<in> set (pol_adplays pol). set (play_adids p))"
    using l unfolding m2(2) s(3) by (simp add: async_wait_def)
  show "mg_mapAd m' i = Some (utf8ToGB2312_ad E a)" if "mg_mapAd m i = None" "find (\<lambda>a. ad_id a = i) ads = Some a"
    using l that unfolding m2(2) s(4) by (simp add: async_wait_def)
qed

section \<open>A sample peer\<close>

text \<open>A peer that answers with the sample policy and the sample list.\<close>

definition serving_env :: env where
  "serving_env = sample_env\<lparr>env_peer := (\<lambda>hist.
     Some (if last hist = list_request then Message_new\<lparr>msg_content := Result_SerializeAsString ref_lib wire_list\<rparr>
           else Message_new\<lparr>msg_content := AdPlayPolicy_SerializeAsString ref_lib wire_policy\<rparr>))\<rparr>"

lemma serving_env_sel [simp]:
  "env_lib serving_env = ref_lib"
  "env_peer serving_env hist = Some (if last hist = list_request
     then Message_new\<lparr>msg_content := Result_SerializeAsString ref_lib wire_list\<rparr>
     else Message_new\<lparr>msg_content := AdPlayPolicy_SerializeAsString ref_lib wire_policy\<rparr>)"
  "env_http serving_env urls = Some (Inr (200, [1, 2, 3]))"
  by (simp_all add: serving_env_def)

lemma serving_small: "small_bodies serving_env"
  using wire_list_length wire_policy_length sample_small
  by (auto simp: small_bodies_def delivered_def serving_env_def Message_new_def)

lemma serving_answering: "answering serving_env"
  by (simp add: answering_def)

lemma requests_differ: "policy_request E m \<noteq> list_request"
  using methods_differ(1) by (auto simp: policy_request_def list_request_def Message_new_def)

section \<open>Property\<close>

text \<open>C4: What the peer serialises is what the manager acts on.  If the peer answers the request for the policy
  with a serialised policy and the request for the list with a serialised list, then, parsed by the generated
  code, the request returns (if the downloads that follow are answered too), the policy of the manager has every field of the one that was sent, every
  advertisement of the list with a new number is known by that number (the first one, if a number occurs
  twice), and no file stays in memory that the policy does not name.\<close>

theorem policy_and_list_understood:
  assumes "pb_runtime (env_lib E)" "small_bodies E" "answering E" "\<not> mg_isEndBusiness m"
    and policy: "AdPlayPolicy_valid (env_lib E) p" "length (AdPlayPolicy_SerializeAsString (env_lib E) p) \<le> 67108864"
      "env_peer E (mg_sent m @ [policy_request E m]) = Some rsp" "msg_returncode rsp = 0"
      "msg_content rsp = AdPlayPolicy_SerializeAsString (env_lib E) p"
    and ads: "Result_valid (env_lib E) r" "length (Result_SerializeAsString (env_lib E) r) \<le> 67108864"
      "env_peer E (mg_sent m @ [policy_request E m, list_request]) = Some rsp'" "msg_returncode rsp' = 0"
      "msg_content rsp' = Result_SerializeAsString (env_lib E) r"
  shows "\<exists>m'. requestAdPlayPolicy (wire_env E) m = Some m' \<and> mg_policy m' = policy_of p
    \<and> (\<forall>i a. mg_mapAd m i = None \<and> find (\<lambda>a. ad_id a = i) (map ad.truncate (rs_ads r)) = Some a
         \<longrightarrow> mg_mapAd m' i = Some (utf8ToGB2312_ad E a))
    \<and> dom (mg_bufImages m') \<subseteq> (\<Union>e \<in> set (pp_adplays p). set (ap_adids e))"
proof -
  have q: "policy_request (wire_env E) m = policy_request E m" by (simp add: policy_request_def)
  have u: "utf8ToGB2312_ad (wire_env E) a = utf8ToGB2312_ad E a" for a by (simp add: utf8ToGB2312_ad_def)
  obtain m' where m': "requestAdPlayPolicy (wire_env E) m = Some m'"
    using requestAdPlayPolicy_returns [of "wire_env E" m] assms(2,3) by (auto simp: wire_small wire_answering)
  note l = requestAdPlayPolicy_learns [of m "wire_env E" rsp "policy_of p" rsp' "map ad.truncate (rs_ads r)" m',
      unfolded q wire_env_sel policy(5) ads(5) u, OF assms(4) policy(3,4) wire_parses_policy [OF assms(1) policy(1,2)]
      ads(3,4) wire_parses_list [OF assms(1) ads(1,2)] m']
  have "dom (mg_bufImages m') \<subseteq> (\<Union>e \<in> set (pp_adplays p). set (ap_adids e))"
    using l(2) by (simp add: policy_of_def play_of_def)
  with m' l(1,3) show ?thesis by blast
qed

theorem policy_and_list_understood_witness:
  "\<exists>m'. requestAdPlayPolicy (wire_env serving_env) (sample_start True) = Some m' \<and> mg_policy m' = policy_of wire_policy
    \<and> (\<forall>i a. mg_mapAd (sample_start True) i = None \<and> find (\<lambda>a. ad_id a = i) (map ad.truncate (rs_ads wire_list)) = Some a
         \<longrightarrow> mg_mapAd m' i = Some (utf8ToGB2312_ad serving_env a))
    \<and> dom (mg_bufImages m') \<subseteq> (\<Union>e \<in> set (pp_adplays wire_policy). set (ap_adids e))"
  by (rule policy_and_list_understood [OF _ serving_small serving_answering,
        where rsp = "Message_new\<lparr>msg_content := AdPlayPolicy_SerializeAsString ref_lib wire_policy\<rparr>"
          and rsp' = "Message_new\<lparr>msg_content := Result_SerializeAsString ref_lib wire_list\<rparr>"])
    (simp_all add: ref_lib_runtime wire_policy_valid wire_policy_length wire_list_valid wire_list_length requests_differ)

end
