(* ===== verification/RepeatedField.thy ===== *)
theory RepeatedField
  imports AdPrelude "HOL-Library.Monad_Syntax"
begin

text \<open>
  Repeated fields of numbers, class \<open>RepeatedField\<close> of
  \<^verbatim>\<open>google/protobuf/repeated_field.h\<close>: a growing array.  The fields are on the heap, as
  all of the program are; those on an arena are not modelled.
\<close>

section \<open>The object\<close>

text \<open>The sizes are the values of C \<open>int\<close>s.  An element that was never assigned is \<open>None\<close>, and so is the
  array of a field that never had one.\<close>

record 'a repeated =
  rf_size :: int
  rf_total :: int
  rf_rep :: "'a option list option"

definition RepeatedField :: "'a repeated" where
  "RepeatedField = \<lparr>rf_size = 0, rf_total = 0, rf_rep = None\<rparr>"

text \<open>The results of the operations are \<open>None\<close> where the behaviour is undefined (an access outside the
  array, a value that was never assigned, a sum that is no \<open>int\<close>) or the program is ended by a failed
  \<open>GOOGLE_CHECK\<close>.  The checks \<open>GOOGLE_DCHECK\<close> are not in a release build.  \<open>lim\<close> is the number of
  elements whose size in bytes fits \<open>size_t\<close>.  Elements are passed by value: an argument that is a
  reference into the array itself, which \<open>Reserve\<close> would free before \<open>Add\<close> or \<open>Resize\<close> read it, is
  outside the model; the generated code passes locals.\<close>

definition as_int :: "int \<Rightarrow> int option" where
  "as_int n = (if - 2147483648 \<le> n \<and> n \<le> 2147483647 then Some n else None)"

definition rf_Get :: "int \<Rightarrow> 'a repeated \<Rightarrow> 'a option" where
  "rf_Get i f =
     (case rf_rep f of None \<Rightarrow> None | Some es \<Rightarrow> if 0 \<le> i \<and> i < int (length es) then es ! nat i else None)"

definition rf_Set :: "int \<Rightarrow> 'a \<Rightarrow> 'a repeated \<Rightarrow> 'a repeated option" where
  "rf_Set i x f =
     (case rf_rep f of
        None \<Rightarrow> None
      | Some es \<Rightarrow> if 0 \<le> i \<and> i < int (length es) then Some (f\<lparr>rf_rep := Some (es[nat i := Some x])\<rparr>) else None)"

text \<open>\<open>CopyArray\<close> of \<open>n\<close> elements to the position \<open>k\<close> of an array.\<close>

definition copy_array :: "int \<Rightarrow> 'b list \<Rightarrow> int \<Rightarrow> 'b list \<Rightarrow> 'b list option" where
  "copy_array k src n dst =
     (if 0 \<le> n \<and> n \<le> int (length src) \<and> 0 \<le> k \<and> k + n \<le> int (length dst)
      then Some (take (nat k) dst @ take (nat n) src @ drop (nat (k + n)) dst) else None)"

definition rf_Reserve :: "int \<Rightarrow> int \<Rightarrow> 'a repeated \<Rightarrow> 'a repeated option" where
  "rf_Reserve lim new_size f =
     (if new_size \<le> rf_total f then Some f
      else do {
        doubled \<leftarrow> as_int (rf_total f * 2);
        let new_size = max 4 (max doubled new_size);
        if new_size \<le> lim
        then do {
          es \<leftarrow> (if 0 < rf_size f
                 then do { old \<leftarrow> rf_rep f; copy_array 0 old (rf_size f) (replicate (nat new_size) None) }
                 else Some (replicate (nat new_size) None));
          Some (f\<lparr>rf_total := new_size, rf_rep := Some es\<rparr>) }
        else None })"

definition rf_AddAlreadyReserved :: "'a \<Rightarrow> 'a repeated \<Rightarrow> 'a repeated option" where
  "rf_AddAlreadyReserved x f =
     do { f' \<leftarrow> rf_Set (rf_size f) x f; n \<leftarrow> as_int (rf_size f + 1); Some (f'\<lparr>rf_size := n\<rparr>) }"

definition rf_Add :: "int \<Rightarrow> 'a \<Rightarrow> 'a repeated \<Rightarrow> 'a repeated option" where
  "rf_Add lim x f =
     do {
       f \<leftarrow> (if rf_size f = rf_total f then do { n \<leftarrow> as_int (rf_total f + 1); rf_Reserve lim n f } else Some f);
       rf_AddAlreadyReserved x f }"

definition rf_RemoveLast :: "'a repeated \<Rightarrow> 'a repeated" where
  "rf_RemoveLast f = f\<lparr>rf_size := rf_size f - 1\<rparr>"

definition rf_Clear :: "'a repeated \<Rightarrow> 'a repeated" where
  "rf_Clear f = f\<lparr>rf_size := 0\<rparr>"

definition rf_Truncate :: "int \<Rightarrow> 'a repeated \<Rightarrow> 'a repeated" where
  "rf_Truncate new_size f = (if 0 < rf_size f then f\<lparr>rf_size := new_size\<rparr> else f)"

text \<open>The loops of \<open>std::fill\<close> and of \<open>ExtractSubrange\<close>, with the number of turns that are left.\<close>

fun rf_fill :: "nat \<Rightarrow> int \<Rightarrow> 'a \<Rightarrow> 'a repeated \<Rightarrow> 'a repeated option" where
  "rf_fill 0 i x f = Some f"
| "rf_fill (Suc k) i x f = do { f \<leftarrow> rf_Set i x f; rf_fill k (i + 1) x f }"

fun rf_slide :: "nat \<Rightarrow> int \<Rightarrow> int \<Rightarrow> 'a repeated \<Rightarrow> 'a repeated option" where
  "rf_slide 0 i num f = Some f"
| "rf_slide (Suc k) i num f = do { x \<leftarrow> rf_Get i f; f \<leftarrow> rf_Set (i - num) x f; rf_slide k (i + 1) num f }"

fun rf_saved :: "nat \<Rightarrow> int \<Rightarrow> 'a repeated \<Rightarrow> 'a list option" where
  "rf_saved 0 i f = Some []"
| "rf_saved (Suc k) i f = do { x \<leftarrow> rf_Get i f; xs \<leftarrow> rf_saved k (i + 1) f; Some (x # xs) }"

definition rf_Resize :: "int \<Rightarrow> int \<Rightarrow> 'a \<Rightarrow> 'a repeated \<Rightarrow> 'a repeated option" where
  "rf_Resize lim new_size x f =
     do {
       f \<leftarrow> (if rf_size f < new_size
            then do { f \<leftarrow> rf_Reserve lim new_size f; rf_fill (nat (new_size - rf_size f)) (rf_size f) x f }
            else Some f);
       Some (f\<lparr>rf_size := new_size\<rparr>) }"

text \<open>The removed elements, in an array of the caller, and the field.\<close>

definition rf_ExtractSubrange :: "int \<Rightarrow> int \<Rightarrow> 'a repeated \<Rightarrow> ('a list \<times> 'a repeated) option" where
  "rf_ExtractSubrange start num f =
     do {
       elements \<leftarrow> rf_saved (nat num) start f;
       f \<leftarrow> (if 0 < num
            then do {
              f \<leftarrow> rf_slide (nat (rf_size f - (start + num))) (start + num) num f;
              Some (rf_Truncate (rf_size f - num) f) }
            else Some f);
       Some (elements, f) }"

definition rf_MergeFrom :: "int \<Rightarrow> 'a repeated \<Rightarrow> 'a repeated \<Rightarrow> 'a repeated option" where
  "rf_MergeFrom lim other f =
     (if rf_size other = 0 then Some f
      else do {
        n \<leftarrow> as_int (rf_size f + rf_size other);
        f \<leftarrow> rf_Reserve lim n f;
        es \<leftarrow> rf_rep f;
        src \<leftarrow> rf_rep other;
        es \<leftarrow> copy_array (rf_size f) src (rf_size other) es;
        Some (f\<lparr>rf_rep := Some es, rf_size := n\<rparr>) })"

definition rf_CopyFrom :: "bool \<Rightarrow> int \<Rightarrow> 'a repeated \<Rightarrow> 'a repeated \<Rightarrow> 'a repeated option" where
  "rf_CopyFrom same_object lim other f = (if same_object then Some f else rf_MergeFrom lim other (rf_Clear f))"

text \<open>The copy constructor, and the constructor from a range, whose length is known for all but input iterators.\<close>

definition rf_copy :: "int \<Rightarrow> 'a repeated \<Rightarrow> 'a repeated option" where
  "rf_copy lim other =
     (if rf_size other \<noteq> 0
      then do {
        f \<leftarrow> rf_Reserve lim (rf_size other) RepeatedField;
        es \<leftarrow> rf_rep f;
        src \<leftarrow> rf_rep other;
        es \<leftarrow> copy_array 0 src (rf_size other) es;
        Some (f\<lparr>rf_rep := Some es, rf_size := rf_size other\<rparr>) }
      else Some RepeatedField)"

fun rf_add_reserved :: "'a list \<Rightarrow> 'a repeated \<Rightarrow> 'a repeated option" where
  "rf_add_reserved [] f = Some f"
| "rf_add_reserved (x # xs) f = do { f \<leftarrow> rf_AddAlreadyReserved x f; rf_add_reserved xs f }"

fun rf_add_each :: "int \<Rightarrow> 'a list \<Rightarrow> 'a repeated \<Rightarrow> 'a repeated option" where
  "rf_add_each lim [] f = Some f"
| "rf_add_each lim (x # xs) f = do { f \<leftarrow> rf_Add lim x f; rf_add_each lim xs f }"

definition rf_from_range :: "bool \<Rightarrow> int \<Rightarrow> 'a list \<Rightarrow> 'a repeated option" where
  "rf_from_range length_known lim xs =
     (if length_known
      then do { f \<leftarrow> rf_Reserve lim (int (length xs)) RepeatedField; rf_add_reserved xs f }
      else rf_add_each lim xs RepeatedField)"

definition rf_InternalSwap :: "'a repeated \<Rightarrow> 'a repeated \<Rightarrow> 'a repeated \<times> 'a repeated" where
  "rf_InternalSwap f other =
     (f\<lparr>rf_rep := rf_rep other, rf_size := rf_size other, rf_total := rf_total other\<rparr>,
      other\<lparr>rf_rep := rf_rep f, rf_size := rf_size f, rf_total := rf_total f\<rparr>)"

definition rf_SwapElements :: "int \<Rightarrow> int \<Rightarrow> 'a repeated \<Rightarrow> 'a repeated option" where
  "rf_SwapElements i j f = do { x \<leftarrow> rf_Get i f; y \<leftarrow> rf_Get j f; f \<leftarrow> rf_Set i y f; rf_Set j x f }"

text \<open>\<open>erase\<close> of the positions from \<open>pos\<close> to \<open>lim_pos\<close>: \<open>std::copy\<close> of what is behind them.\<close>

definition rf_erase :: "int \<Rightarrow> int \<Rightarrow> 'a repeated \<Rightarrow> 'a repeated option" where
  "rf_erase pos lim_pos f =
     (if pos \<noteq> lim_pos
      then do {
        f \<leftarrow> rf_slide (nat (rf_size f - lim_pos)) lim_pos (lim_pos - pos) f;
        Some (rf_Truncate (pos + (rf_size f - lim_pos)) f) }
      else Some f)"

definition rf_SpaceUsed :: "int \<Rightarrow> int \<Rightarrow> 'a repeated \<Rightarrow> int" where
  "rf_SpaceUsed element_size header_size f =
     (case rf_rep f of None \<Rightarrow> 0 | Some _ \<Rightarrow> rf_total f * element_size + header_size)"

section \<open>The abstract field\<close>

text \<open>A field that holds the list \<open>xs\<close>: its array starts with them, and what is behind them is free.\<close>

definition field_holds :: "'a repeated \<Rightarrow> 'a list \<Rightarrow> bool" where
  "field_holds f xs \<longleftrightarrow>
     (\<exists>free. rf_size f = int (length xs) \<and> rf_total f = int (length xs + length free)
        \<and> (case rf_rep f of None \<Rightarrow> xs = [] \<and> free = [] | Some es \<Rightarrow> es = map Some xs @ free))"

text \<open>Lengths, up to \<open>2 ^ 30\<close>, for which neither an \<open>int\<close> nor \<open>size_t\<close> overflows when \<open>Reserve\<close> doubles.\<close>

definition field_fits :: "int \<Rightarrow> nat \<Rightarrow> bool" where
  "field_fits lim n \<longleftrightarrow> 4 \<le> lim \<and> lim \<le> 2147483647 \<and> 2 * int n \<le> lim"

lemma holds_cases:
  assumes "field_holds f xs"
  obtains (null) "xs = []" "f = RepeatedField"
  | (array) free where "f = \<lparr>rf_size = int (length xs), rf_total = int (length xs + length free),
      rf_rep = Some (map Some xs @ free)\<rparr>"
  using assms
  by (cases f; cases "rf_rep f") (auto simp: field_holds_def RepeatedField_def)

lemma holds_array:
  "field_holds \<lparr>rf_size = int (length xs), rf_total = int (length xs + length free), rf_rep = Some (map Some xs @ free)\<rparr> xs"
  by (simp add: field_holds_def)

lemma holdsI:
  "rf_size f = int (length xs) \<Longrightarrow> rf_total f = int (length xs + length free) \<Longrightarrow> rf_rep f = Some (map Some xs @ free) \<Longrightarrow>
     field_holds f xs"
  by (auto simp: field_holds_def)

lemma holds_new: "field_holds RepeatedField []"
  by (simp add: field_holds_def RepeatedField_def)

lemma rf_Get_holds: "field_holds f xs \<Longrightarrow> i < length xs \<Longrightarrow> rf_Get (int i) f = Some (xs ! i)"
  by (erule holds_cases) (auto simp: rf_Get_def nth_append)

lemma rf_Set_holds:
  assumes "field_holds f xs" "i < length xs"
  shows "\<exists>f'. rf_Set (int i) x f = Some f' \<and> field_holds f' (xs[i := x]) \<and> rf_total f' = rf_total f"
  using assms
proof (cases rule: holds_cases)
  case (array free)
  then show ?thesis using assms(2)
    using holds_array [of "xs[i := x]" free] by (auto simp: rf_Set_def list_update_append map_update)
qed (use assms in simp)

text \<open>\<open>Reserve\<close> makes room and keeps the list; the capacity at least doubles when it grows.\<close>

lemma rf_Reserve_holds:
  assumes "field_holds f xs" "field_fits lim n" "length xs \<le> n"
  shows "\<exists>f'. rf_Reserve lim (int n) f = Some f' \<and> field_holds f' xs \<and> int n \<le> rf_total f'
    \<and> rf_total f' \<le> max (rf_total f) (max 4 (2 * int n))
    \<and> (rf_total f' = rf_total f \<or> 2 * rf_total f \<le> rf_total f') \<and> (0 < n \<longrightarrow> rf_rep f' \<noteq> None)"
  using assms(1)
proof (cases rule: holds_cases)
  case null
  let ?f = "\<lparr>rf_size = 0, rf_total = int (max 4 n), rf_rep = Some (replicate (max 4 n) None)\<rparr> :: 'a repeated"
  have m: "max 4 (int n) = int (max 4 n)" by simp
  have "rf_Reserve lim (int n) f = Some (if n = 0 then f else ?f)"
    using null assms(2)
    by (auto simp: rf_Reserve_def as_int_def field_fits_def RepeatedField_def m Let_def simp del: of_nat_max)
  moreover have "field_holds ?f []" using holds_array [of "[]" "replicate (max 4 n) None"] by simp
  ultimately show ?thesis using assms(1) null by (auto simp: RepeatedField_def)
next
  case (array free)
  let ?m = "max 4 (max (rf_total f * 2) (int n))"
  have t: "rf_total f = int (length xs) + int (length free)" "rf_size f = int (length xs)" using array by auto
  show ?thesis
  proof (cases "int n \<le> rf_total f")
    case True
    then show ?thesis using assms(1) array by (auto simp: rf_Reserve_def)
  next
    case False
    have m: "?m \<le> lim" "as_int (rf_total f * 2) = Some (rf_total f * 2)" "?m \<le> max 4 (2 * int n)"
      using False assms(2) t by (auto simp: field_fits_def as_int_def)
    have len: "length xs \<le> nat ?m" using t by linarith
    let ?free = "drop (length xs) (replicate (nat ?m) None)"
    let ?f = "\<lparr>rf_size = int (length xs), rf_total = ?m, rf_rep = Some (map Some xs @ ?free)\<rparr>"
    have "rf_Reserve lim (int n) f = Some ?f"
      using False m array len
      by (cases "xs = []") (auto simp: rf_Reserve_def copy_array_def Let_def)
    moreover have "0 \<le> ?m" by simp
    then have "int (length xs + (nat ?m - length xs)) = ?m" using len by linarith
    then have "field_holds ?f xs" unfolding field_holds_def by (intro exI [of _ ?free]) simp
    ultimately show ?thesis using m t by (auto simp: max_def split: if_splits)
  qed
qed

lemma rf_AddAlreadyReserved_holds:
  assumes "field_holds f xs" "int (length xs) < rf_total f" "length xs < 2147483647"
  shows "\<exists>f'. rf_AddAlreadyReserved x f = Some f' \<and> field_holds f' (xs @ [x]) \<and> rf_total f' = rf_total f"
  using assms(1)
proof (cases rule: holds_cases)
  case (array free)
  then obtain e free' where free: "free = e # free'" using assms(2) by (cases free) auto
  show ?thesis
    using array free assms(3)
    by (auto simp: rf_AddAlreadyReserved_def rf_Set_def as_int_def list_update_append intro: holdsI [of _ _ free'])
qed (use assms in \<open>simp add: RepeatedField_def\<close>)

lemma rf_Add_holds:
  assumes "field_holds f xs" "field_fits lim (Suc (length xs))"
  shows "\<exists>f'. rf_Add lim x f = Some f' \<and> field_holds f' (xs @ [x])
    \<and> rf_total f' \<le> max (rf_total f) (max 4 (2 * int (Suc (length xs))))"
proof -
  have small: "length xs < 2147483647" using assms(2) by (simp add: field_fits_def)
  show ?thesis
  proof (cases "rf_size f = rf_total f")
    case True
    have t: "rf_total f = int (length xs)" using assms(1) True by (auto simp: field_holds_def)
    obtain f1 where f1: "rf_Reserve lim (int (Suc (length xs))) f = Some f1" "field_holds f1 xs"
      "int (Suc (length xs)) \<le> rf_total f1" "rf_total f1 \<le> max (rf_total f) (max 4 (2 * int (Suc (length xs))))"
      using rf_Reserve_holds [OF assms] by auto
    then obtain f2 where "rf_AddAlreadyReserved x f1 = Some f2" "field_holds f2 (xs @ [x])" "rf_total f2 = rf_total f1"
      using rf_AddAlreadyReserved_holds [OF f1(2) _ small] by force
    then show ?thesis using True t f1 small by (simp add: rf_Add_def as_int_def add.commute)
  next
    case False
    then have "int (length xs) < rf_total f" using assms(1) by (auto simp: field_holds_def)
    then show ?thesis
      using rf_AddAlreadyReserved_holds [OF assms(1) _ small, of x] False by (auto simp: rf_Add_def)
  qed
qed

lemma rf_RemoveLast_holds:
  assumes "field_holds f (xs @ [x])"
  shows "field_holds (rf_RemoveLast f) xs"
  using assms
proof (cases rule: holds_cases)
  case (array free)
  then show ?thesis by (intro holdsI [of _ _ "Some x # free"]) (simp_all add: rf_RemoveLast_def)
qed simp

lemma rf_shrink_holds:
  assumes "field_holds f (xs @ ys)"
  shows "field_holds (f\<lparr>rf_size := int (length xs)\<rparr>) xs"
  using assms
proof (cases rule: holds_cases)
  case (array free)
  then show ?thesis by (intro holdsI [of _ _ "map Some ys @ free"]) simp_all
qed (simp add: field_holds_def RepeatedField_def)

lemma rf_Clear_holds: "field_holds f xs \<Longrightarrow> field_holds (rf_Clear f) []"
  using rf_shrink_holds [of f "[]" xs] by (simp add: rf_Clear_def)

lemma rf_Truncate_holds:
  assumes "field_holds f (xs @ ys)"
  shows "field_holds (rf_Truncate (int (length xs)) f) xs"
proof (cases "0 < rf_size f")
  case True
  then show ?thesis using rf_shrink_holds [OF assms] by (simp add: rf_Truncate_def)
next
  case False
  moreover have "rf_size f = int (length (xs @ ys))" using assms by (auto simp: field_holds_def)
  ultimately have "length (xs @ ys) = 0" by linarith
  then have "xs = []" "ys = []" by simp_all
  then show ?thesis using assms False by (simp add: rf_Truncate_def)
qed

lemma rf_MergeFrom_holds:
  assumes "field_holds f xs" "field_holds other ys" "field_fits lim (length xs + length ys)"
  shows "\<exists>f'. rf_MergeFrom lim other f = Some f' \<and> field_holds f' (xs @ ys)"
proof (cases "ys = []")
  case True
  then show ?thesis using assms by (auto simp: rf_MergeFrom_def field_holds_def)
next
  case False
  then obtain free where o: "rf_rep other = Some (map Some ys @ free)" "rf_size other = int (length ys)"
    using assms(2) by (elim holds_cases) auto
  have s: "rf_size f = int (length xs)" using assms(1) by (auto simp: field_holds_def)
  obtain f1 where f1: "rf_Reserve lim (int (length xs + length ys)) f = Some f1" "field_holds f1 xs"
    "int (length xs + length ys) \<le> rf_total f1" "rf_rep f1 \<noteq> None"
    using rf_Reserve_holds [OF assms(1,3)] False by auto
  from f1(2) show ?thesis
  proof (cases rule: holds_cases)
    case (array free1)
    have len: "length ys \<le> length free1" using f1(3) array by simp
    have "int (length xs) + int (length ys) \<le> 2147483647" using assms(3) by (simp add: field_fits_def)
    then show ?thesis
      using False o s f1 array len
      by (auto simp: rf_MergeFrom_def as_int_def copy_array_def nat_add_distrib
          intro!: holdsI [of _ _ "drop (length ys) free1"])
  qed (use f1 in \<open>simp add: RepeatedField_def\<close>)
qed

lemma rf_CopyFrom_holds:
  assumes "field_holds f xs" "field_holds other ys" "field_fits lim (length ys)"
  shows "\<exists>f'. rf_CopyFrom False lim other f = Some f' \<and> field_holds f' ys"
  using rf_MergeFrom_holds [OF rf_Clear_holds [OF assms(1)] assms(2), of lim] assms(3) by (simp add: rf_CopyFrom_def)

lemma rf_copy_is_merge: "rf_size other \<le> 2147483647 \<and> 0 \<le> rf_size other \<Longrightarrow> rf_copy lim other = rf_MergeFrom lim other RepeatedField"
  by (auto simp: rf_copy_def rf_MergeFrom_def RepeatedField_def rf_Reserve_def as_int_def Let_def
      split: option.split bind_split)

lemma rf_copy_holds:
  assumes "field_holds other ys" "field_fits lim (length ys)"
  shows "\<exists>f'. rf_copy lim other = Some f' \<and> field_holds f' ys"
proof -
  have "rf_size other \<le> 2147483647 \<and> 0 \<le> rf_size other" using assms by (auto simp: field_holds_def field_fits_def)
  then show ?thesis using rf_MergeFrom_holds [OF holds_new assms(1)] assms(2) by (simp add: rf_copy_is_merge)
qed

lemma rf_add_reserved_holds:
  assumes "field_holds f xs" "int (length xs + length ys) \<le> rf_total f" "length xs + length ys \<le> 2147483647"
  shows "\<exists>f'. rf_add_reserved ys f = Some f' \<and> field_holds f' (xs @ ys)"
  using assms
proof (induction ys arbitrary: f xs)
  case (Cons y ys)
  obtain f1 where f1: "rf_AddAlreadyReserved y f = Some f1" "field_holds f1 (xs @ [y])" "rf_total f1 = rf_total f"
    using rf_AddAlreadyReserved_holds [OF Cons.prems(1), of y] Cons.prems(2,3) by auto
  then show ?case using Cons.IH [OF f1(2)] Cons.prems by simp
qed auto

lemma rf_add_each_holds:
  assumes "field_holds f xs" "field_fits lim (length xs + length ys)"
  shows "\<exists>f'. rf_add_each lim ys f = Some f' \<and> field_holds f' (xs @ ys)"
  using assms
proof (induction ys arbitrary: f xs)
  case (Cons y ys)
  have "field_fits lim (Suc (length xs))" using Cons.prems(2) by (simp add: field_fits_def)
  then obtain f1 where f1: "rf_Add lim y f = Some f1" "field_holds f1 (xs @ [y])"
    using rf_Add_holds [OF Cons.prems(1)] by blast
  then show ?case using Cons.IH [OF f1(2)] Cons.prems(2) by simp
qed auto

lemma rf_from_range_holds:
  fixes xs :: "'a list"
  assumes "field_fits lim (length xs)"
  shows "\<exists>f. rf_from_range length_known lim xs = Some f \<and> field_holds f xs"
proof (cases length_known)
  case False
  then show ?thesis using rf_add_each_holds [OF holds_new, of lim xs] assms by (simp add: rf_from_range_def)
next
  case True
  obtain f where f: "rf_Reserve lim (int (length xs)) (RepeatedField :: 'a repeated) = Some f" "field_holds f []" "int (length xs) \<le> rf_total f"
    using rf_Reserve_holds [OF holds_new assms] by auto
  then show ?thesis
    using True rf_add_reserved_holds [OF f(2), of xs] assms by (auto simp: rf_from_range_def field_fits_def)
qed

lemma rf_fill_array:
  assumes "rf_rep f = Some es" "i + k \<le> length es"
  shows "rf_fill k (int i) x f = Some (f\<lparr>rf_rep := Some (take i es @ replicate k (Some x) @ drop (i + k) es)\<rparr>)"
  using assms
proof (induction k arbitrary: i f es)
  case (Suc k)
  have "rf_Set (int i) x f = Some (f\<lparr>rf_rep := Some (es[i := Some x])\<rparr>)" using Suc.prems by (simp add: rf_Set_def)
  moreover have "take (Suc i) (es[i := Some x]) = take i es @ [Some x]"
    using Suc.prems by (simp add: take_Suc_conv_app_nth)
  ultimately show ?case using Suc.IH [of "f\<lparr>rf_rep := Some (es[i := Some x])\<rparr>" "es[i := Some x]" "Suc i"] Suc.prems
    by (simp add: add.commute)
qed simp

lemma rf_Resize_grows:
  assumes "field_holds f xs" "field_fits lim (length xs + k)"
  shows "\<exists>f'. rf_Resize lim (int (length xs + k)) x f = Some f' \<and> field_holds f' (xs @ replicate k x)"
proof (cases "k = 0")
  case True
  then show ?thesis using assms(1) rf_shrink_holds [of f xs "[]"] by (auto simp: rf_Resize_def field_holds_def)
next
  case False
  obtain f1 where f1: "rf_Reserve lim (int (length xs + k)) f = Some f1" "field_holds f1 xs"
    "int (length xs + k) \<le> rf_total f1" "rf_rep f1 \<noteq> None"
    using rf_Reserve_holds [OF assms] False by auto
  have s: "rf_size f = int (length xs)" using assms(1) by (auto simp: field_holds_def)
  from f1(2) show ?thesis
  proof (cases rule: holds_cases)
    case (array free)
    then have "k \<le> length free" using f1(3) by simp
    then show ?thesis
      using f1(1) s array False rf_fill_array [of f1 "map Some xs @ free" "length xs" k x]
      by (auto simp: rf_Resize_def intro!: holdsI [of _ _ "drop k free"])
  qed (use f1 in \<open>simp add: RepeatedField_def\<close>)
qed

lemma rf_Resize_shrinks:
  assumes "field_holds f (xs @ ys)"
  shows "\<exists>f'. rf_Resize lim (int (length xs)) x f = Some f' \<and> field_holds f' xs"
  using assms rf_shrink_holds [OF assms] by (auto simp: rf_Resize_def field_holds_def)

text \<open>The elements behind a gap of \<open>num\<close> slide down over it.\<close>

lemma slide_step:
  assumes "i < length xs" "num \<le> i" "0 < num"
  shows "take (Suc i - num) (xs[i - num := xs ! i]) @ drop (Suc i) (xs[i - num := xs ! i])
      @ drop (Suc i - num + k) (xs[i - num := xs ! i]) =
    take (i - num) xs @ drop i xs @ drop (i - num + Suc k) xs"
proof -
  have "Suc i - num = Suc (i - num)" using assms by simp
  then show ?thesis using assms by (simp add: take_Suc_conv_app_nth Cons_nth_drop_Suc)
qed

lemma rf_slide_holds:
  assumes "field_holds f xs" "i + k = length xs" "num \<le> i" "0 < num"
  shows "\<exists>f'. rf_slide k (int i) (int num) f = Some f'
    \<and> field_holds f' (take (i - num) xs @ drop i xs @ drop (i - num + k) xs)"
  using assms
proof (induction k arbitrary: i f xs)
  case 0
  then show ?case by simp
next
  case (Suc k)
  have i: "i < length xs" using Suc.prems(2) by simp
  let ?xs = "xs[i - num := xs ! i]"
  have "i - num < length xs" using i by simp
  then obtain f1 where f1: "rf_Set (int (i - num)) (xs ! i) f = Some f1" "field_holds f1 ?xs"
    using rf_Set_holds [OF Suc.prems(1)] by blast
  have d: "int i - int num = int (i - num)" using Suc.prems(3) by simp
  have "\<exists>f'. rf_slide k (int (Suc i)) (int num) f1 = Some f'
    \<and> field_holds f' (take (Suc i - num) ?xs @ drop (Suc i) ?xs @ drop (Suc i - num + k) ?xs)"
    by (rule Suc.IH [OF f1(2)]) (use Suc.prems in simp_all)
  then obtain f' where f': "rf_slide k (int (Suc i)) (int num) f1 = Some f'"
    "field_holds f' (take (i - num) xs @ drop i xs @ drop (i - num + Suc k) xs)"
    unfolding slide_step [OF i Suc.prems(3,4)] by blast
  have s: "int i + 1 = int (Suc i)" by simp
  have "rf_slide (Suc k) (int i) (int num) f = Some f'"
    unfolding rf_slide.simps rf_Get_holds [OF Suc.prems(1) i] d s by (simp only: Option.bind.simps f1(1) f'(1))
  then show ?case using f'(2) by blast
qed

lemma rf_saved_holds:
  assumes "field_holds f xs" "start + num \<le> length xs"
  shows "rf_saved num (int start) f = Some (take num (drop start xs))"
  using assms(2)
proof (induction num arbitrary: start)
  case (Suc num)
  have "rf_Get (int start) f = Some (xs ! start)" using rf_Get_holds [OF assms(1)] Suc.prems by simp
  moreover have "drop start xs = xs ! start # drop (Suc start) xs" using Suc.prems by (simp add: Cons_nth_drop_Suc)
  ultimately show ?case using Suc.IH [of "Suc start"] Suc.prems by (simp add: add.commute)
qed simp

lemma rf_gap_holds:
  assumes "field_holds f xs" "pos + num \<le> length xs" "0 < num"
  shows "\<exists>f'. rf_slide (nat (rf_size f - int (pos + num))) (int (pos + num)) (int num) f = Some f'
    \<and> rf_size f' = rf_size f
    \<and> field_holds (rf_Truncate (int (length xs - num)) f') (take pos xs @ drop (pos + num) xs)"
proof -
  have s: "rf_size f = int (length xs)" using assms(1) by (auto simp: field_holds_def)
  have "pos + num + (length xs - (pos + num)) = length xs" using assms(2) by simp
  then obtain f' where f': "rf_slide (length xs - (pos + num)) (int (pos + num)) (int num) f = Some f'"
    "field_holds f' (take pos xs @ drop (pos + num) xs @ drop (length xs - num) xs)"
    using rf_slide_holds [OF assms(1), of "pos + num" "length xs - (pos + num)" num] assms(2,3)
    by (auto simp: add.commute add.left_commute)
  have k: "nat (rf_size f - int (pos + num)) = length xs - (pos + num)" using s by simp
  have "length (take pos xs @ drop (pos + num) xs) = length xs - num" using assms(2) by simp
  then have "field_holds (rf_Truncate (int (length xs - num)) f') (take pos xs @ drop (pos + num) xs)"
    using rf_Truncate_holds [of f' "take pos xs @ drop (pos + num) xs" "drop (length xs - num) xs"] f'(2) by simp
  moreover have "rf_size f' = rf_size f" using f'(2) s assms(2) by (auto simp: field_holds_def)
  ultimately show ?thesis using f'(1) unfolding k by blast
qed

lemma rf_ExtractSubrange_holds:
  assumes "field_holds f xs" "pos + num \<le> length xs"
  shows "\<exists>f'. rf_ExtractSubrange (int pos) (int num) f = Some (take num (drop pos xs), f')
    \<and> field_holds f' (take pos xs @ drop (pos + num) xs)"
proof (cases "num = 0")
  case True
  then show ?thesis using assms by (simp add: rf_ExtractSubrange_def)
next
  case False
  have s: "rf_size f = int (length xs)" using assms(1) by (auto simp: field_holds_def)
  obtain f' where f': "rf_slide (nat (rf_size f - int (pos + num))) (int (pos + num)) (int num) f = Some f'"
    "rf_size f' = rf_size f" "field_holds (rf_Truncate (int (length xs - num)) f') (take pos xs @ drop (pos + num) xs)"
    using rf_gap_holds [OF assms] False by blast
  have t: "rf_size f - int num = int (length xs - num)" using s assms(2) by simp
  have "rf_ExtractSubrange (int pos) (int num) f =
      Some (take num (drop pos xs), rf_Truncate (int (length xs - num)) f')"
    using False f'(1,2) t rf_saved_holds [OF assms] by (simp add: rf_ExtractSubrange_def)
  then show ?thesis using f'(3) by blast
qed

lemma rf_erase_holds:
  assumes "field_holds f xs" "pos \<le> q" "q \<le> length xs"
  shows "\<exists>f'. rf_erase (int pos) (int q) f = Some f' \<and> field_holds f' (take pos xs @ drop q xs)"
proof (cases "pos = q")
  case True
  then show ?thesis using assms by (simp add: rf_erase_def)
next
  case False
  let ?num = "q - pos"
  have s: "rf_size f = int (length xs)" using assms(1) by (auto simp: field_holds_def)
  have q: "pos + ?num = q" "int q - int pos = int ?num" "0 < ?num" using assms(2) False by auto
  obtain f' where f': "rf_slide (nat (rf_size f - int q)) (int q) (int ?num) f = Some f'"
    "rf_size f' = rf_size f" "field_holds (rf_Truncate (int (length xs - ?num)) f') (take pos xs @ drop q xs)"
    using rf_gap_holds [OF assms(1), of pos ?num, unfolded q(1), OF assms(3) q(3)] by blast
  have t: "int pos + (rf_size f - int q) = int (length xs - ?num)" using s assms(2,3) by simp
  have "rf_erase (int pos) (int q) f = Some (rf_Truncate (int (length xs - ?num)) f')"
    using False f'(1,2) t unfolding rf_erase_def q(2) by simp
  then show ?thesis using f'(3) by blast
qed

lemma rf_SwapElements_holds:
  assumes "field_holds f xs" "i < length xs" "j < length xs"
  shows "\<exists>f'. rf_SwapElements (int i) (int j) f = Some f' \<and> field_holds f' (xs[i := xs ! j, j := xs ! i])"
proof -
  obtain f1 where f1: "rf_Set (int i) (xs ! j) f = Some f1" "field_holds f1 (xs[i := xs ! j])"
    using rf_Set_holds [OF assms(1,2)] by blast
  then obtain f2 where "rf_Set (int j) (xs ! i) f1 = Some f2" "field_holds f2 (xs[i := xs ! j, j := xs ! i])"
    using rf_Set_holds [OF f1(2), of j "xs ! i"] assms(3) by auto
  then show ?thesis using rf_Get_holds [OF assms(1)] assms(2,3) f1(1) by (simp add: rf_SwapElements_def)
qed

section \<open>Sequences\<close>

text \<open>What the users of a repeated field rely on: the parser adds elements one by one, the serialisers read
  them in their order.\<close>

locale sequence =
  fixes holds :: "'f \<Rightarrow> 'a list \<Rightarrow> bool" and fits :: "nat \<Rightarrow> bool" and new :: 'f
    and add :: "'a \<Rightarrow> 'f \<Rightarrow> 'f option" and get :: "nat \<Rightarrow> 'f \<Rightarrow> 'a option"
  assumes holds_new: "holds new []"
    and holds_add: "holds f xs \<Longrightarrow> fits (Suc (length xs)) \<Longrightarrow> \<exists>f'. add x f = Some f' \<and> holds f' (xs @ [x])"
    and holds_get: "holds f xs \<Longrightarrow> i < length xs \<Longrightarrow> get i f = Some (xs ! i)"
    and fits_less: "fits n \<Longrightarrow> m \<le> n \<Longrightarrow> fits m"
begin

fun add_all :: "'a list \<Rightarrow> 'f \<Rightarrow> 'f option" where
  "add_all [] f = Some f"
| "add_all (x # xs) f = Option.bind (add x f) (add_all xs)"

lemma holds_add_all:
  assumes "holds f xs" "fits (length xs + length ys)"
  shows "\<exists>f'. add_all ys f = Some f' \<and> holds f' (xs @ ys)"
  using assms
proof (induction ys arbitrary: f xs)
  case (Cons y ys)
  have "fits (Suc (length xs))" by (rule fits_less [OF Cons.prems(2)]) simp
  then obtain f1 where "add y f = Some f1" "holds f1 (xs @ [y])" using holds_add [OF Cons.prems(1)] by blast
  then show ?case using Cons.IH [of f1 "xs @ [y]"] Cons.prems(2) by simp
qed simp

lemma holds_read: "holds f xs \<Longrightarrow> map (\<lambda>i. get i f) [0..<length xs] = map Some xs"
  by (rule nth_equalityI) (simp_all add: holds_get)

end

text \<open>A sequence that can be shortened and emptied and takes over the elements of another one.\<close>

locale merging_sequence = sequence holds fits new add get
  for holds :: "'f \<Rightarrow> 'a list \<Rightarrow> bool" and fits new add get +
  fixes clear :: "'f \<Rightarrow> 'f" and remove_last :: "'f \<Rightarrow> 'f" and merge :: "'f \<Rightarrow> 'f \<Rightarrow> 'f option"
  assumes holds_clear: "holds f xs \<Longrightarrow> holds (clear f) []"
    and holds_remove: "holds f (xs @ [x]) \<Longrightarrow> holds (remove_last f) xs"
    and holds_merge: "holds f xs \<Longrightarrow> holds g ys \<Longrightarrow> fits (length xs + length ys) \<Longrightarrow>
      \<exists>f'. merge g f = Some f' \<and> holds f' (xs @ ys)"
begin

text \<open>Adding and then merging is adding everything; a field that held something else can be reused.\<close>

lemma merge_added:
  assumes "holds f xs" "fits (length xs + length ys)"
  shows "\<exists>g f'. add_all ys new = Some g \<and> merge g f = Some f' \<and> holds f' (xs @ ys)"
proof -
  have "fits (length ys)" by (rule fits_less [OF assms(2)]) simp
  then obtain g where "add_all ys new = Some g" "holds g ys" using holds_add_all [OF holds_new, of ys] by auto
  then show ?thesis using holds_merge [OF assms(1) _ assms(2)] by blast
qed

lemma clear_merge:
  assumes "holds f xs" "holds g ys" "fits (length ys)"
  shows "\<exists>f'. merge g (clear f) = Some f' \<and> holds f' ys"
  using holds_merge [OF holds_clear [OF assms(1)] assms(2)] assms(3) by simp

end

lemma field_fits_less: "field_fits lim n \<Longrightarrow> m \<le> n \<Longrightarrow> field_fits lim m"
  by (simp add: field_fits_def)

interpretation numbers: merging_sequence field_holds "field_fits lim" RepeatedField "rf_Add lim" "\<lambda>i. rf_Get (int i)"
    rf_Clear rf_RemoveLast "rf_MergeFrom lim" for lim
proof unfold_locales
  show "\<exists>f'. rf_Add lim x f = Some f' \<and> field_holds f' (xs @ [x])"
    if "field_holds f xs" "field_fits lim (Suc (length xs))" for f xs x
    using rf_Add_holds [OF that] by blast
qed (simp_all add: holds_new rf_Get_holds rf_Clear_holds rf_RemoveLast_holds rf_MergeFrom_holds field_fits_less)

section \<open>Properties\<close>

text \<open>Calls of a field, and what they mean for a list: \<open>None\<close> outside the contract of the header.\<close>

datatype 'a field_call =
    CallAdd 'a | CallSet nat 'a | CallRemoveLast | CallClear | CallTruncate nat | CallResize nat 'a | CallReserve nat
  | CallExtractSubrange nat nat | CallErase nat nat | CallSwapElements nat nat | CallMergeFrom "'a list" | CallCopyFrom "'a list"

fun list_call :: "'a field_call \<Rightarrow> 'a list \<Rightarrow> 'a list option" where
  "list_call (CallAdd x) xs = Some (xs @ [x])"
| "list_call (CallSet i x) xs = (if i < length xs then Some (xs[i := x]) else None)"
| "list_call CallRemoveLast xs = (if xs \<noteq> [] then Some (butlast xs) else None)"
| "list_call CallClear xs = Some []"
| "list_call (CallTruncate n) xs = (if n \<le> length xs then Some (take n xs) else None)"
| "list_call (CallResize n x) xs = Some (take n xs @ replicate (n - length xs) x)"
| "list_call (CallReserve n) xs = Some xs"
| "list_call (CallExtractSubrange start num) xs =
     (if start + num \<le> length xs then Some (take start xs @ drop (start + num) xs) else None)"
| "list_call (CallErase pos q) xs = (if pos \<le> q \<and> q \<le> length xs then Some (take pos xs @ drop q xs) else None)"
| "list_call (CallSwapElements i j) xs =
     (if i < length xs \<and> j < length xs then Some (xs[i := xs ! j, j := xs ! i]) else None)"
| "list_call (CallMergeFrom ys) xs = Some (xs @ ys)"
| "list_call (CallCopyFrom ys) xs = Some ys"

fun run_call :: "int \<Rightarrow> 'a field_call \<Rightarrow> 'a repeated \<Rightarrow> 'a repeated option" where
  "run_call lim (CallAdd x) f = rf_Add lim x f"
| "run_call lim (CallSet i x) f = rf_Set (int i) x f"
| "run_call lim CallRemoveLast f = Some (rf_RemoveLast f)"
| "run_call lim CallClear f = Some (rf_Clear f)"
| "run_call lim (CallTruncate n) f = Some (rf_Truncate (int n) f)"
| "run_call lim (CallResize n x) f = rf_Resize lim (int n) x f"
| "run_call lim (CallReserve n) f = rf_Reserve lim (int n) f"
| "run_call lim (CallExtractSubrange start num) f = map_option snd (rf_ExtractSubrange (int start) (int num) f)"
| "run_call lim (CallErase pos q) f = rf_erase (int pos) (int q) f"
| "run_call lim (CallSwapElements i j) f = rf_SwapElements (int i) (int j) f"
| "run_call lim (CallMergeFrom ys) f = do { other \<leftarrow> rf_from_range True lim ys; rf_MergeFrom lim other f }"
| "run_call lim (CallCopyFrom ys) f = do { other \<leftarrow> rf_from_range False lim ys; rf_CopyFrom False lim other f }"

text \<open>The room a call asks for.\<close>

fun call_room :: "'a field_call \<Rightarrow> nat \<Rightarrow> nat" where
  "call_room (CallAdd x) n = Suc n"
| "call_room (CallResize k x) n = max k n"
| "call_room (CallReserve k) n = max k n"
| "call_room (CallMergeFrom ys) n = n + length ys"
| "call_room (CallCopyFrom ys) n = max n (length ys)"
| "call_room c n = n"

lemma run_call_holds:
  assumes "field_holds f xs" "list_call c xs = Some ys" "field_fits lim (call_room c (length xs))"
  shows "\<exists>f'. run_call lim c f = Some f' \<and> field_holds f' ys"
proof (cases c)
  case (CallAdd x)
  then show ?thesis using numbers.holds_add [OF assms(1)] assms(2,3) by auto
next
  case (CallSet i x)
  then show ?thesis using rf_Set_holds [OF assms(1)] assms(2) by (auto split: if_splits)
next
  case CallRemoveLast
  then have "field_holds f (butlast xs @ [last xs])" "ys = butlast xs" using assms(1,2) by (auto split: if_splits)
  then show ?thesis using rf_RemoveLast_holds CallRemoveLast by auto
next
  case CallClear
  then show ?thesis using rf_Clear_holds [OF assms(1)] assms(2) by auto
next
  case (CallTruncate n)
  then have "field_holds f (take n xs @ drop n xs)" "ys = take n xs" "n = length (take n xs)"
    using assms(1,2) by (auto split: if_splits)
  then show ?thesis using rf_Truncate_holds CallTruncate by (metis run_call.simps(5))
next
  case (CallResize n x)
  show ?thesis
  proof (cases "n \<le> length xs")
    case True
    then have "field_holds f (take n xs @ drop n xs)" "ys = take n xs" "n = length (take n xs)"
      using assms(1,2) CallResize by auto
    then show ?thesis using rf_Resize_shrinks CallResize by (metis run_call.simps(6))
  next
    case False
    then show ?thesis
      using rf_Resize_grows [OF assms(1), of lim "n - length xs" x] assms(2,3) CallResize by (simp add: max_def)
  qed
next
  case (CallReserve n)
  show ?thesis
  proof (cases "length xs \<le> n")
    case True
    then show ?thesis using rf_Reserve_holds [OF assms(1), of lim n] assms(2,3) CallReserve by (auto simp: max_def)
  next
    case False
    then have "int n \<le> rf_total f" using assms(1) by (auto simp: field_holds_def)
    then show ?thesis using assms(1,2) CallReserve by (simp add: rf_Reserve_def)
  qed
next
  case (CallExtractSubrange start num)
  then show ?thesis using rf_ExtractSubrange_holds [OF assms(1), of start num] assms(2) by (auto split: if_splits)
next
  case (CallErase pos q)
  then show ?thesis using rf_erase_holds [OF assms(1), of pos q] assms(2) by (auto split: if_splits)
next
  case (CallSwapElements i j)
  then show ?thesis using rf_SwapElements_holds [OF assms(1), of i j] assms(2) by (auto split: if_splits)
next
  case (CallMergeFrom zs)
  have "field_fits lim (length zs)" by (rule field_fits_less [OF assms(3)]) (simp add: CallMergeFrom)
  then obtain other where "rf_from_range True lim zs = Some other" "field_holds other zs"
    using rf_from_range_holds by blast
  then show ?thesis using rf_MergeFrom_holds [OF assms(1), of other zs] assms(2,3) CallMergeFrom by auto
next
  case (CallCopyFrom zs)
  have z: "field_fits lim (length zs)" by (rule field_fits_less [OF assms(3)]) (simp add: CallCopyFrom)
  then obtain other where "rf_from_range False lim zs = Some other" "field_holds other zs"
    using rf_from_range_holds by blast
  then show ?thesis using rf_CopyFrom_holds [OF assms(1) _ z, of other] assms(2) CallCopyFrom by auto
qed

text \<open>Sequences of calls; of the list the greatest room is kept.\<close>

fun list_calls :: "int \<Rightarrow> 'a field_call list \<Rightarrow> 'a list \<Rightarrow> 'a list option" where
  "list_calls lim [] xs = Some xs"
| "list_calls lim (c # cs) xs =
     (if field_fits lim (call_room c (length xs)) then do { ys \<leftarrow> list_call c xs; list_calls lim cs ys } else None)"

fun field_calls :: "int \<Rightarrow> 'a field_call list \<Rightarrow> 'a repeated \<Rightarrow> 'a repeated option" where
  "field_calls lim [] f = Some f"
| "field_calls lim (c # cs) f = do { f' \<leftarrow> run_call lim c f; field_calls lim cs f' }"

lemma field_calls_hold:
  assumes "field_holds f xs" "list_calls lim cs xs = Some ys"
  shows "\<exists>f'. field_calls lim cs f = Some f' \<and> field_holds f' ys"
  using assms
proof (induction cs arbitrary: f xs)
  case (Cons c cs)
  obtain zs where zs: "list_call c xs = Some zs" "list_calls lim cs zs = Some ys" "field_fits lim (call_room c (length xs))"
    using Cons.prems(2) by (auto split: if_splits bind_splits)
  then obtain f1 where f1: "run_call lim c f = Some f1" "field_holds f1 zs"
    using run_call_holds [OF Cons.prems(1)] by blast
  obtain f2 where "field_calls lim cs f1 = Some f2" "field_holds f2 ys" using Cons.IH [OF f1(2) zs(2)] by blast
  then show ?case using f1(1) by auto
qed auto

text \<open>C36: a repeated field is a list.  Any sequence of calls within their contract and within the lengths
  that an \<open>int\<close> and \<open>size_t\<close> can count runs without undefined behaviour or a failed check: no access
  leaves the array, no element is read that was never assigned, no sum overflows, and at the end the
  field holds what the list operations give, read back element by element.\<close>
theorem repeated_field_is_a_list:
  assumes "list_calls lim cs [] = Some ys"
  shows "\<exists>f. field_calls lim cs RepeatedField = Some f \<and> rf_size f = int (length ys)
    \<and> map (\<lambda>i. rf_Get (int i) f) [0..<length ys] = map Some ys"
proof -
  obtain f where f: "field_calls lim cs RepeatedField = Some f" "field_holds f ys"
    using field_calls_hold [OF holds_new assms] by blast
  moreover have "rf_size f = int (length ys)" using f(2) by (auto simp: field_holds_def)
  moreover have "map (\<lambda>i. rf_Get (int i) f) [0..<length ys] = map Some ys" by (rule numbers.holds_read [OF f(2)])
  ultimately show ?thesis by blast
qed

theorem repeated_field_is_a_list_witness:
  "\<exists>f. field_calls 100 [CallAdd 5, CallAdd 6, CallAdd (7 :: nat), CallErase 0 1, CallMergeFrom [8, 9], CallSwapElements 0 3]
      RepeatedField = Some f \<and> rf_size f = int (length [9, 7, 8, 6 :: nat])
    \<and> map (\<lambda>i. rf_Get (int i) f) [0..<length [9, 7, 8, 6 :: nat]] = map Some [9, 7, 8, 6]"
proof (rule repeated_field_is_a_list)
  show "list_calls 100 [CallAdd 5, CallAdd 6, CallAdd (7 :: nat), CallErase 0 1, CallMergeFrom [8, 9], CallSwapElements 0 3] []
      = Some [9, 7, 8, 6]"
    by (simp add: field_fits_def)
qed

text \<open>The elements that \<open>Reserve\<close> copies to a new array while elements are added one by one.\<close>

fun adds_moved :: "int \<Rightarrow> 'a list \<Rightarrow> 'a repeated \<Rightarrow> ('a repeated \<times> int) option" where
  "adds_moved lim [] f = Some (f, 0)"
| "adds_moved lim (x # xs) f =
     do {
       f' \<leftarrow> rf_Add lim x f;
       (f'', k) \<leftarrow> adds_moved lim xs f';
       Some (f'', (if rf_rep f \<noteq> None \<and> rf_total f' \<noteq> rf_total f then rf_size f else 0) + k) }"

lemma rf_AddAlreadyReserved_total: "rf_AddAlreadyReserved x f = Some f' \<Longrightarrow> rf_total f' = rf_total f"
  by (auto simp: rf_AddAlreadyReserved_def rf_Set_def split: bind_splits option.splits if_splits)

lemma rf_Reserve_total:
  "rf_Reserve lim n f = Some f' \<Longrightarrow> rf_total f < n \<Longrightarrow> 4 \<le> rf_total f' \<and> 2 * rf_total f \<le> rf_total f'"
  by (auto simp: rf_Reserve_def as_int_def Let_def split: bind_splits option.splits if_splits)

lemma rf_Add_total:
  assumes "rf_Add lim x f = Some f'"
  shows "rf_size f = rf_total f \<and> 4 \<le> rf_total f' \<and> 2 * rf_total f \<le> rf_total f'
    \<or> rf_size f \<noteq> rf_total f \<and> rf_total f' = rf_total f"
proof (cases "rf_size f = rf_total f")
  case True
  then obtain f1 where f1: "rf_Reserve lim (rf_total f + 1) f = Some f1" "rf_AddAlreadyReserved x f1 = Some f'"
    using assms by (auto simp: rf_Add_def as_int_def split: bind_splits if_splits)
  then show ?thesis using True rf_Reserve_total [OF f1(1)] rf_AddAlreadyReserved_total [OF f1(2)] by simp
next
  case False
  then show ?thesis using assms rf_AddAlreadyReserved_total by (auto simp: rf_Add_def)
qed

lemma adds_moved_bound:
  assumes "field_holds f ys" "field_fits lim (length ys + length xs)"
    "rf_total f \<le> max 4 (2 * int (length ys))" "rf_total f = 0 \<and> n = 0 \<or> 4 + n \<le> rf_total f"
  shows "\<exists>f' k. adds_moved lim xs f = Some (f', k) \<and> field_holds f' (ys @ xs)
    \<and> rf_total f' \<le> max 4 (2 * int (length (ys @ xs))) \<and> (rf_total f' = 0 \<and> n + k = 0 \<or> 4 + (n + k) \<le> rf_total f')"
  using assms
proof (induction xs arbitrary: f ys n)
  case (Cons x xs)
  have "field_fits lim (Suc (length ys))" by (rule field_fits_less [OF Cons.prems(2)]) simp
  then obtain f1 where f1: "rf_Add lim x f = Some f1" "field_holds f1 (ys @ [x])"
    "rf_total f1 \<le> max (rf_total f) (max 4 (2 * int (Suc (length ys))))"
    using rf_Add_holds [OF Cons.prems(1)] by blast
  let ?k = "if rf_rep f \<noteq> None \<and> rf_total f1 \<noteq> rf_total f then rf_size f else 0"
  have s: "rf_size f = int (length ys)" "rf_size f \<le> rf_total f" "rf_rep f = None \<Longrightarrow> rf_size f = 0"
    using Cons.prems(1) by (auto simp: field_holds_def split: option.splits)
  have c: "4 + (n + ?k) \<le> rf_total f1" using rf_Add_total [OF f1(1)] Cons.prems(4) s by auto
  have "\<exists>f' k. adds_moved lim xs f1 = Some (f', k) \<and> field_holds f' ((ys @ [x]) @ xs)
    \<and> rf_total f' \<le> max 4 (2 * int (length ((ys @ [x]) @ xs)))
    \<and> (rf_total f' = 0 \<and> (n + ?k) + k = 0 \<or> 4 + ((n + ?k) + k) \<le> rf_total f')"
    by (rule Cons.IH [OF f1(2)]) (use Cons.prems(2,3) f1(3) c in auto)
  then obtain f' k where "adds_moved lim xs f1 = Some (f', k)" "field_holds f' ((ys @ [x]) @ xs)"
    "rf_total f' \<le> max 4 (2 * int (length ((ys @ [x]) @ xs)))"
    "rf_total f' = 0 \<and> (n + ?k) + k = 0 \<or> 4 + ((n + ?k) + k) \<le> rf_total f'" by blast
  then show ?case by (intro exI [of _ f'] exI [of _ "?k + k"]) (simp add: f1(1) add.assoc)
qed auto

text \<open>C37: Adding is cheap.  Adding \<open>n\<close> elements one by one to a new field leaves a capacity of at most
  \<open>2 * n\<close>, or 4 if that is more, and \<open>Reserve\<close> has moved at most \<open>2 * n\<close> elements in all.\<close>

theorem adding_is_linear:
  assumes "field_fits lim (length xs)"
  shows "\<exists>f k. adds_moved lim xs RepeatedField = Some (f, k) \<and> rf_size f = int (length xs)
    \<and> rf_total f \<le> max 4 (2 * int (length xs)) \<and> k \<le> 2 * int (length xs)"
proof -
  obtain f k where f: "adds_moved lim xs RepeatedField = Some (f, k)" "field_holds f xs"
    "rf_total f \<le> max 4 (2 * int (length xs))" "rf_total f = 0 \<and> k = 0 \<or> 4 + k \<le> rf_total f"
    using adds_moved_bound [OF holds_new, of lim xs 0] assms by (auto simp: RepeatedField_def)
  moreover have "rf_size f = int (length xs)" using f(2) by (auto simp: field_holds_def)
  ultimately show ?thesis by auto
qed

theorem adding_is_linear_witness:
  "\<exists>f k. adds_moved 100 [1 .. 9 :: int] RepeatedField = Some (f, k) \<and> rf_size f = int (length [1 .. 9 :: int])
    \<and> rf_total f \<le> max 4 (2 * int (length [1 .. 9 :: int])) \<and> k \<le> 2 * int (length [1 .. 9 :: int])"
  by (rule adding_is_linear) (simp add: field_fits_def)

text \<open>After the first element there is room for three more: what the parser of unpacked numbers asks for.\<close>

lemma first_add_spare: "4 \<le> lim \<Longrightarrow> map_option (\<lambda>f. rf_total f - rf_size f) (rf_Add lim x RepeatedField) = Some 3"
  by (simp add: rf_Add_def rf_Reserve_def rf_AddAlreadyReserved_def rf_Set_def as_int_def RepeatedField_def)

end
