(* ===== verification/RepeatedPtrField.thy ===== *)
theory RepeatedPtrField
  imports RepeatedField "HOL-Library.Multiset"
begin

text \<open>
  Repeated fields of strings and messages, class \<open>RepeatedPtrFieldBase\<close> of
  \<^verbatim>\<open>google/protobuf/repeated_field.h\<close>: an array of pointers to objects, of which the first
  are the elements of the field and those behind them are cleared and wait to be used again.  The
  fields and their objects are on the heap (\<open>arena_\<close> is null).  Sizes stay below \<open>2 ^ 31\<close>: that many
  pointers do not fit the memory of the program, which is built for 32 bits.
\<close>

section \<open>Objects\<close>

text \<open>The heap, and the \<open>TypeHandler\<close> of a class of objects: the value of a new or cleared object, and what
  merging a value into an object makes of it.\<close>

record 'o heap =
  hp_next :: nat
  hp_objs :: "nat \<Rightarrow> 'o option"

record 'o type_handler =
  th_default :: 'o
  th_Merge :: "'o \<Rightarrow> 'o \<Rightarrow> 'o"

definition th_New :: "'o type_handler \<Rightarrow> 'o heap \<Rightarrow> nat \<times> 'o heap" where
  "th_New T h = (hp_next h, h\<lparr>hp_objs := (hp_objs h)(hp_next h \<mapsto> th_default T), hp_next := Suc (hp_next h)\<rparr>)"

text \<open>\<open>None\<close>: the object is not allocated.\<close>

definition obj_put :: "nat \<Rightarrow> 'o \<Rightarrow> 'o heap \<Rightarrow> 'o heap option" where
  "obj_put p v h = (if hp_objs h p = None then None else Some (h\<lparr>hp_objs := (hp_objs h)(p \<mapsto> v)\<rparr>))"

definition th_Clear :: "'o type_handler \<Rightarrow> nat \<Rightarrow> 'o heap \<Rightarrow> 'o heap option" where
  "th_Clear T p h = obj_put p (th_default T) h"

definition th_merge_into :: "'o type_handler \<Rightarrow> nat \<Rightarrow> nat \<Rightarrow> 'o heap \<Rightarrow> 'o heap option" where
  "th_merge_into T other p h =
     do { from_value \<leftarrow> hp_objs h other; to_value \<leftarrow> hp_objs h p; obj_put p (th_Merge T from_value to_value) h }"

definition th_Delete :: "nat \<Rightarrow> 'o heap \<Rightarrow> 'o heap option" where
  "th_Delete p h = (if hp_objs h p = None then None else Some (h\<lparr>hp_objs := (hp_objs h)(p := None)\<rparr>))"

section \<open>The field\<close>

record ptr_field =
  pf_size :: int
  pf_total :: int
  pf_rep :: "(int \<times> nat option list) option"

definition RepeatedPtrFieldBase :: ptr_field where
  "RepeatedPtrFieldBase = \<lparr>pf_size = 0, pf_total = 0, pf_rep = None\<rparr>"

text \<open>\<open>Reserve\<close> and \<open>InternalExtend\<close> are not in the header; the documented behaviour of \<open>Reserve\<close> is the locale
  \<open>ptr_runtime\<close> below, and \<open>InternalExtend (n)\<close> is \<open>Reserve\<close> with room for \<open>n\<close> more elements.\<close>

type_synonym reserve = "int \<Rightarrow> ptr_field \<Rightarrow> ptr_field"

definition allocated_size :: "ptr_field \<Rightarrow> int option" where
  "allocated_size f = map_option fst (pf_rep f)"

definition element :: "int \<Rightarrow> ptr_field \<Rightarrow> nat option" where
  "element i f =
     (case pf_rep f of
        None \<Rightarrow> None
      | Some (allocated, es) \<Rightarrow> if 0 \<le> i \<and> i < int (length es) then es ! nat i else None)"

definition set_element :: "int \<Rightarrow> nat \<Rightarrow> ptr_field \<Rightarrow> ptr_field option" where
  "set_element i p f =
     (case pf_rep f of
        None \<Rightarrow> None
      | Some (allocated, es) \<Rightarrow>
          if 0 \<le> i \<and> i < int (length es) then Some (f\<lparr>pf_rep := Some (allocated, es[nat i := Some p])\<rparr>) else None)"

definition set_allocated :: "int \<Rightarrow> ptr_field \<Rightarrow> ptr_field option" where
  "set_allocated n f = (case pf_rep f of None \<Rightarrow> None | Some (_, es) \<Rightarrow> Some (f\<lparr>pf_rep := Some (n, es)\<rparr>))"

text \<open>No room for one more pointer: \<open>!rep_ || rep_->allocated_size == total_size_\<close>.\<close>

definition full :: "ptr_field \<Rightarrow> bool" where
  "full f \<longleftrightarrow> pf_rep f = None \<or> allocated_size f = Some (pf_total f)"

text \<open>\<open>Get\<close>, and \<open>Mutable\<close> with an assignment.\<close>

definition pf_Get :: "int \<Rightarrow> ptr_field \<Rightarrow> 'o heap \<Rightarrow> 'o option" where
  "pf_Get i f h = do { p \<leftarrow> element i f; hp_objs h p }"

definition pf_assign :: "int \<Rightarrow> 'o \<Rightarrow> ptr_field \<Rightarrow> 'o heap \<Rightarrow> 'o heap option" where
  "pf_assign i v f h = do { p \<leftarrow> element i f; obj_put p v h }"

text \<open>\<open>AddFromCleared\<close>: the pointer is \<open>None\<close> if there is no cleared object.\<close>

definition pf_AddFromCleared :: "ptr_field \<Rightarrow> (nat option \<times> ptr_field) option" where
  "pf_AddFromCleared f =
     (case pf_rep f of
        None \<Rightarrow> Some (None, f)
      | Some (allocated, es) \<Rightarrow>
          if pf_size f < allocated
          then do { p \<leftarrow> element (pf_size f) f; Some (Some p, f\<lparr>pf_size := pf_size f + 1\<rparr>) }
          else Some (None, f))"

definition pf_Add :: "reserve \<Rightarrow> 'o type_handler \<Rightarrow> ptr_field \<Rightarrow> 'o heap \<Rightarrow> (nat \<times> ptr_field \<times> 'o heap) option" where
  "pf_Add reserve T f h =
     do {
       (reused, f) \<leftarrow> pf_AddFromCleared f;
       case reused of
         Some p \<Rightarrow> Some (p, f, h)
       | None \<Rightarrow> do {
           let f = (if full f then reserve (pf_total f + 1) f else f);
           allocated \<leftarrow> allocated_size f;
           f \<leftarrow> set_allocated (allocated + 1) f;
           let (result, h) = th_New T h;
           f \<leftarrow> set_element (pf_size f) result f;
           Some (result, f\<lparr>pf_size := pf_size f + 1\<rparr>, h) } }"

definition pf_RemoveLast :: "'o type_handler \<Rightarrow> ptr_field \<Rightarrow> 'o heap \<Rightarrow> (ptr_field \<times> 'o heap) option" where
  "pf_RemoveLast T f h =
     do {
       let f = f\<lparr>pf_size := pf_size f - 1\<rparr>;
       p \<leftarrow> element (pf_size f) f;
       h \<leftarrow> th_Clear T p h;
       Some (f, h) }"

fun clear_elements :: "'o type_handler \<Rightarrow> nat \<Rightarrow> int \<Rightarrow> ptr_field \<Rightarrow> 'o heap \<Rightarrow> 'o heap option" where
  "clear_elements T 0 i f h = Some h"
| "clear_elements T (Suc n) i f h = do { p \<leftarrow> element i f; h \<leftarrow> th_Clear T p h; clear_elements T n (i + 1) f h }"

definition pf_Clear :: "'o type_handler \<Rightarrow> ptr_field \<Rightarrow> 'o heap \<Rightarrow> (ptr_field \<times> 'o heap) option" where
  "pf_Clear T f h =
     (if 0 < pf_size f
      then do { h \<leftarrow> clear_elements T (nat (pf_size f)) 0 f h; Some (f\<lparr>pf_size := 0\<rparr>, h) }
      else Some (f, h))"

text \<open>\<open>MergeFromInnerLoop\<close>: \<open>reuse\<close> of the \<open>n\<close> turns that are left find an allocated object.\<close>

fun ptr_merge_loop :: "'o type_handler \<Rightarrow> nat \<Rightarrow> nat \<Rightarrow> int \<Rightarrow> ptr_field \<Rightarrow> ptr_field \<Rightarrow> 'o heap
    \<Rightarrow> (ptr_field \<times> 'o heap) option" where
  "ptr_merge_loop T 0 reuse i other f h = Some (f, h)"
| "ptr_merge_loop T (Suc n) (Suc reuse) i other f h =
     do {
       other_elem \<leftarrow> element i other;
       new_elem \<leftarrow> element (pf_size f + i) f;
       h \<leftarrow> th_merge_into T other_elem new_elem h;
       ptr_merge_loop T n reuse (i + 1) other f h }"
| "ptr_merge_loop T (Suc n) 0 i other f h =
     do {
       other_elem \<leftarrow> element i other;
       let (new_elem, h) = th_New T h;
       h \<leftarrow> th_merge_into T other_elem new_elem h;
       f \<leftarrow> set_element (pf_size f + i) new_elem f;
       ptr_merge_loop T n 0 (i + 1) other f h }"

definition pf_MergeFrom :: "reserve \<Rightarrow> 'o type_handler \<Rightarrow> ptr_field \<Rightarrow> ptr_field \<Rightarrow> 'o heap
    \<Rightarrow> (ptr_field \<times> 'o heap) option" where
  "pf_MergeFrom reserve T other f h =
     (if pf_size other = 0 then Some (f, h)
      else do {
        let f = reserve (pf_size f + pf_size other) f;
        allocated \<leftarrow> allocated_size f;
        (f, h) \<leftarrow> ptr_merge_loop T (nat (pf_size other)) (nat (allocated - pf_size f)) 0 other f h;
        let size = pf_size f + pf_size other;
        f \<leftarrow> set_allocated (max allocated size) f;
        Some (f\<lparr>pf_size := size\<rparr>, h) })"

definition pf_CopyFrom :: "bool \<Rightarrow> reserve \<Rightarrow> 'o type_handler \<Rightarrow> ptr_field \<Rightarrow> ptr_field \<Rightarrow> 'o heap
    \<Rightarrow> (ptr_field \<times> 'o heap) option" where
  "pf_CopyFrom same_object reserve T other f h =
     (if same_object then Some (f, h)
      else do { (f, h) \<leftarrow> pf_Clear T f h; pf_MergeFrom reserve T other f h })"

text \<open>\<open>UnsafeArenaAddAllocated\<close> with its four cases; \<open>AddAllocated\<close>, whose fast path has a free slot.\<close>

definition pf_UnsafeArenaAddAllocated :: "reserve \<Rightarrow> nat \<Rightarrow> ptr_field \<Rightarrow> 'o heap \<Rightarrow> (ptr_field \<times> 'o heap) option" where
  "pf_UnsafeArenaAddAllocated reserve p f h =
     do {
       (f, h) \<leftarrow>
         (if pf_rep f = None \<or> pf_size f = pf_total f
          then do {
            let f = reserve (pf_total f + 1) f;
            allocated \<leftarrow> allocated_size f;
            f \<leftarrow> set_allocated (allocated + 1) f;
            Some (f, h) }
          else if allocated_size f = Some (pf_total f)
          then do { q \<leftarrow> element (pf_size f) f; h \<leftarrow> th_Delete q h; Some (f, h) }
          else do {
            allocated \<leftarrow> allocated_size f;
            f \<leftarrow> (if pf_size f < allocated then do { q \<leftarrow> element (pf_size f) f; set_element allocated q f } else Some f);
            f \<leftarrow> set_allocated (allocated + 1) f;
            Some (f, h) });
       f \<leftarrow> set_element (pf_size f) p f;
       Some (f\<lparr>pf_size := pf_size f + 1\<rparr>, h) }"

definition pf_AddAllocated :: "reserve \<Rightarrow> nat \<Rightarrow> ptr_field \<Rightarrow> 'o heap \<Rightarrow> (ptr_field \<times> 'o heap) option" where
  "pf_AddAllocated reserve p f h =
     (case allocated_size f of
        Some allocated \<Rightarrow>
          if allocated < pf_total f
          then do {
            f \<leftarrow> (if pf_size f < allocated then do { q \<leftarrow> element (pf_size f) f; set_element allocated q f } else Some f);
            f \<leftarrow> set_element (pf_size f) p f;
            f \<leftarrow> set_allocated (allocated + 1) (f\<lparr>pf_size := pf_size f + 1\<rparr>);
            Some (f, h) }
          else pf_UnsafeArenaAddAllocated reserve p f h
      | None \<Rightarrow> pf_UnsafeArenaAddAllocated reserve p f h)"

definition pf_ReleaseLast :: "ptr_field \<Rightarrow> (nat \<times> ptr_field) option" where
  "pf_ReleaseLast f =
     do {
       let f = f\<lparr>pf_size := pf_size f - 1\<rparr>;
       result \<leftarrow> element (pf_size f) f;
       allocated \<leftarrow> allocated_size f;
       f \<leftarrow> set_allocated (allocated - 1) f;
       f \<leftarrow> (if pf_size f < allocated - 1 then do { q \<leftarrow> element (allocated - 1) f; set_element (pf_size f) q f }
            else Some f);
       Some (result, f) }"

definition pf_ClearedCount :: "ptr_field \<Rightarrow> int" where
  "pf_ClearedCount f = (case allocated_size f of None \<Rightarrow> 0 | Some allocated \<Rightarrow> allocated - pf_size f)"

definition pf_AddCleared :: "reserve \<Rightarrow> nat \<Rightarrow> ptr_field \<Rightarrow> ptr_field option" where
  "pf_AddCleared reserve p f =
     do {
       let f = (if full f then reserve (pf_total f + 1) f else f);
       allocated \<leftarrow> allocated_size f;
       f \<leftarrow> set_element allocated p f;
       set_allocated (allocated + 1) f }"

definition pf_ReleaseCleared :: "ptr_field \<Rightarrow> (nat \<times> ptr_field) option" where
  "pf_ReleaseCleared f =
     do {
       allocated \<leftarrow> allocated_size f;
       f \<leftarrow> set_allocated (allocated - 1) f;
       p \<leftarrow> element (allocated - 1) f;
       Some (p, f) }"

definition pf_SwapElements :: "int \<Rightarrow> int \<Rightarrow> ptr_field \<Rightarrow> ptr_field option" where
  "pf_SwapElements i j f =
     do { p \<leftarrow> element i f; q \<leftarrow> element j f; f \<leftarrow> set_element i q f; set_element j p f }"

definition pf_InternalSwap :: "ptr_field \<Rightarrow> ptr_field \<Rightarrow> ptr_field \<times> ptr_field" where
  "pf_InternalSwap f other =
     (f\<lparr>pf_rep := pf_rep other, pf_size := pf_size other, pf_total := pf_total other\<rparr>,
      other\<lparr>pf_rep := pf_rep f, pf_size := pf_size f, pf_total := pf_total f\<rparr>)"

text \<open>\<open>Destroy\<close>: every allocated object is deleted, the cleared ones too.\<close>

fun delete_elements :: "nat \<Rightarrow> int \<Rightarrow> ptr_field \<Rightarrow> 'o heap \<Rightarrow> 'o heap option" where
  "delete_elements 0 i f h = Some h"
| "delete_elements (Suc n) i f h = do { p \<leftarrow> element i f; h \<leftarrow> th_Delete p h; delete_elements n (i + 1) f h }"

definition pf_Destroy :: "ptr_field \<Rightarrow> 'o heap \<Rightarrow> (ptr_field \<times> 'o heap) option" where
  "pf_Destroy f h =
     (case allocated_size f of
        None \<Rightarrow> Some (f, h)
      | Some n \<Rightarrow> do { h \<leftarrow> delete_elements (nat n) 0 f h; Some (f\<lparr>pf_rep := None\<rparr>, h) })"

section \<open>The array\<close>

text \<open>The elements \<open>ps\<close>, the cleared objects \<open>cs\<close> behind them, and free slots.\<close>

definition pf_state :: "ptr_field \<Rightarrow> nat list \<Rightarrow> nat list \<Rightarrow> bool" where
  "pf_state f ps cs \<longleftrightarrow>
     (\<exists>free. pf_size f = int (length ps) \<and> pf_total f = int (length ps + length cs + length free)
        \<and> (case pf_rep f of
             None \<Rightarrow> ps = [] \<and> cs = [] \<and> free = []
           | Some (allocated, es) \<Rightarrow> allocated = int (length ps + length cs) \<and> es = map Some (ps @ cs) @ free))"

lemma stateI:
  "pf_size f = int (length ps) \<Longrightarrow> pf_total f = int (length ps + length cs + length free) \<Longrightarrow>
     pf_rep f = Some (int (length ps + length cs), map Some (ps @ cs) @ free) \<Longrightarrow> pf_state f ps cs"
  by (auto simp: pf_state_def)

lemma state_cases:
  assumes "pf_state f ps cs"
  obtains (null) "ps = []" "cs = []" "f = RepeatedPtrFieldBase"
  | (array) free where "f = \<lparr>pf_size = int (length ps), pf_total = int (length ps + length cs + length free),
      pf_rep = Some (int (length ps + length cs), map Some (ps @ cs) @ free)\<rparr>"
  using assms
  by (cases f; cases "pf_rep f") (auto simp: pf_state_def RepeatedPtrFieldBase_def)

lemma state_new: "pf_state RepeatedPtrFieldBase [] []"
  by (simp add: pf_state_def RepeatedPtrFieldBase_def)

lemma state_element: "pf_state f ps cs \<Longrightarrow> i < length (ps @ cs) \<Longrightarrow> element (int i) f = Some ((ps @ cs) ! i)"
  by (erule state_cases) (auto simp: element_def nth_append)

lemma room_cases:
  assumes "pf_state f ps cs" "\<not> full f"
  obtains e free where "f = \<lparr>pf_size = int (length ps), pf_total = int (length ps + length cs + length (e # free)),
      pf_rep = Some (int (length ps + length cs), map Some (ps @ cs) @ e # free)\<rparr>"
  using assms(1)
proof (cases rule: state_cases)
  case (array free)
  then show ?thesis using that assms(2) by (cases free) (auto simp: full_def allocated_size_def)
qed (use assms(2) in \<open>simp add: full_def RepeatedPtrFieldBase_def\<close>)

text \<open>The documented behaviour of \<open>Reserve\<close>: the array of pointers grows to at least the given size, and
  nothing else changes.\<close>

locale ptr_runtime =
  fixes reserve :: reserve
  assumes reserve_grows: "pf_state f ps cs \<Longrightarrow> pf_total f < n \<Longrightarrow>
      pf_state (reserve n f) ps cs \<and> n \<le> pf_total (reserve n f)"
    and reserve_enough: "n \<le> pf_total f \<Longrightarrow> reserve n f = f"
begin

lemma reserve_state: "pf_state f ps cs \<Longrightarrow> pf_state (reserve n f) ps cs"
  using reserve_grows reserve_enough by (metis not_le_imp_less)

lemma reserve_total: "pf_state f ps cs \<Longrightarrow> n \<le> pf_total (reserve n f)"
  using reserve_grows reserve_enough by (metis not_le_imp_less)

lemma reserve_room:
  assumes "pf_state f ps cs"
  shows "\<not> full (reserve (int (length ps + length cs) + 1) f)"
  using reserve_state [OF assms, of "int (length ps + length cs) + 1"]
    reserve_total [OF assms, of "int (length ps + length cs) + 1"]
  by (elim state_cases) (auto simp: full_def allocated_size_def RepeatedPtrFieldBase_def)

lemma full_total: "pf_state f ps cs \<Longrightarrow> full f \<Longrightarrow> pf_total f = int (length ps + length cs)"
  by (elim state_cases) (auto simp: full_def allocated_size_def RepeatedPtrFieldBase_def)

text \<open>What \<open>Add\<close> does with the array: a cleared object is used again, otherwise a new one is put behind the
  others.\<close>

lemma Add_reuses:
  assumes "pf_state f ps (c # cs)"
  shows "\<exists>f'. pf_Add reserve T f h = Some (c, f', h) \<and> pf_state f' (ps @ [c]) cs"
  using assms
proof (cases rule: state_cases)
  case (array free)
  then show ?thesis
    by (auto simp: pf_Add_def pf_AddFromCleared_def element_def nth_append intro: stateI [of _ _ _ free])
qed simp

lemma Add_grows:
  assumes "pf_state f ps []"
  shows "\<exists>f'. pf_Add reserve T f h = Some (hp_next h, f', snd (th_New T h)) \<and> pf_state f' (ps @ [hp_next h]) []"
proof -
  define g where "g = (if full f then reserve (pf_total f + 1) f else f)"
  have s: "pf_state g ps []" using assms reserve_state by (simp add: g_def)
  have nf: "\<not> full g" using reserve_room [OF assms] full_total [OF assms] by (simp add: g_def)
  obtain e free where g: "g = \<lparr>pf_size = int (length ps), pf_total = int (length ps + length ([] :: nat list) + length (e # free)),
      pf_rep = Some (int (length ps + length ([] :: nat list)), map Some (ps @ []) @ e # free)\<rparr>"
    using that by (rule room_cases [OF s nf])
  have "pf_AddFromCleared f = Some (None, f)"
    using assms by (elim state_cases) (auto simp: pf_AddFromCleared_def RepeatedPtrFieldBase_def)
  then have "pf_Add reserve T f h = do {
      allocated \<leftarrow> allocated_size g;
      f \<leftarrow> set_allocated (allocated + 1) g;
      f \<leftarrow> set_element (pf_size f) (hp_next h) f;
      Some (hp_next h, f\<lparr>pf_size := pf_size f + 1\<rparr>, snd (th_New T h)) }"
    by (simp add: pf_Add_def th_New_def Let_def g_def [symmetric])
  then show ?thesis
    unfolding g
    by (auto simp: allocated_size_def set_allocated_def set_element_def list_update_append intro: stateI [of _ _ _ free])
qed

text \<open>\<open>AddAllocated\<close> of a pointer: with a free slot a cleared object makes way to the end, without one the
  first cleared object is deleted, and only without any the array grows.\<close>

definition adds_pointer :: "nat \<Rightarrow> 'o heap \<Rightarrow> nat list \<Rightarrow> nat list \<Rightarrow> (ptr_field \<times> 'o heap) option \<Rightarrow> bool" where
  "adds_pointer p h ps cs r \<longleftrightarrow>
     (\<exists>f' h' cs'. r = Some (f', h') \<and> pf_state f' (ps @ [p]) cs'
        \<and> (h' = h \<and> mset cs' = mset cs \<or> (\<exists>c. cs = c # cs' \<and> th_Delete c h = Some h')))"

lemma AddAllocated_adds:
  assumes "pf_state f ps cs" "\<forall>c \<in> set cs. hp_objs h c \<noteq> None"
  shows "adds_pointer p h ps cs (pf_AddAllocated reserve p f h)"
proof (cases "full f")
  case False
  obtain e free where f: "f = \<lparr>pf_size = int (length ps), pf_total = int (length ps + length cs + length (e # free)),
      pf_rep = Some (int (length ps + length cs), map Some (ps @ cs) @ e # free)\<rparr>"
    using that by (rule room_cases [OF assms(1) False])
  show ?thesis
  proof (cases cs)
    case Nil
    then have "pf_AddAllocated reserve p f h = Some
        (\<lparr>pf_size = int (length ps) + 1, pf_total = int (length ps + length (e # free)),
          pf_rep = Some (int (length ps) + 1, map Some ps @ Some p # free)\<rparr>, h)"
      using f by (simp add: pf_AddAllocated_def allocated_size_def set_element_def set_allocated_def list_update_append)
    moreover have "pf_state \<lparr>pf_size = int (length ps) + 1, pf_total = int (length ps + length (e # free)),
          pf_rep = Some (int (length ps) + 1, map Some ps @ Some p # free)\<rparr> (ps @ [p]) []"
      by (rule stateI [of _ _ _ free]) simp_all
    ultimately show ?thesis using Nil unfolding adds_pointer_def by blast
  next
    case (Cons c cs')
    let ?f = "\<lparr>pf_size = int (length ps) + 1, pf_total = int (length ps + length cs + length (e # free)),
          pf_rep = Some (int (length ps + length cs) + 1, map Some ps @ Some p # map Some cs' @ Some c # free)\<rparr>"
    have "pf_AddAllocated reserve p f h = Some (?f, h)"
      using f Cons
      by (simp add: pf_AddAllocated_def allocated_size_def set_element_def set_allocated_def element_def
          list_update_append nth_append nat_add_distrib)
    moreover have "pf_state ?f (ps @ [p]) (cs' @ [c])"
      by (rule stateI [of _ _ _ free]) (simp_all add: Cons)
    moreover have "mset (cs' @ [c]) = mset cs" by (simp add: Cons)
    ultimately show ?thesis unfolding adds_pointer_def by blast
  qed
next
  case True
  have slow: "pf_AddAllocated reserve p f h = pf_UnsafeArenaAddAllocated reserve p f h"
    using True by (auto simp: pf_AddAllocated_def full_def allocated_size_def split: option.split)
  note t = full_total [OF assms(1) True]
  have n: "pf_size f = int (length ps)" using assms(1) by (auto simp: pf_state_def)
  show ?thesis
  proof (cases cs)
    case Nil
    define g where "g = reserve (int (length ps) + 1) f"
    have s: "pf_state g ps []" using reserve_state assms(1) Nil by (simp add: g_def)
    have nf: "\<not> full g" using reserve_room [OF assms(1)] Nil by (simp add: g_def)
    obtain e free where g: "g = \<lparr>pf_size = int (length ps), pf_total = int (length ps + length ([] :: nat list) + length (e # free)),
        pf_rep = Some (int (length ps + length ([] :: nat list)), map Some (ps @ []) @ e # free)\<rparr>"
      using that by (rule room_cases [OF s nf])
    have "pf_UnsafeArenaAddAllocated reserve p f h = do {
        allocated \<leftarrow> allocated_size g; f \<leftarrow> set_allocated (allocated + 1) g;
        f \<leftarrow> set_element (pf_size f) p f; Some (f\<lparr>pf_size := pf_size f + 1\<rparr>, h) }"
      using t n Nil by (simp add: pf_UnsafeArenaAddAllocated_def g_def [symmetric] Let_def)
    also have "\<dots> = Some (\<lparr>pf_size = int (length ps) + 1, pf_total = int (length ps + length (e # free)),
        pf_rep = Some (int (length ps) + 1, map Some ps @ Some p # free)\<rparr>, h)"
      by (simp add: g allocated_size_def set_allocated_def set_element_def list_update_append)
    finally have "pf_AddAllocated reserve p f h = Some (\<lparr>pf_size = int (length ps) + 1,
        pf_total = int (length ps + length (e # free)), pf_rep = Some (int (length ps) + 1, map Some ps @ Some p # free)\<rparr>, h)"
      using slow by simp
    moreover have "pf_state \<lparr>pf_size = int (length ps) + 1, pf_total = int (length ps + length (e # free)),
        pf_rep = Some (int (length ps) + 1, map Some ps @ Some p # free)\<rparr> (ps @ [p]) []"
      by (rule stateI [of _ _ _ free]) simp_all
    ultimately show ?thesis using Nil unfolding adds_pointer_def by blast
  next
    case (Cons c cs')
    obtain h' where h': "th_Delete c h = Some h'" using assms(2) Cons by (auto simp: th_Delete_def)
    from assms(1) show ?thesis
    proof (cases rule: state_cases)
      case (array free)
      then have free: "free = []" using t by simp
      let ?f = "\<lparr>pf_size = int (length ps) + 1, pf_total = int (length ps + length cs),
          pf_rep = Some (int (length ps + length cs), map Some ps @ Some p # map Some cs')\<rparr>"
      have "pf_AddAllocated reserve p f h = Some (?f, h')"
        unfolding slow using array free Cons h'
        by (simp add: pf_UnsafeArenaAddAllocated_def allocated_size_def element_def set_element_def nth_append
            list_update_append)
      moreover have "pf_state ?f (ps @ [p]) cs'" by (rule stateI [of _ _ _ "[]"]) (simp_all add: Cons)
      ultimately show ?thesis using Cons h' unfolding adds_pointer_def by blast
    qed (use Cons in simp)
  qed
qed

end

lemma ReleaseLast_takes:
  assumes "pf_state f (ps @ [p]) cs"
  shows "\<exists>f' cs'. pf_ReleaseLast f = Some (p, f') \<and> pf_state f' ps cs' \<and> mset cs' = mset cs"
  using assms
proof (cases rule: state_cases)
  case (array free)
  show ?thesis
  proof (cases cs rule: rev_cases)
    case Nil
    let ?f = "\<lparr>pf_size = int (length ps), pf_total = int (length (ps @ [p]) + length cs + length free),
        pf_rep = Some (int (length ps), map Some ps @ Some p # free)\<rparr>"
    have "pf_ReleaseLast f = Some (p, ?f)"
      using array Nil by (simp add: pf_ReleaseLast_def element_def allocated_size_def set_allocated_def nth_append)
    moreover have "pf_state ?f ps []" by (rule stateI [of _ _ _ "Some p # free"]) (simp_all add: Nil)
    ultimately show ?thesis using Nil by auto
  next
    case (snoc ds d)
    let ?f = "\<lparr>pf_size = int (length ps), pf_total = int (length (ps @ [p]) + length cs + length free),
        pf_rep = Some (int (length ps + length cs), map Some ps @ Some d # map Some ds @ Some d # free)\<rparr>"
    have "pf_ReleaseLast f = Some (p, ?f)"
      using array snoc
      by (simp add: pf_ReleaseLast_def element_def set_element_def allocated_size_def set_allocated_def nth_append
          list_update_append nat_add_distrib)
    moreover have "pf_state ?f ps (d # ds)" by (rule stateI [of _ _ _ "Some d # free"]) (simp_all add: snoc)
    ultimately show ?thesis using snoc by fastforce
  qed
qed simp

lemma RemoveLast_clears:
  assumes "pf_state f (ps @ [p]) cs" "hp_objs h p \<noteq> None"
  shows "\<exists>f'. pf_RemoveLast T f h = Some (f', h\<lparr>hp_objs := (hp_objs h)(p \<mapsto> th_default T)\<rparr>) \<and> pf_state f' ps (p # cs)"
  using assms(1)
proof (cases rule: state_cases)
  case (array free)
  let ?f = "f\<lparr>pf_size := int (length ps)\<rparr>"
  have "element (int (length ps)) ?f = Some p" using array by (simp add: element_def nth_append)
  then have "pf_RemoveLast T f h = Some (?f, h\<lparr>hp_objs := (hp_objs h)(p \<mapsto> th_default T)\<rparr>)"
    using array assms(2) by (simp add: pf_RemoveLast_def th_Clear_def obj_put_def)
  moreover have "pf_state ?f ps (p # cs)" by (rule stateI [of _ _ _ free]) (simp_all add: array)
  ultimately show ?thesis by blast
qed simp

lemma SwapElements_swaps:
  assumes "pf_state f ps cs" "i < length ps" "j < length ps"
  shows "\<exists>f'. pf_SwapElements (int i) (int j) f = Some f' \<and> pf_state f' (ps[i := ps ! j, j := ps ! i]) cs"
  using assms(1)
proof (cases rule: state_cases)
  case (array free)
  let ?f = "f\<lparr>pf_rep := Some (int (length ps + length cs), map Some (ps[i := ps ! j, j := ps ! i] @ cs) @ free)\<rparr>"
  have "pf_SwapElements (int i) (int j) f = Some ?f"
    using array assms(2,3)
    by (simp add: pf_SwapElements_def element_def set_element_def nth_append list_update_append map_update)
  moreover have "pf_state ?f (ps[i := ps ! j, j := ps ! i]) cs"
    by (rule stateI [of _ _ _ free]) (simp_all add: array)
  ultimately show ?thesis by blast
qed (use assms in simp)

lemma ReleaseCleared_takes:
  assumes "pf_state f ps (cs @ [c])"
  shows "\<exists>f'. pf_ReleaseCleared f = Some (c, f') \<and> pf_state f' ps cs"
  using assms
proof (cases rule: state_cases)
  case (array free)
  let ?f = "f\<lparr>pf_rep := Some (int (length ps + length cs), map Some (ps @ cs @ [c]) @ free)\<rparr>"
  have "pf_ReleaseCleared f = Some (c, ?f)"
    using array by (simp add: pf_ReleaseCleared_def allocated_size_def set_allocated_def element_def nth_append nat_add_distrib)
  moreover have "pf_state ?f ps cs" by (rule stateI [of _ _ _ "Some c # free"]) (simp_all add: array)
  ultimately show ?thesis by blast
qed simp

context ptr_runtime
begin

lemma AddCleared_adds:
  assumes "pf_state f ps cs"
  shows "\<exists>f'. pf_AddCleared reserve p f = Some f' \<and> pf_state f' ps (cs @ [p])"
proof -
  define g where "g = (if full f then reserve (pf_total f + 1) f else f)"
  have s: "pf_state g ps cs" using assms reserve_state by (simp add: g_def)
  have nf: "\<not> full g" using reserve_room [OF assms] full_total [OF assms] by (simp add: g_def)
  obtain e free where g: "g = \<lparr>pf_size = int (length ps), pf_total = int (length ps + length cs + length (e # free)),
      pf_rep = Some (int (length ps + length cs), map Some (ps @ cs) @ e # free)\<rparr>"
    using that by (rule room_cases [OF s nf])
  let ?f = "g\<lparr>pf_rep := Some (int (length ps + length cs) + 1, map Some (ps @ cs) @ Some p # free)\<rparr>"
  have "pf_AddCleared reserve p f = do {
      allocated \<leftarrow> allocated_size g; f \<leftarrow> set_element allocated p g; set_allocated (allocated + 1) f }"
    by (simp add: pf_AddCleared_def g_def [symmetric] Let_def)
  also have "\<dots> = Some ?f"
    by (simp add: g allocated_size_def set_allocated_def set_element_def list_update_append nat_add_distrib)
  finally have "pf_AddCleared reserve p f = Some ?f" .
  moreover have "pf_state ?f ps (cs @ [p])" by (rule stateI [of _ _ _ free]) (simp_all add: g)
  ultimately show ?thesis by blast
qed

end

section \<open>The objects\<close>

text \<open>The loops over the elements: every object is cleared, or deleted.\<close>

definition clear_all :: "'o type_handler \<Rightarrow> nat list \<Rightarrow> 'o heap \<Rightarrow> 'o heap" where
  "clear_all T ps h = h\<lparr>hp_objs := (\<lambda>p. if p \<in> set ps then Some (th_default T) else hp_objs h p)\<rparr>"

definition delete_all :: "nat list \<Rightarrow> 'o heap \<Rightarrow> 'o heap" where
  "delete_all ps h = h\<lparr>hp_objs := (\<lambda>p. if p \<in> set ps then None else hp_objs h p)\<rparr>"

lemma clear_elements_clears:
  assumes "\<And>k. k < length qs \<Longrightarrow> element (i + int k) f = Some (qs ! k)" "\<forall>p \<in> set qs. hp_objs h p \<noteq> None"
  shows "clear_elements T (length qs) i f h = Some (clear_all T qs h)"
  using assms
proof (induction qs arbitrary: i h)
  case Nil
  then show ?case by (simp add: clear_all_def)
next
  case (Cons q qs)
  let ?h = "h\<lparr>hp_objs := (hp_objs h)(q \<mapsto> th_default T)\<rparr>"
  have "element i f = Some q" using Cons.prems(1) [of 0] by simp
  moreover have "th_Clear T q h = Some ?h" using Cons.prems(2) by (simp add: th_Clear_def obj_put_def)
  moreover have "clear_elements T (length qs) (i + 1) f ?h = Some (clear_all T qs ?h)"
  proof (rule Cons.IH)
    show "element (i + 1 + int k) f = Some (qs ! k)" if "k < length qs" for k
      using Cons.prems(1) [of "Suc k"] that by (simp add: add.assoc)
    show "\<forall>p \<in> set qs. hp_objs ?h p \<noteq> None" using Cons.prems(2) by simp
  qed
  moreover have "clear_all T qs ?h = clear_all T (q # qs) h" by (cases h) (auto simp: clear_all_def fun_eq_iff)
  ultimately show ?case by simp
qed

lemma delete_elements_deletes:
  assumes "\<And>k. k < length qs \<Longrightarrow> element (i + int k) f = Some (qs ! k)" "\<forall>p \<in> set qs. hp_objs h p \<noteq> None" "distinct qs"
  shows "delete_elements (length qs) i f h = Some (delete_all qs h)"
  using assms
proof (induction qs arbitrary: i h)
  case Nil
  then show ?case by (simp add: delete_all_def)
next
  case (Cons q qs)
  let ?h = "h\<lparr>hp_objs := (hp_objs h)(q := None)\<rparr>"
  have "element i f = Some q" using Cons.prems(1) [of 0] by simp
  moreover have "th_Delete q h = Some ?h" using Cons.prems(2) by (simp add: th_Delete_def)
  moreover have "delete_elements (length qs) (i + 1) f ?h = Some (delete_all qs ?h)"
  proof (rule Cons.IH)
    show "element (i + 1 + int k) f = Some (qs ! k)" if "k < length qs" for k
      using Cons.prems(1) [of "Suc k"] that by (simp add: add.assoc)
    show "\<forall>p \<in> set qs. hp_objs ?h p \<noteq> None" using Cons.prems(2,3) by auto
    show "distinct qs" using Cons.prems(3) by simp
  qed
  moreover have "delete_all qs ?h = delete_all (q # qs) h" by (cases h) (auto simp: delete_all_def fun_eq_iff)
  ultimately show ?case by simp
qed

lemma Clear_clears:
  assumes "pf_state f ps cs" "\<forall>p \<in> set ps. hp_objs h p \<noteq> None"
  shows "\<exists>f'. pf_Clear T f h = Some (f', clear_all T ps h) \<and> pf_state f' [] (ps @ cs)"
proof -
  have n: "pf_size f = int (length ps)" using assms(1) by (auto simp: pf_state_def)
  have c: "clear_elements T (length ps) 0 f h = Some (clear_all T ps h)"
    by (rule clear_elements_clears) (use assms state_element [OF assms(1)] in \<open>auto simp: nth_append\<close>)
  have s: "pf_state (f\<lparr>pf_size := 0\<rparr>) [] (ps @ cs)"
    using assms(1)
  proof (cases rule: state_cases)
    case (array free)
    then show ?thesis by (intro stateI [of _ _ _ free]) simp_all
  qed (simp add: pf_state_def RepeatedPtrFieldBase_def)
  show ?thesis
  proof (cases "ps = []")
    case True
    then show ?thesis using assms(1) n c by (simp add: pf_Clear_def)
  next
    case False
    then show ?thesis using s n c by (simp add: pf_Clear_def)
  qed
qed

lemma Destroy_deletes:
  assumes "pf_state f ps cs" "\<forall>p \<in> set (ps @ cs). hp_objs h p \<noteq> None" "distinct (ps @ cs)"
  shows "\<exists>f'. pf_Destroy f h = Some (f', delete_all (ps @ cs) h)"
proof (cases "pf_rep f")
  case None
  then have "ps = []" "cs = []" using assms(1) by (auto simp: pf_state_def)
  then show ?thesis using None by (simp add: pf_Destroy_def allocated_size_def delete_all_def)
next
  case (Some r)
  then have "allocated_size f = Some (int n)" if "n = length (ps @ cs)" for n
    using assms(1) that by (auto simp: pf_state_def allocated_size_def)
  moreover have "delete_elements (length (ps @ cs)) 0 f h = Some (delete_all (ps @ cs) h)"
    by (rule delete_elements_deletes) (use assms state_element [OF assms(1)] in auto)
  ultimately show ?thesis unfolding pf_Destroy_def by (simp del: length_append)
qed

end
