(* ===== verification/PtrOwner.thy ===== *)
theory PtrOwner
  imports RepeatedPtrField
begin

text \<open>
  Who owns the objects of a repeated field of strings or messages: the field owns its elements and the
  cleared objects behind them, and nothing else of the heap changes.  With it the operations of
  \<^verbatim>\<open>RepeatedPtrFieldBase\<close> are those of a list, and \<open>Destroy\<close> leaves nothing behind.
\<close>

section \<open>The objects of a field\<close>

text \<open>The elements \<open>ps\<close> have the values \<open>xs\<close> and the objects \<open>cs\<close> are cleared; they are no objects of
  \<open>base\<close>, the heap outside the field, which is as it was.\<close>

definition fresh_from :: "nat \<Rightarrow> (nat \<Rightarrow> 'o option) \<Rightarrow> bool" where
  "fresh_from n objs \<longleftrightarrow> (\<forall>p \<ge> n. objs p = None)"

definition owns_cells :: "'o type_handler \<Rightarrow> (nat \<Rightarrow> 'o option) \<Rightarrow> 'o heap \<Rightarrow> nat list \<Rightarrow> nat list \<Rightarrow> 'o list \<Rightarrow> bool" where
  "owns_cells T base h ps cs xs \<longleftrightarrow>
     distinct (ps @ cs) \<and> map (hp_objs h) ps = map Some xs \<and> (\<forall>c \<in> set cs. hp_objs h c = Some (th_default T))
     \<and> (\<forall>p. p \<notin> set (ps @ cs) \<longrightarrow> hp_objs h p = base p)
     \<and> (\<forall>p \<in> set (ps @ cs). base p = None) \<and> fresh_from (hp_next h) (hp_objs h)"

lemma owns_outside:
  assumes "owns_cells T base h ps cs xs" "base p = Some v"
  shows "p \<notin> set ps \<and> p \<notin> set cs \<and> hp_objs h p = Some v"
proof -
  have "p \<notin> set (ps @ cs)" using assms unfolding owns_cells_def by fastforce
  moreover from this have "hp_objs h p = base p" using assms(1) unfolding owns_cells_def by blast
  ultimately show ?thesis using assms(2) by simp
qed

lemma owns_elements:
  assumes "owns_cells T base h ps cs xs" "p \<in> set ps"
  shows "hp_objs h p \<noteq> None"
proof -
  have "map (hp_objs h) ps = map Some xs" using assms(1) unfolding owns_cells_def by blast
  then have "hp_objs h ` set ps = Some ` set xs" by (metis set_map)
  then show ?thesis using assms(2) by (metis image_iff option.distinct(1))
qed

lemma owns_allocated:
  assumes "owns_cells T base h ps cs xs" "p \<in> set (ps @ cs)"
  shows "hp_objs h p \<noteq> None"
proof (cases "p \<in> set ps")
  case False
  then have "p \<in> set cs" using assms(2) by simp
  moreover have "\<forall>c \<in> set cs. hp_objs h c = Some (th_default T)" using assms(1) unfolding owns_cells_def by blast
  ultimately show ?thesis by simp
qed (rule owns_elements [OF assms(1)])

lemma owns_length: "owns_cells T base h ps cs xs \<Longrightarrow> length ps = length xs"
  by (auto simp: owns_cells_def dest: map_eq_imp_length_eq)

lemma owns_nth: "owns_cells T base h ps cs xs \<Longrightarrow> i < length xs \<Longrightarrow> hp_objs h (ps ! i) = Some (xs ! i)"
  by (metis nth_map owns_cells_def owns_length)

lemma owns_start: "fresh_from (hp_next h) (hp_objs h) \<Longrightarrow> owns_cells T (hp_objs h) h [] [] []"
  by (simp add: owns_cells_def)

lemma owns_order:
  assumes "owns_cells T base h ps cs xs" "mset cs' = mset cs"
  shows "owns_cells T base h ps cs' xs"
proof -
  have "set cs' = set cs" "distinct cs' = distinct cs"
    using mset_eq_setD [OF assms(2)] mset_eq_imp_distinct_iff [OF assms(2)] by auto
  then show ?thesis using assms(1) by (simp add: owns_cells_def)
qed

lemma owns_reuse: "owns_cells T base h ps (c # cs) xs \<Longrightarrow> owns_cells T base h (ps @ [c]) cs (xs @ [th_default T])"
  by (auto simp: owns_cells_def)

lemma owns_new:
  assumes "owns_cells T base h ps [] xs"
  shows "owns_cells T base (snd (th_New T h)) (ps @ [hp_next h]) [] (xs @ [th_default T])"
proof -
  have n: "hp_objs h (hp_next h) = None" using assms by (simp add: owns_cells_def fresh_from_def)
  then have out: "hp_next h \<notin> set ps" using owns_elements [OF assms] by blast
  then have b: "base (hp_next h) = None" using assms n by (auto simp: owns_cells_def split: if_splits)
  show ?thesis using assms out b by (auto simp: owns_cells_def th_New_def fresh_from_def)
qed

lemma owns_assign:
  assumes "owns_cells T base h ps cs xs" "i < length xs"
  shows "owns_cells T base (h\<lparr>hp_objs := (hp_objs h)(ps ! i \<mapsto> v)\<rparr>) ps cs (xs[i := v])"
proof -
  have l: "length ps = length xs" by (rule owns_length [OF assms(1)])
  have d: "distinct ps" using assms(1) by (simp add: owns_cells_def)
  have m: "map (hp_objs h) ps = map Some xs" using assms(1) by (simp add: owns_cells_def)
  have "map ((hp_objs h)(ps ! i \<mapsto> v)) ps = map Some (xs[i := v])"
  proof (rule nth_equalityI)
    show "map ((hp_objs h)(ps ! i \<mapsto> v)) ps ! k = map Some (xs[i := v]) ! k" if "k < length (map ((hp_objs h)(ps ! i \<mapsto> v)) ps)" for k
      using that l d assms(2) owns_nth [OF assms(1), of k] by (auto simp: nth_eq_iff_index_eq nth_list_update)
  qed (simp add: l)
  moreover have "ps ! i \<in> set ps" using l assms(2) by simp
  moreover have "hp_objs h (ps ! i) \<noteq> None" using owns_nth [OF assms] by simp
  ultimately show ?thesis using assms(1) by (auto simp: owns_cells_def fresh_from_def)
qed

lemma owns_clear_last:
  assumes "owns_cells T base h (ps @ [p]) cs (xs @ [x])"
  shows "owns_cells T base (h\<lparr>hp_objs := (hp_objs h)(p \<mapsto> th_default T)\<rparr>) ps (p # cs) xs"
proof -
  have "hp_objs h p = Some x" using assms by (simp add: owns_cells_def)
  moreover have "p \<notin> set ps" using assms by (simp add: owns_cells_def)
  ultimately show ?thesis using assms by (auto simp: owns_cells_def fresh_from_def)
qed

lemma owns_clear_all:
  assumes "owns_cells T base h ps cs xs"
  shows "owns_cells T base (clear_all T ps h) [] (ps @ cs) []"
proof -
  have "fresh_from (hp_next h) (hp_objs (clear_all T ps h))"
    using assms owns_elements [OF assms] by (fastforce simp: owns_cells_def clear_all_def fresh_from_def)
  then show ?thesis using assms by (auto simp: owns_cells_def clear_all_def)
qed

lemma owns_delete_all: "owns_cells T base h ps cs xs \<Longrightarrow> hp_objs (delete_all (ps @ cs) h) = base"
  by (rule ext) (auto simp: owns_cells_def delete_all_def)

lemma owns_delete:
  assumes "owns_cells T base h ps (c # cs) xs" "th_Delete c h = Some h'"
  shows "owns_cells T base h' ps cs xs"
proof -
  have h': "h' = h\<lparr>hp_objs := (hp_objs h)(c := None)\<rparr>" using assms(2) by (auto simp: th_Delete_def split: if_splits)
  have "c \<notin> set ps" using assms(1) by (simp add: owns_cells_def)
  then show ?thesis using assms(1) unfolding h' by (auto simp: owns_cells_def fresh_from_def)
qed

text \<open>An object that is handed to the field, and one that is taken from it.\<close>

lemma owns_give:
  assumes "owns_cells T base h ps cs xs" "base p = Some v"
  shows "owns_cells T (base(p := None)) h (ps @ [p]) cs (xs @ [v])"
  using owns_outside [OF assms] assms by (auto simp: owns_cells_def)

lemma owns_take:
  assumes "owns_cells T base h (ps @ [p]) cs (xs @ [x])"
  shows "owns_cells T (base(p \<mapsto> x)) h ps cs xs"
  using assms by (auto simp: owns_cells_def)

lemma owns_give_cleared:
  assumes "owns_cells T base h ps cs xs" "base p = Some (th_default T)"
  shows "owns_cells T (base(p := None)) h ps (cs @ [p]) xs"
  using owns_outside [OF assms] assms by (auto simp: owns_cells_def)

lemma owns_take_cleared:
  assumes "owns_cells T base h ps (cs @ [c]) xs"
  shows "owns_cells T (base(c \<mapsto> th_default T)) h ps cs xs"
  using assms by (auto simp: owns_cells_def)

lemma owns_swap:
  assumes "owns_cells T base h ps cs xs" "i < length xs" "j < length xs"
  shows "owns_cells T base h (ps[i := ps ! j, j := ps ! i]) cs (xs[i := xs ! j, j := xs ! i])"
proof -
  have l: "length ps = length xs" by (rule owns_length [OF assms(1)])
  have m: "map (hp_objs h) (ps[i := ps ! j, j := ps ! i]) = map Some (xs[i := xs ! j, j := xs ! i])"
    using assms owns_nth [OF assms(1)] l by (simp add: map_update owns_cells_def)
  have "mset (ps[i := ps ! j, j := ps ! i]) = mset ps"
    using assms(2,3) l by (simp add: mset_swap)
  then have "set (ps[i := ps ! j, j := ps ! i]) = set ps" "distinct (ps[i := ps ! j, j := ps ! i]) = distinct ps"
    by (rule mset_eq_setD, rule mset_eq_imp_distinct_iff)
  then show ?thesis using assms(1) m by (simp add: owns_cells_def)
qed

section \<open>Merging\<close>

text \<open>The field as \<open>MergeFrom\<close> leaves it, had it merged the first \<open>i\<close> elements only.\<close>

definition merged_view :: "int \<Rightarrow> ptr_field \<Rightarrow> ptr_field" where
  "merged_view i f = f\<lparr>pf_size := pf_size f + i, pf_rep := map_option (\<lambda>(a, es). (max a (pf_size f + i), es)) (pf_rep f)\<rparr>"

lemma view_reuses:
  assumes "pf_state (merged_view i f) ps (c # cs)"
  shows "element (pf_size f + i) f = Some c" "pf_state (merged_view (i + 1) f) (ps @ [c]) cs"
proof -
  obtain a es where rep: "pf_rep f = Some (a, es)"
    using assms by (cases "pf_rep f") (auto simp: pf_state_def merged_view_def)
  have v: "pf_size f + i = int (length ps)" "max a (pf_size f + i) = int (length ps + length (c # cs))"
    using assms by (auto simp: pf_state_def merged_view_def rep)
  obtain free where es: "es = map Some (ps @ c # cs) @ free" "pf_total f = int (length ps + length (c # cs) + length free)"
    using assms by (auto simp: pf_state_def merged_view_def rep)
  show "element (pf_size f + i) f = Some c" using v es by (simp add: element_def rep nth_append)
  show "pf_state (merged_view (i + 1) f) (ps @ [c]) cs"
    by (rule stateI [of _ _ _ free]) (use v es in \<open>auto simp: merged_view_def rep\<close>)
qed

lemma view_grows:
  assumes "pf_state (merged_view i f) ps []" "pf_size f + i < pf_total f" "pf_rep f \<noteq> None"
  shows "\<exists>f'. set_element (pf_size f + i) p f = Some f' \<and> pf_state (merged_view (i + 1) f') (ps @ [p]) []
    \<and> pf_size f' = pf_size f \<and> pf_total f' = pf_total f \<and> allocated_size f' = allocated_size f"
proof -
  obtain a es where rep: "pf_rep f = Some (a, es)" using assms(3) by auto
  have v: "pf_size f + i = int (length ps)" "max a (pf_size f + i) = int (length ps)"
    using assms(1) by (auto simp: pf_state_def merged_view_def rep)
  obtain free where es: "es = map Some ps @ free" "pf_total f = int (length ps + length free)"
    using assms(1) by (auto simp: pf_state_def merged_view_def rep)
  obtain e free' where free: "free = e # free'" using assms(2) v es by (cases free) auto
  let ?f = "f\<lparr>pf_rep := Some (a, map Some (ps @ [p]) @ free')\<rparr>"
  have "set_element (pf_size f + i) p f = Some ?f"
    using v es by (simp add: set_element_def rep free list_update_append)
  moreover have "pf_state (merged_view (i + 1) ?f) (ps @ [p]) []"
    by (rule stateI [of _ _ _ free']) (use v es in \<open>auto simp: merged_view_def free\<close>)
  ultimately show ?thesis by (simp add: allocated_size_def rep)
qed


text \<open>What \<open>MergeFrom\<close> does to an object that is cleared or new: the value of the other element is put there.\<close>

lemma merges_into:
  assumes "owns_cells T base h ps cs xs" "base q = Some v" "p \<in> set (ps @ cs)" "hp_objs h p = Some (th_default T)"
    "th_Merge T v (th_default T) = v"
  shows "th_merge_into T q p h = Some (h\<lparr>hp_objs := (hp_objs h)(p \<mapsto> v)\<rparr>)"
  using owns_outside [OF assms(1,2)] assms(4,5) by (simp add: th_merge_into_def obj_put_def)

lemma owns_merge_reused:
  assumes "owns_cells T base h ps (c # cs) xs" "base q = Some v" "th_Merge T v (th_default T) = v"
  shows "\<exists>h'. th_merge_into T q c h = Some h' \<and> owns_cells T base h' (ps @ [c]) cs (xs @ [v])"
proof -
  have c: "hp_objs h c = Some (th_default T)" using assms(1) unfolding owns_cells_def by simp
  have l: "length ps = length xs" by (rule owns_length [OF assms(1)])
  have "owns_cells T base (h\<lparr>hp_objs := (hp_objs h)((ps @ [c]) ! length xs \<mapsto> v)\<rparr>) (ps @ [c]) cs ((xs @ [th_default T])[length xs := v])"
    by (rule owns_assign [OF owns_reuse [OF assms(1)]]) simp
  then show ?thesis using merges_into [OF assms(1,2) _ c assms(3)] l by (simp add: nth_append)
qed

lemma owns_merge_new:
  assumes "owns_cells T base h ps [] xs" "base q = Some v" "th_Merge T v (th_default T) = v"
  shows "\<exists>h'. th_merge_into T q (hp_next h) (snd (th_New T h)) = Some h'
    \<and> owns_cells T base h' (ps @ [hp_next h]) [] (xs @ [v])"
proof -
  let ?h = "snd (th_New T h)"
  note new = owns_new [OF assms(1)]
  have p: "hp_objs ?h (hp_next h) = Some (th_default T)" by (simp add: th_New_def)
  have l: "length ps = length xs" by (rule owns_length [OF assms(1)])
  have "owns_cells T base (?h\<lparr>hp_objs := (hp_objs ?h)((ps @ [hp_next h]) ! length xs \<mapsto> v)\<rparr>) (ps @ [hp_next h]) []
      ((xs @ [th_default T])[length xs := v])"
    by (rule owns_assign [OF new]) simp
  then show ?thesis using merges_into [OF new assms(2) _ p assms(3)] l by (simp add: nth_append)
qed

text \<open>The values of another field, whose objects are in the heap outside this one.\<close>

definition field_values :: "(nat \<Rightarrow> 'o option) \<Rightarrow> ptr_field \<Rightarrow> 'o list option" where
  "field_values objs f = those (map (\<lambda>i. Option.bind (element (int i) f) objs) [0..<nat (pf_size f)])"

lemma those_nth: "those os = Some xs \<longleftrightarrow> os = map Some xs"
  by (induction os arbitrary: xs) (auto split: option.splits simp: map_eq_Cons_conv)

lemma ptr_merge_loop_merges:
  assumes "pf_state (merged_view i f) ps cs" "owns_cells T base h ps cs xs"
    "\<And>k. k < length ys \<Longrightarrow> Option.bind (element (i + int k) other) base = Some (ys ! k)"
    "pf_size f + i + int (length ys) \<le> pf_total f" "pf_rep f \<noteq> None" "\<And>v. th_Merge T v (th_default T) = v"
  shows "\<exists>f' h' ps' cs'. ptr_merge_loop T (length ys) (length cs) i other f h = Some (f', h')
    \<and> pf_state (merged_view (i + int (length ys)) f') ps' cs' \<and> owns_cells T base h' ps' cs' (xs @ ys)
    \<and> pf_size f' = pf_size f \<and> allocated_size f' = allocated_size f"
  using assms(1-5)
proof (induction ys arbitrary: i f h ps cs xs)
  case Nil
  then show ?case by auto
next
  case (Cons y ys)
  obtain q where q: "element i other = Some q" "base q = Some y" using Cons.prems(3) [of 0] by (auto split: bind_splits)
  have rest: "Option.bind (element (i + 1 + int k) other) base = Some (ys ! k)" if "k < length ys" for k
    using Cons.prems(3) [of "Suc k"] that by (simp add: add.assoc)
  show ?case
  proof (cases cs)
    case (Cons c cs')
    note s = view_reuses [OF Cons.prems(1) [unfolded Cons]]
    obtain h1 where h1: "th_merge_into T q c h = Some h1" "owns_cells T base h1 (ps @ [c]) cs' (xs @ [y])"
      using owns_merge_reused [OF Cons.prems(2) [unfolded Cons] q(2) assms(6)] by blast
    have room: "pf_size f + (i + 1) + int (length ys) \<le> pf_total f" using Cons.prems(4) by simp
    show ?thesis
      using Cons.IH [OF s(2) h1(2) rest room Cons.prems(5)] q(1) s(1) h1(1) Cons by (simp add: add.assoc)
  next
    case Nil
    obtain h1 where h1: "th_merge_into T q (hp_next h) (snd (th_New T h)) = Some h1"
      "owns_cells T base h1 (ps @ [hp_next h]) [] (xs @ [y])"
      using owns_merge_new [OF Cons.prems(2) [unfolded Nil] q(2) assms(6)] by blast
    have lt: "pf_size f + i < pf_total f" using Cons.prems(4) by simp
    obtain f1 where f1: "set_element (pf_size f + i) (hp_next h) f = Some f1"
      "pf_state (merged_view (i + 1) f1) (ps @ [hp_next h]) []" "pf_size f1 = pf_size f" "pf_total f1 = pf_total f"
      "allocated_size f1 = allocated_size f"
      using view_grows [OF Cons.prems(1) [unfolded Nil] lt Cons.prems(5)] by blast
    have room: "pf_size f1 + (i + 1) + int (length ys) \<le> pf_total f1" using Cons.prems(4) f1(3,4) by simp
    have "pf_rep f1 \<noteq> None" using Cons.prems(5) f1(5) by (cases "pf_rep f1") (auto simp: allocated_size_def)
    note ih = Cons.IH [OF f1(2) h1(2) rest room this]
    have "ptr_merge_loop T (length (y # ys)) (length cs) i other f h = ptr_merge_loop T (length ys) 0 (i + 1) other f1 h1"
      using q(1) h1(1) f1(1) Nil by (simp add: th_New_def Let_def)
    then show ?thesis using ih f1(3,5) by (simp add: add.assoc)
  qed
qed


section \<open>The field and its objects\<close>

text \<open>The field of a heap has the elements \<open>xs\<close>; the heap outside it is \<open>base\<close>.\<close>

definition pf_holds :: "'o type_handler \<Rightarrow> (nat \<Rightarrow> 'o option) \<Rightarrow> ptr_field \<times> 'o heap \<Rightarrow> 'o list \<Rightarrow> bool" where
  "pf_holds T base s xs \<longleftrightarrow> (\<exists>ps cs. pf_state (fst s) ps cs \<and> owns_cells T base (snd s) ps cs xs)"

lemma pf_holdsI: "pf_state f ps cs \<Longrightarrow> owns_cells T base h ps cs xs \<Longrightarrow> pf_holds T base (f, h) xs"
  by (auto simp: pf_holds_def)

lemma pf_holdsE:
  assumes "pf_holds T base (f, h) xs"
  obtains ps cs where "pf_state f ps cs" "owns_cells T base h ps cs xs" "length ps = length xs" "pf_size f = int (length xs)"
  using assms owns_length by (fastforce simp: pf_holds_def pf_state_def)

lemma pf_holds_new: "fresh_from (hp_next h) (hp_objs h) \<Longrightarrow> pf_holds T (hp_objs h) (RepeatedPtrFieldBase, h) []"
  by (rule pf_holdsI [OF state_new owns_start])

lemma pf_assign_holds:
  assumes "pf_holds T base (f, h) xs" "i < length xs"
  shows "\<exists>h'. pf_assign (int i) v f h = Some h' \<and> pf_holds T base (f, h') (xs[i := v])"
  using assms(1)
proof (rule pf_holdsE)
  fix ps cs
  assume o: "pf_state f ps cs" "owns_cells T base h ps cs xs" "length ps = length xs"
  have "element (int i) f = Some (ps ! i)" using state_element [OF o(1), of i] o(3) assms(2) by (simp add: nth_append)
  then show ?thesis
    using owns_nth [OF o(2) assms(2)] pf_holdsI [OF o(1) owns_assign [OF o(2) assms(2)]]
    by (simp add: pf_assign_def obj_put_def)
qed

lemma pf_Get_holds:
  assumes "pf_holds T base (f, h) xs" "i < length xs"
  shows "pf_Get (int i) f h = Some (xs ! i)"
  using assms(1)
proof (rule pf_holdsE)
  fix ps cs
  assume o: "pf_state f ps cs" "owns_cells T base h ps cs xs" "length ps = length xs"
  have "element (int i) f = Some (ps ! i)" using state_element [OF o(1), of i] o(3) assms(2) by (simp add: nth_append)
  then show ?thesis using owns_nth [OF o(2) assms(2)] by (simp add: pf_Get_def)
qed

lemma pf_RemoveLast_holds:
  assumes "pf_holds T base (f, h) (xs @ [x])"
  shows "\<exists>f' h'. pf_RemoveLast T f h = Some (f', h') \<and> pf_holds T base (f', h') xs"
  using assms
proof (rule pf_holdsE)
  fix ps cs
  assume o: "pf_state f ps cs" "owns_cells T base h ps cs (xs @ [x])" "length ps = length (xs @ [x])"
  then obtain ps' p where p: "ps = ps' @ [p]" by (cases ps rule: rev_cases) auto
  have "hp_objs h p \<noteq> None" using owns_elements [OF o(2)] p by simp
  then show ?thesis
    using RemoveLast_clears [of f ps' p cs h T] o(1) owns_clear_last [of T base h ps' p cs xs x] o(2) p pf_holdsI by blast
qed

lemma pf_Clear_holds:
  assumes "pf_holds T base (f, h) xs"
  shows "\<exists>f' h'. pf_Clear T f h = Some (f', h') \<and> pf_holds T base (f', h') []"
  using assms
proof (rule pf_holdsE)
  fix ps cs
  assume o: "pf_state f ps cs" "owns_cells T base h ps cs xs"
  show ?thesis using Clear_clears [OF o(1), of h T] owns_elements [OF o(2)] owns_clear_all [OF o(2)] pf_holdsI by blast
qed

lemma pf_SwapElements_holds:
  assumes "pf_holds T base (f, h) xs" "i < length xs" "j < length xs"
  shows "\<exists>f'. pf_SwapElements (int i) (int j) f = Some f' \<and> pf_holds T base (f', h) (xs[i := xs ! j, j := xs ! i])"
  using assms(1)
proof (rule pf_holdsE)
  fix ps cs
  assume o: "pf_state f ps cs" "owns_cells T base h ps cs xs" "length ps = length xs"
  show ?thesis using SwapElements_swaps [OF o(1), of i j] owns_swap [OF o(2) assms(2,3)] o(3) assms(2,3) pf_holdsI by metis
qed

lemma pf_ReleaseLast_holds:
  assumes "pf_holds T base (f, h) (xs @ [x])"
  shows "\<exists>p f'. pf_ReleaseLast f = Some (p, f') \<and> pf_holds T (base(p \<mapsto> x)) (f', h) xs \<and> base p = None"
  using assms
proof (rule pf_holdsE)
  fix ps cs
  assume o: "pf_state f ps cs" "owns_cells T base h ps cs (xs @ [x])" "length ps = length (xs @ [x])"
  then obtain ps' p where p: "ps = ps' @ [p]" by (cases ps rule: rev_cases) auto
  obtain f' cs' where f': "pf_ReleaseLast f = Some (p, f')" "pf_state f' ps' cs'" "mset cs' = mset cs"
    using ReleaseLast_takes [of f ps' p cs] o(1) p by blast
  have t: "owns_cells T (base(p \<mapsto> x)) h ps' cs xs" by (rule owns_take) (use o(2) p in simp)
  have "base p = None" using o(2) unfolding owns_cells_def p by simp
  then show ?thesis using f'(1) pf_holdsI [OF f'(2) owns_order [OF t f'(3)]] by blast
qed

lemma pf_Destroy_holds:
  assumes "pf_holds T base (f, h) xs"
  shows "\<exists>f' h'. pf_Destroy f h = Some (f', h') \<and> hp_objs h' = base"
  using assms
proof (rule pf_holdsE)
  fix ps cs
  assume o: "pf_state f ps cs" "owns_cells T base h ps cs xs"
  have "distinct (ps @ cs)" using o(2) unfolding owns_cells_def by blast
  then show ?thesis
    using Destroy_deletes [OF o(1), of h] owns_allocated [OF o(2)] owns_delete_all [OF o(2)] by fastforce
qed

context ptr_runtime
begin

lemma Add_holds:
  assumes "pf_holds T base (f, h) xs"
  shows "\<exists>p f' h'. pf_Add reserve T f h = Some (p, f', h') \<and> pf_holds T base (f', h') (xs @ [th_default T])"
  using assms
proof (rule pf_holdsE)
  fix ps cs
  assume o: "pf_state f ps cs" "owns_cells T base h ps cs xs"
  show ?thesis
  proof (cases cs)
    case Nil
    then show ?thesis using Add_grows [of f ps T h] owns_new [of T base h ps xs] o pf_holdsI by blast
  next
    case (Cons c cs')
    then show ?thesis using Add_reuses [of f ps c cs' T h] owns_reuse [of T base h ps c cs' xs] o pf_holdsI by blast
  qed
qed

lemma MergeFrom_holds:
  assumes "pf_holds T base (f, h) xs" "field_values base other = Some ys" "0 \<le> pf_size other"
    "\<And>v. th_Merge T v (th_default T) = v"
  shows "\<exists>f' h'. pf_MergeFrom reserve T other f h = Some (f', h') \<and> pf_holds T base (f', h') (xs @ ys)"
proof -
  have ys: "pf_size other = int (length ys)"
    "map (\<lambda>i. Option.bind (element (int i) other) base) [0..<nat (pf_size other)] = map Some ys"
    using assms(2,3) by (auto simp: field_values_def those_nth dest: map_eq_imp_length_eq)
  show ?thesis
  proof (cases "ys = []")
    case True
    then show ?thesis using assms(1) ys by (auto simp: pf_MergeFrom_def)
  next
    case False
    obtain ps cs where o: "pf_state f ps cs" "owns_cells T base h ps cs xs" "pf_size f = int (length xs)"
      by (rule pf_holdsE [OF assms(1)])
    define g where "g = reserve (pf_size f + pf_size other) f"
    have g: "pf_state g ps cs" "pf_size f + pf_size other \<le> pf_total g"
      using reserve_state [OF o(1)] reserve_total [OF o(1)] by (auto simp: g_def)
    have gs: "pf_size g = int (length ps)" "pf_size f = int (length ps)" using g(1) o(1) by (auto simp: pf_state_def)
    have r: "pf_rep g \<noteq> None" using g(1,2) gs(2) ys(1) False by (cases "pf_rep g") (auto simp: pf_state_def)
    then have a: "allocated_size g = Some (int (length ps + length cs))"
      using g(1) by (auto simp: pf_state_def allocated_size_def)
    have v: "merged_view 0 g = g" using g(1) r by (auto simp: pf_state_def merged_view_def)
    have vals: "Option.bind (element (0 + int k) other) base = Some (ys ! k)" if "k < length ys" for k
      using arg_cong [OF ys(2), of "\<lambda>l. l ! k"] that ys(1) by simp
    obtain g' h' ps' cs' where m: "ptr_merge_loop T (length ys) (length cs) 0 other g h = Some (g', h')"
      "pf_state (merged_view (0 + int (length ys)) g') ps' cs'" "owns_cells T base h' ps' cs' (xs @ ys)"
      "pf_size g' = pf_size g" "allocated_size g' = allocated_size g"
      using ptr_merge_loop_merges [of 0 g ps cs T base h xs ys other] v g gs o(2) vals r assms(4) ys(1) by auto
    have other: "pf_size other \<noteq> 0" using ys(1) False by simp
    have "pf_MergeFrom reserve T other f h = do {
        allocated \<leftarrow> allocated_size g;
        (f, h) \<leftarrow> ptr_merge_loop T (nat (pf_size other)) (nat (allocated - pf_size g)) 0 other g h;
        f' \<leftarrow> set_allocated (max allocated (pf_size f + pf_size other)) f;
        Some (f'\<lparr>pf_size := pf_size f + pf_size other\<rparr>, h) }"
      using other by (simp add: pf_MergeFrom_def g_def Let_def)
    also have "\<dots> = Some (merged_view (int (length ys)) g', h')"
      using m(1,4,5) a gs ys(1)
      by (cases g') (auto simp: set_allocated_def allocated_size_def merged_view_def)
    finally have "pf_MergeFrom reserve T other f h = Some (merged_view (int (length ys)) g', h')" .
    then show ?thesis using pf_holdsI [OF m(2,3)] by simp
  qed
qed

lemma CopyFrom_holds:
  assumes "pf_holds T base (f, h) xs" "field_values base other = Some ys" "0 \<le> pf_size other"
    "\<And>v. th_Merge T v (th_default T) = v"
  shows "\<exists>f' h'. pf_CopyFrom False reserve T other f h = Some (f', h') \<and> pf_holds T base (f', h') ys"
proof -
  obtain f1 h1 where c: "pf_Clear T f h = Some (f1, h1)" "pf_holds T base (f1, h1) []"
    using pf_Clear_holds [OF assms(1)] by blast
  then show ?thesis using MergeFrom_holds [OF c(2) assms(2-4)] by (simp add: pf_CopyFrom_def)
qed

lemma AddAllocated_holds:
  assumes "pf_holds T base (f, h) xs" "base p = Some v"
  shows "\<exists>f' h'. pf_AddAllocated reserve p f h = Some (f', h') \<and> pf_holds T (base(p := None)) (f', h') (xs @ [v])"
  using assms(1)
proof (rule pf_holdsE)
  fix ps cs
  assume o: "pf_state f ps cs" "owns_cells T base h ps cs xs"
  have "adds_pointer p h ps cs (pf_AddAllocated reserve p f h)"
    by (rule AddAllocated_adds [OF o(1)]) (use owns_allocated [OF o(2)] in simp)
  then obtain f' h' cs' where a: "pf_AddAllocated reserve p f h = Some (f', h')" "pf_state f' (ps @ [p]) cs'"
    "h' = h \<and> mset cs' = mset cs \<or> (\<exists>c. cs = c # cs' \<and> th_Delete c h = Some h')"
    unfolding adds_pointer_def by blast
  have g: "owns_cells T (base(p := None)) h (ps @ [p]) cs (xs @ [v])" by (rule owns_give [OF o(2) assms(2)])
  from a(3) have "owns_cells T (base(p := None)) h' (ps @ [p]) cs' (xs @ [v])"
    using owns_order [OF g] owns_delete g by blast
  then show ?thesis using a(1) pf_holdsI [OF a(2)] by blast
qed

lemma AddCleared_holds:
  assumes "pf_holds T base (f, h) xs" "base p = Some (th_default T)"
  shows "\<exists>f'. pf_AddCleared reserve p f = Some f' \<and> pf_holds T (base(p := None)) (f', h) xs"
  using assms(1)
proof (rule pf_holdsE)
  fix ps cs
  assume o: "pf_state f ps cs" "owns_cells T base h ps cs xs"
  show ?thesis using AddCleared_adds [OF o(1), of p] owns_give_cleared [OF o(2) assms(2)] pf_holdsI by blast
qed

lemma reserve_holds: "pf_holds T base (f, h) xs \<Longrightarrow> pf_holds T base (reserve n f, h) xs"
  by (elim pf_holdsE) (rule pf_holdsI [OF reserve_state])

end

lemma pf_ReleaseCleared_holds:
  assumes "pf_holds T base (f, h) xs" "0 < pf_ClearedCount f"
  shows "\<exists>p f'. pf_ReleaseCleared f = Some (p, f') \<and> pf_holds T (base(p \<mapsto> th_default T)) (f', h) xs \<and> base p = None"
  using assms(1)
proof (rule pf_holdsE)
  fix ps cs
  assume o: "pf_state f ps cs" "owns_cells T base h ps cs xs"
  have "cs \<noteq> []" using o(1) assms(2) by (elim state_cases) (auto simp: pf_ClearedCount_def allocated_size_def RepeatedPtrFieldBase_def)
  then obtain cs' c where c: "cs = cs' @ [c]" by (cases cs rule: rev_cases) auto
  have "base c = None" using o(2) unfolding owns_cells_def c by simp
  then show ?thesis
    using ReleaseCleared_takes [of f ps cs' c] owns_take_cleared [of T base h ps cs' c xs] o c pf_holdsI by blast
qed

text \<open>A new object of the caller with a value, and its end: the caller's part of \<open>AddAllocated\<close>, \<open>ReleaseLast\<close>
  and their likes.\<close>

definition caller_new :: "'o type_handler \<Rightarrow> 'o \<Rightarrow> 'o heap \<Rightarrow> (nat \<times> 'o heap) option" where
  "caller_new T v h = (case th_New T h of (p, h) \<Rightarrow> do { h \<leftarrow> obj_put p v h; Some (p, h) })"

lemma owns_caller_new:
  assumes "pf_holds T base (f, h) xs"
  shows "\<exists>p h'. caller_new T v h = Some (p, h') \<and> pf_holds T (base(p \<mapsto> v)) (f, h') xs \<and> base p = None"
  using assms
proof (rule pf_holdsE)
  fix ps cs
  assume o: "pf_state f ps cs" "owns_cells T base h ps cs xs"
  let ?p = "hp_next h" and ?h = "\<lparr>hp_next = Suc (hp_next h), hp_objs = (hp_objs h)(hp_next h \<mapsto> v)\<rparr>"
  have n: "hp_objs h ?p = None" using o(2) by (simp add: owns_cells_def fresh_from_def)
  then have out: "?p \<notin> set (ps @ cs)" using owns_allocated [OF o(2)] by blast
  then have b: "base ?p = None" using o(2) n unfolding owns_cells_def by metis
  have "owns_cells T (base(?p \<mapsto> v)) ?h ps cs xs" using o(2) out by (auto simp: owns_cells_def fresh_from_def)
  moreover have "caller_new T v h = Some (?p, ?h)" by (cases h) (simp add: caller_new_def th_New_def obj_put_def)
  ultimately show ?thesis using b pf_holdsI [OF o(1)] by blast
qed

lemma pf_holds_caller_delete:
  assumes "pf_holds T (base(p \<mapsto> x)) (f, h) xs" "base p = None"
  shows "\<exists>h'. th_Delete p h = Some h' \<and> pf_holds T base (f, h') xs"
  using assms(1)
proof (rule pf_holdsE)
  fix ps cs
  assume o: "pf_state f ps cs" "owns_cells T (base(p \<mapsto> x)) h ps cs xs"
  note out = owns_outside [OF o(2), of p x, simplified]
  have "\<forall>q \<in> set (ps @ cs). base q = None"
    using o(2) unfolding owns_cells_def by (metis fun_upd_apply option.distinct(1))
  then have "owns_cells T base (h\<lparr>hp_objs := (hp_objs h)(p := None)\<rparr>) ps cs xs"
    using o(2) out assms(2) by (auto simp: owns_cells_def fresh_from_def)
  moreover have "th_Delete p h = Some (h\<lparr>hp_objs := (hp_objs h)(p := None)\<rparr>)" using out by (simp add: th_Delete_def)
  ultimately show ?thesis using pf_holdsI [OF o(1)] by blast
qed

section \<open>The interface\<close>

text \<open>The objects of a class on a heap, where merging into a cleared object copies.  The field is then a
  sequence of values, the one the parser and the serialisers use.\<close>

locale ptr_objects = ptr_runtime reserve for reserve +
  fixes T :: "'o type_handler" and heap :: "'o heap"
  assumes merge_default: "th_Merge T v (th_default T) = v"
    and heap_fresh: "fresh_from (hp_next heap) (hp_objs heap)"

definition add_value :: "reserve \<Rightarrow> 'o type_handler \<Rightarrow> 'o \<Rightarrow> ptr_field \<times> 'o heap \<Rightarrow> (ptr_field \<times> 'o heap) option" where
  "add_value reserve T v s =
     (case s of (f, h) \<Rightarrow>
        do { (p, f, h) \<leftarrow> pf_Add reserve T f h; h \<leftarrow> pf_assign (pf_size f - 1) v f h; Some (f, h) })"

sublocale ptr_objects \<subseteq> objects: sequence "pf_holds T (hp_objs heap)" "\<lambda>_. True" "(RepeatedPtrFieldBase, heap)"
    "add_value reserve T" "\<lambda>i (f, h). pf_Get (int i) f h"
proof unfold_locales
  fix s :: "ptr_field \<times> 'o heap" and xs x
  assume holds: "pf_holds T (hp_objs heap) s xs"
  obtain f h where s: "s = (f, h)" by (cases s)
  obtain p f1 h1 where a: "pf_Add reserve T f h = Some (p, f1, h1)"
    "pf_holds T (hp_objs heap) (f1, h1) (xs @ [th_default T])"
    using Add_holds holds s by blast
  have n: "pf_size f1 - 1 = int (length xs)" using a(2) by (rule pf_holdsE) simp
  obtain h2 where "pf_assign (int (length xs)) x f1 h1 = Some h2"
    "pf_holds T (hp_objs heap) (f1, h2) ((xs @ [th_default T])[length xs := x])"
    using pf_assign_holds [OF a(2), of "length xs" x] by auto
  then show "\<exists>s'. add_value reserve T x s = Some s' \<and> pf_holds T (hp_objs heap) s' (xs @ [x])"
    using a(1) n s by (simp add: add_value_def)
next
  show "(case s of (f, h) \<Rightarrow> pf_Get (int i) f h) = Some (xs ! i)"
    if "pf_holds T (hp_objs heap) s xs" "i < length xs" for s xs i
    using pf_Get_holds that by (cases s) auto
qed (simp_all add: pf_holds_new heap_fresh)

text \<open>A \<open>Reserve\<close> that behaves as documented, for the concrete fields below: the array at least doubles.\<close>

definition doubling_reserve :: reserve where
  "doubling_reserve n f =
     (if n \<le> pf_total f then f
      else let m = max 4 (max (2 * pf_total f) n) in
        (case pf_rep f of
           None \<Rightarrow> f\<lparr>pf_total := m, pf_rep := Some (0, replicate (nat m) None)\<rparr>
         | Some (a, es) \<Rightarrow> f\<lparr>pf_total := m, pf_rep := Some (a, es @ replicate (nat (m - pf_total f)) None)\<rparr>))"

lemma doubling_reserve_grows:
  assumes "pf_state f ps cs" "pf_total f < n"
  shows "pf_state (doubling_reserve n f) ps cs \<and> n \<le> pf_total (doubling_reserve n f)"
  using assms(1)
proof (cases rule: state_cases)
  case null
  then show ?thesis using assms(2) by (auto simp: doubling_reserve_def RepeatedPtrFieldBase_def pf_state_def Let_def)
next
  case (array free)
  let ?m = "max 4 (max (2 * pf_total f) n)"
  have "pf_state (doubling_reserve n f) ps cs"
    by (rule stateI [of _ _ _ "free @ replicate (nat (?m - pf_total f)) None"])
      (use array assms(2) in \<open>auto simp: doubling_reserve_def Let_def\<close>)
  moreover have "n \<le> pf_total (doubling_reserve n f)" using array assms(2) by (simp add: doubling_reserve_def Let_def)
  ultimately show ?thesis ..
qed

interpretation doubling: ptr_runtime doubling_reserve
  by unfold_locales (simp_all add: doubling_reserve_grows, simp add: doubling_reserve_def)

text \<open>Fields of strings: \<open>StringTypeHandler\<close>, whose \<open>Merge\<close> is the assignment.\<close>

definition StringTypeHandler :: "string type_handler" where
  "StringTypeHandler = \<lparr>th_default = '''', th_Merge = (\<lambda>from_value to_value. from_value)\<rparr>"

definition empty_heap :: "'o heap" where
  "empty_heap = \<lparr>hp_next = 0, hp_objs = (\<lambda>p. None)\<rparr>"

interpretation strings: ptr_objects doubling_reserve StringTypeHandler empty_heap
  by unfold_locales (simp_all add: StringTypeHandler_def empty_heap_def fresh_from_def)

section \<open>Properties\<close>

text \<open>Calls of the field by a program that owns the other objects of the heap, and what they mean for a list.\<close>

datatype 'o ptr_call =
    PtrAdd 'o | PtrSet nat 'o | PtrRemoveLast | PtrClear | PtrReserve int | PtrSwapElements nat nat
  | PtrMergeFrom ptr_field | PtrCopyFrom ptr_field | PtrAddAllocated 'o | PtrReleaseLast | PtrAddCleared | PtrReleaseCleared

fun values_call :: "(nat \<Rightarrow> 'o option) \<Rightarrow> 'o ptr_call \<Rightarrow> 'o list \<Rightarrow> 'o list option" where
  "values_call base (PtrAdd v) xs = Some (xs @ [v])"
| "values_call base (PtrSet i v) xs = (if i < length xs then Some (xs[i := v]) else None)"
| "values_call base PtrRemoveLast xs = (if xs \<noteq> [] then Some (butlast xs) else None)"
| "values_call base PtrClear xs = Some []"
| "values_call base (PtrReserve n) xs = Some xs"
| "values_call base (PtrSwapElements i j) xs =
     (if i < length xs \<and> j < length xs then Some (xs[i := xs ! j, j := xs ! i]) else None)"
| "values_call base (PtrMergeFrom other) xs =
     (if 0 \<le> pf_size other then map_option (append xs) (field_values base other) else None)"
| "values_call base (PtrCopyFrom other) xs = (if 0 \<le> pf_size other then field_values base other else None)"
| "values_call base (PtrAddAllocated v) xs = Some (xs @ [v])"
| "values_call base PtrReleaseLast xs = (if xs \<noteq> [] then Some (butlast xs) else None)"
| "values_call base PtrAddCleared xs = Some xs"
| "values_call base PtrReleaseCleared xs = Some xs"

fun run_ptr_call :: "reserve \<Rightarrow> 'o type_handler \<Rightarrow> 'o ptr_call \<Rightarrow> ptr_field \<times> 'o heap \<Rightarrow> (ptr_field \<times> 'o heap) option" where
  "run_ptr_call reserve T (PtrAdd v) s = add_value reserve T v s"
| "run_ptr_call reserve T (PtrSet i v) (f, h) = do { h \<leftarrow> pf_assign (int i) v f h; Some (f, h) }"
| "run_ptr_call reserve T PtrRemoveLast (f, h) = pf_RemoveLast T f h"
| "run_ptr_call reserve T PtrClear (f, h) = pf_Clear T f h"
| "run_ptr_call reserve T (PtrReserve n) (f, h) = Some (reserve n f, h)"
| "run_ptr_call reserve T (PtrSwapElements i j) (f, h) = do { f \<leftarrow> pf_SwapElements (int i) (int j) f; Some (f, h) }"
| "run_ptr_call reserve T (PtrMergeFrom other) (f, h) = pf_MergeFrom reserve T other f h"
| "run_ptr_call reserve T (PtrCopyFrom other) (f, h) = pf_CopyFrom False reserve T other f h"
| "run_ptr_call reserve T (PtrAddAllocated v) (f, h) =
     do { (p, h) \<leftarrow> caller_new T v h; pf_AddAllocated reserve p f h }"
| "run_ptr_call reserve T PtrReleaseLast (f, h) = do { (p, f) \<leftarrow> pf_ReleaseLast f; h \<leftarrow> th_Delete p h; Some (f, h) }"
| "run_ptr_call reserve T PtrAddCleared (f, h) =
     do { (p, h) \<leftarrow> caller_new T (th_default T) h; f \<leftarrow> pf_AddCleared reserve p f; Some (f, h) }"
| "run_ptr_call reserve T PtrReleaseCleared (f, h) =
     (if 0 < pf_ClearedCount f
      then do { (p, f) \<leftarrow> pf_ReleaseCleared f; h \<leftarrow> th_Delete p h; Some (f, h) } else Some (f, h))"

fun values_calls :: "(nat \<Rightarrow> 'o option) \<Rightarrow> 'o ptr_call list \<Rightarrow> 'o list \<Rightarrow> 'o list option" where
  "values_calls base [] xs = Some xs"
| "values_calls base (c # cs) xs = do { ys \<leftarrow> values_call base c xs; values_calls base cs ys }"

fun ptr_calls :: "reserve \<Rightarrow> 'o type_handler \<Rightarrow> 'o ptr_call list \<Rightarrow> ptr_field \<times> 'o heap \<Rightarrow> (ptr_field \<times> 'o heap) option" where
  "ptr_calls reserve T [] s = Some s"
| "ptr_calls reserve T (c # cs) s = do { s' \<leftarrow> run_ptr_call reserve T c s; ptr_calls reserve T cs s' }"

context ptr_objects
begin

lemma call_holds:
  assumes "pf_holds T (hp_objs heap) (f, h) xs" "values_call (hp_objs heap) c xs = Some ys"
  shows "\<exists>s. run_ptr_call reserve T c (f, h) = Some s \<and> pf_holds T (hp_objs heap) s ys"
proof (cases c)
  case (PtrAdd v)
  then show ?thesis using objects.holds_add [OF assms(1), of v] assms(2) by auto
next
  case (PtrSet i v)
  then show ?thesis using pf_assign_holds [OF assms(1), of i v] assms(2) by (auto split: if_splits)
next
  case PtrRemoveLast
  then have x: "pf_holds T (hp_objs heap) (f, h) (butlast xs @ [last xs])" "ys = butlast xs" using assms by (auto split: if_splits)
  then show ?thesis using pf_RemoveLast_holds [OF x(1)] PtrRemoveLast by auto
next
  case PtrClear
  then show ?thesis using pf_Clear_holds [OF assms(1)] assms(2) by auto
next
  case (PtrReserve n)
  then show ?thesis using reserve_holds [OF assms(1)] assms(2) by auto
next
  case (PtrSwapElements i j)
  then show ?thesis using pf_SwapElements_holds [OF assms(1), of i j] assms(2) by (auto split: if_splits)
next
  case (PtrMergeFrom other)
  then show ?thesis using MergeFrom_holds [OF assms(1) _ _ merge_default, of other] assms(2) by (auto split: if_splits)
next
  case (PtrCopyFrom other)
  then show ?thesis using CopyFrom_holds [OF assms(1) _ _ merge_default, of other] assms(2) by (auto split: if_splits)
next
  case (PtrAddAllocated v)
  obtain p h1 where n: "caller_new T v h = Some (p, h1)" "pf_holds T ((hp_objs heap)(p \<mapsto> v)) (f, h1) xs" "hp_objs heap p = None"
    using owns_caller_new [OF assms(1)] by blast
  have "((hp_objs heap)(p \<mapsto> v))(p := None) = hp_objs heap" using n(3) by auto
  then show ?thesis using AddAllocated_holds [OF n(2), of p v] n(1) assms(2) PtrAddAllocated by auto
next
  case PtrReleaseLast
  then have x: "pf_holds T (hp_objs heap) (f, h) (butlast xs @ [last xs])" "ys = butlast xs" using assms by (auto split: if_splits)
  obtain p f1 where r: "pf_ReleaseLast f = Some (p, f1)"
    "pf_holds T ((hp_objs heap)(p \<mapsto> last xs)) (f1, h) (butlast xs)" "hp_objs heap p = None"
    using pf_ReleaseLast_holds [OF x(1)] by blast
  then show ?thesis using pf_holds_caller_delete [OF r(2,3)] x(2) PtrReleaseLast by auto
next
  case PtrAddCleared
  obtain p h1 where n: "caller_new T (th_default T) h = Some (p, h1)"
    "pf_holds T ((hp_objs heap)(p \<mapsto> th_default T)) (f, h1) xs" "hp_objs heap p = None"
    using owns_caller_new [OF assms(1)] by blast
  have "((hp_objs heap)(p \<mapsto> th_default T))(p := None) = hp_objs heap" using n(3) by auto
  then show ?thesis using AddCleared_holds [OF n(2), of p] n(1) assms(2) PtrAddCleared by auto
next
  case PtrReleaseCleared
  show ?thesis
  proof (cases "0 < pf_ClearedCount f")
    case True
    then obtain p f1 where r: "pf_ReleaseCleared f = Some (p, f1)"
      "pf_holds T ((hp_objs heap)(p \<mapsto> th_default T)) (f1, h) xs" "hp_objs heap p = None"
      using pf_ReleaseCleared_holds [OF assms(1)] by blast
    then show ?thesis using pf_holds_caller_delete [OF r(2,3)] assms(2) True PtrReleaseCleared by auto
  qed (use assms PtrReleaseCleared in auto)
qed

lemma calls_hold:
  assumes "pf_holds T (hp_objs heap) s xs" "values_calls (hp_objs heap) cs xs = Some ys"
  shows "\<exists>s'. ptr_calls reserve T cs s = Some s' \<and> pf_holds T (hp_objs heap) s' ys"
  using assms
proof (induction cs arbitrary: s xs)
  case (Cons c cs)
  obtain zs where zs: "values_call (hp_objs heap) c xs = Some zs" "values_calls (hp_objs heap) cs zs = Some ys"
    using Cons.prems(2) by (auto split: bind_splits)
  obtain f h where s: "s = (f, h)" by (cases s)
  obtain s1 where s1: "run_ptr_call reserve T c s = Some s1" "pf_holds T (hp_objs heap) s1 zs"
    using call_holds [of f h xs c zs] Cons.prems(1) zs(1) s by blast
  then show ?case using Cons.IH [OF s1(2) zs(2)] by simp
qed simp

lemma field_and_objects:
  assumes "values_calls (hp_objs heap) cs [] = Some ys"
  shows "\<exists>f h g h'. ptr_calls reserve T cs (RepeatedPtrFieldBase, heap) = Some (f, h) \<and> pf_size f = int (length ys)
    \<and> map (\<lambda>i. pf_Get (int i) f h) [0..<length ys] = map Some ys
    \<and> pf_Destroy f h = Some (g, h') \<and> hp_objs h' = hp_objs heap"
proof -
  obtain f h where s: "ptr_calls reserve T cs (RepeatedPtrFieldBase, heap) = Some (f, h)"
    "pf_holds T (hp_objs heap) (f, h) ys"
    using calls_hold [OF objects.holds_new assms] by auto
  have "pf_size f = int (length ys)" using s(2) by (rule pf_holdsE) simp
  moreover have "map (\<lambda>i. pf_Get (int i) f h) [0..<length ys] = map Some ys" using objects.holds_read [OF s(2)] by simp
  ultimately show ?thesis using s(1) pf_Destroy_holds [OF s(2)] by blast
qed

end

text \<open>C39: a field of strings or messages is a list, and owns its objects.  Any calls within their contract run
  without an access outside the array, to a slot that holds no object or to an object that was deleted, by a
  program that owns the rest of the heap, with any \<open>Reserve\<close> that does what its documentation says.  At the
  end the elements are those of the list operations; \<open>Destroy\<close> then leaves the heap as it was before the
  first call: every object the field ever had was deleted once, and no object of the program was.\<close>
theorem pointer_field_owns_its_objects:
  assumes "ptr_runtime reserve" "\<And>v. th_Merge T v (th_default T) = v" "fresh_from (hp_next heap) (hp_objs heap)"
    "values_calls (hp_objs heap) cs [] = Some ys"
  shows "\<exists>f h g h'. ptr_calls reserve T cs (RepeatedPtrFieldBase, heap) = Some (f, h) \<and> pf_size f = int (length ys)
    \<and> map (\<lambda>i. pf_Get (int i) f h) [0..<length ys] = map Some ys
    \<and> pf_Destroy f h = Some (g, h') \<and> hp_objs h' = hp_objs heap"
proof -
  have "ptr_objects reserve T heap"
    using assms(1-3) by (simp add: ptr_objects_def ptr_objects_axioms_def)
  then show ?thesis by (rule ptr_objects.field_and_objects [OF _ assms(4)])
qed

definition example_calls :: "string ptr_call list" where
  "example_calls = [PtrAdd ''a'', PtrAdd ''b'', PtrAdd ''c'', PtrRemoveLast, PtrAddAllocated ''d'', PtrAdd ''e'', PtrReleaseLast,
     PtrSwapElements 0 1, PtrClear, PtrAdd ''f'', PtrAddAllocated ''g'']"

theorem pointer_field_owns_its_objects_witness:
  "\<exists>f h g h'. ptr_calls doubling_reserve StringTypeHandler example_calls (RepeatedPtrFieldBase, empty_heap) = Some (f, h)
    \<and> pf_size f = int (length [''f'', ''g'']) \<and> map (\<lambda>i. pf_Get (int i) f h) [0..<length [''f'', ''g'']] = map Some [''f'', ''g'']
    \<and> pf_Destroy f h = Some (g, h') \<and> hp_objs h' = hp_objs (empty_heap :: string heap)"
proof (rule pointer_field_owns_its_objects)
  show "values_calls (hp_objs empty_heap) example_calls [] = Some [''f'', ''g'']" by (simp add: example_calls_def)
qed (simp_all add: doubling.ptr_runtime_axioms StringTypeHandler_def empty_heap_def fresh_from_def)

end
