(* ===== verification/StringField.thy ===== *)
theory StringField
  imports PtrOwner
begin

text \<open>
  String fields of messages, struct \<open>ArenaStringPtr\<close> of \<^verbatim>\<open>google/protobuf/arenastring.h\<close>: a
  pointer that is the address of the default value, shared by all messages, or of a string of the field's
  own.  Every generated message keeps its strings in such fields.
\<close>

section \<open>The field\<close>

text \<open>The arena of the message, if it has one, with the strings it owns and deletes at its end.  The field
  stands with the heap and with its arena.\<close>

type_synonym arena = "nat list option"

record string_field =
  sf_ptr :: nat
  sf_heap :: "bytes heap"
  sf_arena :: arena

text \<open>\<open>new ::std::string (v)\<close>, \<open>arena->Own\<close>, and assigning to the string at the pointer.\<close>

definition new_string :: "bytes \<Rightarrow> bytes heap \<Rightarrow> nat \<times> bytes heap" where
  "new_string v h = (hp_next h, h\<lparr>hp_objs := (hp_objs h)(hp_next h \<mapsto> v), hp_next := Suc (hp_next h)\<rparr>)"

definition Own :: "nat \<Rightarrow> arena \<Rightarrow> arena" where
  "Own p arena = map_option (\<lambda>owned. p # owned) arena"

definition put_string :: "bytes \<Rightarrow> string_field \<Rightarrow> string_field option" where
  "put_string v f = map_option (\<lambda>h. f\<lparr>sf_heap := h\<rparr>) (obj_put (sf_ptr f) v (sf_heap f))"

definition CreateInstance :: "bytes \<Rightarrow> string_field \<Rightarrow> string_field" where
  "CreateInstance v f =
     (let (p, h) = new_string v (sf_heap f) in f\<lparr>sf_ptr := p, sf_heap := h, sf_arena := Own p (sf_arena f)\<rparr>)"

definition CreateInstanceNoArena :: "bytes \<Rightarrow> string_field \<Rightarrow> string_field" where
  "CreateInstanceNoArena v f = (let (p, h) = new_string v (sf_heap f) in f\<lparr>sf_ptr := p, sf_heap := h\<rparr>)"

definition sp_UnsafeSetDefault :: "nat \<Rightarrow> string_field \<Rightarrow> string_field" where
  "sp_UnsafeSetDefault d f = f\<lparr>sf_ptr := d\<rparr>"

definition sp_IsDefault :: "nat \<Rightarrow> string_field \<Rightarrow> bool" where
  "sp_IsDefault d f \<longleftrightarrow> sf_ptr f = d"

definition sp_Get :: "string_field \<Rightarrow> bytes option" where
  "sp_Get f = hp_objs (sf_heap f) (sf_ptr f)"

definition sp_Set :: "nat \<Rightarrow> bytes \<Rightarrow> string_field \<Rightarrow> string_field option" where
  "sp_Set d v f = (if sf_ptr f = d then Some (CreateInstance v f) else put_string v f)"

definition sp_Mutable :: "nat \<Rightarrow> string_field \<Rightarrow> (nat \<times> string_field) option" where
  "sp_Mutable d f =
     do {
       f \<leftarrow> (if sf_ptr f = d then do { v \<leftarrow> hp_objs (sf_heap f) d; Some (CreateInstance v f) } else Some f);
       Some (sf_ptr f, f) }"

text \<open>\<open>Release\<close>: \<open>NULL\<close>, here \<open>None\<close>, for a field that was not set, else a string that is the caller's.\<close>

definition sp_Release :: "nat \<Rightarrow> string_field \<Rightarrow> (nat option \<times> string_field) option" where
  "sp_Release d f =
     (if sf_ptr f = d then Some (None, f)
      else do {
        (released, h) \<leftarrow>
          (if sf_arena f \<noteq> None
           then do { v \<leftarrow> hp_objs (sf_heap f) (sf_ptr f); Some (new_string v (sf_heap f)) }
           else Some (sf_ptr f, sf_heap f));
        Some (Some released, f\<lparr>sf_ptr := d, sf_heap := h\<rparr>) })"

definition sp_UnsafeArenaRelease :: "nat \<Rightarrow> string_field \<Rightarrow> nat option \<times> string_field" where
  "sp_UnsafeArenaRelease d f = (if sf_ptr f = d then (None, f) else (Some (sf_ptr f), f\<lparr>sf_ptr := d\<rparr>))"

definition sp_Destroy :: "nat \<Rightarrow> string_field \<Rightarrow> string_field option" where
  "sp_Destroy d f =
     (if sf_arena f = None \<and> sf_ptr f \<noteq> d
      then map_option (\<lambda>h. f\<lparr>sf_heap := h\<rparr>) (th_Delete (sf_ptr f) (sf_heap f)) else Some f)"

definition sp_SetAllocated :: "nat \<Rightarrow> nat option \<Rightarrow> string_field \<Rightarrow> string_field option" where
  "sp_SetAllocated d value f =
     do {
       f \<leftarrow> (if sf_arena f = None \<and> sf_ptr f \<noteq> d then sp_Destroy d f else Some f);
       Some (case value of
               Some p \<Rightarrow> f\<lparr>sf_ptr := p, sf_arena := Own p (sf_arena f)\<rparr>
             | None \<Rightarrow> f\<lparr>sf_ptr := d\<rparr>) }"

definition sp_UnsafeArenaSetAllocated :: "nat \<Rightarrow> nat option \<Rightarrow> string_field \<Rightarrow> string_field" where
  "sp_UnsafeArenaSetAllocated d value f = f\<lparr>sf_ptr := (case value of Some p \<Rightarrow> p | None \<Rightarrow> d)\<rparr>"

definition sp_ClearToEmpty :: "nat \<Rightarrow> string_field \<Rightarrow> string_field option" where
  "sp_ClearToEmpty d f = (if sf_ptr f = d then Some f else put_string [] f)"

definition sp_ClearToDefault :: "nat \<Rightarrow> string_field \<Rightarrow> string_field option" where
  "sp_ClearToDefault d f =
     (if sf_ptr f = d then Some f else do { v \<leftarrow> hp_objs (sf_heap f) d; put_string v f })"

definition sp_Swap :: "string_field \<Rightarrow> nat \<Rightarrow> string_field \<times> nat" where
  "sp_Swap f other = (f\<lparr>sf_ptr := other\<rparr>, sf_ptr f)"

text \<open>The variants for messages that are on no arena, which the generated code calls.\<close>

definition sp_SetNoArena :: "nat \<Rightarrow> bytes \<Rightarrow> string_field \<Rightarrow> string_field option" where
  "sp_SetNoArena d v f = (if sf_ptr f = d then Some (CreateInstanceNoArena v f) else put_string v f)"

definition sp_MutableNoArena :: "nat \<Rightarrow> string_field \<Rightarrow> (nat \<times> string_field) option" where
  "sp_MutableNoArena d f =
     do {
       f \<leftarrow> (if sf_ptr f = d then do { v \<leftarrow> hp_objs (sf_heap f) d; Some (CreateInstanceNoArena v f) } else Some f);
       Some (sf_ptr f, f) }"

definition sp_ReleaseNoArena :: "nat \<Rightarrow> string_field \<Rightarrow> nat option \<times> string_field" where
  "sp_ReleaseNoArena d f = (if sf_ptr f = d then (None, f) else (Some (sf_ptr f), f\<lparr>sf_ptr := d\<rparr>))"

definition sp_SetAllocatedNoArena :: "nat \<Rightarrow> nat option \<Rightarrow> string_field \<Rightarrow> string_field option" where
  "sp_SetAllocatedNoArena d value f =
     do {
       h \<leftarrow> (if sf_ptr f \<noteq> d then th_Delete (sf_ptr f) (sf_heap f) else Some (sf_heap f));
       Some (f\<lparr>sf_heap := h, sf_ptr := (case value of Some p \<Rightarrow> p | None \<Rightarrow> d)\<rparr>) }"

definition sp_DestroyNoArena :: "nat \<Rightarrow> string_field \<Rightarrow> string_field option" where
  "sp_DestroyNoArena d f =
     (if sf_ptr f \<noteq> d then map_option (\<lambda>h. f\<lparr>sf_heap := h\<rparr>) (th_Delete (sf_ptr f) (sf_heap f)) else Some f)"

definition sp_ClearToEmptyNoArena :: "nat \<Rightarrow> string_field \<Rightarrow> string_field option" where
  "sp_ClearToEmptyNoArena d f = (if sf_ptr f = d then Some f else put_string [] f)"

definition sp_ClearToDefaultNoArena :: "nat \<Rightarrow> string_field \<Rightarrow> string_field option" where
  "sp_ClearToDefaultNoArena d f =
     (if sf_ptr f = d then Some f else do { v \<leftarrow> hp_objs (sf_heap f) d; put_string v f })"

text \<open>Without an arena the variants do the same.\<close>

lemma no_arena_variants:
  assumes "sf_arena f = None"
  shows "sp_SetNoArena d v f = sp_Set d v f" "sp_MutableNoArena d f = sp_Mutable d f"
    "Some (sp_ReleaseNoArena d f) = sp_Release d f" "sp_SetAllocatedNoArena d value f = sp_SetAllocated d value f"
    "sp_DestroyNoArena d f = sp_Destroy d f" "sp_ClearToEmptyNoArena d f = sp_ClearToEmpty d f"
    "sp_ClearToDefaultNoArena d f = sp_ClearToDefault d f" "sp_UnsafeArenaRelease d f = sp_ReleaseNoArena d f"
proof -
  have c: "CreateInstanceNoArena w f = CreateInstance w f" for w
    using assms by (simp add: CreateInstanceNoArena_def CreateInstance_def Own_def split_beta Let_def)
  show "sp_SetNoArena d v f = sp_Set d v f" by (simp add: sp_SetNoArena_def sp_Set_def c)
  show "sp_MutableNoArena d f = sp_Mutable d f" by (simp add: sp_MutableNoArena_def sp_Mutable_def c)
  show "Some (sp_ReleaseNoArena d f) = sp_Release d f" using assms by (simp add: sp_ReleaseNoArena_def sp_Release_def)
  show "sp_SetAllocatedNoArena d value f = sp_SetAllocated d value f"
    using assms by (cases "th_Delete (sf_ptr f) (sf_heap f)")
      (auto simp: sp_SetAllocatedNoArena_def sp_SetAllocated_def sp_Destroy_def Own_def split: option.split)
  show "sp_DestroyNoArena d f = sp_Destroy d f" using assms by (simp add: sp_DestroyNoArena_def sp_Destroy_def)
  show "sp_ClearToEmptyNoArena d f = sp_ClearToEmpty d f" by (simp add: sp_ClearToEmptyNoArena_def sp_ClearToEmpty_def)
  show "sp_ClearToDefaultNoArena d f = sp_ClearToDefault d f"
    by (simp add: sp_ClearToDefaultNoArena_def sp_ClearToDefault_def)
  show "sp_UnsafeArenaRelease d f = sp_ReleaseNoArena d f" by (simp add: sp_UnsafeArenaRelease_def sp_ReleaseNoArena_def)
qed

section \<open>What a field holds\<close>

text \<open>The strings the field or its arena has to delete; the value of the field, \<open>None\<close> if it is the default.\<close>

definition owned_strings :: "nat \<Rightarrow> string_field \<Rightarrow> nat list" where
  "owned_strings d f = (case sf_arena f of None \<Rightarrow> if sf_ptr f = d then [] else [sf_ptr f] | Some owned \<Rightarrow> owned)"

definition string_holds :: "(nat \<Rightarrow> bytes option) \<Rightarrow> nat \<Rightarrow> string_field \<Rightarrow> bytes option \<Rightarrow> bool" where
  "string_holds base d f s \<longleftrightarrow>
     base d \<noteq> None \<and> fresh_from (hp_next (sf_heap f)) (hp_objs (sf_heap f)) \<and> distinct (owned_strings d f)
     \<and> (\<forall>p \<in> set (owned_strings d f). base p = None \<and> hp_objs (sf_heap f) p \<noteq> None)
     \<and> (\<forall>p. p \<notin> set (owned_strings d f) \<longrightarrow> hp_objs (sf_heap f) p = base p)
     \<and> (if sf_ptr f = d then s = None
        else sf_ptr f \<in> set (owned_strings d f) \<and> s \<noteq> None \<and> hp_objs (sf_heap f) (sf_ptr f) = s)"

lemma string_default: "string_holds base d f s \<Longrightarrow> hp_objs (sf_heap f) d = base d"
  unfolding string_holds_def by (metis option.distinct(1))

lemma string_fresh:
  assumes "string_holds base d f s"
  shows "hp_objs (sf_heap f) (hp_next (sf_heap f)) = None" "hp_next (sf_heap f) \<notin> set (owned_strings d f)"
    "hp_next (sf_heap f) \<noteq> d" "base (hp_next (sf_heap f)) = None"
proof -
  show n: "hp_objs (sf_heap f) (hp_next (sf_heap f)) = None"
    using assms by (simp add: string_holds_def fresh_from_def)
  show o: "hp_next (sf_heap f) \<notin> set (owned_strings d f)" using assms n by (auto simp: string_holds_def)
  show "hp_next (sf_heap f) \<noteq> d" using assms n string_default [OF assms] by (auto simp: string_holds_def)
  show "base (hp_next (sf_heap f)) = None" using assms n o by (simp add: string_holds_def)
qed

lemma sp_Get_holds: "string_holds base d f s \<Longrightarrow> sp_Get f = (if s = None then base d else s)"
  using string_default [of base d f s] by (auto simp: sp_Get_def string_holds_def split: if_splits)

text \<open>A new string in the place of the default.\<close>

lemma CreateInstance_holds:
  assumes "string_holds base d f s" "sf_ptr f = d"
  shows "string_holds base d (CreateInstance v f) (Some v)"
  using assms string_fresh [OF assms(1)]
  by (cases "sf_arena f")
    (auto simp: string_holds_def CreateInstance_def new_string_def Own_def owned_strings_def fresh_from_def)

lemma put_string_holds:
  assumes "string_holds base d f s" "sf_ptr f \<noteq> d"
  shows "\<exists>f'. put_string v f = Some f' \<and> string_holds base d f' (Some v) \<and> sf_ptr f' = sf_ptr f"
  using assms
  by (cases "sf_arena f")
    (auto simp: string_holds_def put_string_def obj_put_def owned_strings_def fresh_from_def)

lemma sp_Destroy_holds:
  assumes "string_holds base d f s" "sf_arena f = None"
  shows "\<exists>h. sp_Destroy d f = Some (f\<lparr>sf_heap := h\<rparr>) \<and> hp_objs h = base \<and> fresh_from (hp_next h) (hp_objs h)
    \<and> hp_next h = hp_next (sf_heap f)"
proof (cases "sf_ptr f = d")
  case True
  then show ?thesis
    using assms by (intro exI [of _ "sf_heap f"]) (auto simp: sp_Destroy_def string_holds_def owned_strings_def)
next
  case False
  let ?h = "(sf_heap f)\<lparr>hp_objs := (hp_objs (sf_heap f))(sf_ptr f := None)\<rparr>"
  have o: "owned_strings d f = [sf_ptr f]" using assms(2) False by (simp add: owned_strings_def)
  have "hp_objs ?h = base" using assms(1) o by (auto simp: string_holds_def)
  moreover have "sp_Destroy d f = Some (f\<lparr>sf_heap := ?h\<rparr>)"
    using assms False by (auto simp: sp_Destroy_def th_Delete_def string_holds_def)
  moreover have "fresh_from (hp_next ?h) (hp_objs ?h)" using assms(1) by (auto simp: string_holds_def fresh_from_def)
  ultimately show ?thesis by (intro exI [of _ ?h]) simp
qed

section \<open>Calls\<close>

text \<open>A program that uses the field: \<open>StrMutable\<close> assigns to what \<open>Mutable\<close> returns, \<open>StrRelease\<close> reads and
  deletes what \<open>Release\<close> returns, and \<open>StrSetAllocated\<close> hands over a new string.  The result of a call is what
  was released.\<close>

datatype string_call =
    StrSet bytes | StrMutable bytes | StrRelease | StrSetAllocated "bytes option" | StrClearToEmpty | StrClearToDefault

fun run_string_call :: "nat \<Rightarrow> string_call \<Rightarrow> string_field \<Rightarrow> (bytes option \<times> string_field) option" where
  "run_string_call d (StrSet v) f = do { f \<leftarrow> sp_Set d v f; Some (None, f) }"
| "run_string_call d (StrMutable v) f =
     do { (p, f) \<leftarrow> sp_Mutable d f; h \<leftarrow> obj_put p v (sf_heap f); Some (None, f\<lparr>sf_heap := h\<rparr>) }"
| "run_string_call d StrRelease f =
     do {
       (released, f) \<leftarrow> sp_Release d f;
       case released of
         None \<Rightarrow> Some (None, f)
       | Some p \<Rightarrow> do { v \<leftarrow> hp_objs (sf_heap f) p; h \<leftarrow> th_Delete p (sf_heap f); Some (Some v, f\<lparr>sf_heap := h\<rparr>) } }"
| "run_string_call d (StrSetAllocated value) f =
     do {
       f \<leftarrow> (case value of
              None \<Rightarrow> sp_SetAllocated d None f
            | Some v \<Rightarrow> let (p, h) = new_string v (sf_heap f) in sp_SetAllocated d (Some p) (f\<lparr>sf_heap := h\<rparr>));
       Some (None, f) }"
| "run_string_call d StrClearToEmpty f = do { f \<leftarrow> sp_ClearToEmpty d f; Some (None, f) }"
| "run_string_call d StrClearToDefault f = do { f \<leftarrow> sp_ClearToDefault d f; Some (None, f) }"

fun value_call :: "bytes \<Rightarrow> string_call \<Rightarrow> bytes option \<Rightarrow> bytes option \<times> bytes option" where
  "value_call dv (StrSet v) s = (None, Some v)"
| "value_call dv (StrMutable v) s = (None, Some v)"
| "value_call dv StrRelease s = (s, None)"
| "value_call dv (StrSetAllocated value) s = (None, value)"
| "value_call dv StrClearToEmpty s = (None, map_option (\<lambda>_. []) s)"
| "value_call dv StrClearToDefault s = (None, map_option (\<lambda>_. dv) s)"

lemma sp_Set_holds:
  assumes "string_holds base d f s"
  shows "\<exists>f'. sp_Set d v f = Some f' \<and> string_holds base d f' (Some v)"
  using CreateInstance_holds [OF assms] put_string_holds [OF assms] by (auto simp: sp_Set_def)

lemma sp_Mutable_holds:
  assumes "string_holds base d f s" "base d = Some dv"
  shows "\<exists>p f'. sp_Mutable d f = Some (p, f') \<and> p = sf_ptr f' \<and> p \<noteq> d \<and> string_holds base d f' (Some (case s of None \<Rightarrow> dv | Some v \<Rightarrow> v))"
proof (cases "sf_ptr f = d")
  case True
  then have "s = None" using assms(1) by (simp add: string_holds_def)
  moreover have "sf_ptr (CreateInstance dv f) \<noteq> d" using string_fresh(3) [OF assms(1)]
    by (simp add: CreateInstance_def new_string_def)
  ultimately show ?thesis
    using True CreateInstance_holds [OF assms(1) True, of dv] string_default [OF assms(1)] assms(2)
    by (simp add: sp_Mutable_def)
next
  case False
  then obtain v where "s = Some v" using assms(1) by (auto simp: string_holds_def)
  then show ?thesis using False assms(1) by (simp add: sp_Mutable_def)
qed

lemma StrRelease_holds:
  assumes "string_holds base d f s"
  shows "\<exists>f'. run_string_call d StrRelease f = Some (s, f') \<and> string_holds base d f' None"
proof (cases "sf_ptr f = d")
  case True
  then show ?thesis using assms by (auto simp: sp_Release_def string_holds_def)
next
  case False
  then obtain v where v: "s = Some v" "hp_objs (sf_heap f) (sf_ptr f) = Some v" using assms by (auto simp: string_holds_def)
  show ?thesis
  proof (cases "sf_arena f")
    case None
    then show ?thesis using False v assms
      by (auto simp: sp_Release_def th_Delete_def string_holds_def owned_strings_def fresh_from_def)
  next
    case (Some owned)
    then show ?thesis using False v assms string_fresh [OF assms]
      by (auto simp: sp_Release_def th_Delete_def new_string_def string_holds_def owned_strings_def fresh_from_def)
  qed
qed

lemma StrSetAllocated_holds:
  assumes "string_holds base d f s"
  shows "\<exists>f'. run_string_call d (StrSetAllocated given) f = Some (None, f') \<and> string_holds base d f' given"
proof (cases "sf_arena f")
  case None
  show ?thesis
    using None assms string_fresh [OF assms]
    by (cases given; cases "sf_ptr f = d")
      (auto simp: sp_SetAllocated_def sp_Destroy_def th_Delete_def new_string_def Own_def string_holds_def
        owned_strings_def fresh_from_def)
next
  case (Some owned)
  show ?thesis
    using Some assms string_fresh [OF assms]
    by (cases given)
      (auto simp: sp_SetAllocated_def new_string_def Own_def string_holds_def owned_strings_def fresh_from_def)
qed

lemma run_string_call_holds:
  assumes "string_holds base d f s" "base d = Some dv"
  shows "\<exists>f'. run_string_call d c f = Some (fst (value_call dv c s), f') \<and> string_holds base d f' (snd (value_call dv c s))"
proof (cases c)
  case (StrSet v)
  then show ?thesis using sp_Set_holds [OF assms(1), of v] by auto
next
  case (StrMutable v)
  obtain p f1 where f1: "sp_Mutable d f = Some (p, f1)" "p = sf_ptr f1" "p \<noteq> d"
    "string_holds base d f1 (Some (case s of None \<Rightarrow> dv | Some v \<Rightarrow> v))"
    using sp_Mutable_holds [OF assms] by blast
  moreover obtain f2 where "put_string v f1 = Some f2" "string_holds base d f2 (Some v)"
    using put_string_holds [OF f1(4)] f1(2,3) by blast
  ultimately show ?thesis using StrMutable by (auto simp: put_string_def)
next
  case StrRelease
  then show ?thesis using StrRelease_holds [OF assms(1)] by simp
next
  case (StrSetAllocated given)
  then show ?thesis using StrSetAllocated_holds [OF assms(1), of given] by simp
next
  case StrClearToEmpty
  then show ?thesis using put_string_holds [OF assms(1), of "[]"] assms(1)
    by (cases "sf_ptr f = d") (auto simp: sp_ClearToEmpty_def string_holds_def)
next
  case StrClearToDefault
  then show ?thesis using put_string_holds [OF assms(1), of dv] string_default [OF assms(1)] assms
    by (cases "sf_ptr f = d") (auto simp: sp_ClearToDefault_def string_holds_def)
qed

fun run_string_calls :: "nat \<Rightarrow> string_call list \<Rightarrow> string_field \<Rightarrow> (bytes option list \<times> string_field) option" where
  "run_string_calls d [] f = Some ([], f)"
| "run_string_calls d (c # cs) f =
     do { (r, f) \<leftarrow> run_string_call d c f; (rs, f) \<leftarrow> run_string_calls d cs f; Some (r # rs, f) }"

fun value_calls :: "bytes \<Rightarrow> string_call list \<Rightarrow> bytes option \<Rightarrow> bytes option list \<times> bytes option" where
  "value_calls dv [] s = ([], s)"
| "value_calls dv (c # cs) s =
     (let (r, s) = value_call dv c s; (rs, s) = value_calls dv cs s in (r # rs, s))"

lemma run_string_calls_hold:
  assumes "string_holds base d f s" "base d = Some dv"
  shows "\<exists>f'. run_string_calls d cs f = Some (fst (value_calls dv cs s), f') \<and> string_holds base d f' (snd (value_calls dv cs s))"
  using assms(1)
proof (induction cs arbitrary: f s)
  case (Cons c cs)
  obtain f1 where f1: "run_string_call d c f = Some (fst (value_call dv c s), f1)" "string_holds base d f1 (snd (value_call dv c s))"
    using run_string_call_holds [OF Cons.prems assms(2)] by blast
  show ?case using f1(1) Cons.IH [OF f1(2)] by (auto simp: split_beta Let_def)
qed simp

section \<open>The end of the message\<close>

text \<open>The field is destroyed, and with the arena the strings it owns.\<close>

fun delete_strings :: "nat list \<Rightarrow> bytes heap \<Rightarrow> bytes heap option" where
  "delete_strings [] h = Some h"
| "delete_strings (p # ps) h = do { h \<leftarrow> th_Delete p h; delete_strings ps h }"

definition message_end :: "nat \<Rightarrow> string_field \<Rightarrow> bytes heap option" where
  "message_end d f =
     do {
       f \<leftarrow> sp_Destroy d f;
       case sf_arena f of None \<Rightarrow> Some (sf_heap f) | Some owned \<Rightarrow> delete_strings owned (sf_heap f) }"

lemma delete_strings_deletes:
  assumes "distinct ps" "\<forall>p \<in> set ps. hp_objs h p \<noteq> None"
  shows "\<exists>h'. delete_strings ps h = Some h' \<and> hp_objs h' = hp_objs h |` (- set ps)"
  using assms
proof (induction ps arbitrary: h)
  case (Cons p ps)
  let ?h = "h\<lparr>hp_objs := (hp_objs h)(p := None)\<rparr>"
  have "\<forall>q \<in> set ps. hp_objs ?h q \<noteq> None" using Cons.prems by auto
  then obtain h' where h': "delete_strings ps ?h = Some h'" "hp_objs h' = hp_objs ?h |` (- set ps)"
    using Cons.IH [of ?h] Cons.prems(1) by (meson distinct.simps(2))
  then have "hp_objs h' = hp_objs h |` (- set (p # ps))" by (auto simp: restrict_map_def)
  then show ?case using h'(1) Cons.prems(2) by (auto simp: th_Delete_def)
qed (simp add: restrict_map_def)

lemma message_end_restores:
  assumes "string_holds base d f s"
  shows "\<exists>h. message_end d f = Some h \<and> hp_objs h = base"
proof (cases "sf_arena f")
  case None
  then show ?thesis using sp_Destroy_holds [OF assms None] by (auto simp: message_end_def)
next
  case (Some owned)
  then have "distinct owned" "\<forall>p \<in> set owned. hp_objs (sf_heap f) p \<noteq> None"
    using assms by (simp_all add: string_holds_def owned_strings_def)
  then obtain h where "delete_strings owned (sf_heap f) = Some h" "hp_objs h = hp_objs (sf_heap f) |` (- set owned)"
    using delete_strings_deletes by blast
  moreover have "hp_objs (sf_heap f) |` (- set owned) = base"
    using Some assms by (auto simp: string_holds_def owned_strings_def restrict_map_def fun_eq_iff)
  ultimately show ?thesis using Some by (auto simp: message_end_def sp_Destroy_def)
qed

section \<open>Property\<close>

lemma string_start:
  assumes "hp_objs h d = Some dv" "fresh_from (hp_next h) (hp_objs h)" "arena = None \<or> arena = Some []"
  shows "string_holds (hp_objs h) d (sp_UnsafeSetDefault d \<lparr>sf_ptr = p, sf_heap = h, sf_arena = arena\<rparr>) None"
  using assms by (auto simp: string_holds_def sp_UnsafeSetDefault_def owned_strings_def)

text \<open>C38: A string field is a string, and owns it.  Whatever calls a program makes, on the heap or on an arena,
  no string is used that is not allocated, the field reads as the last value given to it or as the default,
  a released string has the value of the field and is not used again, the default value that all messages
  share is never changed, and when the message has ended every string it made is deleted, once, and nothing
  else.\<close>

theorem string_field_owns_its_string:
  assumes "hp_objs h d = Some dv" "fresh_from (hp_next h) (hp_objs h)" "arena = None \<or> arena = Some []"
  shows "\<exists>f h'. run_string_calls d cs (sp_UnsafeSetDefault d \<lparr>sf_ptr = p, sf_heap = h, sf_arena = arena\<rparr>)
        = Some (fst (value_calls dv cs None), f)
    \<and> sp_Get f = Some (case snd (value_calls dv cs None) of None \<Rightarrow> dv | Some v \<Rightarrow> v)
    \<and> hp_objs (sf_heap f) d = Some dv \<and> message_end d f = Some h' \<and> hp_objs h' = hp_objs h"
proof -
  obtain f where f: "run_string_calls d cs (sp_UnsafeSetDefault d \<lparr>sf_ptr = p, sf_heap = h, sf_arena = arena\<rparr>)
      = Some (fst (value_calls dv cs None), f)" "string_holds (hp_objs h) d f (snd (value_calls dv cs None))"
    using run_string_calls_hold [OF string_start [OF assms] assms(1)] by blast
  moreover obtain h' where "message_end d f = Some h'" "hp_objs h' = hp_objs h" using message_end_restores [OF f(2)] by blast
  moreover have "sp_Get f = Some (case snd (value_calls dv cs None) of None \<Rightarrow> dv | Some v \<Rightarrow> v)"
    using sp_Get_holds [OF f(2)] assms(1) by (auto split: option.split)
  moreover have "hp_objs (sf_heap f) d = Some dv" using string_default [OF f(2)] assms(1) by simp
  ultimately show ?thesis by blast
qed

definition one_string :: "bytes heap" where
  "one_string = \<lparr>hp_next = 1, hp_objs = [0 \<mapsto> []]\<rparr>"

theorem string_field_owns_its_string_witness:
  "\<exists>f h'. run_string_calls 0 [StrSet [1], StrMutable [2, 3], StrRelease, StrSetAllocated (Some [4]), StrClearToEmpty]
        (sp_UnsafeSetDefault 0 \<lparr>sf_ptr = 77, sf_heap = one_string, sf_arena = Some []\<rparr>)
      = Some (fst (value_calls [] [StrSet [1], StrMutable [2, 3], StrRelease, StrSetAllocated (Some [4]), StrClearToEmpty] None), f)
    \<and> sp_Get f = Some (case snd (value_calls [] [StrSet [1], StrMutable [2, 3], StrRelease, StrSetAllocated (Some [4]),
        StrClearToEmpty] None) of None \<Rightarrow> [] | Some v \<Rightarrow> v)
    \<and> hp_objs (sf_heap f) 0 = Some [] \<and> message_end 0 f = Some h' \<and> hp_objs h' = hp_objs one_string"
  by (rule string_field_owns_its_string) (simp_all add: one_string_def fresh_from_def)

end
