(* ===== verification/Spec2Isabelle.thy ===== *)
theory Spec2Isabelle
  imports DigestStream MessagePb SessionProps Client Server PlayerProps ManagerProps WebDownload Bitmap UriCode
    PolicyWire StringField
begin

text \<open>
  A verification library for AdManager, the advertisement system of internet cafes in
  \<^verbatim>\<open>src/\<close>.  A \<^emph>\<open>centre\<close> sends play policies and lists of advertisements, the
  \<^emph>\<open>server\<close> of a cafe downloads the files from the web and answers its \<^emph>\<open>clients\<close>, and a client
  shows the files in its lock screen.  Server and client are the same program.

  \<^bold>\<open>Parts and how they interact.\<close>  AdManager (\<^verbatim>\<open>AdManager.cpp\<close>) runs the business on one
  thread: it asks its peer through TcpClient, a server also answers through TcpServer, and either
  fetches files and hands them to the player.  TcpClient and TcpServer own TcpSession objects, which
  frame protobuf messages on a socket and match answers to requests.  A server downloads with the
  HTTP client of the vendored cpp-netlib.  The digest of \<^verbatim>\<open>md5.cc\<close> decides whether a
  file is kept.

  \<^bold>\<open>Conventions.\<close>  An object is a record of its data members, a method or completion handler is a
  function on it, and what it does outside (reads, writes, timers, promises, logs) is a list of
  actions in the order of the calls.  A step relation performs the actions and picks the next event
  in any order; invariants of runs are interpretations of the locale \<open>stable\<close> (AdPrelude).  Integers
  that can overflow are words.  Errors, exceptions and reads outside a buffer are values.  What is
  not in the repository is a parameter: its documented behaviour is the locale \<open>pb_runtime\<close> for the
  protobuf runtime, and a record of arbitrary answers for Windows, the peer and the web.  An answer
  of the peer or the web may never come (\<open>None\<close>), and then the handler that waits for it does not
  return; \<open>answering\<close> says that all of them come.
\<close>

text \<open>
  \<^bold>\<open>Theories and the code they model.\<close>

  \<^item> \<open>Digest\<close>, \<open>DigestBlock\<close>, \<open>DigestStream\<close>: \<^verbatim>\<open>md5.cc\<close>, \<^verbatim>\<open>md5.hh\<close>.  The
    context and every method; a reference written after RFC 1321; the block transformation is the
    reference, a sequence of updates is one update with the concatenation, and at a length within 63
    bytes of \<open>2 ^ 32\<close> the loop of \<open>update\<close> does not end (\<open>transform_loop\<close> is a partial function, so that
    not returning is \<open>None\<close>).
  \<^item> \<open>Wire\<close>, \<open>WireSpec\<close>, \<open>Codec\<close>, \<open>Progress\<close>: the inline functions of \<^verbatim>\<open>coded_stream.h\<close>,
    \<^verbatim>\<open>wire_format_lite.h\<close>, \<^verbatim>\<open>wire_format_lite_inl.h\<close> and
    \<^verbatim>\<open>generated_message_util.h\<close> over a flat array; varints and their bounds; the contract
    of a message class (locale \<open>message_codec\<close>, which extends \<open>pb_runtime\<close>); a measure for which every
    parser returns.  The functions the headers only declare are the record \<open>pb_lib\<close>; \<open>ref_lib\<close> is an
    instance that satisfies the locale.
  \<^item> \<open>MessagePb\<close>: \<^verbatim>\<open>ad/Message.pb.cc\<close>, the envelope of requests and answers: round trip,
    concatenation as merging, unknown fields, cut input, termination.
  \<^item> \<open>RepeatedCodec\<close>, \<open>PolicyPb\<close>, \<open>PolicyCodec\<close>, \<open>AdPb\<close>, \<open>AdCodec\<close>, \<open>PolicyProps\<close>:
    \<^verbatim>\<open>ad/AdPlayPolicy.pb.cc\<close>, the policy with its plays and times and the list of
    advertisements.  Packed fields and embedded messages on the wire, the sizes that objects cache for
    their serialisers; every class keeps the contract \<open>message_codec\<close>, given the classes it embeds; round
    trips, exact sizes, termination, and the one input the generated code misreads.
  \<^item> \<open>RepeatedField\<close>, \<open>RepeatedPtrField\<close>, \<open>PtrOwner\<close>: \<^verbatim>\<open>repeated_field.h\<close>, the arrays
    behind repeated fields.  A field of numbers refines a list (locales \<open>sequence\<close> and
    \<open>merging_sequence\<close>), with the cost of adding; a field of pointers refines a list and owns the objects
    of its array, the cleared ones too (locales \<open>ptr_runtime\<close> for the documented \<open>Reserve\<close>, and
    \<open>ptr_objects\<close>).  The messages above have lists in the place of fields.
  \<^item> \<open>StringField\<close>: \<^verbatim>\<open>arenastring.h\<close>, the pointer behind a string field, which is the
    shared default or the field's own string, on the heap and on an arena: it reads as a string, and
    everything it makes is deleted once.
  \<^item> \<open>Session\<close>, \<open>SessionRun\<close>, \<open>SessionOwner\<close>, \<open>SessionProps\<close>: \<^verbatim>\<open>TcpSession.cpp\<close>.  The object,
    its handlers, the runs of the event loop; order of delivery, one write at a time, promises kept
    once, what a network error leaves behind.
  \<^item> \<open>Client\<close>, \<open>Server\<close>: \<^verbatim>\<open>TcpClient.cpp\<close>, \<^verbatim>\<open>TcpServer.cpp\<close>, composed with the
    session they own: reconnection and its delays, the pool of sessions.
  \<^item> \<open>Com\<close>, \<open>ComBalance\<close>, \<open>Player\<close>, \<open>PlayerProps\<close>: \<^verbatim>\<open>player.cpp\<close>.  References to
    objects of Media Foundation are counted, with a count of uses of objects that were released;
    every answer of the framework is arbitrary.  References are exact in every state reached by runs
    that avoid the calls the code does not survive (a stale source after a failed \<open>OpenMem\<close>, a missing
    media session, a file name that does not fit).
  \<^item> \<open>Logger\<close>: which records \<^verbatim>\<open>Logger.cpp\<close> lets into which file.
  \<^item> \<open>Manager\<close>, \<open>ManagerRun\<close>, \<open>ManagerLive\<close>, \<open>ManagerProps\<close>: \<^verbatim>\<open>AdManager.cpp\<close>.  Every
    method and timer handler; the invariant of the business, the digest check of everything that is
    kept, what is asked for and in which order, the relayed policy (the latest answer in the history
    of the requests), the timers that are always set again, the answers to requests through the
    session to the wire.
  \<^item> \<open>HttpParser\<close>, \<open>HttpClient\<close>: \<^verbatim>\<open>parser/incremental.hpp\<close>,
    \<^verbatim>\<open>async_protocol_handler.hpp\<close>, \<^verbatim>\<open>async_normal.hpp\<close> and
    \<^verbatim>\<open>linearize.hpp\<close> of cpp-netlib: the response scanner, one connection with its seven
    promises, and the text of a request.
  \<^item> \<open>HttpStream\<close>, \<open>HttpGrammar\<close>, \<open>HttpProps\<close>: the handler is a chain of stages over the concatenated
    reads; the heads that are accepted; a whole download, the promises of requests with and without a
    callback, the buffer, the connection attempts and the paths that lose a response.
  \<^item> \<open>PolicyWire\<close>: the manager with the generated parsers in the place of its parameters
    \<open>env_parse_ad\<close>, \<open>env_parse_result\<close> and \<open>env_parse_policy\<close>: what the peer serialises is what it acts on.
  \<^item> \<open>WebDownload\<close>: the manager with the web client in place of its parameter \<open>env_http\<close>: what is kept
    of a response, and the address that stops the business because its response never ends.
  \<^item> \<open>Bitmap\<close>: \<^verbatim>\<open>CGdiPlusBitmap.h\<close>, its use of global memory, streams and bitmaps.
  \<^item> \<open>UriCode\<close>: \<^verbatim>\<open>uri/encode.hpp\<close> and \<^verbatim>\<open>uri/decode.hpp\<close>.
\<close>

text \<open>
  \<^bold>\<open>Bounds.\<close>  No definition runs on fuel.  Loops that may not end are partial functions into an
  option (the loop of \<open>update\<close>, the loop over the header lines of a response, the loop that connects
  at the start), and where they return this is proved: \<open>MD5_stream_digest\<close> for files below the length
  at which the digest diverges, \<open>run_timer_returns\<close> for the handlers of the business under the same
  bound when every answer comes, \<open>headers_loop_ends\<close> and \<open>promises_settled_once\<close> for every response,
  \<open>parsers_return\<close> for every input up to 64 MB, the limit the runtime sets.  The number of steps in
  \<open>refused_list_storms\<close>, \<open>eof_in_head_hangs\<close> and \<open>unfinished_head_stops_business\<close> is arbitrary.

  \<^bold>\<open>Not modelled.\<close>  The sizes of repeated fields are numbers without a bound on memory, the fields are
  on the heap and not on an arena; \<open>DeleteSubrange\<close> and \<open>ExtractSubrange\<close> of pointer fields end in
  \<open>CloseGap\<close>, which is not in the repository.  The accessors of single fields of the messages are record
  updates.  The address parser of cpp-netlib is a Boost.Spirit grammar, and the rest of cpp-netlib
  (the HTTP server, the synchronous client, the message wrappers) and of the protobuf headers
  (descriptors, reflection, maps, arenas, extension sets) is not used by the program or is third-party code whose
  sources are not in the repository.  SSL, the formats and rotation of the log, drawing and the
  pixels of bitmaps, \<^verbatim>\<open>md5Test.cc\<close> and the files that only include a header are left out.
  Threads: each object is used by one thread or strand at a time, as in the code, except for the
  findings that name a race; mutexes are not modelled.  The download of a server is modelled as it is
  compiled for \<open>_MSC_VER > 1600\<close>; an older compiler leaves it out.  The elements of repeated fields are
  passed by value, lengths there are bounded by \<open>2 ^ 30\<close>.
\<close>

end
